(* ===== verification/Prelude.thy ===== *)
theory Prelude
  imports Main "HOL-Library.Word" "HOL-Library.List_Lexorder" "HOL-Library.Sublist"
begin

text \<open>
  Shared vocabulary of the development: the types that stand for Go's bytes, strings and
  machine integers, the outcome of a Go call (a value, a returned error, or a run-time panic),
  the little- and big-endian codecs of Go's \<open>encoding/binary\<close>, and generic lemmas on lists,
  words and maps that the component theories share.

  A Go \<open>string\<close> and a Go \<open>[]byte\<close> are both sequences of bytes here (\<^typ>\<open>8 word list\<close>), so
  the conversions between them are the identity. A nil slice and an empty slice are the same
  list: the modelled code tests slices with \<open>len\<close>, or tests both for nil and for length zero.
\<close>

unbundle bit_operations_syntax

named_theorems go_defs \<open>definitions of small Go helpers, unfolded by evaluation proofs\<close>
named_theorems outcome_simps \<open>rewrite rules for results of fallible calls\<close>

section \<open>Types\<close>

type_synonym byte = "8 word"
type_synonym bytes = "byte list"
type_synonym gostring = bytes
type_synonym u16 = "16 word"
type_synonym u32 = "32 word"
type_synonym u64 = "64 word"
type_synonym i64 = "64 word"

text \<open>A string literal of the source, as its bytes.\<close>

definition lit :: "string \<Rightarrow> gostring" where
  "lit = map of_char"

declare lit_def [go_defs]

section \<open>Outcomes of Go calls\<close>

text \<open>
  \<open>Ok\<close> is a normal return, \<open>Err\<close> a non-nil \<open>error\<close>, \<open>Panic\<close> a run-time panic (nil dereference,
  index out of range, call of a nil function). \<open>NotExist\<close> and \<open>OutOfSize\<close> are the two error
  values of \<open>until/store/types.go\<close>; \<open>ErrKeyNotFound\<close> is the key-value engine's own error of that
  name and \<open>BadgerErr\<close> any other of its errors; \<open>ErrText\<close> is an error made by \<open>errors.New\<close> or \<open>fmt.Errorf\<close>.
\<close>

datatype goerror = NotExist | OutOfSize | ErrKeyNotFound | BadgerErr nat | ErrText string

datatype 'a outcome = Ok 'a | Err goerror | Panic

definition obind :: "'a outcome \<Rightarrow> ('a \<Rightarrow> 'b outcome) \<Rightarrow> 'b outcome" where
  "obind r f = (case r of Ok x \<Rightarrow> f x | Err e \<Rightarrow> Err e | Panic \<Rightarrow> Panic)"

lemma obind_simps [simp, outcome_simps]:
  "obind (Ok x) f = f x"
  "obind (Err e) f = Err e"
  "obind Panic f = Panic"
  by (simp_all add: obind_def)

lemma obind_Ok_iff [outcome_simps]:
  "obind r f = Ok y \<longleftrightarrow> (\<exists>x. r = Ok x \<and> f x = Ok y)"
  by (cases r) simp_all

lemma obind_assoc: "obind (obind r f) g = obind r (\<lambda>x. obind (f x) g)"
  by (cases r) simp_all

text \<open>\<open>v, _ := f(x)\<close>: the value when the call succeeds, the zero value when it returns an error.\<close>

fun or_zero :: "'a \<Rightarrow> 'a outcome \<Rightarrow> 'a" where
  "or_zero z (Ok x) = x"
| "or_zero z (Err e) = z"
| "or_zero z Panic = z"

fun is_ok :: "'a outcome \<Rightarrow> bool" where
  "is_ok (Ok x) = True"
| "is_ok (Err e) = False"
| "is_ok Panic = False"

lemma is_ok_iff: "is_ok r \<longleftrightarrow> (\<exists>x. r = Ok x)"
  by (cases r) simp_all

section \<open>Operations on a mutable object\<close>

text \<open>
  A Go method that mutates its receiver and may fail takes the receiver's state and returns the
  new state with an outcome. \<open>abind\<close> runs a second operation when the first returned normally,
  as the early return \<open>if err != nil { return err }\<close> does; \<open>aignore\<close> goes on whatever error the
  first returned, as a call whose error is discarded.
\<close>

type_synonym ('t, 'a) act = "'t \<Rightarrow> 't \<times> 'a outcome"

definition aret :: "'a \<Rightarrow> ('t, 'a) act" where
  "aret x t = (t, Ok x)"

definition afail :: "goerror \<Rightarrow> ('t, 'a) act" where
  "afail e t = (t, Err e)"

definition abind :: "('t, 'a) act \<Rightarrow> ('a \<Rightarrow> ('t, 'b) act) \<Rightarrow> ('t, 'b) act" where
  "abind m f t =
     (case m t of
        (t', Ok x) \<Rightarrow> f x t'
      | (t', Err e) \<Rightarrow> (t', Err e)
      | (t', Panic) \<Rightarrow> (t', Panic))"

definition aignore :: "('t, 'a) act \<Rightarrow> ('t, 'b) act \<Rightarrow> ('t, 'b) act" where
  "aignore m f t =
     (case m t of
        (t', Ok x) \<Rightarrow> f t'
      | (t', Err e) \<Rightarrow> f t'
      | (t', Panic) \<Rightarrow> (t', Panic))"

lemma aret_apply [simp]: "aret x t = (t, Ok x)"
  by (simp add: aret_def)

lemma afail_apply [simp]: "afail e t = (t, Err e)"
  by (simp add: afail_def)

lemma abind_Ok: "m t = (t', Ok x) \<Longrightarrow> abind m f t = f x t'"
  by (simp add: abind_def)

lemma abind_Err: "m t = (t', Err e) \<Longrightarrow> abind m f t = (t', Err e)"
  by (simp add: abind_def)

lemma abind_OkE [outcome_simps]:
  "abind m f t = (t'', Ok y) \<longleftrightarrow> (\<exists>t' x. m t = (t', Ok x) \<and> f x t' = (t'', Ok y))"
  by (auto simp: abind_def split: outcome.splits prod.splits)

lemma aignore_Ok: "m t = (t', Ok x) \<Longrightarrow> aignore m f t = f t'"
  by (simp add: aignore_def)

lemma aignore_Err: "m t = (t', Err e) \<Longrightarrow> aignore m f t = f t'"
  by (simp add: aignore_def)

section \<open>Slice expressions\<close>

text \<open>
  \<open>b[n:]\<close>, \<open>b[:n]\<close> and \<open>b[lo:hi]\<close>. An index out of range panics. (Go admits an upper bound up
  to the slice's capacity; a bound past the length counts as out of range here.)
\<close>

definition slice_from :: "'a list \<Rightarrow> nat \<Rightarrow> 'a list outcome" where
  "slice_from b n = (if n \<le> length b then Ok (drop n b) else Panic)"

definition slice_to :: "'a list \<Rightarrow> nat \<Rightarrow> 'a list outcome" where
  "slice_to b n = (if n \<le> length b then Ok (take n b) else Panic)"

definition slice_range :: "'a list \<Rightarrow> nat \<Rightarrow> nat \<Rightarrow> 'a list outcome" where
  "slice_range b lo hi = (if lo \<le> hi \<and> hi \<le> length b then Ok (take (hi - lo) (drop lo b)) else Panic)"

lemma slice_appends [simp]:
  "length p = n \<Longrightarrow> slice_from (p @ r) n = Ok r"
  "length p = n \<Longrightarrow> slice_to (p @ r) n = Ok p"
  "length p = lo \<Longrightarrow> length q = hi - lo \<Longrightarrow> lo \<le> hi \<Longrightarrow> slice_range (p @ q @ r) lo hi = Ok q"
  by (auto simp: slice_from_def slice_to_def slice_range_def)

section \<open>Words\<close>

lemma unat_of_nat_small:
  "n < 2 ^ LENGTH('a) \<Longrightarrow> unat (of_nat n :: 'a::len word) = n"
  by (simp add: unat_of_nat take_bit_nat_eq_self)

section \<open>Byte codecs of encoding/binary\<close>

text \<open>
  \<open>binary.LittleEndian.PutUintN\<close> stores byte \<open>i\<close> as \<open>byte(v >> (8*i))\<close>, and \<open>UintN\<close> reads it back
  by or-ing the shifted bytes; \<open>BigEndian\<close> uses the reverse byte order.
\<close>

definition le_bytes :: "nat \<Rightarrow> 'a::len word \<Rightarrow> bytes" where
  "le_bytes n v = map (\<lambda>i. ucast (drop_bit (8 * i) v)) [0..<n]"

definition le_word :: "bytes \<Rightarrow> 'a::len word" where
  "le_word bs = foldr (\<lambda>b acc. ucast b OR push_bit 8 acc) bs 0"

definition be_bytes :: "nat \<Rightarrow> 'a::len word \<Rightarrow> bytes" where
  "be_bytes n v = rev (le_bytes n v)"

definition be_word :: "bytes \<Rightarrow> 'a::len word" where
  "be_word bs = le_word (rev bs)"

lemma length_le_bytes [simp]: "length (le_bytes n v) = n"
  by (simp add: le_bytes_def)

lemma length_be_bytes [simp]: "length (be_bytes n v) = n"
  by (simp add: be_bytes_def)

lemma le_bytes_Suc: "le_bytes (Suc n) v = ucast v # le_bytes n (drop_bit 8 v)"
  by (simp add: le_bytes_def upt_conv_Cons map_Suc_upt [symmetric] drop_bit_drop_bit
      del: upt_Suc map_Suc_upt)
     (simp add: add.commute)

lemma le_bytes_0 [simp]: "le_bytes 0 v = []"
  by (simp add: le_bytes_def)

lemma le_word_Nil [simp]: "le_word [] = 0"
  by (simp add: le_word_def)

lemma le_word_Cons: "le_word (b # bs) = ucast b OR push_bit 8 (le_word bs)"
  by (simp add: le_word_def)

lemma le_word_le_bytes: "le_word (le_bytes n v) = take_bit (8 * n) v"
proof (induction n arbitrary: v)
  case 0
  show ?case by simp
next
  case (Suc n)
  show ?case
    unfolding le_bytes_Suc le_word_Cons Suc.IH
    by (rule bit_eqI) (auto simp: bit_simps)
qed

lemma le_word_le_bytes_id:
  fixes v :: "'a::len word"
  assumes "LENGTH('a) \<le> 8 * n"
  shows "le_word (le_bytes n v) = v"
  using assms by (simp add: le_word_le_bytes take_bit_word_eq_self)

lemma take_bit_le_word: "take_bit (8 * length bs) (le_word bs :: 'a::len word) = le_word bs"
proof (induction bs)
  case Nil
  show ?case by simp
next
  case (Cons b bs)
  have "bit (le_word bs :: 'a word) k \<Longrightarrow> k < 8 * length bs" for k
    by (metis Cons.IH bit_take_bit_iff)
  moreover have "bit b k \<Longrightarrow> k < 8" for k
    using bit_imp_le_length [of b k] by simp
  ultimately show ?case
    unfolding le_word_Cons
    by (intro bit_eqI) (fastforce simp: bit_simps)
qed

lemma le_bytes_le_word:
  assumes "8 * length bs \<le> LENGTH('a::len)"
  shows "le_bytes (length bs) (le_word bs :: 'a word) = bs"
  using assms
proof (induction bs)
  case Nil
  show ?case by simp
next
  case (Cons b bs)
  have b8: "bit b k \<Longrightarrow> k < 8" for k
    using bit_imp_le_length [of b k] by simp
  have small: "bit (le_word bs :: 'a word) k \<Longrightarrow> k < 8 * length bs" for k
    by (metis take_bit_le_word bit_take_bit_iff)
  have "ucast (ucast b OR push_bit 8 (le_word bs) :: 'a word) = b"
    using Cons.prems b8 by (intro bit_eqI) (auto simp: bit_simps)
  moreover have "drop_bit 8 (ucast b OR push_bit 8 (le_word bs) :: 'a word) = le_word bs"
    using Cons.prems b8 small by (intro bit_eqI) (fastforce simp: bit_simps)
  ultimately show ?case
    using Cons by (simp add: le_bytes_Suc le_word_Cons)
qed

lemma le_bytes_inject:
  fixes v w :: "'a::len word"
  assumes "LENGTH('a) \<le> 8 * n"
  shows "le_bytes n v = le_bytes n w \<longleftrightarrow> v = w"
  by (metis assms le_word_le_bytes_id)

lemma be_word_be_bytes_id:
  fixes v :: "'a::len word"
  assumes "LENGTH('a) \<le> 8 * n"
  shows "be_word (be_bytes n v) = v"
  by (simp add: be_word_def be_bytes_def le_word_le_bytes_id assms)

lemma be_bytes_be_word:
  assumes "8 * length bs \<le> LENGTH('a::len)"
  shows "be_bytes (length bs) (be_word bs :: 'a word) = bs"
  using le_bytes_le_word [of "rev bs", where ?'a = 'a] assms
  by (simp add: be_word_def be_bytes_def)

text \<open>A number below another has a successor that does not wrap.\<close>

lemma unat_succ_less: "x < (y :: 'a::len word) \<Longrightarrow> unat (x + 1) = Suc (unat x)"
proof -
  assume lt: "x < y"
  have "1 + x \<noteq> 0"
  proof
    assume "1 + x = 0"
    then have "x = - 1" by (simp add: eq_neg_iff_add_eq_0 add.commute)
    with lt show False by simp
  qed
  from unatSuc [OF this] show ?thesis by (simp only: add.commute)
qed

lemma succ_between: "x < y \<Longrightarrow> x < x + 1 \<and> x + 1 \<le> (y :: 'a::len word)"
  using unat_succ_less [of x y] by (simp add: word_less_nat_alt word_le_nat_alt)

end
