(* ===== verification/Miscellaneous.thy ===== *)
theory Miscellaneous
  imports Prelude
begin

text \<open>
  The integer and slice codecs of \<open>until/miscellaneous/miscellaneous.go\<close>: fixed-width unsigned
  integers as little-endian (\<open>E*func\<close>, \<open>D*func\<close>) and big-endian (\<open>EB*func\<close>, \<open>DB*func\<close>) byte
  slices, and length-prefixed slices (\<open>Eslice\<close>, \<open>Dslice\<close>). Balances, nonces and heights of the
  ledger are stored with \<open>E64func\<close> and read with \<open>D64func\<close>.
\<close>

section \<open>Small helpers\<close>

definition MaxGo :: "int \<Rightarrow> int \<Rightarrow> int" where
  "MaxGo x y = (if x < y then y else x)"

definition MinGo :: "int \<Rightarrow> int \<Rightarrow> int" where
  "MinGo x y = (if x < y then x else y)"

definition Dup :: "bytes \<Rightarrow> bytes" where
  "Dup a = [] @ a"

lemma Dup_id [simp]: "Dup a = a"
  by (simp add: Dup_def)

section \<open>Fixed-width integers\<close>

definition E8func :: "byte \<Rightarrow> bytes" where
  "E8func a = [a AND 255]"

definition D8func :: "bytes \<Rightarrow> byte outcome" where
  "D8func a = (if length a \<noteq> 1 then Err (ErrText ''D8func: Illegal slice length'') else Ok (a ! 0))"

definition E16func :: "u16 \<Rightarrow> bytes" where
  "E16func a = le_bytes 2 a"

definition D16func :: "bytes \<Rightarrow> u16 outcome" where
  "D16func a = (if length a \<noteq> 2 then Err (ErrText ''D16func: Illegal slice length'') else Ok (le_word a))"

definition E32func :: "u32 \<Rightarrow> bytes" where
  "E32func a = le_bytes 4 a"

definition D32func :: "bytes \<Rightarrow> u32 outcome" where
  "D32func a = (if length a \<noteq> 4 then Err (ErrText ''D32func: Illegal slice length'') else Ok (le_word a))"

definition E64func :: "u64 \<Rightarrow> bytes" where
  "E64func a = le_bytes 8 a"

definition D64func :: "bytes \<Rightarrow> u64 outcome" where
  "D64func a = (if length a \<noteq> 8 then Err (ErrText ''D64func: Illegal slice length'') else Ok (le_word a))"

definition EB16func :: "u16 \<Rightarrow> bytes" where
  "EB16func a = be_bytes 2 a"

definition DB16func :: "bytes \<Rightarrow> u16 outcome" where
  "DB16func a = (if length a \<noteq> 2 then Err (ErrText ''DB16func: Illegal slice length'') else Ok (be_word a))"

definition EB32func :: "u32 \<Rightarrow> bytes" where
  "EB32func a = be_bytes 4 a"

definition DB32func :: "bytes \<Rightarrow> u32 outcome" where
  "DB32func a = (if length a \<noteq> 4 then Err (ErrText ''DB32func: Illegal slice length'') else Ok (be_word a))"

definition EB64func :: "u64 \<Rightarrow> bytes" where
  "EB64func a = be_bytes 8 a"

definition DB64func :: "bytes \<Rightarrow> u64 outcome" where
  "DB64func a = (if length a \<noteq> 8 then Err (ErrText ''DB64func: Illegal slice length'') else Ok (be_word a))"

lemma length_codecs [simp]:
  "length (E8func a) = 1" "length (E16func b) = 2" "length (E32func c) = 4" "length (E64func d) = 8"
  "length (EB16func b) = 2" "length (EB32func c) = 4" "length (EB64func d) = 8"
  by (simp_all add: E8func_def E16func_def E32func_def E64func_def EB16func_def EB32func_def EB64func_def)

lemma and_255_byte: "(a :: byte) AND 255 = a"
proof -
  have "(255 :: byte) = - 1" by simp
  then show ?thesis by (simp only: and.right_neutral)
qed

lemma D8func_E8func [simp]: "D8func (E8func a) = Ok a"
  by (simp add: D8func_def E8func_def and_255_byte)

lemma D16func_E16func [simp]: "D16func (E16func a) = Ok a"
  by (simp add: D16func_def E16func_def le_word_le_bytes_id)

lemma D32func_E32func [simp]: "D32func (E32func a) = Ok a"
  by (simp add: D32func_def E32func_def le_word_le_bytes_id)

lemma D64func_E64func [simp]: "D64func (E64func a) = Ok a"
  by (simp add: D64func_def E64func_def le_word_le_bytes_id)

lemma DB16func_EB16func [simp]: "DB16func (EB16func a) = Ok a"
  by (simp add: DB16func_def EB16func_def be_word_be_bytes_id)

lemma DB32func_EB32func [simp]: "DB32func (EB32func a) = Ok a"
  by (simp add: DB32func_def EB32func_def be_word_be_bytes_id)

lemma DB64func_EB64func [simp]: "DB64func (EB64func a) = Ok a"
  by (simp add: DB64func_def EB64func_def be_word_be_bytes_id)

lemma E64func_inject [simp]: "E64func a = E64func b \<longleftrightarrow> a = b"
  by (simp add: E64func_def le_bytes_inject)

lemma E32func_inject [simp]: "E32func a = E32func b \<longleftrightarrow> a = b"
  by (simp add: E32func_def le_bytes_inject)

lemma D64func_cases:
  "D64func a = Ok v \<longleftrightarrow> length a = 8 \<and> a = E64func v"
proof
  assume "D64func a = Ok v"
  then have len: "length a = 8" and v: "le_word a = v"
    by (auto simp: D64func_def split: if_splits)
  from len le_bytes_le_word [of a, where ?'a = 64] have "le_bytes 8 (le_word a :: u64) = a"
    by simp
  with len v show "length a = 8 \<and> a = E64func v"
    by (simp add: E64func_def)
qed auto

lemma D64func_no_panic [simp]: "D64func a \<noteq> Panic"
  by (simp add: D64func_def)

section \<open>Length-prefixed slices\<close>

definition Eslice :: "bytes \<Rightarrow> bytes" where
  "Eslice a = E32func (of_nat (length a)) @ a"

definition Dslice :: "bytes \<Rightarrow> (bytes \<times> bytes) outcome" where
  "Dslice data =
     (if length data < 4 then Err (ErrText ''DecodeSlice: Illegal slice length'')
      else let n = or_zero 0 (D32func (take 4 data)); data = drop 4 data in
        if (of_nat (length data) :: u32) < n
        then Err (ErrText ''DecodeSlice: Illegal slice length'')
        else Ok (Dup (take (unat n) data), drop (unat n) data))"

lemma Dslice_Eslice:
  assumes "length a < 2 ^ 32" "length a + length rest < 2 ^ 32"
  shows "Dslice (Eslice a @ rest) = Ok (a, rest)"
proof -
  have "unat (of_nat (length a) :: u32) = length a"
    using assms(1) by (simp add: unat_of_nat_small)
  moreover have "\<not> (of_nat (length a + length rest) :: u32) < of_nat (length a)"
    using assms by (simp add: word_less_nat_alt unat_of_nat_small del: of_nat_add)
  ultimately show ?thesis
    by (simp add: Dslice_def Eslice_def)
qed

text \<open>A length prefix longer than the data is refused: the slice expressions never go out of range.\<close>

lemma Dslice_in_range:
  assumes "Dslice data = Ok (a, rest)"
  shows "\<exists>p. length p = 4 \<and> data = p @ a @ rest"
proof -
  let ?n = "or_zero 0 (D32func (take 4 data))"
  from assms have len: "4 \<le> length data" and a: "a = take (unat ?n) (drop 4 data)"
    and r: "rest = drop (unat ?n) (drop 4 data)"
    by (auto simp: Dslice_def Let_def split: if_splits)
  have "data = take 4 data @ a @ rest"
    by (metis a r append_take_drop_id)
  with len show ?thesis
    by (intro exI [of _ "take 4 data"]) simp
qed

end
