(* ===== verification/StoreKeys.thy ===== *)
theory StoreKeys
  imports Miscellaneous
begin

text \<open>
  The key layout of \<open>until/store/bg/bg.go\<close>: maps, lists, sets and sorted sets live in one flat
  keyspace, told apart by a letter and a length prefix. The lemmas show which keys can never meet
  and that the scan prefix of a map or set selects that map or set alone.
\<close>

section \<open>Encoders and decoders\<close>

definition eListMetaKey :: "bytes \<Rightarrow> bytes" where
  "eListMetaKey k = lit ''l'' @ k"

definition dListMetaKey :: "bytes \<Rightarrow> bytes outcome" where
  "dListMetaKey buf = slice_from buf 1"

definition eListMetaValue :: "i64 \<Rightarrow> i64 \<Rightarrow> bytes" where
  "eListMetaValue start end = E64func start @ E64func end"

definition dListMetaValue :: "bytes \<Rightarrow> (i64 \<times> i64) outcome" where
  "dListMetaValue buf =
     obind (slice_to buf 8) (\<lambda>b0.
     let start = or_zero 0 (D64func b0) in
     obind (slice_range buf 8 16) (\<lambda>b1.
     let end = or_zero 0 (D64func b1) in Ok (start, end)))"

definition eListKey :: "bytes \<Rightarrow> i64 \<Rightarrow> bytes" where
  "eListKey k idx = (lit ''l'' @ k) @ E64func idx"

definition dListKey :: "bytes \<Rightarrow> bytes outcome" where
  "dListKey buf = (let n = length buf in if n < 8 then Panic else slice_range buf 1 (n - 8))"

definition eMapKey :: "bytes \<Rightarrow> bytes \<Rightarrow> bytes" where
  "eMapKey m k = ((lit ''m'' @ E32func (of_nat (length m))) @ m) @ lit ''+'' @ k"

text \<open>
  The decoders add the decoded length to a constant in 32-bit arithmetic, as \<open>5+n\<close> does for
  \<open>n uint32\<close>.
\<close>

definition dMapKey :: "bytes \<Rightarrow> bytes outcome" where
  "dMapKey buf =
     obind (slice_from buf 1) (\<lambda>buf.
     obind (slice_to buf 4) (\<lambda>b.
     let n = or_zero 0 (D32func b) in slice_from buf (unat (5 + n :: u32))))"

definition eSetKey :: "bytes \<Rightarrow> bytes \<Rightarrow> bytes" where
  "eSetKey k v = ((lit ''s'' @ E32func (of_nat (length k))) @ k) @ lit ''+'' @ v"

definition dSetKey :: "bytes \<Rightarrow> bytes outcome" where
  "dSetKey buf =
     obind (slice_from buf 1) (\<lambda>buf.
     obind (slice_to buf 4) (\<lambda>b.
     let n = or_zero 0 (D32func b) in slice_from buf (unat (5 + n :: u32))))"

definition eZetKey :: "bytes \<Rightarrow> bytes \<Rightarrow> bytes" where
  "eZetKey k v = ((lit ''z'' @ E32func (of_nat (length k))) @ k) @ lit ''+'' @ v"

definition dZetKey :: "bytes \<Rightarrow> bytes outcome" where
  "dZetKey buf =
     obind (slice_from buf 1) (\<lambda>buf.
     obind (slice_to buf 4) (\<lambda>b.
     let n = or_zero 0 (D32func b) in slice_from buf (unat (5 + n :: u32))))"

text \<open>The prefix \<open>zclear\<close> and \<open>zrange\<close> build inline, then the full score key.\<close>

definition eZetPrefix :: "bytes \<Rightarrow> bytes" where
  "eZetPrefix k = ((lit ''sz'' @ E32func (of_nat (length k))) @ k) @ lit ''+''"

definition eZetScore :: "bytes \<Rightarrow> bytes \<Rightarrow> u32 \<Rightarrow> bytes" where
  "eZetScore k v score =
     (((lit ''sz'' @ E32func (of_nat (length k))) @ k) @ lit ''+'') @ EB32func score @ v"

definition dZetScore :: "bytes \<Rightarrow> (u32 \<times> bytes) outcome" where
  "dZetScore buf =
     obind (slice_from buf 2) (\<lambda>buf.
     obind (slice_to buf 4) (\<lambda>b.
     let n = or_zero 0 (D32func b) in
     obind (slice_range buf (unat (5 + n :: u32)) (unat (9 + n :: u32))) (\<lambda>b1.
     let score = or_zero 0 (DB32func b1) in
     obind (slice_from buf (unat (9 + n :: u32))) (\<lambda>v. Ok (score, v)))))"

section \<open>Round trips\<close>

lemma length_lit [simp]: "length (lit s) = length s"
  by (simp add: lit_def)

lemma lit_nonempty [simp]: "lit s = [] \<longleftrightarrow> s = []"
  by (simp add: lit_def)

lemma dListMetaKey_eListMetaKey: "dListMetaKey (eListMetaKey k) = Ok k"
  by (simp add: dListMetaKey_def eListMetaKey_def)

lemma dListMetaValue_eListMetaValue [simp]: "dListMetaValue (eListMetaValue s e) = Ok (s, e)"
  using slice_appends(3) [of "E64func s" 8 "E64func e" 16 "[]"]
  by (simp add: dListMetaValue_def eListMetaValue_def)

lemma dListKey_eListKey: "dListKey (eListKey k i) = Ok k"
  using slice_appends(3) [of "lit ''l''" 1 k "1 + length k" "E64func i"]
  by (simp add: dListKey_def eListKey_def)

lemma unat_length_offsets:
  assumes "length (m :: bytes) + 9 < 2 ^ 32"
  shows "unat (5 + word_of_nat (length m) :: u32) = 5 + length m"
    "unat (9 + word_of_nat (length m) :: u32) = 9 + length m"
proof -
  have m: "unat (word_of_nat (length m) :: u32) = length m"
    using assms by (simp add: unat_of_nat_small)
  show "unat (5 + word_of_nat (length m) :: u32) = 5 + length m"
    "unat (9 + word_of_nat (length m) :: u32) = 9 + length m"
    using assms by (simp_all add: unat_word_ariths(1) m)
qed

lemma slice_after_header:
  assumes "length (m :: bytes) + 9 < 2 ^ 32"
  shows "slice_from (E32func (word_of_nat (length m)) @ m @ lit ''+'' @ k)
      (unat (5 + word_of_nat (length m) :: u32)) = Ok k"
  unfolding unat_length_offsets(1) [OF assms]
  by (simp add: slice_from_def)

lemma dMapKey_eMapKey [simp]:
  "length m + 9 < 2 ^ 32 \<Longrightarrow> dMapKey (eMapKey m k) = Ok k"
  by (simp add: dMapKey_def eMapKey_def slice_after_header)

lemma dSetKey_eSetKey [simp]:
  "length m + 9 < 2 ^ 32 \<Longrightarrow> dSetKey (eSetKey m k) = Ok k"
  by (simp add: dSetKey_def eSetKey_def slice_after_header)

lemma dZetKey_eZetKey [simp]:
  "length m + 9 < 2 ^ 32 \<Longrightarrow> dZetKey (eZetKey m k) = Ok k"
  by (simp add: dZetKey_def eZetKey_def slice_after_header)

lemma dZetScore_eZetScore [simp]:
  assumes "length k + 9 < 2 ^ 32"
  shows "dZetScore (eZetScore k v s) = Ok (s, v)"
proof -
  let ?r = "E32func (word_of_nat (length k)) @ k @ lit ''+'' @ EB32func s @ v"
  have "slice_range ?r (unat (5 + word_of_nat (length k) :: u32))
      (unat (9 + word_of_nat (length k) :: u32)) = Ok (EB32func s)"
    "slice_from ?r (unat (9 + word_of_nat (length k) :: u32)) = Ok v"
    unfolding unat_length_offsets [OF assms]
    by (simp_all add: slice_range_def slice_from_def)
  then show ?thesis
    by (simp add: dZetScore_def eZetScore_def Let_def)
qed

section \<open>Which keys are equal\<close>

lemma of_nat_length_inject:
  assumes "length (m :: bytes) < 2 ^ 32" "length (m' :: bytes) < 2 ^ 32"
    "(of_nat (length m) :: u32) = of_nat (length m')"
  shows "length m = length m'"
proof -
  have "unat (of_nat (length m) :: u32) = length m"
    by (rule unat_of_nat_small) (use assms(1) in simp)
  moreover have "unat (of_nat (length m') :: u32) = length m'"
    by (rule unat_of_nat_small) (use assms(2) in simp)
  ultimately show ?thesis
    unfolding assms(3) by (rule trans [OF sym])
qed

text \<open>Equal header and name force equal names, so the rest of the keys is equal too.\<close>

lemma header_inject:
  assumes "length (m :: bytes) < 2 ^ 32" "length (m' :: bytes) < 2 ^ 32"
  shows "(of_nat (length m) :: u32) = of_nat (length m') \<and> m @ r = m' @ r' \<longleftrightarrow> m = m' \<and> r = r'"
proof
  assume *: "(of_nat (length m) :: u32) = of_nat (length m') \<and> m @ r = m' @ r'"
  with of_nat_length_inject [OF assms] have "length m = length m'" by blast
  with * show "m = m' \<and> r = r'" by simp
qed auto

lemma eMapKey_inject:
  "length m < 2 ^ 32 \<Longrightarrow> length m' < 2 ^ 32 \<Longrightarrow>
    eMapKey m k = eMapKey m' k' \<longleftrightarrow> m = m' \<and> k = k'"
  by (simp add: eMapKey_def header_inject)

lemma eSetKey_inject:
  "length m < 2 ^ 32 \<Longrightarrow> length m' < 2 ^ 32 \<Longrightarrow>
    eSetKey m k = eSetKey m' k' \<longleftrightarrow> m = m' \<and> k = k'"
  by (simp add: eSetKey_def header_inject)

lemma eZetKey_inject:
  "length m < 2 ^ 32 \<Longrightarrow> length m' < 2 ^ 32 \<Longrightarrow>
    eZetKey m k = eZetKey m' k' \<longleftrightarrow> m = m' \<and> k = k'"
  by (simp add: eZetKey_def header_inject)

lemma EB32func_inject [simp]: "EB32func a = EB32func b \<longleftrightarrow> a = b"
  by (metis DB32func_EB32func outcome.inject(1))

lemma eZetScore_inject:
  "length m < 2 ^ 32 \<Longrightarrow> length m' < 2 ^ 32 \<Longrightarrow>
    eZetScore m k s = eZetScore m' k' s' \<longleftrightarrow> m = m' \<and> k = k' \<and> s = s'"
  by (auto simp: eZetScore_def header_inject)

lemma eListKey_inject [simp]: "eListKey k i = eListKey k' i' \<longleftrightarrow> k = k' \<and> i = i'"
  by (simp add: eListKey_def append_eq_append_conv)

lemma eListMetaKey_inject [simp]: "eListMetaKey k = eListMetaKey k' \<longleftrightarrow> k = k'"
  by (simp add: eListMetaKey_def)

text \<open>
  An element key of one list is the meta key of another exactly when the other list's name is the
  first one's followed by the eight bytes of the index.
\<close>

lemma eListKey_eq_meta: "eListKey k i = eListMetaKey k' \<longleftrightarrow> k' = k @ E64func i"
  by (auto simp: eListKey_def eListMetaKey_def)

lemma eListKey_not_meta [simp]: "eListKey k i \<noteq> eListMetaKey k" "eListMetaKey k \<noteq> eListKey k i"
  using length_codecs(4) [of i]
  by (auto simp: eListKey_def eListMetaKey_def simp del: length_codecs)

lemma keys_nonempty [simp]:
  "eListMetaKey k \<noteq> []" "eListKey k i \<noteq> []" "eMapKey m k \<noteq> []" "eSetKey m k \<noteq> []"
  "eZetKey m k \<noteq> []" "eZetScore m k s \<noteq> []"
  by (simp_all add: eListMetaKey_def eListKey_def eMapKey_def eSetKey_def eZetKey_def eZetScore_def)

lemma key_letters [simp]:
  "hd (eListMetaKey k) = 108" "hd (eListKey k i) = 108" "hd (eMapKey m k) = 109"
  "hd (eSetKey m k) = 115" "hd (eZetKey m k) = 122" "hd (eZetScore m k s) = 115"
  by (simp_all add: eListMetaKey_def eListKey_def eMapKey_def eSetKey_def eZetKey_def eZetScore_def
      lit_def)

lemma map_key_apart:
  "eMapKey m k \<noteq> eListMetaKey l" "eMapKey m k \<noteq> eListKey l i" "eMapKey m k \<noteq> eSetKey l v"
  "eMapKey m k \<noteq> eZetKey l v" "eMapKey m k \<noteq> eZetScore l v s"
  by (rule notI, drule arg_cong [of _ _ hd], simp)+

section \<open>Scanning a map or set by its prefix\<close>

lemma prefix_eMapKey: "prefix (eMapKey m []) x \<longleftrightarrow> (\<exists>k. x = eMapKey m k)"
  by (auto simp: eMapKey_def prefix_def)

lemma prefix_eSetKey: "prefix (eSetKey m []) x \<longleftrightarrow> (\<exists>k. x = eSetKey m k)"
  by (auto simp: eSetKey_def prefix_def)

lemma append_le_append [simp]:
  fixes p :: "'a::linorder list"
  shows "p @ a \<le> p @ b \<longleftrightarrow> a \<le> b"
  by (induction p) simp_all

lemma eMapKey_le [simp]: "eMapKey m k \<le> eMapKey m k' \<longleftrightarrow> k \<le> k'"
  by (simp add: eMapKey_def)

lemma eSetKey_le [simp]: "eSetKey m k \<le> eSetKey m k' \<longleftrightarrow> k \<le> k'"
  by (simp add: eSetKey_def)

lemma Nil_le_bytes [simp]: "[] \<le> (k :: bytes)"
  by (cases k) (simp_all add: list_le_def)

end
