(* ===== verification/Badger.thy ===== *)
theory Badger
  imports Prelude "HOL-Library.Finite_Map"
begin

text \<open>
  The interface of the embedded key-value engine (\<open>github.com/dgraph-io/badger\<close>) that
  \<open>until/store/bg/bg.go\<close> calls. The engine is not part of the repository: its operations are a
  parameter of the store's definitions, the record \<open>badger\<close>, and the locale \<open>badger\<close> states the
  documented behaviour the store relies on. \<open>map_badger\<close> is an instance over finite maps, on
  which the interpretation at the end discharges the laws.
\<close>

section \<open>The engine's operations\<close>

text \<open>
  \<open>'d\<close> is an open database and \<open>'t\<close> a transaction.
  \<open>TxnGet\<close> is \<open>Txn.Get\<close> with the inner outcome that of \<open>Item.ValueCopy\<close>.
  \<open>TxnScan t p s\<close> lists what \<open>it := NewIterator(Prefix = p); for it.Seek(s); it.ValidForPrefix(p);
  it.Next()\<close> visits: each key with the outcome of reading its value. \<open>Txn.Discard\<close> changes
  nothing that is modelled.
\<close>

record ('d, 't) badger =
  NewTransaction :: "'d \<Rightarrow> bool \<Rightarrow> 't"
  TxnGet :: "'t \<Rightarrow> bytes \<Rightarrow> bytes outcome outcome"
  TxnSet :: "bytes \<Rightarrow> bytes \<Rightarrow> ('t, unit) act"
  TxnDelete :: "bytes \<Rightarrow> ('t, unit) act"
  TxnScan :: "'t \<Rightarrow> bytes \<Rightarrow> bytes \<Rightarrow> (bytes \<times> bytes outcome) list"
  TxnCommit :: "'t \<Rightarrow> ('d, unit) act"

section \<open>What the store relies on\<close>

text \<open>
  \<open>view t\<close> is what the transaction sees (its snapshot with its own writes on top), \<open>writes t\<close> its
  pending writes (\<open>Some None\<close> is a deletion), \<open>contents d\<close> the committed pairs. A failed
  write changes nothing; a failed commit changes nothing; a successful commit applies exactly the
  pending writes. An empty key is refused by every operation.
\<close>

locale badger =
  fixes B :: "('d, 't) badger"
    and view :: "'t \<Rightarrow> bytes \<Rightarrow> bytes option"
    and writes :: "'t \<Rightarrow> bytes \<Rightarrow> bytes option option"
    and contents :: "'d \<Rightarrow> bytes \<Rightarrow> bytes option"
  assumes view_new: "view (NewTransaction B d u) = contents d"
    and writes_new: "writes (NewTransaction B d u) = Map.empty"
    and get_present: "k \<noteq> [] \<Longrightarrow> view t k = Some v \<Longrightarrow> TxnGet B t k = Ok (Ok v)"
    and get_absent: "k \<noteq> [] \<Longrightarrow> view t k = None \<Longrightarrow> TxnGet B t k = Err ErrKeyNotFound"
    and get_empty: "\<exists>n. TxnGet B t [] = Err (BadgerErr n)"
    and set_done: "TxnSet B k v t = (t', Ok ()) \<Longrightarrow>
          k \<noteq> [] \<and> view t' = (view t)(k \<mapsto> v) \<and> writes t' = (writes t)(k \<mapsto> Some v)"
    and set_refused: "TxnSet B k v t = (t', Err e) \<Longrightarrow> view t' = view t \<and> writes t' = writes t"
    and set_no_panic: "snd (TxnSet B k v t) \<noteq> Panic"
    and delete_done: "TxnDelete B k t = (t', Ok ()) \<Longrightarrow>
          k \<noteq> [] \<and> view t' = (view t)(k := None) \<and> writes t' = (writes t)(k \<mapsto> None)"
    and delete_refused: "TxnDelete B k t = (t', Err e) \<Longrightarrow> view t' = view t \<and> writes t' = writes t"
    and delete_no_panic: "snd (TxnDelete B k t) \<noteq> Panic"
    and finite_view: "finite (dom (view t))"
    and scan: "TxnScan B t p s =
          map (\<lambda>k. (k, Ok (the (view t k))))
            (sorted_list_of_set {k \<in> dom (view t). prefix p k \<and> s \<le> k})"
    and commit_done: "TxnCommit B t d = (d', Ok ()) \<Longrightarrow>
          contents d' = (\<lambda>k. case writes t k of None \<Rightarrow> contents d k | Some w \<Rightarrow> w)"
    and commit_refused: "TxnCommit B t d = (d', Err e) \<Longrightarrow> contents d' = contents d"
    and commit_no_panic: "snd (TxnCommit B t d) \<noteq> Panic"

text \<open>
  An engine with room: no write to a non-empty key is refused (the transaction stays below the
  engine's size limit) and commits meet no conflict, which the ledger's lock guarantees.
\<close>

locale roomy_badger = badger +
  assumes set_succeeds: "k \<noteq> [] \<Longrightarrow> snd (TxnSet B k v t) = Ok ()"
    and delete_succeeds: "k \<noteq> [] \<Longrightarrow> snd (TxnDelete B k t) = Ok ()"
    and commit_succeeds: "snd (TxnCommit B t d) = Ok ()"

context roomy_badger begin

lemma set_room:
  assumes "k \<noteq> []"
  obtains t' where "TxnSet B k v t = (t', Ok ())" "view t' = (view t)(k \<mapsto> v)"
    "writes t' = (writes t)(k \<mapsto> Some v)"
  using set_succeeds [OF assms, of v t] set_done [of k v t "fst (TxnSet B k v t)"]
  by (cases "TxnSet B k v t") auto

lemma delete_room:
  assumes "k \<noteq> []"
  obtains t' where "TxnDelete B k t = (t', Ok ())" "view t' = (view t)(k := None)"
    "writes t' = (writes t)(k \<mapsto> None)"
  using delete_succeeds [OF assms, of t] delete_done [of k t "fst (TxnDelete B k t)"]
  by (cases "TxnDelete B k t") auto

lemma commit_room:
  obtains d' where "TxnCommit B t d = (d', Ok ())"
    "contents d' = (\<lambda>k. case writes t k of None \<Rightarrow> contents d k | Some w \<Rightarrow> w)"
  using commit_succeeds [of t d] commit_done [of t d "fst (TxnCommit B t d)"]
  by (cases "TxnCommit B t d") auto

end

section \<open>An instance over finite maps\<close>

text \<open>A database is a finite map; a transaction is its snapshot with the map of pending writes.\<close>

type_synonym mdb = "(bytes, bytes) fmap"
type_synonym mtxn = "(bytes, bytes) fmap \<times> (bytes, bytes option) fmap"

definition mview :: "mtxn \<Rightarrow> bytes \<Rightarrow> bytes option" where
  "mview t k = (case fmlookup (snd t) k of Some w \<Rightarrow> w | None \<Rightarrow> fmlookup (fst t) k)"

definition map_badger :: "(mdb, mtxn) badger" where
  "map_badger = \<lparr>
     NewTransaction = (\<lambda>d u. (d, fmempty)),
     TxnGet = (\<lambda>t k. if k = [] then Err (BadgerErr 1)
       else case mview t k of None \<Rightarrow> Err ErrKeyNotFound | Some v \<Rightarrow> Ok (Ok v)),
     TxnSet = (\<lambda>k v t. if k = [] then (t, Err (BadgerErr 1))
       else ((fst t, fmupd k (Some v) (snd t)), Ok ())),
     TxnDelete = (\<lambda>k t. if k = [] then (t, Err (BadgerErr 1))
       else ((fst t, fmupd k None (snd t)), Ok ())),
     TxnScan = (\<lambda>t p s. map (\<lambda>k. (k, Ok (the (mview t k))))
       (sorted_list_of_fset (ffilter (\<lambda>k. mview t k \<noteq> None \<and> prefix p k \<and> s \<le> k)
         (fmdom (fst t) |\<union>| fmdom (snd t))))),
     TxnCommit = (\<lambda>t d.
       (fmfilter (\<lambda>k. fmlookup (snd t) k \<noteq> Some None) (fmadd d (fmmap the (snd t))), Ok ())) \<rparr>"

lemma map_badger_simps [simp]:
  "NewTransaction map_badger d u = (d, fmempty)"
  "TxnGet map_badger t k = (if k = [] then Err (BadgerErr 1)
     else case mview t k of None \<Rightarrow> Err ErrKeyNotFound | Some v \<Rightarrow> Ok (Ok v))"
  "TxnSet map_badger k v t = (if k = [] then (t, Err (BadgerErr 1))
     else ((fst t, fmupd k (Some v) (snd t)), Ok ()))"
  "TxnDelete map_badger k t = (if k = [] then (t, Err (BadgerErr 1))
     else ((fst t, fmupd k None (snd t)), Ok ()))"
  by (simp_all add: map_badger_def)

lemma mview_simps [simp]:
  "mview (d, fmempty) = fmlookup d"
  "mview (s, fmupd k w ws) = (mview (s, ws))(k := w)"
  by (simp_all add: mview_def fun_eq_iff split: option.split)

lemma dom_mview: "dom (mview t) \<subseteq> fset (fmdom (fst t) |\<union>| fmdom (snd t))"
  by (auto simp: mview_def fmdom_notI split: option.splits)
     (metis fmdom_notD option.discI)+

lemma map_badger_scan:
  "TxnScan map_badger t p s =
     map (\<lambda>k. (k, Ok (the (mview t k))))
       (sorted_list_of_set {k \<in> dom (mview t). prefix p k \<and> s \<le> k})"
proof -
  have "fset (ffilter (\<lambda>k. mview t k \<noteq> None \<and> prefix p k \<and> s \<le> k)
      (fmdom (fst t) |\<union>| fmdom (snd t))) = {k \<in> dom (mview t). prefix p k \<and> s \<le> k}"
    using dom_mview [of t] by auto
  then show ?thesis
    by (simp add: map_badger_def sorted_list_of_fset.rep_eq)
qed

interpretation mb: roomy_badger map_badger mview "\<lambda>t. fmlookup (snd t)" fmlookup
proof (unfold_locales, goal_cases)
  case (12 t)
  have "finite (fset (fmdom (fst t) |\<union>| fmdom (snd t)))" by simp
  with dom_mview [of t] show ?case by (rule finite_subset)
next
  case 13
  show ?case by (rule map_badger_scan)
qed (auto simp: map_badger_def fun_eq_iff split: if_splits option.splits)

lemmas map_badger_roomy = mb.roomy_badger_axioms

lemmas map_badger_laws = mb.badger_axioms

end
