(* ===== verification/BgStore.thy ===== *)
theory BgStore
  imports StoreKeys Badger
begin

text \<open>
  The operations of \<open>until/store/bg/bg.go\<close> on one badger transaction: plain keys, maps, lists,
  sets and sorted sets. Every definition takes the engine \<open>B\<close> first. A read is a function of the
  transaction; an operation that writes is an \<open>act\<close> on it. The lemmas are stated on the
  transaction's view (what a read would return), under the engine's laws.
\<close>

section \<open>Plain keys\<close>

definition del_tx :: "('d, 't) badger \<Rightarrow> bytes \<Rightarrow> ('t, unit) act" where
  "del_tx B k = TxnDelete B k"

definition set_tx :: "('d, 't) badger \<Rightarrow> bytes \<Rightarrow> bytes \<Rightarrow> ('t, unit) act" where
  "set_tx B k v = TxnSet B k v"

definition get_tx :: "('d, 't) badger \<Rightarrow> 't \<Rightarrow> bytes \<Rightarrow> bytes outcome" where
  "get_tx B t k =
     (case TxnGet B t k of
        Err e \<Rightarrow> Err (if e = ErrKeyNotFound then NotExist else e)
      | Ok item \<Rightarrow> item
      | Panic \<Rightarrow> Panic)"

section \<open>Maps\<close>

text \<open>The loop of \<open>mclear\<close> and \<open>sclear\<close>: delete each visited key, stop at the first failure.\<close>

fun del_each :: "('d, 't) badger \<Rightarrow> bytes list \<Rightarrow> ('t, unit) act" where
  "del_each B [] t = (t, Ok ())"
| "del_each B (k # ks) t = abind (del_tx B k) (\<lambda>_. del_each B ks) t"

definition mclear :: "('d, 't) badger \<Rightarrow> bytes \<Rightarrow> ('t, unit) act" where
  "mclear B m t = (let k = eMapKey m [] in del_each B (map fst (TxnScan B t k k)) t)"

definition mdel :: "('d, 't) badger \<Rightarrow> bytes \<Rightarrow> bytes \<Rightarrow> ('t, unit) act" where
  "mdel B m k = del_tx B (eMapKey m k)"

definition mset_tx :: "('d, 't) badger \<Rightarrow> bytes \<Rightarrow> bytes \<Rightarrow> bytes \<Rightarrow> ('t, unit) act" where
  "mset_tx B m k v = set_tx B (eMapKey m k) v"

definition mget :: "('d, 't) badger \<Rightarrow> 't \<Rightarrow> bytes \<Rightarrow> bytes \<Rightarrow> bytes outcome" where
  "mget B t m k = get_tx B t (eMapKey m k)"

text \<open>The scanning loops: \<open>ks = append(ks, ...)\<close> until the iterator ends or a read fails.\<close>

fun mkeys_loop :: "(bytes \<times> bytes outcome) list \<Rightarrow> bytes list \<Rightarrow> bytes list outcome" where
  "mkeys_loop [] ks = Ok ks"
| "mkeys_loop ((k, v) # its) ks = obind (dMapKey k) (\<lambda>k. mkeys_loop its (ks @ [k]))"

definition mkeys :: "('d, 't) badger \<Rightarrow> 't \<Rightarrow> bytes \<Rightarrow> bytes list outcome" where
  "mkeys B t m = (let k = eMapKey m [] in mkeys_loop (TxnScan B t k k) [])"

fun mvals_loop :: "(bytes \<times> bytes outcome) list \<Rightarrow> bytes list \<Rightarrow> bytes list outcome" where
  "mvals_loop [] vs = Ok vs"
| "mvals_loop ((k, v) # its) vs = obind v (\<lambda>v. mvals_loop its (vs @ [v]))"

definition mvals :: "('d, 't) badger \<Rightarrow> 't \<Rightarrow> bytes \<Rightarrow> bytes list outcome" where
  "mvals B t m = (let k = eMapKey m [] in mvals_loop (TxnScan B t k k) [])"

fun mkvs_loop :: "(bytes \<times> bytes outcome) list \<Rightarrow> bytes list \<Rightarrow> bytes list \<Rightarrow>
    (bytes list \<times> bytes list) outcome" where
  "mkvs_loop [] ks vs = Ok (ks, vs)"
| "mkvs_loop ((k, v) # its) ks vs =
     obind (dMapKey k) (\<lambda>k. obind v (\<lambda>v. mkvs_loop its (ks @ [k]) (vs @ [v])))"

definition mkvs :: "('d, 't) badger \<Rightarrow> 't \<Rightarrow> bytes \<Rightarrow> (bytes list \<times> bytes list) outcome" where
  "mkvs B t m = (let k = eMapKey m [] in mkvs_loop (TxnScan B t k k) [] [])"

section \<open>Lists\<close>

text \<open>
  A list is a meta entry with the bounds \<open>start\<close>, \<open>end\<close> (signed 64-bit, the half-open interval of
  used indices) and one entry per index. The bounds are compared as signed numbers.
\<close>

definition lnew :: "('d, 't) badger \<Rightarrow> bytes \<Rightarrow> ('t, unit) act" where
  "lnew B k = set_tx B (eListMetaKey k) (eListMetaValue 0 0)"

definition listStartEnd :: "('d, 't) badger \<Rightarrow> 't \<Rightarrow> bytes \<Rightarrow> (i64 \<times> i64) outcome" where
  "listStartEnd B t k = obind (get_tx B t (eListMetaKey k)) dListMetaValue"

definition llen :: "('d, 't) badger \<Rightarrow> 't \<Rightarrow> bytes \<Rightarrow> i64 outcome" where
  "llen B t k =
     (case listStartEnd B t k of Err e \<Rightarrow> Ok 0 | Ok (start, end) \<Rightarrow> Ok (end - start) | Panic \<Rightarrow> Panic)"

function llclear_loop :: "('d, 't) badger \<Rightarrow> bytes \<Rightarrow> i64 \<Rightarrow> i64 \<Rightarrow> ('t, unit) act" where
  "llclear_loop B k start end t =
     (if sint start < sint end
      then abind (del_tx B (eListKey k start)) (\<lambda>_. llclear_loop B k (start + 1) end) t
      else (t, Ok ()))"
  by pat_completeness auto

lemma sint_add_one:
  assumes "sint (start :: i64) < sint (end :: i64)"
  shows "sint (start + 1) = sint start + 1"
proof -
  have "sint end < 2 ^ 63" using sint_lt [of "end"] by simp
  moreover have "- (2 ^ 63) \<le> sint start" using sint_ge [of start] by simp
  ultimately show ?thesis
    using assms by (simp add: sint_word_ariths signed_take_bit_int_eq_self)
qed

termination llclear_loop
  by (relation "measure (\<lambda>(B, k, start, end, t). nat (sint end - sint start))")
     (auto simp: sint_add_one)

declare llclear_loop.simps [simp del]

definition llclear :: "('d, 't) badger \<Rightarrow> bytes \<Rightarrow> ('t, unit) act" where
  "llclear B k t =
     (case listStartEnd B t k of
        Err e \<Rightarrow> (t, Err e)
      | Ok (start, end) \<Rightarrow>
          abind (llclear_loop B k start end) (\<lambda>_. del_tx B (eListMetaKey k)) t
      | Panic \<Rightarrow> (t, Panic))"

text \<open>
  \<open>if err != nil { if err = lnew(tx, k); ... }\<close>: whatever made the meta entry unreadable, a push
  starts a new list at \<open>0, 0\<close>.
\<close>

definition push_bounds :: "('d, 't) badger \<Rightarrow> bytes \<Rightarrow> ('t, i64 \<times> i64) act" where
  "push_bounds B k t =
     (case listStartEnd B t k of
        Err e \<Rightarrow> abind (lnew B k) (\<lambda>_. aret (0, 0)) t
      | Ok se \<Rightarrow> (t, Ok se)
      | Panic \<Rightarrow> (t, Panic))"

definition llpush :: "('d, 't) badger \<Rightarrow> bytes \<Rightarrow> bytes \<Rightarrow> ('t, i64) act" where
  "llpush B k v =
     abind (push_bounds B k) (\<lambda>(start, end).
     if start - 1 = end then afail OutOfSize
     else abind (set_tx B (eListKey k (start - 1)) v) (\<lambda>_.
          abind (set_tx B (eListMetaKey k) (eListMetaValue (start - 1) end)) (\<lambda>_.
          aret (end - start + 1))))"

definition llpop :: "('d, 't) badger \<Rightarrow> bytes \<Rightarrow> ('t, bytes) act" where
  "llpop B k t =
     (case listStartEnd B t k of
        Err e \<Rightarrow> (t, Err e)
      | Panic \<Rightarrow> (t, Panic)
      | Ok (start, end) \<Rightarrow>
          if start = end then (t, Err OutOfSize)
          else (case get_tx B t (eListKey k start) of
              Err e \<Rightarrow> (t, Err e)
            | Panic \<Rightarrow> (t, Panic)
            | Ok v \<Rightarrow> abind (set_tx B (eListMetaKey k) (eListMetaValue (start + 1) end))
                (\<lambda>_. aret v) t))"

definition lrpush :: "('d, 't) badger \<Rightarrow> bytes \<Rightarrow> bytes \<Rightarrow> ('t, i64) act" where
  "lrpush B k v =
     abind (push_bounds B k) (\<lambda>(start, end).
     if start = end + 1 then afail OutOfSize
     else abind (set_tx B (eListKey k end) v) (\<lambda>_.
          abind (set_tx B (eListMetaKey k) (eListMetaValue start (end + 1))) (\<lambda>_.
          aret (end - start + 1))))"

definition lrpop :: "('d, 't) badger \<Rightarrow> bytes \<Rightarrow> ('t, bytes) act" where
  "lrpop B k t =
     (case listStartEnd B t k of
        Err e \<Rightarrow> (t, Err e)
      | Panic \<Rightarrow> (t, Panic)
      | Ok (start, end) \<Rightarrow>
          if start = end then (t, Err OutOfSize)
          else (case get_tx B t (eListKey k (end - 1)) of
              Err e \<Rightarrow> (t, Err e)
            | Panic \<Rightarrow> (t, Panic)
            | Ok v \<Rightarrow> abind (set_tx B (eListMetaKey k) (eListMetaValue start (end - 1)))
                (\<lambda>_. aret v) t))"

definition lset :: "('d, 't) badger \<Rightarrow> bytes \<Rightarrow> i64 \<Rightarrow> bytes \<Rightarrow> ('t, unit) act" where
  "lset B k idx v t =
     (case listStartEnd B t k of
        Err e \<Rightarrow> (t, Err e)
      | Panic \<Rightarrow> (t, Panic)
      | Ok (start, end) \<Rightarrow>
          let idx = (if 0 \<le> sint idx then idx + start else idx + end) in
          if sint idx < sint start \<or> sint end \<le> sint idx then (t, Err OutOfSize)
          else set_tx B (eListKey k (idx + start)) v t)"

definition lindex :: "('d, 't) badger \<Rightarrow> 't \<Rightarrow> bytes \<Rightarrow> i64 \<Rightarrow> bytes outcome" where
  "lindex B t k idx =
     obind (listStartEnd B t k) (\<lambda>(start, end).
       let idx = (if 0 \<le> sint idx then idx + start else idx + end) in
       if sint idx < sint start \<or> sint end \<le> sint idx then Ok []
       else get_tx B t (eListKey k (idx + start)))"

text \<open>
  \<open>for ; start <= end; start++\<close>: with \<open>end\<close> the greatest \<open>int64\<close> the increment wraps around and the
  loop never ends, hence the option.
\<close>

partial_function (option) lrange_loop ::
  "('d, 't) badger \<Rightarrow> 't \<Rightarrow> bytes \<Rightarrow> i64 \<Rightarrow> i64 \<Rightarrow> bytes list \<Rightarrow> bytes list outcome option" where
  "lrange_loop B t k start end vs =
     (if sint start \<le> sint end
      then (case get_tx B t (eListKey k start) of
          Err e \<Rightarrow> lrange_loop B t k (start + 1) end vs
        | Ok v \<Rightarrow> lrange_loop B t k (start + 1) end (vs @ [v])
        | Panic \<Rightarrow> Some Panic)
      else Some (Ok vs))"

definition lrange :: "('d, 't) badger \<Rightarrow> 't \<Rightarrow> bytes \<Rightarrow> i64 \<Rightarrow> i64 \<Rightarrow> bytes list outcome option" where
  "lrange B t k start end =
     (case listStartEnd B t k of
        Err e \<Rightarrow> Some (Err e)
      | Panic \<Rightarrow> Some Panic
      | Ok (x, y) \<Rightarrow>
          let end = (if sint end < 0 then end + y else end + x);
              start = (if sint start < 0 then start + y else start + x);
              start = (if sint start < sint x then x else start);
              end = (if sint y \<le> sint end then y else end)
          in lrange_loop B t k start end [])"

section \<open>Sets\<close>

definition sclear :: "('d, 't) badger \<Rightarrow> bytes \<Rightarrow> ('t, unit) act" where
  "sclear B k t = (let k = eSetKey k [] in del_each B (map fst (TxnScan B t k k)) t)"

definition sdel :: "('d, 't) badger \<Rightarrow> bytes \<Rightarrow> bytes \<Rightarrow> ('t, unit) act" where
  "sdel B k v = del_tx B (eSetKey k v)"

definition sadd :: "('d, 't) badger \<Rightarrow> bytes \<Rightarrow> bytes \<Rightarrow> ('t, unit) act" where
  "sadd B k v = set_tx B (eSetKey k v) []"

definition selem :: "('d, 't) badger \<Rightarrow> 't \<Rightarrow> bytes \<Rightarrow> bytes \<Rightarrow> bool outcome" where
  "selem B t k v =
     (case get_tx B t (eSetKey k v) of
        Ok _ \<Rightarrow> Ok True
      | Err e \<Rightarrow> if e = NotExist then Ok False else Err e
      | Panic \<Rightarrow> Panic)"

fun smembers_loop :: "(bytes \<times> bytes outcome) list \<Rightarrow> bytes list \<Rightarrow> bytes list outcome" where
  "smembers_loop [] vs = Ok vs"
| "smembers_loop ((k, v) # its) vs = obind (dSetKey k) (\<lambda>k. smembers_loop its (vs @ [k]))"

definition smembers :: "('d, 't) badger \<Rightarrow> 't \<Rightarrow> bytes \<Rightarrow> bytes list outcome" where
  "smembers B t k = (let k = eSetKey k [] in smembers_loop (TxnScan B t k k) [])"

section \<open>Sorted sets\<close>

text \<open>A member has two entries: its score under the member's key, and a key ordered by score.\<close>

fun zclear_loop :: "('d, 't) badger \<Rightarrow> bytes \<Rightarrow> bytes list \<Rightarrow> ('t, unit) act" where
  "zclear_loop B k [] t = (t, Ok ())"
| "zclear_loop B k (key # keys) t =
     (case dZetScore key of
        Err e \<Rightarrow> (t, Err e)
      | Panic \<Rightarrow> (t, Panic)
      | Ok (score, v) \<Rightarrow>
          abind (del_tx B (eZetKey k v)) (\<lambda>_.
          abind (del_tx B (eZetScore k v score)) (\<lambda>_. zclear_loop B k keys)) t)"

definition zclear :: "('d, 't) badger \<Rightarrow> bytes \<Rightarrow> ('t, unit) act" where
  "zclear B k t =
     (let key = eZetPrefix k in zclear_loop B k (map fst (TxnScan B t key key)) t)"

definition zdel :: "('d, 't) badger \<Rightarrow> bytes \<Rightarrow> bytes \<Rightarrow> ('t, unit) act" where
  "zdel B k v t =
     (let key = eZetKey k v in
      case get_tx B t key of
        Err e \<Rightarrow> (t, Err e)
      | Panic \<Rightarrow> (t, Panic)
      | Ok buf \<Rightarrow>
          abind (del_tx B key) (\<lambda>_.
          let score = or_zero 0 (D32func buf) in del_tx B (eZetScore k v score)) t)"

definition zscore :: "('d, 't) badger \<Rightarrow> 't \<Rightarrow> bytes \<Rightarrow> bytes \<Rightarrow> u32 outcome" where
  "zscore B t k v = obind (get_tx B t (eZetKey k v)) (\<lambda>buf. Ok (or_zero 0 (D32func buf)))"

definition zadd :: "('d, 't) badger \<Rightarrow> bytes \<Rightarrow> u32 \<Rightarrow> bytes \<Rightarrow> ('t, unit) act" where
  "zadd B k score v =
     abind (set_tx B (eZetKey k v) (E32func score)) (\<lambda>_. set_tx B (eZetScore k v score) [])"

fun zrange_loop :: "u32 \<Rightarrow> bytes list \<Rightarrow> bytes list \<Rightarrow> bytes list outcome" where
  "zrange_loop end [] vs = Ok vs"
| "zrange_loop end (key # keys) vs =
     obind (dZetScore key) (\<lambda>(score, v).
       if sint end < sint score then Ok vs else zrange_loop end keys (vs @ [Dup v]))"

definition zrange :: "('d, 't) badger \<Rightarrow> 't \<Rightarrow> bytes \<Rightarrow> u32 \<Rightarrow> u32 \<Rightarrow> bytes list outcome" where
  "zrange B t k start end =
     (let key = eZetPrefix k
      in zrange_loop end (map fst (TxnScan B t key (eZetScore k [] start))) [])"

end
