(* ===== verification/BgMaps.thy ===== *)
theory BgMaps
  imports BgStore
begin

text \<open>
  What the plain-key, map, set and sorted-set operations of the store do to the transaction's
  view, proved once from the laws of the key-value engine.
\<close>

lemma abind_done: "snd (m t) = Ok x \<Longrightarrow> abind m f t = f x (fst (m t))"
  by (cases "m t") (simp add: abind_def)

context badger begin

lemma get_tx_view:
  "k \<noteq> [] \<Longrightarrow> get_tx B t k = (case view t k of Some v \<Rightarrow> Ok v | None \<Rightarrow> Err NotExist)"
  by (cases "view t k") (simp_all add: get_tx_def get_present get_absent)

lemma get_tx_no_panic: "get_tx B t k \<noteq> Panic"
proof (cases "k = []")
  case True
  then show ?thesis
    using get_empty [of t] by (auto simp: get_tx_def)
next
  case False
  then show ?thesis
    by (simp add: get_tx_view split: option.splits)
qed

lemma mget_view:
  "mget B t m k = (case view t (eMapKey m k) of Some v \<Rightarrow> Ok v | None \<Rightarrow> Err NotExist)"
  by (simp add: mget_def get_tx_view)

lemma selem_view: "selem B t k v = Ok (view t (eSetKey k v) \<noteq> None)"
  by (simp add: selem_def get_tx_view split: option.splits)

text \<open>The keys under a prefix, in the order of what follows the prefix.\<close>

lemma sorted_keys_image:
  fixes f :: "bytes \<Rightarrow> bytes"
  assumes mono: "\<And>a b. f a \<le> f b \<longleftrightarrow> a \<le> b" and fin: "finite A"
  shows "sorted_list_of_set (f ` A) = map f (sorted_list_of_set A)"
proof -
  have inj: "inj_on f A"
    by (rule inj_onI) (metis mono order.antisym order.refl)
  have "sorted (map f (sorted_list_of_set A))" "distinct (map f (sorted_list_of_set A))"
    using fin by (simp_all add: sorted_map mono distinct_map inj)
  moreover have "set (map f (sorted_list_of_set A)) = f ` A"
    using fin by simp
  ultimately show ?thesis
    by (metis sorted_list_of_set.idem_if_sorted_distinct)
qed

lemma scan_prefix:
  fixes f :: "bytes \<Rightarrow> bytes"
  assumes mono: "\<And>a b. f a \<le> f b \<longleftrightarrow> a \<le> b"
    and pre: "\<And>x. prefix p x \<longleftrightarrow> (\<exists>k. x = f k)" and least: "p = f []"
  shows "TxnScan B t p p =
      map (\<lambda>k. (f k, Ok (the (view t (f k))))) (sorted_list_of_set {k. view t (f k) \<noteq> None})"
    and "finite {k. view t (f k) \<noteq> None}"
proof -
  have inj: "inj f"
    by (rule injI) (metis mono order.antisym order.refl)
  have eq: "{x \<in> dom (view t). prefix p x \<and> p \<le> x} = f ` {k. view t (f k) \<noteq> None}"
    unfolding pre by (auto simp: least mono)
  have "finite (f ` {k. view t (f k) \<noteq> None})"
    unfolding eq [symmetric] using finite_view [of t] by simp
  then show fin: "finite {k. view t (f k) \<noteq> None}"
    using inj by (simp add: finite_image_iff inj_on_subset)
  show "TxnScan B t p p =
      map (\<lambda>k. (f k, Ok (the (view t (f k))))) (sorted_list_of_set {k. view t (f k) \<noteq> None})"
    unfolding scan eq sorted_keys_image [OF mono fin] by (simp add: comp_def)
qed

lemmas scan_map = scan_prefix [OF eMapKey_le prefix_eMapKey refl]

lemmas scan_set = scan_prefix [OF eSetKey_le prefix_eSetKey refl]

lemma mkeys_loop_keys:
  "length m + 9 < 2 ^ 32 \<Longrightarrow>
    mkeys_loop (map (\<lambda>k. (eMapKey m k, g k)) xs) acc = Ok (acc @ xs)"
  by (induction xs arbitrary: acc) simp_all

lemma mvals_loop_vals:
  "mvals_loop (map (\<lambda>k. (f k, Ok (g k))) xs) acc = Ok (acc @ map g xs)"
  by (induction xs arbitrary: acc) simp_all

lemma mkvs_loop_pairs:
  "length m + 9 < 2 ^ 32 \<Longrightarrow>
    mkvs_loop (map (\<lambda>k. (eMapKey m k, Ok (g k))) xs) ks vs = Ok (ks @ xs, vs @ map g xs)"
  by (induction xs arbitrary: ks vs) simp_all

lemma smembers_loop_members:
  "length m + 9 < 2 ^ 32 \<Longrightarrow>
    smembers_loop (map (\<lambda>k. (eSetKey m k, g k)) xs) acc = Ok (acc @ xs)"
  by (induction xs arbitrary: acc) simp_all

lemma mkvs_view:
  assumes "length m + 9 < 2 ^ 32"
  shows "mkvs B t m =
      (let ks = sorted_list_of_set {k. view t (eMapKey m k) \<noteq> None}
       in Ok (ks, map (\<lambda>k. the (view t (eMapKey m k))) ks))"
  using assms by (simp add: mkvs_def Let_def scan_map mkvs_loop_pairs)

lemma mkeys_view:
  assumes "length m + 9 < 2 ^ 32"
  shows "mkeys B t m = Ok (sorted_list_of_set {k. view t (eMapKey m k) \<noteq> None})"
  using assms by (simp add: mkeys_def Let_def scan_map mkeys_loop_keys)

lemma mvals_view:
  "mvals B t m = Ok (map (\<lambda>k. the (view t (eMapKey m k)))
      (sorted_list_of_set {k. view t (eMapKey m k) \<noteq> None}))"
  by (simp add: mvals_def Let_def scan_map mvals_loop_vals)

lemma smembers_view:
  assumes "length k + 9 < 2 ^ 32"
  shows "smembers B t k = Ok (sorted_list_of_set {v. view t (eSetKey k v) \<noteq> None})"
  using assms by (simp add: smembers_def Let_def scan_set smembers_loop_members)

end

section \<open>Writes\<close>

context roomy_badger begin

lemma set_tx_done [simp]: "k \<noteq> [] \<Longrightarrow> snd (set_tx B k v t) = Ok ()"
  by (simp add: set_tx_def set_succeeds)

lemma set_tx_view [simp]:
  assumes "k \<noteq> []"
  shows "view (fst (set_tx B k v t)) = (view t)(k \<mapsto> v)"
    "writes (fst (set_tx B k v t)) = (writes t)(k \<mapsto> Some v)"
  using set_room [OF assms, of v t] unfolding set_tx_def by (metis fst_conv)+

lemma del_tx_done [simp]: "k \<noteq> [] \<Longrightarrow> snd (del_tx B k t) = Ok ()"
  by (simp add: del_tx_def delete_succeeds)

lemma del_tx_view [simp]:
  assumes "k \<noteq> []"
  shows "view (fst (del_tx B k t)) = (view t)(k := None)"
    "writes (fst (del_tx B k t)) = (writes t)(k \<mapsto> None)"
  using delete_room [OF assms, of t] unfolding del_tx_def by (metis fst_conv)+

lemma del_each_view:
  assumes "[] \<notin> set ks"
  shows "snd (del_each B ks t) = Ok ()"
    "view (fst (del_each B ks t)) = (\<lambda>x. if x \<in> set ks then None else view t x)"
  using assms by (induction ks arbitrary: t) (auto simp: abind_done fun_eq_iff)

lemma mclear_view:
  "snd (mclear B m t) = Ok ()"
  "view (fst (mclear B m t)) = (\<lambda>x. if prefix (eMapKey m []) x then None else view t x)"
proof -
  let ?ks = "map fst (TxnScan B t (eMapKey m []) (eMapKey m []))"
  have ks: "set ?ks = eMapKey m ` {k. view t (eMapKey m k) \<noteq> None}"
    by (simp only: scan_map map_map comp_def fst_conv list.set_map
        set_sorted_list_of_set [OF scan_map(2)])
  then have ne: "[] \<notin> set ?ks" by (metis imageE keys_nonempty(3,4))
  show "snd (mclear B m t) = Ok ()"
    unfolding mclear_def Let_def by (rule del_each_view(1) [OF ne])
  show "view (fst (mclear B m t)) = (\<lambda>x. if prefix (eMapKey m []) x then None else view t x)"
    unfolding mclear_def Let_def del_each_view(2) [OF ne] ks
    by (rule ext) (auto simp: prefix_eMapKey)
qed

lemma sclear_view:
  "snd (sclear B m t) = Ok ()"
  "view (fst (sclear B m t)) = (\<lambda>x. if prefix (eSetKey m []) x then None else view t x)"
proof -
  let ?ks = "map fst (TxnScan B t (eSetKey m []) (eSetKey m []))"
  have ks: "set ?ks = eSetKey m ` {k. view t (eSetKey m k) \<noteq> None}"
    by (simp only: scan_set map_map comp_def fst_conv list.set_map
        set_sorted_list_of_set [OF scan_set(2)])
  then have ne: "[] \<notin> set ?ks" by (metis imageE keys_nonempty(3,4))
  show "snd (sclear B m t) = Ok ()"
    unfolding sclear_def Let_def by (rule del_each_view(1) [OF ne])
  show "view (fst (sclear B m t)) = (\<lambda>x. if prefix (eSetKey m []) x then None else view t x)"
    unfolding sclear_def Let_def del_each_view(2) [OF ne] ks
    by (rule ext) (auto simp: prefix_eSetKey)
qed

lemma mset_tx_done [simp]: "snd (mset_tx B m k v t) = Ok ()"
  by (simp add: mset_tx_def)

lemma mset_tx_view [simp]:
  "view (fst (mset_tx B m k v t)) = (view t)(eMapKey m k \<mapsto> v)"
  by (simp add: mset_tx_def)

lemma mdel_done [simp]: "snd (mdel B m k t) = Ok ()"
  by (simp add: mdel_def)

lemma mdel_view [simp]:
  "view (fst (mdel B m k t)) = (view t)(eMapKey m k := None)"
  by (simp add: mdel_def)

lemma zadd_view:
  "snd (zadd B k s v t) = Ok ()"
  "view (fst (zadd B k s v t)) =
    (view t)(eZetKey k v \<mapsto> E32func s, eZetScore k v s \<mapsto> [])"
  by (simp_all add: zadd_def abind_done)

lemma zscore_zadd: "zscore B (fst (zadd B k s v t)) k v = Ok s"
proof -
  have "eZetKey k v \<noteq> eZetScore k v s"
    by (rule notI, drule arg_cong [of _ _ hd], simp)
  then show ?thesis
    by (simp add: zscore_def get_tx_view zadd_view)
qed

lemma zdel_view:
  assumes "view t (eZetKey k v) = Some (E32func s)"
  shows "snd (zdel B k v t) = Ok ()"
    "view (fst (zdel B k v t)) = (view t)(eZetKey k v := None, eZetScore k v s := None)"
  using assms by (simp_all add: zdel_def Let_def get_tx_view abind_done)

end

end
