(* ===== verification/BgLists.thy ===== *)
theory BgLists
  imports BgMaps
begin

text \<open>
  The store's lists against the abstract double-ended queue. \<open>list_at\<close> says that a view holds a
  given list between given bounds, \<open>deque_step\<close> is what a queue promises, and \<open>store_step\<close> is the
  store's push or pop; the simulation carries every sequence of operations.
\<close>

section \<open>The list a view holds\<close>

definition list_at :: "(bytes \<Rightarrow> bytes option) \<Rightarrow> bytes \<Rightarrow> i64 \<Rightarrow> i64 \<Rightarrow> bytes list \<Rightarrow> bool" where
  "list_at v k s e xs \<longleftrightarrow>
     v (eListMetaKey k) = Some (eListMetaValue s e) \<and>
     sint e = sint s + int (length xs) \<and>
     (\<forall>i < length xs. v (eListKey k (s + of_nat i)) = Some (xs ! i))"

lemma sint_bounds: "- (2 ^ 63) \<le> sint (w :: i64)" "sint (w :: i64) < 2 ^ 63"
  using sint_ge [of w] sint_lt [of w] by simp_all

lemma sint_plus_nat:
  assumes "sint (s :: i64) + int i < 2 ^ 63"
  shows "sint (s + of_nat i) = sint s + int i"
proof -
  have "sint (s + of_nat i) = signed_take_bit 63 (sint s + int i)"
    by (simp add: sint_word_ariths signed_of_nat)
      (metis signed_take_bit_add signed_take_bit_signed_take_bit min.idem)
  then show ?thesis
    using assms sint_bounds [of s] by (simp add: signed_take_bit_int_eq_self)
qed

lemma sint_minus_one:
  assumes "- (2 ^ 63) < sint (s :: i64)"
  shows "sint (s - 1) = sint s - 1"
  using assms sint_bounds [of s] by (simp add: sint_word_ariths signed_take_bit_int_eq_self)

lemma sint_eq_iff: "(a :: i64) = b \<longleftrightarrow> sint a = sint b"
  by (auto intro: signed_word_eqI)

lemma list_at_index_neq:
  assumes "list_at v k s e xs" "i < length xs"
  shows "s + of_nat i \<noteq> e" "sint s + int i < 2 ^ 63"
proof -
  have "sint s + int i < sint e"
    using assms by (simp add: list_at_def)
  then show b: "sint s + int i < 2 ^ 63"
    using sint_bounds(2) [of e] by simp
  show "s + of_nat i \<noteq> e"
    using \<open>sint s + int i < sint e\<close> sint_plus_nat [OF b] by auto
qed

lemma list_at_empty: "list_at v k s s [] \<longleftrightarrow> v (eListMetaKey k) = Some (eListMetaValue s s)"
  by (simp add: list_at_def)

lemma list_at_empty_iff: "list_at v k s e xs \<Longrightarrow> s = e \<longleftrightarrow> xs = []"
  by (auto simp: list_at_def sint_eq_iff)

text \<open>How the four operations change the bounds and the entries.\<close>

lemma list_at_append:
  assumes l: "list_at v k s e xs" and b: "sint e < 2 ^ 63 - 1"
  shows "list_at (v(eListKey k e \<mapsto> x, eListMetaKey k \<mapsto> eListMetaValue s (e + 1))) k s (e + 1)
    (xs @ [x])"
proof -
  have e: "sint (e + 1) = sint e + 1"
    using sint_plus_nat [of e 1] b by simp
  have eq: "s + of_nat (length xs) = e"
  proof -
    have "sint s + int (length xs) < 2 ^ 63"
      using l sint_bounds(2) [of e] by (simp add: list_at_def)
    from sint_plus_nat [OF this] l show ?thesis
      by (simp add: list_at_def sint_eq_iff)
  qed
  show ?thesis
    using l e eq list_at_index_neq(1) [OF l]
    by (auto simp: list_at_def nth_append less_Suc_eq)
qed

lemma list_at_prepend:
  assumes l: "list_at v k s e xs" and b: "- (2 ^ 63) < sint s"
  shows "list_at (v(eListKey k (s - 1) \<mapsto> x, eListMetaKey k \<mapsto> eListMetaValue (s - 1) e)) k (s - 1) e
    (x # xs)"
proof -
  have "1 + word_of_nat i \<noteq> (0 :: i64)" if "i < length xs" for i
  proof -
    have "sint (s - 1) + int (Suc i) < 2 ^ 63"
      using that l sint_bounds(2) [of e] sint_minus_one [OF b] by (simp add: list_at_def)
    from sint_plus_nat [OF this] show ?thesis
      by (metis add.right_neutral less_irrefl of_nat_0_less_iff of_nat_Suc zero_less_Suc
          less_add_same_cancel1)
  qed
  then show ?thesis
    using l sint_minus_one [OF b]
    by (auto simp: list_at_def nth_Cons split: nat.split)
qed

lemma list_at_tail:
  assumes l: "list_at v k s e (x # xs)"
  shows "list_at (v(eListMetaKey k \<mapsto> eListMetaValue (s + 1) e)) k (s + 1) e xs"
    "v (eListKey k s) = Some x"
proof -
  have "sint (s + 1) = sint s + 1"
    using sint_plus_nat [of s 1] l sint_bounds(2) [of e] by (simp add: list_at_def)
  moreover have "v (eListKey k (s + 1 + of_nat i)) = Some (xs ! i)" if "i < length xs" for i
    using l that unfolding list_at_def by (auto dest!: spec [of _ "Suc i"] simp: add.assoc)
  ultimately show "list_at (v(eListMetaKey k \<mapsto> eListMetaValue (s + 1) e)) k (s + 1) e xs"
    using l by (simp add: list_at_def)
  show "v (eListKey k s) = Some x"
    using l by (auto simp: list_at_def dest!: spec [of _ 0])
qed

lemma list_at_butlast:
  assumes l: "list_at v k s e (xs @ [x])"
  shows "list_at (v(eListMetaKey k \<mapsto> eListMetaValue s (e - 1))) k s (e - 1) xs"
    "v (eListKey k (e - 1)) = Some x"
proof -
  have e: "sint (e - 1) = sint e - 1"
    using l sint_bounds(1) [of s] by (intro sint_minus_one) (simp add: list_at_def)
  then show "list_at (v(eListMetaKey k \<mapsto> eListMetaValue s (e - 1))) k s (e - 1) xs"
    using l by (auto simp: list_at_def nth_append)
  have b: "sint s + int (length xs) < 2 ^ 63"
    using l sint_bounds(2) [of e] by (simp add: list_at_def)
  have "s + of_nat (length xs) = e - 1"
    using sint_plus_nat [OF b] l e by (simp add: list_at_def sint_eq_iff)
  with l show "v (eListKey k (e - 1)) = Some x"
    by (auto simp: list_at_def dest!: spec [of _ "length xs"])
qed

lemma list_at_length: "list_at v k s e xs \<Longrightarrow> e - s = of_nat (length xs)"
proof -
  assume l: "list_at v k s e xs"
  then have b: "sint s + int (length xs) < 2 ^ 63"
    using sint_bounds(2) [of e] by (simp add: list_at_def)
  have "s + of_nat (length xs) = e"
    using sint_plus_nat [OF b] l by (simp add: list_at_def sint_eq_iff)
  then show ?thesis by (simp add: algebra_simps)
qed

section \<open>The operations\<close>

context badger begin

lemma listStartEnd_at: "list_at (view t) k s e xs \<Longrightarrow> listStartEnd B t k = Ok (s, e)"
  by (simp add: listStartEnd_def list_at_def get_tx_view)

lemma listStartEnd_absent:
  "view t (eListMetaKey k) = None \<Longrightarrow> listStartEnd B t k = Err NotExist"
  by (simp add: listStartEnd_def get_tx_view)

lemma llen_at: "list_at (view t) k s e xs \<Longrightarrow> llen B t k = Ok (of_nat (length xs))"
  by (simp add: llen_def listStartEnd_at list_at_length)

lemma lindex_at_zero:
  assumes l: "list_at (view t) k 0 e xs" and i: "i < length xs"
  shows "lindex B t k (of_nat i) = Ok (xs ! i)"
proof -
  have "sint (of_nat i :: i64) = int i"
    using sint_plus_nat [of 0 i] list_at_index_neq(2) [OF l i] by simp
  then show ?thesis
    using l i unfolding lindex_def listStartEnd_at [OF l] by (simp add: list_at_def get_tx_view)
qed

end

context roomy_badger begin

lemma push_bounds_at: "list_at (view t) k s e xs \<Longrightarrow> push_bounds B k t = (t, Ok (s, e))"
  by (simp add: push_bounds_def listStartEnd_at)

lemma push_bounds_new:
  assumes "view t (eListMetaKey k) = None"
  shows "snd (push_bounds B k t) = Ok (0, 0)" "list_at (view (fst (push_bounds B k t))) k 0 0 []"
  using assms
  by (simp_all add: push_bounds_def listStartEnd_absent lnew_def abind_done list_at_empty)

lemma lrpush_bounds:
  assumes p: "snd (push_bounds B k t) = Ok (s, e)"
    and l: "list_at (view (fst (push_bounds B k t))) k s e xs" and b: "sint e < 2 ^ 63 - 1"
  shows "snd (lrpush B k v t) = Ok (of_nat (length xs + 1))"
    "list_at (view (fst (lrpush B k v t))) k s (e + 1) (xs @ [v])"
proof -
  have "s \<noteq> e + 1"
    using sint_plus_nat [of e 1] b l by (auto simp: sint_eq_iff list_at_def)
  then show "snd (lrpush B k v t) = Ok (of_nat (length xs + 1))"
    "list_at (view (fst (lrpush B k v t))) k s (e + 1) (xs @ [v])"
    using list_at_append [OF l b] list_at_length [OF l]
    by (simp_all add: lrpush_def abind_done p)
qed

lemma llpush_bounds:
  assumes p: "snd (push_bounds B k t) = Ok (s, e)"
    and l: "list_at (view (fst (push_bounds B k t))) k s e xs" and b: "- (2 ^ 63) < sint s"
  shows "snd (llpush B k v t) = Ok (of_nat (length xs + 1))"
    "list_at (view (fst (llpush B k v t))) k (s - 1) e (v # xs)"
proof -
  have "s - 1 \<noteq> e"
    using sint_minus_one [OF b] l by (auto simp: sint_eq_iff list_at_def)
  then show "snd (llpush B k v t) = Ok (of_nat (length xs + 1))"
    "list_at (view (fst (llpush B k v t))) k (s - 1) e (v # xs)"
    using list_at_prepend [OF l b] list_at_length [OF l]
    by (simp_all add: llpush_def abind_done p)
qed

lemma llpop_at:
  assumes l: "list_at (view t) k s e (x # xs)"
  shows "snd (llpop B k t) = Ok x" "list_at (view (fst (llpop B k t))) k (s + 1) e xs"
  using list_at_tail [OF l] list_at_empty_iff [OF l]
  by (simp_all add: llpop_def listStartEnd_at [OF l] get_tx_view abind_done)

lemma lrpop_at:
  assumes l: "list_at (view t) k s e (xs @ [x])"
  shows "snd (lrpop B k t) = Ok x" "list_at (view (fst (lrpop B k t))) k s (e - 1) xs"
  using list_at_butlast [OF l] list_at_empty_iff [OF l]
  by (simp_all add: lrpop_def listStartEnd_at [OF l] get_tx_view abind_done)

lemma pop_empty:
  assumes l: "list_at (view t) k s e []"
  shows "llpop B k t = (t, Err OutOfSize)" "lrpop B k t = (t, Err OutOfSize)"
  using list_at_empty_iff [OF l]
  by (simp_all add: llpop_def lrpop_def listStartEnd_at [OF l])

lemma pop_absent:
  assumes "view t (eListMetaKey k) = None"
  shows "llpop B k t = (t, Err NotExist)" "lrpop B k t = (t, Err NotExist)"
  by (simp_all add: llpop_def lrpop_def listStartEnd_absent assms)

end

section \<open>The abstract deque and the simulation\<close>

datatype list_op = PushL bytes | PushR bytes | PopL | PopR

datatype list_res = Pushed "i64 outcome" | Popped "bytes outcome"

text \<open>What a list promises. \<open>None\<close>: the list was never pushed to.\<close>

fun deque_step :: "list_op \<Rightarrow> bytes list option \<Rightarrow> bytes list option \<times> list_res" where
  "deque_step (PushL v) q =
     (let xs = (case q of None \<Rightarrow> [] | Some xs \<Rightarrow> xs) in (Some (v # xs), Pushed (Ok (of_nat (length xs + 1)))))"
| "deque_step (PushR v) q =
     (let xs = (case q of None \<Rightarrow> [] | Some xs \<Rightarrow> xs) in (Some (xs @ [v]), Pushed (Ok (of_nat (length xs + 1)))))"
| "deque_step PopL None = (None, Popped (Err NotExist))"
| "deque_step PopL (Some []) = (Some [], Popped (Err OutOfSize))"
| "deque_step PopL (Some (x # xs)) = (Some xs, Popped (Ok x))"
| "deque_step PopR None = (None, Popped (Err NotExist))"
| "deque_step PopR (Some []) = (Some [], Popped (Err OutOfSize))"
| "deque_step PopR (Some (x # xs)) = (Some (butlast (x # xs)), Popped (Ok (last (x # xs))))"

lemma deque_step_PopR_snoc: "deque_step PopR (Some (xs @ [x])) = (Some xs, Popped (Ok x))"
  by (cases xs) simp_all

fun deque_run :: "list_op list \<Rightarrow> bytes list option \<Rightarrow> bytes list option \<times> list_res list" where
  "deque_run [] q = (q, [])"
| "deque_run (p # ps) q =
     (let (q1, r) = deque_step p q; (q2, rs) = deque_run ps q1 in (q2, r # rs))"

text \<open>The same operations on the list \<open>k\<close> of the store.\<close>

fun store_step :: "('d, 't) badger \<Rightarrow> bytes \<Rightarrow> list_op \<Rightarrow> 't \<Rightarrow> 't \<times> list_res" where
  "store_step B k (PushL v) t = map_prod id Pushed (llpush B k v t)"
| "store_step B k (PushR v) t = map_prod id Pushed (lrpush B k v t)"
| "store_step B k PopL t = map_prod id Popped (llpop B k t)"
| "store_step B k PopR t = map_prod id Popped (lrpop B k t)"

fun store_run :: "('d, 't) badger \<Rightarrow> bytes \<Rightarrow> list_op list \<Rightarrow> 't \<Rightarrow> 't \<times> list_res list" where
  "store_run B k [] t = (t, [])"
| "store_run B k (p # ps) t =
     (let (t1, r) = store_step B k p t; (t2, rs) = store_run B k ps t1 in (t2, r # rs))"

text \<open>The view holds the queue, with both bounds at most \<open>n\<close> away from zero.\<close>

definition list_repr :: "(bytes \<Rightarrow> bytes option) \<Rightarrow> bytes \<Rightarrow> bytes list option \<Rightarrow> nat \<Rightarrow> bool" where
  "list_repr v k q n \<longleftrightarrow>
     (case q of
        None \<Rightarrow> v (eListMetaKey k) = None
      | Some xs \<Rightarrow> \<exists>s e. list_at v k s e xs \<and> - int n \<le> sint s \<and> sint e \<le> int n)"

lemma list_reprI:
  "list_at v k s e xs \<Longrightarrow> - int n \<le> sint s \<Longrightarrow> sint e \<le> int n \<Longrightarrow> list_repr v k (Some xs) n"
  by (auto simp: list_repr_def)

context roomy_badger begin

lemma push_bounds_repr:
  assumes "list_repr (view t) k q n"
  obtains s e where "snd (push_bounds B k t) = Ok (s, e)"
    "list_at (view (fst (push_bounds B k t))) k s e (case q of None \<Rightarrow> [] | Some xs \<Rightarrow> xs)"
    "- int n \<le> sint s" "sint e \<le> int n"
proof (cases q)
  case None
  then have "view t (eListMetaKey k) = None"
    using assms by (simp add: list_repr_def)
  from push_bounds_new [OF this] None show ?thesis
    by (intro that [of 0 0]) simp_all
next
  case (Some xs)
  then obtain s e where "list_at (view t) k s e xs" "- int n \<le> sint s" "sint e \<le> int n"
    using assms by (auto simp: list_repr_def)
  with Some show ?thesis
    by (intro that [of s e]) (simp_all add: push_bounds_at)
qed

lemma list_repr_grow: "list_at v k s e xs \<Longrightarrow> - int n \<le> sint s \<Longrightarrow> sint e \<le> int n \<Longrightarrow>
    list_repr v k (Some xs) (Suc n)"
  by (rule list_reprI) auto

lemma store_step_simulates:
  assumes r: "list_repr (view t) k q n" and n: "Suc n < 2 ^ 63"
  shows "snd (store_step B k p t) = snd (deque_step p q) \<and>
    list_repr (view (fst (store_step B k p t))) k (fst (deque_step p q)) (Suc n)"
proof (cases p)
  case (PushL v)
  obtain s e where p: "snd (push_bounds B k t) = Ok (s, e)"
    and l: "list_at (view (fst (push_bounds B k t))) k s e (case q of None \<Rightarrow> [] | Some xs \<Rightarrow> xs)"
    and b: "- int n \<le> sint s" "sint e \<le> int n"
    by (rule push_bounds_repr [OF r])
  have s: "- (2 ^ 63) < sint s" using b n by simp
  show ?thesis
    using llpush_bounds [OF p l s, of v] b sint_minus_one [OF s]
    by (simp add: PushL Let_def list_reprI)
next
  case (PushR v)
  obtain s e where p: "snd (push_bounds B k t) = Ok (s, e)"
    and l: "list_at (view (fst (push_bounds B k t))) k s e (case q of None \<Rightarrow> [] | Some xs \<Rightarrow> xs)"
    and b: "- int n \<le> sint s" "sint e \<le> int n"
    by (rule push_bounds_repr [OF r])
  have e: "sint e < 2 ^ 63 - 1" using b n by simp
  show ?thesis
    using lrpush_bounds [OF p l e, of v] b sint_plus_nat [of e 1] e
    by (simp add: PushR Let_def list_reprI)
next
  case PopL
  show ?thesis
  proof (cases q)
    case None
    with r show ?thesis by (simp add: PopL list_repr_def pop_absent)
  next
    case (Some ys)
    then obtain s e where l: "list_at (view t) k s e ys" "- int n \<le> sint s" "sint e \<le> int n"
      using r by (auto simp: list_repr_def)
    show ?thesis
    proof (cases ys)
      case Nil
      with l Some show ?thesis by (simp add: PopL pop_empty list_repr_grow)
    next
      case (Cons x xs)
      have "sint (s + 1) = sint s + 1"
        using sint_plus_nat [of s 1] l n Cons by (simp add: list_at_def)
      then show ?thesis
        using llpop_at [of t k s e x xs] l Some Cons by (simp add: PopL list_reprI)
    qed
  qed
next
  case PopR
  show ?thesis
  proof (cases q)
    case None
    with r show ?thesis by (simp add: PopR list_repr_def pop_absent)
  next
    case (Some ys)
    then obtain s e where l: "list_at (view t) k s e ys" "- int n \<le> sint s" "sint e \<le> int n"
      using r by (auto simp: list_repr_def)
    show ?thesis
    proof (cases ys rule: rev_cases)
      case Nil
      with l Some show ?thesis by (simp add: PopR pop_empty list_repr_grow)
    next
      case (snoc xs x)
      have "sint (e - 1) = sint e - 1"
        using sint_minus_one [of e] l n snoc by (simp add: list_at_def)
      then show ?thesis
        using lrpop_at [of t k s e xs x] l Some snoc
        by (simp add: PopR list_reprI deque_step_PopR_snoc)
    qed
  qed
qed

lemma store_run_simulates:
  assumes "list_repr (view t) k q n" "n + length ps < 2 ^ 63"
  shows "snd (store_run B k ps t) = snd (deque_run ps q) \<and>
    list_repr (view (fst (store_run B k ps t))) k (fst (deque_run ps q)) (n + length ps)"
  using assms
proof (induction ps arbitrary: t q n)
  case Nil
  then show ?case by simp
next
  case (Cons p ps)
  have step: "snd (store_step B k p t) = snd (deque_step p q)"
    "list_repr (view (fst (store_step B k p t))) k (fst (deque_step p q)) (Suc n)"
    using store_step_simulates [OF Cons.prems(1)] Cons.prems(2) by auto
  from Cons.IH [OF step(2)] Cons.prems(2) step(1) show ?case
    by (simp add: Let_def split_beta)
qed

end

end
