(* ===== verification/StoreApi.thy ===== *)
theory StoreApi
  imports BgLists
begin

text \<open>
  The interfaces \<open>store.DB\<close> and \<open>store.Transaction\<close> of \<open>until/store/types.go\<close> as records of
  operations, and the two values \<open>bg.go\<close> provides for them. The rest of the program works against
  these records only. The locale \<open>store_tx\<close> states what the ledger and the contract executor rely
  on; the interpretation discharges it for \<open>bgTransaction\<close> over any engine with room.
\<close>

section \<open>The interfaces\<close>

record ('d, 't) Transaction =
  tx_Commit :: "'t \<Rightarrow> ('d, unit) act"
  tx_Cancel :: "('t, unit) act"
  tx_Del :: "bytes \<Rightarrow> ('t, unit) act"
  tx_Set :: "bytes \<Rightarrow> bytes \<Rightarrow> ('t, unit) act"
  tx_Get :: "'t \<Rightarrow> bytes \<Rightarrow> bytes outcome"
  tx_Mclear :: "bytes \<Rightarrow> ('t, unit) act"
  tx_Mdel :: "bytes \<Rightarrow> bytes \<Rightarrow> ('t, unit) act"
  tx_Mkeys :: "'t \<Rightarrow> bytes \<Rightarrow> bytes list outcome"
  tx_Mvals :: "'t \<Rightarrow> bytes \<Rightarrow> bytes list outcome"
  tx_Mset :: "bytes \<Rightarrow> bytes \<Rightarrow> bytes \<Rightarrow> ('t, unit) act"
  tx_Mget :: "'t \<Rightarrow> bytes \<Rightarrow> bytes \<Rightarrow> bytes outcome"
  tx_Mkvs :: "'t \<Rightarrow> bytes \<Rightarrow> (bytes list \<times> bytes list) outcome"
  tx_Llen :: "'t \<Rightarrow> bytes \<Rightarrow> i64 outcome"
  tx_Lclear :: "bytes \<Rightarrow> ('t, unit) act"
  tx_Llpop :: "bytes \<Rightarrow> ('t, bytes) act"
  tx_Lrpop :: "bytes \<Rightarrow> ('t, bytes) act"
  tx_Lset :: "bytes \<Rightarrow> i64 \<Rightarrow> bytes \<Rightarrow> ('t, unit) act"
  tx_Lrpush :: "bytes \<Rightarrow> bytes \<Rightarrow> ('t, i64) act"
  tx_Llpush :: "bytes \<Rightarrow> bytes \<Rightarrow> ('t, i64) act"
  tx_Lindex :: "'t \<Rightarrow> bytes \<Rightarrow> i64 \<Rightarrow> bytes outcome"
  tx_Lrange :: "'t \<Rightarrow> bytes \<Rightarrow> i64 \<Rightarrow> i64 \<Rightarrow> bytes list outcome option"
  tx_Sclear :: "bytes \<Rightarrow> ('t, unit) act"
  tx_Sadd :: "bytes \<Rightarrow> bytes \<Rightarrow> ('t, unit) act"
  tx_Sdel :: "bytes \<Rightarrow> bytes \<Rightarrow> ('t, unit) act"
  tx_Smembers :: "'t \<Rightarrow> bytes \<Rightarrow> bytes list outcome"
  tx_Selem :: "'t \<Rightarrow> bytes \<Rightarrow> bytes \<Rightarrow> bool outcome"
  tx_Zclear :: "bytes \<Rightarrow> ('t, unit) act"
  tx_Zdel :: "bytes \<Rightarrow> bytes \<Rightarrow> ('t, unit) act"
  tx_Zadd :: "bytes \<Rightarrow> u32 \<Rightarrow> bytes \<Rightarrow> ('t, unit) act"
  tx_Zscore :: "'t \<Rightarrow> bytes \<Rightarrow> bytes \<Rightarrow> u32 outcome"
  tx_Zrange :: "'t \<Rightarrow> bytes \<Rightarrow> u32 \<Rightarrow> u32 \<Rightarrow> bytes list outcome"

record ('d, 't) DB =
  db_Del :: "bytes \<Rightarrow> ('d, unit) act"
  db_Set :: "bytes \<Rightarrow> bytes \<Rightarrow> ('d, unit) act"
  db_Get :: "'d \<Rightarrow> bytes \<Rightarrow> bytes outcome"
  db_Mclear :: "bytes \<Rightarrow> ('d, unit) act"
  db_Mdel :: "bytes \<Rightarrow> bytes \<Rightarrow> ('d, unit) act"
  db_Mkeys :: "'d \<Rightarrow> bytes \<Rightarrow> bytes list outcome"
  db_Mvals :: "'d \<Rightarrow> bytes \<Rightarrow> bytes list outcome"
  db_Mset :: "bytes \<Rightarrow> bytes \<Rightarrow> bytes \<Rightarrow> ('d, unit) act"
  db_Mget :: "'d \<Rightarrow> bytes \<Rightarrow> bytes \<Rightarrow> bytes outcome"
  db_Mkvs :: "'d \<Rightarrow> bytes \<Rightarrow> (bytes list \<times> bytes list) outcome"
  db_Llen :: "'d \<Rightarrow> bytes \<Rightarrow> i64 outcome"
  db_Lclear :: "bytes \<Rightarrow> ('d, unit) act"
  db_Llpop :: "bytes \<Rightarrow> ('d, bytes) act"
  db_Lrpop :: "bytes \<Rightarrow> ('d, bytes) act"
  db_Lset :: "bytes \<Rightarrow> i64 \<Rightarrow> bytes \<Rightarrow> ('d, unit) act"
  db_Lrpush :: "bytes \<Rightarrow> bytes \<Rightarrow> ('d, i64) act"
  db_Llpush :: "bytes \<Rightarrow> bytes \<Rightarrow> ('d, i64) act"
  db_Lindex :: "'d \<Rightarrow> bytes \<Rightarrow> i64 \<Rightarrow> bytes outcome"
  db_Lrange :: "'d \<Rightarrow> bytes \<Rightarrow> i64 \<Rightarrow> i64 \<Rightarrow> bytes list outcome option"
  db_Sclear :: "bytes \<Rightarrow> ('d, unit) act"
  db_Sadd :: "bytes \<Rightarrow> bytes \<Rightarrow> ('d, unit) act"
  db_Sdel :: "bytes \<Rightarrow> bytes \<Rightarrow> ('d, unit) act"
  db_Smembers :: "'d \<Rightarrow> bytes \<Rightarrow> bytes list outcome"
  db_Selem :: "'d \<Rightarrow> bytes \<Rightarrow> bytes \<Rightarrow> bool outcome"
  db_Zclear :: "bytes \<Rightarrow> ('d, unit) act"
  db_Zdel :: "bytes \<Rightarrow> bytes \<Rightarrow> ('d, unit) act"
  db_Zadd :: "bytes \<Rightarrow> u32 \<Rightarrow> bytes \<Rightarrow> ('d, unit) act"
  db_Zscore :: "'d \<Rightarrow> bytes \<Rightarrow> bytes \<Rightarrow> u32 outcome"
  db_Zrange :: "'d \<Rightarrow> bytes \<Rightarrow> u32 \<Rightarrow> u32 \<Rightarrow> bytes list outcome"
  db_NewTransaction :: "'d \<Rightarrow> 't"

section \<open>What bg.go provides\<close>

text \<open>Every \<open>bgTransaction\<close> method calls the operation of the same name on its badger transaction.\<close>

definition bgTransaction :: "('d, 't) badger \<Rightarrow> ('d, 't) Transaction" where
  "bgTransaction B = \<lparr>
     tx_Commit = TxnCommit B,
     tx_Cancel = aret (),
     tx_Del = del_tx B,
     tx_Set = set_tx B,
     tx_Get = get_tx B,
     tx_Mclear = mclear B,
     tx_Mdel = mdel B,
     tx_Mkeys = mkeys B,
     tx_Mvals = mvals B,
     tx_Mset = mset_tx B,
     tx_Mget = mget B,
     tx_Mkvs = mkvs B,
     tx_Llen = llen B,
     tx_Lclear = llclear B,
     tx_Llpop = llpop B,
     tx_Lrpop = lrpop B,
     tx_Lset = lset B,
     tx_Lrpush = lrpush B,
     tx_Llpush = llpush B,
     tx_Lindex = lindex B,
     tx_Lrange = lrange B,
     tx_Sclear = sclear B,
     tx_Sadd = sadd B,
     tx_Sdel = sdel B,
     tx_Smembers = smembers B,
     tx_Selem = selem B,
     tx_Zclear = zclear B,
     tx_Zdel = zdel B,
     tx_Zadd = zadd B,
     tx_Zscore = zscore B,
     tx_Zrange = zrange B \<rparr>"

text \<open>
  The shape of every updating \<open>bgStore\<close> method: a new transaction, the operation, an early return
  when it fails, then the commit, whose error replaces the result.
\<close>

definition db_update :: "('d, 't) badger \<Rightarrow> ('t, 'a) act \<Rightarrow> ('d, 'a) act" where
  "db_update B op d =
     (case op (NewTransaction B d True) of
        (tx, Err e) \<Rightarrow> (d, Err e)
      | (tx, Panic) \<Rightarrow> (d, Panic)
      | (tx, Ok x) \<Rightarrow> abind (TxnCommit B tx) (\<lambda>_. aret x) d)"

text \<open>The shape of every reading method: a read-only transaction.\<close>

definition db_view :: "('d, 't) badger \<Rightarrow> ('t \<Rightarrow> 'r) \<Rightarrow> 'd \<Rightarrow> 'r" where
  "db_view B op d = op (NewTransaction B d False)"

text \<open>The methods on sets and sorted sets, and two on lists.\<close>

definition bg_Lset where
  "bg_Lset B = (\<lambda>k i v. db_update B (lset B k i v))"

definition bg_Lindex where
  "bg_Lindex B = (\<lambda>d k i. db_view B (\<lambda>t. lindex B t k i) d)"

definition bg_Sclear where
  "bg_Sclear B = (\<lambda>k. db_update B (sclear B k))"

definition bg_Sadd where
  "bg_Sadd B = (\<lambda>k v. db_update B (sadd B k v))"

definition bg_Sdel where
  "bg_Sdel B = (\<lambda>k v. db_update B (sdel B k v))"

definition bg_Smembers where
  "bg_Smembers B = (\<lambda>d k. db_view B (\<lambda>t. smembers B t k) d)"

definition bg_Selem where
  "bg_Selem B = (\<lambda>d k v. db_view B (\<lambda>t. selem B t k v) d)"

definition bg_Zclear where
  "bg_Zclear B = (\<lambda>k. db_update B (zclear B k))"

definition bg_Zdel where
  "bg_Zdel B = (\<lambda>k v. db_update B (zdel B k v))"

definition bg_Zadd where
  "bg_Zadd B = (\<lambda>k s v. db_update B (zadd B k s v))"

definition bg_Zscore where
  "bg_Zscore B = (\<lambda>d k v. db_view B (\<lambda>t. zscore B t k v) d)"

definition bg_Zrange where
  "bg_Zrange B = (\<lambda>d k i j. db_view B (\<lambda>t. zrange B t k i j) d)"

definition bgStore :: "('d, 't) badger \<Rightarrow> ('d, 't) DB" where
  "bgStore B = \<lparr>
     db_Del = (\<lambda>k. db_update B (del_tx B k)),
     db_Set = (\<lambda>k v. db_update B (set_tx B k v)),
     db_Get = (\<lambda>d k. db_view B (\<lambda>t. get_tx B t k) d),
     db_Mclear = (\<lambda>m. db_update B (mclear B m)),
     db_Mdel = (\<lambda>m k. db_update B (mdel B m k)),
     db_Mkeys = (\<lambda>d m. db_view B (\<lambda>t. mkeys B t m) d),
     db_Mvals = (\<lambda>d m. db_view B (\<lambda>t. mvals B t m) d),
     db_Mset = (\<lambda>m k v. db_update B (mset_tx B m k v)),
     db_Mget = (\<lambda>d m k. db_view B (\<lambda>t. mget B t m k) d),
     db_Mkvs = (\<lambda>d m. db_view B (\<lambda>t. mkvs B t m) d),
     db_Llen = (\<lambda>d k. db_view B (\<lambda>t. llen B t k) d),
     db_Lclear = (\<lambda>k. db_update B (llclear B k)),
     db_Llpop = (\<lambda>k. db_update B (llpop B k)),
     db_Lrpop = (\<lambda>k. db_update B (lrpop B k)),
     db_Lset = bg_Lset B,
     db_Lrpush = (\<lambda>k v. db_update B (lrpush B k v)),
     db_Llpush = (\<lambda>k v. db_update B (llpush B k v)),
     db_Lindex = bg_Lindex B,
     db_Lrange = (\<lambda>d k i j. db_view B (\<lambda>t. lrange B t k i j) d),
     db_Sclear = bg_Sclear B,
     db_Sadd = bg_Sadd B,
     db_Sdel = bg_Sdel B,
     db_Smembers = bg_Smembers B,
     db_Selem = bg_Selem B,
     db_Zclear = bg_Zclear B,
     db_Zdel = bg_Zdel B,
     db_Zadd = bg_Zadd B,
     db_Zscore = bg_Zscore B,
     db_Zrange = bg_Zrange B,
     db_NewTransaction = (\<lambda>d. NewTransaction B d True) \<rparr>"

section \<open>What the ledger relies on\<close>

text \<open>
  \<open>seen t\<close> is the content the transaction sees, by flat key, and \<open>pending t\<close> its writes; a map
  entry is the flat key \<open>eMapKey m k\<close>. Writes to non-empty keys succeed, and a commit lays the
  pending writes over the stored content.
\<close>

definition overlay :: "(bytes \<Rightarrow> bytes option option) \<Rightarrow> (bytes \<Rightarrow> bytes option) \<Rightarrow> bytes \<Rightarrow> bytes option" where
  "overlay w c k = (case w k of None \<Rightarrow> c k | Some x \<Rightarrow> x)"

lemma overlay_empty [simp]: "overlay Map.empty c = c"
  by (rule ext) (simp add: overlay_def)

lemma overlay_upd [simp]: "overlay (w(k \<mapsto> x)) c = (overlay w c)(k := x)"
  by (rule ext) (simp add: overlay_def)

locale store_tx =
  fixes D :: "('d, 't) DB" and T :: "('d, 't) Transaction"
    and seen :: "'t \<Rightarrow> bytes \<Rightarrow> bytes option"
    and pending :: "'t \<Rightarrow> bytes \<Rightarrow> bytes option option"
    and stored :: "'d \<Rightarrow> bytes \<Rightarrow> bytes option"
  assumes seen_new: "seen (db_NewTransaction D d) = stored d"
    and pending_new: "pending (db_NewTransaction D d) = Map.empty"
    and get_seen: "k \<noteq> [] \<Longrightarrow> tx_Get T t k = (case seen t k of Some v \<Rightarrow> Ok v | None \<Rightarrow> Err NotExist)"
    and mget_seen: "tx_Mget T t m k = (case seen t (eMapKey m k) of Some v \<Rightarrow> Ok v | None \<Rightarrow> Err NotExist)"
    and get_stored: "k \<noteq> [] \<Longrightarrow> db_Get D d k = (case stored d k of Some v \<Rightarrow> Ok v | None \<Rightarrow> Err NotExist)"
    and mget_stored: "db_Mget D d m k = (case stored d (eMapKey m k) of Some v \<Rightarrow> Ok v | None \<Rightarrow> Err NotExist)"
    and set_ok: "k \<noteq> [] \<Longrightarrow> snd (tx_Set T k v t) = Ok ()"
    and set_seen: "k \<noteq> [] \<Longrightarrow> seen (fst (tx_Set T k v t)) = (seen t)(k \<mapsto> v)"
    and del_ok: "k \<noteq> [] \<Longrightarrow> snd (tx_Del T k t) = Ok ()"
    and del_seen: "k \<noteq> [] \<Longrightarrow> seen (fst (tx_Del T k t)) = (seen t)(k := None)"
    and mset_ok: "snd (tx_Mset T m k v t) = Ok ()"
    and mset_seen: "seen (fst (tx_Mset T m k v t)) = (seen t)(eMapKey m k \<mapsto> v)"
    and mdel_ok: "snd (tx_Mdel T m k t) = Ok ()"
    and mdel_seen: "seen (fst (tx_Mdel T m k t)) = (seen t)(eMapKey m k := None)"
    and set_pending: "k \<noteq> [] \<Longrightarrow> pending (fst (tx_Set T k v t)) = (pending t)(k \<mapsto> Some v)"
    and del_pending: "k \<noteq> [] \<Longrightarrow> pending (fst (tx_Del T k t)) = (pending t)(k \<mapsto> None)"
    and mset_pending: "pending (fst (tx_Mset T m k v t)) = (pending t)(eMapKey m k \<mapsto> Some v)"
    and mdel_pending: "pending (fst (tx_Mdel T m k t)) = (pending t)(eMapKey m k \<mapsto> None)"
    and set_empty: "snd (tx_Set T [] v t) \<noteq> Ok ()"
    and commit_ok: "snd (tx_Commit T t d) = Ok ()"
    and commit_stored: "stored (fst (tx_Commit T t d)) = overlay (pending t) (stored d)"

context store_tx begin

lemmas reads = get_seen mget_seen get_stored mget_stored

lemmas writes_seen = set_seen del_seen mset_seen mdel_seen

lemmas writes_pending = set_pending del_pending mset_pending mdel_pending

lemmas writes_ok = set_ok del_ok mset_ok mdel_ok

text \<open>
  A transaction opened on a database is in step with it: what it sees is its writes over the
  stored content, so a commit stores exactly what it sees.
\<close>

lemma in_step_new: "seen (db_NewTransaction D d) = overlay (pending (db_NewTransaction D d)) (stored d)"
  by (simp add: seen_new pending_new)

lemma commit_in_step:
  "seen t = overlay (pending t) (stored d) \<Longrightarrow> stored (fst (tx_Commit T t d)) = seen t"
  by (simp add: commit_stored)

end

lemma bg_fields [simp]:
  "tx_Commit (bgTransaction B) = TxnCommit B" "tx_Get (bgTransaction B) = get_tx B"
  "tx_Set (bgTransaction B) = set_tx B" "tx_Del (bgTransaction B) = del_tx B"
  "tx_Mset (bgTransaction B) = mset_tx B" "tx_Mget (bgTransaction B) = mget B"
  "tx_Mdel (bgTransaction B) = mdel B" "tx_Mkvs (bgTransaction B) = mkvs B"
  "db_Get (bgStore B) = (\<lambda>d k. get_tx B (NewTransaction B d False) k)"
  "db_Mget (bgStore B) = (\<lambda>d m k. mget B (NewTransaction B d False) m k)"
  "db_NewTransaction (bgStore B) = (\<lambda>d. NewTransaction B d True)"
  "db_Set (bgStore B) = (\<lambda>k v. db_update B (set_tx B k v))"
  "db_Mset (bgStore B) = (\<lambda>m k v. db_update B (mset_tx B m k v))"
  by (simp_all add: bgTransaction_def bgStore_def db_view_def)

context roomy_badger begin

lemma store_tx_bg: "store_tx (bgStore B) (bgTransaction B) view writes contents"
proof (unfold_locales, goal_cases)
  case (19 v t)
  show ?case
    using set_done [of "[]" v t "fst (TxnSet B [] v t)"]
    by (cases "TxnSet B [] v t") (auto simp: set_tx_def)
next
  case (21 t d)
  show ?case
    using commit_succeeds [of t d] commit_done [of t d "fst (TxnCommit B t d)"]
    by (cases "TxnCommit B t d") (auto simp: overlay_def)
qed (simp_all add: view_new writes_new get_tx_view mget_view commit_succeeds mset_tx_def mdel_def)

end

lemmas bg_store_tx = roomy_badger.store_tx_bg

interpretation ms: store_tx "bgStore map_badger" "bgTransaction map_badger" mview
  "\<lambda>t. fmlookup (snd t)" fmlookup
  by (rule bg_store_tx [OF map_badger_roomy])

sublocale roomy_badger \<subseteq> store: store_tx "bgStore B" "bgTransaction B" view writes contents
  by (rule store_tx_bg)

section \<open>Transactions are atomic\<close>

context roomy_badger begin

lemma db_update_contents:
  assumes "snd (op (NewTransaction B d True)) = Ok x"
  shows "snd (db_update B op d) = Ok x"
    "contents (fst (db_update B op d)) =
      (\<lambda>k. case writes (fst (op (NewTransaction B d True))) k of None \<Rightarrow> contents d k | Some w \<Rightarrow> w)"
proof -
  obtain tx where op: "op (NewTransaction B d True) = (tx, Ok x)"
    using assms by (cases "op (NewTransaction B d True)") auto
  show "snd (db_update B op d) = Ok x"
    using op commit_succeeds [of tx d] by (simp add: db_update_def abind_done)
  show "contents (fst (db_update B op d)) =
      (\<lambda>k. case writes (fst (op (NewTransaction B d True))) k of None \<Rightarrow> contents d k | Some w \<Rightarrow> w)"
    using op commit_succeeds [of tx d] commit_done [of tx d "fst (TxnCommit B tx d)"]
    by (cases "TxnCommit B tx d") (simp add: db_update_def abind_done)
qed

end

text \<open>A failing operation leaves the database untouched.\<close>

lemma db_update_failed:
  assumes "snd (op (NewTransaction B d True)) = Err e"
  shows "db_update B op d = (d, Err e)"
  using assms by (cases "op (NewTransaction B d True)") (simp add: db_update_def)

end
