(* ===== verification/StoreSpec.thy ===== *)
theory StoreSpec
  imports StoreApi
begin

text \<open>
  The store's properties, over any key-value engine with room: what a map returns after a write,
  what a scan lists, what \<open>mclear\<close> removes, and that a list is a double-ended queue. Each has an
  instance on the finite-map engine.
\<close>

section \<open>Maps\<close>

text \<open>A read of a map entry after a write to a map returns the written value under the same
  map and key, and what it returned before under any other, so maps never interfere with each
  other.\<close>

theorem map_get_after_set:
  assumes "roomy_badger B view writes contents" "length m < 2 ^ 32" "length m' < 2 ^ 32"
  shows "mget B (fst (mset_tx B m k v t)) m' k' =
    (if m' = m \<and> k' = k then Ok v else mget B t m' k')"
proof -
  have b: "badger B view writes contents"
    using assms(1) by (simp add: roomy_badger_def)
  have key: "eMapKey m' k' = eMapKey m k \<longleftrightarrow> m' = m \<and> k' = k"
    by (rule eMapKey_inject [OF assms(3,2)])
  show ?thesis
    by (auto simp: badger.mget_view [OF b] roomy_badger.mset_tx_view [OF assms(1)] key)
qed

theorem map_get_after_set_witness:
  "mget map_badger (fst (mset_tx map_badger [1] [2] [3] (fmempty, fmempty))) [1] [2] = Ok [3]"
  using map_get_after_set [OF map_badger_roomy, of "[1]" "[1]" "[2]" "[3]" _ "[2]"] by simp

text \<open>C17: \<open>mkvs\<close> lists the entries of a map completely: its keys ascending and without repetition,
  next to each key the value a read of that key returns, and no key that a read would not find.\<close>

theorem map_listing_complete:
  assumes "badger B view writes contents" "length m + 9 < 2 ^ 32"
  shows "\<exists>ks vs. mkvs B t m = Ok (ks, vs) \<and> mkeys B t m = Ok ks \<and> mvals B t m = Ok vs \<and>
    sorted ks \<and> distinct ks \<and> length vs = length ks \<and>
    (\<forall>k v. (k, v) \<in> set (zip ks vs) \<longleftrightarrow> mget B t m k = Ok v)"
proof -
  let ?A = "{k. view t (eMapKey m k) \<noteq> None}" and ?f = "\<lambda>k. the (view t (eMapKey m k))"
  let ?ks = "sorted_list_of_set ?A"
  have fin: "finite ?A" by (rule badger.scan_map(2) [OF assms(1)])
  have "(k, v) \<in> set (zip ?ks (map ?f ?ks)) \<longleftrightarrow> mget B t m k = Ok v" for k v
    using set_sorted_list_of_set [OF fin]
    by (auto simp: zip_map2 zip_same_conv_map badger.mget_view [OF assms(1)] split: option.splits)
  then show ?thesis
    by (simp add: badger.mkvs_view [OF assms] badger.mkeys_view [OF assms]
        badger.mvals_view [OF assms(1)] Let_def)
qed

theorem map_listing_complete_witness:
  "\<exists>ks vs. mkvs map_badger (fmupd (eMapKey [1] [2]) [3] fmempty, fmempty) [1] = Ok (ks, vs) \<and> sorted ks \<and>
    (\<forall>k v. (k, v) \<in> set (zip ks vs) \<longleftrightarrow>
      mget map_badger (fmupd (eMapKey [1] [2]) [3] fmempty, fmempty) [1] k = Ok v)"
  using map_listing_complete [OF map_badger_laws, of "[1]" "(fmupd (eMapKey [1] [2]) [3] fmempty, fmempty)"]
  by auto

text \<open>\<open>mclear\<close> empties exactly one map: afterwards no key of it is found, and every entry of
  every other map and every list reads as before.\<close>

theorem map_clear_exact:
  assumes "roomy_badger B view writes contents" "length m < 2 ^ 32" "length m' < 2 ^ 32" "m' \<noteq> m"
  shows "snd (mclear B m t) = Ok () \<and>
    mget B (fst (mclear B m t)) m k = Err NotExist \<and>
    mget B (fst (mclear B m t)) m' k' = mget B t m' k' \<and>
    llen B (fst (mclear B m t)) l = llen B t l"
proof -
  have b: "badger B view writes contents"
    using assms(1) by (simp add: roomy_badger_def)
  have "prefix (eMapKey m []) (eMapKey m k)"
    by (auto simp: prefix_eMapKey)
  moreover have "\<not> prefix (eMapKey m []) (eMapKey m' k')"
    using assms(4) by (auto simp: prefix_eMapKey eMapKey_inject [OF assms(3,2)])
  moreover have "\<not> prefix (eMapKey m []) (eListMetaKey l)"
    using map_key_apart(1) by (auto simp: prefix_eMapKey dest: sym)
  ultimately show ?thesis
    by (simp add: roomy_badger.mclear_view [OF assms(1)] badger.mget_view [OF b] llen_def
        listStartEnd_def badger.get_tx_view [OF b])
qed

theorem map_clear_exact_witness:
  "mget map_badger (fst (mclear map_badger [1] (fmupd (eMapKey [1] [2]) [3] fmempty, fmempty))) [1] [2] =
    Err NotExist"
  using map_clear_exact [OF map_badger_roomy, of "[1]" "[4]"
      "(fmupd (eMapKey [1] [2]) [3] fmempty, fmempty)" "[2]"] by simp

section \<open>Lists\<close>

text \<open>C16: Any sequence of fewer than \<open>2^63\<close> pushes and pops at both ends of a list that does not
  exist yet returns exactly what the abstract double-ended queue returns, lengths and errors
  included.\<close>

theorem list_refines_deque:
  assumes "roomy_badger B view writes contents" "view t (eListMetaKey k) = None"
    "length ops < 2 ^ 63"
  shows "snd (store_run B k ops t) = snd (deque_run ops None)"
  using roomy_badger.store_run_simulates [OF assms(1), of t k None 0 ops] assms(2,3)
  by (simp add: list_repr_def)

theorem list_refines_deque_witness:
  "snd (store_run map_badger [7] [PushR [1], PushL [2], PopR, PopR, PopR] (fmempty, fmempty)) =
    [Pushed (Ok 1), Pushed (Ok 2), Popped (Ok [1]), Popped (Ok [2]), Popped (Err OutOfSize)]"
  using list_refines_deque [OF map_badger_roomy, of "(fmempty, fmempty)" "[7]"
      "[PushR [1], PushL [2], PopR, PopR, PopR]"]
  by simp

text \<open>\<open>lindex\<close> and \<open>lset\<close> add the start bound twice: on a list built by one push at the left end,
  index 0 is not found although the list has one element, and a value stored at index 0 cannot be
  popped.\<close>

theorem list_index_after_left_push:
  assumes "roomy_badger B view writes contents" "view t (eListMetaKey k) = None"
    "view t (eListKey k (- 2)) = None"
  shows "llen B (fst (llpush B k v t)) k = Ok 1 \<and>
    lindex B (fst (llpush B k v t)) k 0 = Err NotExist \<and>
    snd (llpop B k (fst (lset B k 0 w (fst (llpush B k v t))))) = Ok v"
proof -
  have b: "badger B view writes contents"
    using assms(1) by (simp add: roomy_badger_def)
  let ?t = "fst (llpush B k v t)"
  note new = roomy_badger.push_bounds_new [OF assms(1,2)]
  have l: "list_at (view ?t) k (- 1) 0 [v]"
    using roomy_badger.llpush_bounds(2) [OF assms(1) new, of v] by simp
  have view: "view ?t = (view t)(eListMetaKey k \<mapsto> eListMetaValue (- 1) 0, eListKey k (- 1) \<mapsto> v)"
    using new
    by (simp add: llpush_def abind_done push_bounds_def badger.listStartEnd_absent [OF b assms(2)]
        lnew_def roomy_badger.set_tx_view [OF assms(1)] roomy_badger.set_tx_done [OF assms(1)]
        fun_upd_twist)
  have idx: "lindex B ?t k 0 = Err NotExist"
    using assms(3)
    by (simp add: lindex_def badger.listStartEnd_at [OF b l] badger.get_tx_view [OF b] view)
  have "list_at (view (fst (lset B k 0 w ?t))) k (- 1) 0 [v]"
    using l
    by (simp add: lset_def badger.listStartEnd_at [OF b l] roomy_badger.set_tx_view [OF assms(1)]
        list_at_def)
  from roomy_badger.llpop_at(1) [OF assms(1) this] idx badger.llen_at [OF b l] show ?thesis
    by simp
qed

theorem list_index_after_left_push_witness:
  "lindex map_badger (fst (llpush map_badger [7] [9] (fmempty, fmempty))) [7] 0 = Err NotExist"
  using list_index_after_left_push [OF map_badger_roomy, of "(fmempty, fmempty)" "[7]" "[9]"]
  by simp

section \<open>Sorted sets\<close>

text \<open>After \<open>zadd\<close> the member's score is the one given, whatever it was before; deleting the
  member then removes both of its entries and reports no error.\<close>

theorem zset_score_after_add:
  assumes "roomy_badger B view writes contents"
  shows "zscore B (fst (zadd B k s v t)) k v = Ok s \<and>
    snd (zdel B k v (fst (zadd B k s v t))) = Ok () \<and>
    zscore B (fst (zdel B k v (fst (zadd B k s v t)))) k v = Err NotExist"
proof -
  have b: "badger B view writes contents"
    using assms by (simp add: roomy_badger_def)
  have ne: "eZetKey k v \<noteq> eZetScore k v s"
    by (rule notI, drule arg_cong [of _ _ hd], simp)
  have "view (fst (zadd B k s v t)) (eZetKey k v) = Some (E32func s)"
    using ne by (simp add: roomy_badger.zadd_view [OF assms])
  note del = roomy_badger.zdel_view [OF assms this]
  show ?thesis
    using ne by (simp add: roomy_badger.zscore_zadd [OF assms] del)
      (simp add: zscore_def badger.get_tx_view [OF b] del)
qed

theorem zset_score_after_add_witness:
  "zscore map_badger (fst (zadd map_badger [1] 5 [2] (fmempty, fmempty))) [1] [2] = Ok 5"
  using zset_score_after_add [OF map_badger_roomy, of "[1]" 5 "[2]" "(fmempty, fmempty)"] by simp

end
