(* ===== verification/Base58.thy ===== *)
theory Base58
  imports Miscellaneous
begin

text \<open>
  The modified base-58 codec of \<open>until/base58.go\<close>, and the address strings built on it
  (\<open>until/privkey.go\<close>, \<open>types/address.go\<close>, \<open>transaction/wallet.go\<close>). \<open>math/big\<close> integers are
  natural numbers; \<open>Decode\<close> and \<open>Encode\<close> keep the loops of the source. The checksum of
  \<open>CheckEncode\<close> takes the hash (SHA-256 in the source) as an argument.
\<close>

section \<open>The alphabet\<close>

definition alphabet :: bytes where
  "alphabet = lit ''123456789ABCDEFGHJKLMNPQRSTUVWXYZabcdefghijkmnopqrstuvwxyz''"

definition alphabetIdx0 :: byte where
  "alphabetIdx0 = 49"

definition b58 :: "nat list" where
  "b58 =
     [255, 255, 255, 255, 255, 255, 255, 255, 255, 255, 255, 255, 255, 255, 255, 255,
      255, 255, 255, 255, 255, 255, 255, 255, 255, 255, 255, 255, 255, 255, 255, 255,
      255, 255, 255, 255, 255, 255, 255, 255, 255, 255, 255, 255, 255, 255, 255, 255,
      255, 0, 1, 2, 3, 4, 5, 6, 7, 8, 255, 255, 255, 255, 255, 255,
      255, 9, 10, 11, 12, 13, 14, 15, 16, 255, 17, 18, 19, 20, 21, 255,
      22, 23, 24, 25, 26, 27, 28, 29, 30, 31, 32, 255, 255, 255, 255, 255,
      255, 33, 34, 35, 36, 37, 38, 39, 40, 41, 42, 43, 255, 44, 45, 46,
      47, 48, 49, 50, 51, 52, 53, 54, 55, 56, 57, 255, 255, 255, 255, 255,
      255, 255, 255, 255, 255, 255, 255, 255, 255, 255, 255, 255, 255, 255, 255, 255,
      255, 255, 255, 255, 255, 255, 255, 255, 255, 255, 255, 255, 255, 255, 255, 255,
      255, 255, 255, 255, 255, 255, 255, 255, 255, 255, 255, 255, 255, 255, 255, 255,
      255, 255, 255, 255, 255, 255, 255, 255, 255, 255, 255, 255, 255, 255, 255, 255,
      255, 255, 255, 255, 255, 255, 255, 255, 255, 255, 255, 255, 255, 255, 255, 255,
      255, 255, 255, 255, 255, 255, 255, 255, 255, 255, 255, 255, 255, 255, 255, 255,
      255, 255, 255, 255, 255, 255, 255, 255, 255, 255, 255, 255, 255, 255, 255, 255,
      255, 255, 255, 255, 255, 255, 255, 255, 255, 255, 255, 255, 255, 255, 255, 255]"

section \<open>Big integers\<close>

text \<open>\<open>big.Int.SetBytes\<close> and \<open>big.Int.Bytes\<close>: big-endian, the latter with no leading zero byte.\<close>

definition big_SetBytes :: "bytes \<Rightarrow> nat" where
  "big_SetBytes b = foldl (\<lambda>x c. 256 * x + unat c) 0 b"

fun big_le :: "nat \<Rightarrow> bytes" where
  "big_le n = (if n = 0 then [] else of_nat (n mod 256) # big_le (n div 256))"

declare big_le.simps [simp del]

definition big_Bytes :: "nat \<Rightarrow> bytes" where
  "big_Bytes n = rev (big_le n)"

section \<open>Decode and Encode\<close>

text \<open>
  The loop of \<open>Decode\<close> runs over the string from its last byte to its first, with the running
  sum \<open>answer\<close> and the weight \<open>j\<close>; a byte outside the alphabet ends it (\<^term>\<open>None\<close>).
\<close>

fun Decode_loop :: "bytes \<Rightarrow> nat \<Rightarrow> nat \<Rightarrow> nat option" where
  "Decode_loop [] answer j = Some answer"
| "Decode_loop (c # cs) answer j =
     (let tmp = b58 ! unat c in
      if tmp = 255 then None else Decode_loop cs (answer + j * tmp) (j * 58))"

definition leading :: "byte \<Rightarrow> bytes \<Rightarrow> nat" where
  "leading z b = length (takeWhile (\<lambda>c. c = z) b)"

definition Decode :: "gostring \<Rightarrow> bytes" where
  "Decode b =
     (case Decode_loop (rev b) 0 1 of
        None \<Rightarrow> []
      | Some answer \<Rightarrow>
          let tmpval = big_Bytes answer; numZeros = leading alphabetIdx0 b
          in replicate numZeros 0 @ tmpval)"

fun Encode_loop :: "nat \<Rightarrow> bytes" where
  "Encode_loop x = (if x = 0 then [] else alphabet ! (x mod 58) # Encode_loop (x div 58))"

declare Encode_loop.simps [simp del]

definition Encode :: "bytes \<Rightarrow> gostring" where
  "Encode b =
     (let answer = Encode_loop (big_SetBytes b);
          answer = answer @ replicate (leading 0 b) alphabetIdx0
      in rev answer)"

section \<open>Positional notation\<close>

text \<open>Values and digit lists in a radix, least significant digit first.\<close>

fun radix_val :: "nat \<Rightarrow> nat list \<Rightarrow> nat" where
  "radix_val r [] = 0"
| "radix_val r (d # ds) = d + r * radix_val r ds"

function radix_digits :: "nat \<Rightarrow> nat \<Rightarrow> nat list" where
  "radix_digits r n = (if n = 0 \<or> r < 2 then [] else n mod r # radix_digits r (n div r))"
  by pat_completeness auto
termination by (relation "measure snd") (auto intro: div_less_dividend)

declare radix_digits.simps [simp del]

lemma radix_digits_0 [simp]: "radix_digits r 0 = []"
  by (simp add: radix_digits.simps)

lemma radix_digits_pos:
  "0 < n \<Longrightarrow> 2 \<le> r \<Longrightarrow> radix_digits r n = n mod r # radix_digits r (n div r)"
  by (simp add: radix_digits.simps)

lemma radix_digits_Nil_iff: "2 \<le> r \<Longrightarrow> radix_digits r n = [] \<longleftrightarrow> n = 0"
  by (cases "n = 0") (simp_all add: radix_digits_pos)

lemma radix_val_digits: "2 \<le> r \<Longrightarrow> radix_val r (radix_digits r n) = n"
proof (induction r n rule: radix_digits.induct)
  case (1 r n)
  then show ?case
    by (cases "n = 0") (simp_all add: radix_digits_pos)
qed

lemma radix_digits_less: "2 \<le> r \<Longrightarrow> d \<in> set (radix_digits r n) \<Longrightarrow> d < r"
proof (induction r n rule: radix_digits.induct)
  case (1 r n)
  then show ?case
    by (cases "n = 0") (auto simp: radix_digits_pos)
qed

lemma last_radix_digits: "2 \<le> r \<Longrightarrow> 0 < n \<Longrightarrow> last (radix_digits r n) \<noteq> 0"
proof (induction r n rule: radix_digits.induct)
  case (1 r n)
  show ?case
  proof (cases "n div r = 0")
    case True
    with 1 show ?thesis
      by (auto simp: radix_digits_pos div_eq_0_iff)
  next
    case False
    with 1 show ?thesis
      by (simp add: radix_digits_pos radix_digits_Nil_iff)
  qed
qed

lemma radix_digits_val:
  assumes "2 \<le> r" "\<forall>d \<in> set ds. d < r" "ds \<noteq> [] \<longrightarrow> last ds \<noteq> 0"
  shows "radix_digits r (radix_val r ds) = ds"
  using assms
proof (induction ds)
  case Nil
  show ?case by simp
next
  case (Cons d ds)
  have IH: "radix_digits r (radix_val r ds) = ds"
    using Cons by (cases ds) auto
  have pos: "0 < d + r * radix_val r ds"
  proof (cases "ds = []")
    case True
    with Cons.prems show ?thesis by simp
  next
    case False
    then have "radix_val r ds \<noteq> 0"
      using IH by (metis radix_digits_0)
    with Cons.prems show ?thesis by simp
  qed
  show ?case
    using Cons.prems pos by (simp add: radix_digits_pos IH)
qed

lemma radix_val_append_zeros [simp]: "radix_val r (ds @ replicate k 0) = radix_val r ds"
proof -
  have "radix_val r (replicate k 0) = 0" by (induction k) simp_all
  then show ?thesis by (induction ds) simp_all
qed

lemma radix_val_bound: "2 \<le> r \<Longrightarrow> \<forall>d \<in> set ds. d < r \<Longrightarrow> radix_val r ds < r ^ length ds"
proof (induction ds)
  case Nil
  show ?case by simp
next
  case (Cons d ds)
  then have "Suc (radix_val r ds) \<le> r ^ length ds" by simp
  then have "r * Suc (radix_val r ds) \<le> r * r ^ length ds"
    by (rule mult_le_mono2)
  with Cons.prems show ?case by simp
qed

lemma radix_digits_length: "2 \<le> r \<Longrightarrow> n < r ^ k \<Longrightarrow> length (radix_digits r n) \<le> k"
proof (induction k arbitrary: n)
  case 0
  then show ?case by simp
next
  case (Suc k)
  then have "n div r < r ^ k"
    by (simp add: div_less_iff_less_mult mult.commute)
  with Suc show ?case
    by (cases "n = 0") (simp_all add: radix_digits_pos)
qed

section \<open>The loops in positional notation\<close>

lemma big_SetBytes_val: "big_SetBytes b = radix_val 256 (rev (map unat b))"
proof (induction b rule: rev_induct)
  case Nil
  show ?case by (simp add: big_SetBytes_def)
next
  case (snoc c b)
  then show ?case by (simp add: big_SetBytes_def)
qed

lemma big_le_digits: "map unat (big_le n) = radix_digits 256 n"
proof (induction n rule: big_le.induct)
  case (1 n)
  then show ?case
    by (cases "n = 0") (simp_all add: big_le.simps [of n] big_le.simps [of 0] radix_digits_pos unat_of_nat_small)
qed

lemma Encode_loop_digits: "Encode_loop n = map (\<lambda>d. alphabet ! d) (radix_digits 58 n)"
proof (induction n rule: Encode_loop.induct)
  case (1 n)
  then show ?case
    by (cases "n = 0") (simp_all add: Encode_loop.simps [of n] Encode_loop.simps [of 0] radix_digits_pos)
qed

lemma unat_byte_less: "unat (c :: byte) < 256"
  using unsigned_less [of c] by simp

lemma map_unat_inject: "map unat (xs :: bytes) = map unat ys \<longleftrightarrow> xs = ys"
  by (rule inj_map_eq_map) (simp add: inj_on_def word_unat_eq_iff)

section \<open>The two tables agree\<close>

lemma length_alphabet: "length alphabet = 58"
  by code_simp

lemma length_b58: "length b58 = 256"
  by (simp add: b58_def)

lemma alphabet_nats:
  "map unat alphabet =
     [49, 50, 51, 52, 53, 54, 55, 56, 57, 65, 66, 67, 68, 69, 70, 71, 72, 74, 75, 76, 77, 78, 80, 81,
      82, 83, 84, 85, 86, 87, 88, 89, 90, 97, 98, 99, 100, 101, 102, 103, 104, 105, 106, 107, 109, 110,
      111, 112, 113, 114, 115, 116, 117, 118, 119, 120, 121, 122]"
  by (simp add: alphabet_def lit_def)

lemma b58_alphabet_all:
  "list_all (\<lambda>(d, c). b58 ! c = d) (zip [0..<58] (map unat alphabet))"
  unfolding alphabet_nats by (simp add: b58_def upt_conv_Cons)

lemma alphabet_b58_all:
  "list_all (\<lambda>(c, d). d = 255 \<or> d < 58 \<and> map unat alphabet ! d = c) (zip [0..<256] b58)"
  unfolding alphabet_nats by (simp add: b58_def upt_conv_Cons)

lemma b58_alphabet:
  assumes "d < 58"
  shows "b58 ! unat (alphabet ! d) = d"
proof -
  have "(d, unat (alphabet ! d)) \<in> set (zip [0..<58] (map unat alphabet))"
    using assms by (auto simp: in_set_zip length_alphabet intro!: exI [of _ d])
  with b58_alphabet_all show ?thesis
    by (fastforce simp: list_all_iff)
qed

lemma alphabet_b58:
  assumes "b58 ! unat c \<noteq> 255"
  shows "b58 ! unat c < 58" "alphabet ! (b58 ! unat c) = c"
proof -
  have "(unat c, b58 ! unat c) \<in> set (zip [0..<256] b58)"
    using unat_byte_less [of c] by (auto simp: in_set_zip length_b58 intro!: exI [of _ "unat c"])
  with alphabet_b58_all assms
  have *: "b58 ! unat c < 58 \<and> map unat alphabet ! (b58 ! unat c) = unat c"
    by (fastforce simp: list_all_iff)
  then show "b58 ! unat c < 58" by simp
  from * show "alphabet ! (b58 ! unat c) = c"
    by (metis length_alphabet nth_map word_unat_eq_iff)
qed

lemma alphabet_0: "alphabet ! 0 = alphabetIdx0"
  by code_simp

lemma alphabet_eq_idx0: "d < 58 \<Longrightarrow> alphabet ! d = alphabetIdx0 \<longleftrightarrow> d = 0"
  using b58_alphabet [of d] b58_alphabet [of 0] by (auto simp: alphabet_0)

section \<open>Round trips\<close>

lemma Decode_loop_value:
  "\<forall>c \<in> set cs. b58 ! unat c \<noteq> 255 \<Longrightarrow>
   Decode_loop cs answer j = Some (answer + j * radix_val 58 (map (\<lambda>c. b58 ! unat c) cs))"
  by (induction cs arbitrary: answer j) (simp_all add: Let_def algebra_simps)

lemma Decode_loop_None: "c \<in> set cs \<Longrightarrow> b58 ! unat c = 255 \<Longrightarrow> Decode_loop cs answer j = None"
  by (induction cs arbitrary: answer j) (auto simp: Let_def)

lemma leading_split:
  obtains b' where "b = replicate (leading z b) z @ b'" "b' \<noteq> [] \<longrightarrow> hd b' \<noteq> z"
proof
  have tw: "takeWhile (\<lambda>c. c = z) b = replicate (leading z b) z"
    unfolding leading_def by (induction b) auto
  show "b = replicate (leading z b) z @ dropWhile (\<lambda>c. c = z) b"
    unfolding tw [symmetric] by simp
  show "dropWhile (\<lambda>c. c = z) b \<noteq> [] \<longrightarrow> hd (dropWhile (\<lambda>c. c = z) b) \<noteq> z"
    using hd_dropWhile [of "\<lambda>c. c = z" b] by blast
qed

lemma leading_replicate:
  "(b \<noteq> [] \<longrightarrow> hd b \<noteq> z) \<Longrightarrow> leading z (replicate k z @ b) = k"
  by (induction k) (cases b, auto simp: leading_def)

lemma leading_0_bytes:
  assumes "b' \<noteq> [] \<longrightarrow> hd b' \<noteq> 0"
  shows "big_Bytes (big_SetBytes (replicate k 0 @ b')) = b'"
proof -
  have val: "big_SetBytes (replicate k 0 @ b') = radix_val 256 (rev (map unat b'))"
    by (simp add: big_SetBytes_val)
  have "rev (map unat b') \<noteq> [] \<longrightarrow> last (rev (map unat b')) \<noteq> 0"
    using assms by (cases b') (auto simp: unat_eq_0)
  then have "radix_digits 256 (radix_val 256 (rev (map unat b'))) = rev (map unat b')"
    by (intro radix_digits_val) (auto simp: unat_byte_less)
  then have "map unat (big_le (big_SetBytes (replicate k 0 @ b'))) = map unat (rev b')"
    by (simp add: big_le_digits val rev_map)
  then show ?thesis
    by (simp add: map_unat_inject big_Bytes_def)
qed

lemma Decode_Encode: "Decode (Encode b) = b"
proof -
  obtain b' where b: "b = replicate (leading 0 b) 0 @ b'" and b': "b' \<noteq> [] \<longrightarrow> hd b' \<noteq> 0"
    by (rule leading_split)
  let ?z = "leading 0 b" and ?n = "big_SetBytes b"
  let ?ds = "radix_digits 58 ?n"
  have enc: "Encode b = replicate ?z alphabetIdx0 @ rev (map (\<lambda>d. alphabet ! d) ?ds)"
    by (simp add: Encode_def Let_def Encode_loop_digits)
  have less: "d \<in> set ?ds \<Longrightarrow> d < 58" for d
    using radix_digits_less [of 58 d ?n] by simp
  have cds: "map (\<lambda>c. b58 ! unat c) (rev (Encode b)) = ?ds @ replicate ?z 0"
    using less by (simp add: enc b58_alphabet alphabet_0 [symmetric] o_def map_idI)
  have "b58 ! unat c < 58" if "c \<in> set (rev (Encode b))" for c
  proof -
    have "b58 ! unat c \<in> set (map (\<lambda>c. b58 ! unat c) (rev (Encode b)))"
      using that by simp
    then show ?thesis
      unfolding cds using less by auto
  qed
  then have valid: "\<forall>c \<in> set (rev (Encode b)). b58 ! unat c \<noteq> 255"
    by fastforce
  have loop: "Decode_loop (rev (Encode b)) 0 1 = Some ?n"
    by (subst Decode_loop_value [OF valid], subst cds) (simp add: radix_val_digits)
  have "leading alphabetIdx0 (Encode b) = ?z"
  proof -
    have "rev (map (\<lambda>d. alphabet ! d) ?ds) \<noteq> [] \<longrightarrow>
        hd (rev (map (\<lambda>d. alphabet ! d) ?ds)) \<noteq> alphabetIdx0"
      using last_radix_digits [of 58 ?n] less [of "last ?ds"]
      by (cases "?n = 0") (auto simp: hd_rev last_map radix_digits_Nil_iff alphabet_eq_idx0)
    then show ?thesis
      unfolding enc by (rule leading_replicate)
  qed
  moreover have "big_Bytes ?n = b'"
    using leading_0_bytes [OF b', of ?z] b by simp
  ultimately show ?thesis
    using b by (simp add: Decode_def loop [simplified] Let_def)
qed

lemma big_SetBytes_big_Bytes: "big_SetBytes (replicate k 0 @ big_Bytes n) = n"
proof -
  have "rev (map unat (replicate k 0 @ big_Bytes n)) = radix_digits 256 n @ replicate k 0"
    by (simp add: big_Bytes_def rev_map [symmetric] big_le_digits)
  then show ?thesis
    by (simp add: big_SetBytes_val radix_val_digits)
qed

lemma hd_big_Bytes: "big_Bytes n \<noteq> [] \<longrightarrow> hd (big_Bytes n) \<noteq> 0"
proof (cases "n = 0")
  case True
  then show ?thesis by (simp add: big_Bytes_def big_le.simps)
next
  case False
  then have "map unat (big_le n) \<noteq> []" "last (map unat (big_le n)) \<noteq> 0"
    unfolding big_le_digits using last_radix_digits [of 256 n] radix_digits_Nil_iff [of 256 n]
    by simp_all
  then show ?thesis
    by (auto simp: big_Bytes_def hd_rev last_map)
qed

lemma Encode_Decode:
  assumes "\<forall>c \<in> set s. b58 ! unat c \<noteq> 255"
  shows "Encode (Decode s) = s"
proof -
  obtain s' where s: "s = replicate (leading alphabetIdx0 s) alphabetIdx0 @ s'"
    and s': "s' \<noteq> [] \<longrightarrow> hd s' \<noteq> alphabetIdx0"
    by (rule leading_split)
  let ?z = "leading alphabetIdx0 s" and ?ix = "\<lambda>c. b58 ! unat c"
  let ?ds = "map ?ix (rev s')"
  let ?n = "radix_val 58 ?ds"
  have valid': "\<forall>c \<in> set s'. ?ix c \<noteq> 255"
    using assms s by (metis Un_iff set_append)
  have ix0: "?ix alphabetIdx0 = 0"
    using b58_alphabet [of 0] by (simp add: alphabet_0)
  have "map ?ix (rev s) = ?ds @ replicate ?z 0"
    by (subst s) (simp add: ix0)
  then have loop: "Decode_loop (rev s) 0 1 = Some ?n"
    using assms by (subst Decode_loop_value) simp_all
  have dec: "Decode s = replicate ?z 0 @ big_Bytes ?n"
    by (simp add: Decode_def loop [simplified] Let_def)
  have "?ds \<noteq> [] \<longrightarrow> last ?ds \<noteq> 0"
  proof
    assume "?ds \<noteq> []"
    then have ne: "s' \<noteq> []" by simp
    with valid' have "alphabet ! ?ix (hd s') = hd s'"
      using alphabet_b58 by simp
    with ne s' have "?ix (hd s') \<noteq> 0"
      by (metis alphabet_0)
    with ne show "last ?ds \<noteq> 0" by (simp add: last_map last_rev)
  qed
  then have digits: "radix_digits 58 ?n = ?ds"
    using valid' alphabet_b58(1) by (intro radix_digits_val) auto
  have "map (\<lambda>d. alphabet ! d) ?ds = rev s'"
    unfolding map_map o_def using valid' alphabet_b58(2) by (intro map_idI) simp
  moreover have "leading 0 (Decode s) = ?z"
    unfolding dec by (rule leading_replicate [OF hd_big_Bytes])
  ultimately show ?thesis
    using s digits
    by (simp add: Encode_def Let_def Encode_loop_digits dec big_SetBytes_big_Bytes)
qed

lemma Decode_invalid: "c \<in> set s \<Longrightarrow> b58 ! unat c = 255 \<Longrightarrow> Decode s = []"
  by (simp add: Decode_def Decode_loop_None)

text \<open>A string of 32 bytes needs at most 44 characters.\<close>

lemma length_Encode_32:
  assumes "length b = 32"
  shows "length (Encode b) \<le> 44"
proof -
  obtain b' where b: "b = replicate (leading 0 b) 0 @ b'" and b': "b' \<noteq> [] \<longrightarrow> hd b' \<noteq> 0"
    by (rule leading_split)
  let ?z = "leading 0 b" and ?n = "big_SetBytes b"
  have len: "?z + length b' = 32"
    using b assms by (metis length_append length_replicate)
  have "?n = radix_val 256 (rev (map unat b'))"
    by (subst b) (simp add: big_SetBytes_val)
  also have "\<dots> < 256 ^ length b'"
    using radix_val_bound [of 256 "rev (map unat b')"] by (simp add: unat_byte_less)
  also have "\<dots> \<le> 58 ^ (44 - ?z)"
  proof -
    have "length b' = 32 - ?z" using len by simp
    moreover have "(256::nat) ^ (32 - k) \<le> 58 ^ (44 - k)" if "k \<le> 32" for k
    proof -
      have "list_all (\<lambda>k. (256::nat) ^ (32 - k) \<le> 58 ^ (44 - k)) [0..<33]"
        by (simp add: upt_conv_Cons)
      with that show ?thesis by (simp add: list_all_iff)
    qed
    ultimately show ?thesis using len by simp
  qed
  finally have "length (radix_digits 58 ?n) \<le> 44 - ?z"
    by (intro radix_digits_length) simp_all
  then show ?thesis
    using len by (simp add: Encode_def Let_def Encode_loop_digits)
qed

section \<open>Checksummed encoding\<close>

text \<open>
  \<open>ErrChecksum\<close> and \<open>ErrInvalidFormat\<close> are the package's error values. The hash argument
  stands for \<open>sha256.Sum256\<close>.
\<close>

definition ErrChecksum :: goerror where
  "ErrChecksum = ErrText ''checksum error''"

definition ErrInvalidFormat :: goerror where
  "ErrInvalidFormat = ErrText ''invalid format: version and/or checksum bytes missing''"

definition checksum :: "(bytes \<Rightarrow> bytes) \<Rightarrow> bytes \<Rightarrow> bytes" where
  "checksum sha256 input = take 4 (sha256 (sha256 input))"

definition CheckEncode :: "(bytes \<Rightarrow> bytes) \<Rightarrow> bytes \<Rightarrow> byte \<Rightarrow> gostring" where
  "CheckEncode sha256 input version =
     (let b = version # input in Encode (b @ checksum sha256 b))"

definition CheckDecode :: "(bytes \<Rightarrow> bytes) \<Rightarrow> gostring \<Rightarrow> (bytes \<times> byte) outcome" where
  "CheckDecode sha256 input =
     (let decoded = Decode input in
      if length decoded < 5 then Err ErrInvalidFormat
      else let version = decoded ! 0; body = take (length decoded - 4) decoded in
        if checksum sha256 body \<noteq> drop (length decoded - 4) decoded then Err ErrChecksum
        else Ok (drop 1 body, version))"

lemma CheckDecode_CheckEncode:
  assumes "\<And>x. length (sha256 x) = 32"
  shows "CheckDecode sha256 (CheckEncode sha256 input version) = Ok (input, version)"
proof -
  have "length (checksum sha256 x) = 4" for x
    using assms by (simp add: checksum_def)
  then show ?thesis
    by (simp add: CheckDecode_def CheckEncode_def Decode_Encode Let_def)
qed

section \<open>Address strings\<close>

text \<open>\<open>until/privkey.go\<close>: the address of a public key.\<close>

definition PubtoAddr :: "bytes \<Rightarrow> gostring" where
  "PubtoAddr pub = lit ''Kto'' @ Encode pub"

text \<open>
  \<open>types/address.go\<close>: the fixed-size array type \<open>Address\<close> (47 bytes) is a list of bytes that
  \<open>BytesToAddress\<close> makes 47 long, by truncation or zero padding.
\<close>

type_synonym Address = bytes

definition Lenthaddr :: nat where
  "Lenthaddr = 47"

definition BytesToAddress :: "bytes \<Rightarrow> Address" where
  "BytesToAddress from = take Lenthaddr from @ replicate (Lenthaddr - length from) 0"

definition AddressToByte :: "Address \<Rightarrow> bytes" where
  "AddressToByte a = a"

definition AddrToPub :: "Address \<Rightarrow> bytes" where
  "AddrToPub a = Decode (drop 3 (AddressToByte a))"

definition AddrTopub :: "gostring \<Rightarrow> bytes outcome" where
  "AddrTopub addr = (if length addr < 3 then Panic else Ok (Decode (drop 3 addr)))"

lemma length_BytesToAddress [simp]: "length (BytesToAddress b) = 47"
  by (simp add: BytesToAddress_def Lenthaddr_def)

lemma length_lit_Kto: "length (lit ''Kto'') = 3"
  by (simp add: lit_def)

lemma AddrToPub_PubtoAddr:
  assumes "length pub = 32"
  shows "AddrToPub (BytesToAddress (PubtoAddr pub)) =
    (if length (PubtoAddr pub) = 47 then pub else [])"
proof -
  let ?e = "Encode pub"
  have le: "length ?e \<le> 44" using assms by (rule length_Encode_32)
  have addr: "drop 3 (BytesToAddress (PubtoAddr pub)) = ?e @ replicate (44 - length ?e) 0"
    using le by (simp add: BytesToAddress_def PubtoAddr_def Lenthaddr_def length_lit_Kto)
  show ?thesis
  proof (cases "length ?e = 44")
    case True
    then have "drop 3 (BytesToAddress (PubtoAddr pub)) = ?e"
      by (simp add: addr)
    with True show ?thesis
      by (simp only: AddrToPub_def AddressToByte_def Decode_Encode)
         (simp add: PubtoAddr_def length_lit_Kto)
  next
    case False
    then have "0 \<in> set (?e @ replicate (44 - length ?e) (0::byte))" using le by simp
    moreover have "b58 ! unat (0::byte) = 255" by (simp add: b58_def)
    ultimately have "Decode (?e @ replicate (44 - length ?e) 0) = []"
      by (rule Decode_invalid)
    with False show ?thesis
      by (simp only: AddrToPub_def AddressToByte_def addr)
         (simp add: PubtoAddr_def length_lit_Kto)
  qed
qed

section \<open>Wallets\<close>

text \<open>
  \<open>transaction/wallet.go\<close>. The key generator of \<open>crypto/ed25519\<close> draws from the system's random
  source: \<open>gen i\<close> is the pair its \<open>i\<close>-th call returns. \<open>NewWallet\<close> draws until the address has
  47 bytes, so it may not return: the model is an option.
\<close>

record Wallet =
  wPrivateKey :: gostring
  wAddress :: gostring

definition PublicKeyToAddress :: "bytes \<Rightarrow> gostring" where
  "PublicKeyToAddress publicKey = lit ''Kto'' @ Encode publicKey"

definition AddressToPublicKey :: "gostring \<Rightarrow> bytes outcome" where
  "AddressToPublicKey address = (if length address < 3 then Panic else Ok (Decode (drop 3 address)))"

partial_function (option) NewWallet_loop ::
  "(nat \<Rightarrow> bytes \<times> bytes) \<Rightarrow> nat \<Rightarrow> bytes \<Rightarrow> bytes \<Rightarrow> Wallet option" where
  "NewWallet_loop gen i publicKey privateKey =
     (if length (PublicKeyToAddress publicKey) \<noteq> 47
      then NewWallet_loop gen (Suc i) (fst (gen i)) (snd (gen i))
      else Some \<lparr>wPrivateKey = Encode privateKey, wAddress = PublicKeyToAddress publicKey\<rparr>)"

definition NewWallet :: "(nat \<Rightarrow> bytes \<times> bytes) \<Rightarrow> Wallet option" where
  "NewWallet gen = NewWallet_loop gen 0 [] []"

lemma NewWallet_loop_returns:
  "length (PublicKeyToAddress (fst (gen (i + k)))) = 47 \<Longrightarrow>
   \<exists>w. NewWallet_loop gen i pub priv = Some w"
proof (induction k arbitrary: i pub priv)
  case 0
  then show ?case
    by (subst NewWallet_loop.simps, subst NewWallet_loop.simps) simp
next
  case (Suc k)
  then have "\<exists>w. NewWallet_loop gen (Suc i) (fst (gen i)) (snd (gen i)) = Some w" by simp
  then show ?case
    by (subst NewWallet_loop.simps) simp
qed

lemma NewWallet_loop_sound:
  "NewWallet_loop gen i pub priv = Some w \<Longrightarrow>
   length (wAddress w) = 47 \<and>
   (\<exists>p q. (p, q) \<in> insert (pub, priv) (range gen) \<and>
      wAddress w = PublicKeyToAddress p \<and> wPrivateKey w = Encode q)"
proof -
  assume ret: "NewWallet_loop gen i pub priv = Some w"
  let ?Q = "\<lambda>gen i pub priv w. length (wAddress w) = 47 \<and>
    (\<exists>p q. ((p, q) = (pub, priv) \<or> (p, q) \<in> range gen) \<and>
      wAddress w = PublicKeyToAddress p \<and> wPrivateKey w = Encode q)"
  have "?Q gen i pub priv w"
  proof (rule NewWallet_loop.raw_induct [where P = ?Q, OF _ ret])
    fix f and gen :: "nat \<Rightarrow> bytes \<times> bytes" and i pub priv w
    assume IH: "\<And>gen i pub priv w. f gen i pub priv = Some w \<Longrightarrow> ?Q gen i pub priv w"
      and eq: "(if length (PublicKeyToAddress pub) \<noteq> 47
        then f gen (Suc i) (fst (gen i)) (snd (gen i))
        else Some \<lparr>wPrivateKey = Encode priv, wAddress = PublicKeyToAddress pub\<rparr>) = Some w"
    show "?Q gen i pub priv w"
    proof (cases "length (PublicKeyToAddress pub) = 47")
      case True
      with eq show ?thesis by fastforce
    next
      case False
      with eq have "f gen (Suc i) (fst (gen i)) (snd (gen i)) = Some w" by simp
      then have "?Q gen (Suc i) (fst (gen i)) (snd (gen i)) w" by (rule IH)
      then show ?thesis
        by (metis prod.collapse rangeI)
    qed
  qed
  then show ?thesis by auto
qed

end
