(* ===== verification/Script.thy ===== *)
theory Script
  imports Miscellaneous
begin

text \<open>
  The contract script of \<open>contract/parser/otypes.go\<close>: a function name with typed arguments, and its
  binary form (\<open>Show\<close>, \<open>Read\<close>). An argument's \<open>interface{}\<close> value is a \<open>uint64\<close>, a \<open>string\<close> or
  nothing.
\<close>

section \<open>Data\<close>

datatype argvalue = VUint u64 | VString gostring | VNil

text \<open>The argument types \<open>ORDER .. PERCENTAGE\<close> are \<open>uint32\<close> constants in the code.\<close>

definition ORDER :: u32 where "ORDER = 0"
definition AMOUNT :: u32 where "AMOUNT = 1"
definition ADDRESS :: u32 where "ADDRESS = 2"
definition TOKENID :: u32 where "TOKENID = 3"
definition PERCENTAGE :: u32 where "PERCENTAGE = 4"

lemmas argtypes = ORDER_def AMOUNT_def ADDRESS_def TOKENID_def PERCENTAGE_def

record ScriptArgument =
  arg_typ :: u32
  arg_value :: argvalue

record Script =
  sc_name :: gostring
  sc_args :: "ScriptArgument list"

text \<open>\<open>v, _ := a.Value().(string)\<close> and \<open>.(uint64)\<close>: the zero value on another type.\<close>

fun as_string :: "argvalue \<Rightarrow> gostring" where
  "as_string (VString s) = s"
| "as_string (VUint n) = []"
| "as_string VNil = []"

fun as_uint64 :: "argvalue \<Rightarrow> u64" where
  "as_uint64 (VUint n) = n"
| "as_uint64 (VString s) = 0"
| "as_uint64 VNil = 0"

text \<open>\<open>sc.Arguments()[i].Value()\<close>; an index out of range panics.\<close>

definition argument :: "Script \<Rightarrow> nat \<Rightarrow> argvalue outcome" where
  "argument sc i = (if i < length (sc_args sc) then Ok (arg_value (sc_args sc ! i)) else Panic)"

section \<open>Binary form\<close>

definition arg_Show :: "ScriptArgument \<Rightarrow> bytes" where
  "arg_Show a = E32func (arg_typ a) @
     (case arg_value a of VUint v \<Rightarrow> E64func v | VString v \<Rightarrow> Eslice v | VNil \<Rightarrow> [])"

definition arg_Read :: "ScriptArgument \<Rightarrow> bytes \<Rightarrow> (ScriptArgument \<times> bytes) outcome" where
  "arg_Read a data =
     (if length data < 4 then Err (ErrText ''ScriptArgument Read: Illegal Length'')
      else let a = a\<lparr> arg_typ := or_zero 0 (D32func (take 4 data)) \<rparr> in
        if arg_typ a = AMOUNT \<or> arg_typ a = PERCENTAGE then
          let data = drop 4 data in
          if length data < 8 then Err (ErrText ''ScriptArgument Read: Illegal Length'')
          else Ok (a\<lparr> arg_value := VUint (or_zero 0 (D64func (take 8 data))) \<rparr>, drop 8 data)
        else if arg_typ a = ORDER \<or> arg_typ a = ADDRESS \<or> arg_typ a = TOKENID then
          (case Dslice (drop 4 data) of
             Ok (value, data) \<Rightarrow> Ok (a\<lparr> arg_value := VString value \<rparr>, data)
           | Err e \<Rightarrow> Err (ErrText ''ScriptArgument Read: DecodeSlice: Illegal slice length'')
           | Panic \<Rightarrow> Panic)
        else Ok (a, data))"

definition script_Show :: "Script \<Rightarrow> bytes" where
  "script_Show a =
     (let n = (of_nat (length (sc_args a)) :: u32)
      in (E32func n @ Eslice (sc_name a)) @ concat (map arg_Show (take (unat n) (sc_args a))))"

definition new_arg :: ScriptArgument where
  "new_arg = \<lparr> arg_typ = 0, arg_value = VNil \<rparr>"

text \<open>Read the first \<open>n\<close> arguments in place.\<close>

fun read_args :: "nat \<Rightarrow> ScriptArgument list \<Rightarrow> bytes \<Rightarrow> (ScriptArgument list \<times> bytes) outcome" where
  "read_args 0 args data = Ok (args, data)"
| "read_args (Suc n) [] data = Panic"
| "read_args (Suc n) (a # args) data =
     obind (arg_Read a data) (\<lambda>(a, data).
     obind (read_args n args data) (\<lambda>(args, data). Ok (a # args, data)))"

definition script_Read :: "Script \<Rightarrow> bytes \<Rightarrow> (Script \<times> bytes) outcome" where
  "script_Read a data =
     (if length data < 4 then Err (ErrText ''Script Read: Illegal Length'')
      else let n = or_zero 0 (D32func (take 4 data)) in
        obind (Dslice (drop 4 data)) (\<lambda>(name, data).
        let a = a\<lparr> sc_name := name \<rparr>;
            args = (if (of_nat (length (sc_args a)) :: u32) < n then replicate (unat n) new_arg
                    else sc_args a) in
        obind (read_args (unat n) args data) (\<lambda>(args, data).
        Ok (a\<lparr> sc_args := args \<rparr>, data))))"

section \<open>Reading back what was shown\<close>

text \<open>An argument whose value has the type its tag announces.\<close>

fun typed_arg :: "ScriptArgument \<Rightarrow> bool" where
  "typed_arg a =
     (case arg_value a of
        VUint v \<Rightarrow> arg_typ a = AMOUNT \<or> arg_typ a = PERCENTAGE
      | VString v \<Rightarrow> arg_typ a = ORDER \<or> arg_typ a = ADDRESS \<or> arg_typ a = TOKENID
      | VNil \<Rightarrow> False)"

lemma argtypes_distinct [simp]:
  "AMOUNT \<noteq> ORDER" "AMOUNT \<noteq> ADDRESS" "AMOUNT \<noteq> TOKENID" "PERCENTAGE \<noteq> ORDER"
  "PERCENTAGE \<noteq> ADDRESS" "PERCENTAGE \<noteq> TOKENID" "ORDER \<noteq> AMOUNT" "ADDRESS \<noteq> AMOUNT"
  "TOKENID \<noteq> AMOUNT" "ORDER \<noteq> PERCENTAGE" "ADDRESS \<noteq> PERCENTAGE" "TOKENID \<noteq> PERCENTAGE"
  by (simp_all add: argtypes)

lemma arg_Read_Show:
  assumes "typed_arg a" "length (arg_Show a @ rest) < 2 ^ 32"
  shows "arg_Read a0 (arg_Show a @ rest) = Ok (a, rest)"
proof (cases "arg_value a")
  case (VUint v)
  with assms have "arg_typ a = AMOUNT \<or> arg_typ a = PERCENTAGE" by simp
  with VUint show ?thesis
    by (cases a) (auto simp: arg_Read_def arg_Show_def Let_def)
next
  case (VString v)
  with assms have t: "arg_typ a = ORDER \<or> arg_typ a = ADDRESS \<or> arg_typ a = TOKENID" by simp
  have "Dslice (Eslice v @ rest) = Ok (v, rest)"
    using assms(2) VString by (intro Dslice_Eslice) (simp_all add: arg_Show_def Eslice_def)
  with VString t show ?thesis
    by (cases a) (auto simp: arg_Read_def arg_Show_def Let_def)
next
  case VNil
  with assms show ?thesis by simp
qed

lemma read_args_Show:
  assumes "\<forall>a \<in> set as. typed_arg a" "length as0 = length as"
    "length (concat (map arg_Show as) @ rest) < 2 ^ 32"
  shows "read_args (length as) as0 (concat (map arg_Show as) @ rest) = Ok (as, rest)"
  using assms
proof (induction as arbitrary: as0)
  case Nil
  then show ?case by simp
next
  case (Cons a as)
  then obtain b bs where b: "as0 = b # bs" "length bs = length as"
    by (cases as0) auto
  have "arg_Read b (arg_Show a @ concat (map arg_Show as) @ rest) =
      Ok (a, concat (map arg_Show as) @ rest)"
    using Cons.prems arg_Read_Show [of a "concat (map arg_Show as) @ rest" b] by simp
  with Cons b show ?case by simp
qed

lemma script_Read_Show:
  assumes "\<forall>a \<in> set (sc_args s). typed_arg a" "length (script_Show s @ rest) < 2 ^ 32"
    "length (sc_args s) < 2 ^ 32"
  shows "script_Read \<lparr> sc_name = [], sc_args = [] \<rparr> (script_Show s @ rest) = Ok (s, rest)"
proof -
  let ?n = "of_nat (length (sc_args s)) :: u32"
  have n: "unat ?n = length (sc_args s)"
    using assms(3) by (intro unat_of_nat_small) simp
  have len: "length (Eslice (sc_name s)) + length (concat (map arg_Show (sc_args s)) @ rest) < 2 ^ 32"
    using assms(2) n by (simp add: script_Show_def Let_def)
  have name: "Dslice (Eslice (sc_name s) @ concat (map arg_Show (sc_args s)) @ rest) =
      Ok (sc_name s, concat (map arg_Show (sc_args s)) @ rest)"
    using len by (intro Dslice_Eslice) (simp_all add: Eslice_def)
  have args: "read_args (length (sc_args s)) (replicate (length (sc_args s)) new_arg)
      (concat (map arg_Show (sc_args s)) @ rest) = Ok (sc_args s, rest)"
    using assms(1) len by (intro read_args_Show) simp_all
  have pos: "(0 < ?n) = (sc_args s \<noteq> [])"
    using n by (simp add: word_less_nat_alt)
  show ?thesis
    using name args pos n
    by (cases s) (auto simp: script_Read_def script_Show_def Let_def)
qed

end
