(* ===== verification/Merkle.thy ===== *)
theory Merkle
  imports Prelude
begin

text \<open>
  The Merkle tree of \<open>until/merkle\<close>. A \<open>hash.Hash\<close> is a parameter \<open>H\<close> from data to digest
  (\<open>GenHash\<close> resets it, writes once and sums). \<open>MerkleRoot\<close> is a struct of one field, the digest,
  and stands for it. The tree the constructor builds is compared with a reference that pairs
  digests level by level. Proof paths are in \<open>MerkleProof\<close>.
\<close>

section \<open>Nodes\<close>

datatype MerkleNode =
  MerkleNode (isLeaf: bool) (node_data: bytes) (node_root: bytes)
    (node_left: "MerkleNode option") (node_right: "MerkleNode option")

record MerkleTree =
  mt_tree :: "MerkleNode option"

definition GenHash :: "(bytes \<Rightarrow> bytes) \<Rightarrow> bytes \<Rightarrow> bytes" where
  "GenHash h data = h data"

definition mkLeafRootHash :: "(bytes \<Rightarrow> bytes) \<Rightarrow> bytes \<Rightarrow> bytes" where
  "mkLeafRootHash h data = GenHash h data"

definition mkRootHash :: "(bytes \<Rightarrow> bytes) \<Rightarrow> bytes \<Rightarrow> bytes \<Rightarrow> bytes" where
  "mkRootHash h a b = GenHash h (a @ b)"

function powerOfTwo0 :: "nat \<Rightarrow> nat" where
  "powerOfTwo0 n = (if n AND (n - 1) = 0 then n else powerOfTwo0 (n AND (n - 1)))"
  by pat_completeness auto

lemma and_nat_le: "m AND n \<le> (n :: nat)"
proof -
  have "int (m AND n) = int m AND int n"
    by (simp add: of_nat_and_eq)
  also have "\<dots> \<le> int n"
    by (rule AND_upper2) simp
  finally show ?thesis by simp
qed

lemma and_pred_le: "n AND (n - 1) \<le> n - (1 :: nat)"
  by (rule and_nat_le)

termination powerOfTwo0
proof (relation "measure id", goal_cases)
  case (2 n)
  then have "n \<noteq> 0" by (intro notI) simp
  with and_pred_le [of n] show ?case by simp
qed simp

declare powerOfTwo0.simps [simp del]

definition powerOfTwo :: "nat \<Rightarrow> nat" where
  "powerOfTwo n = (if n AND (n - 1) = 0 then drop_bit 1 n else powerOfTwo0 n)"

text \<open>A nil node is returned for empty data and for a branch with a nil child.\<close>

definition mkLeaf :: "(bytes \<Rightarrow> bytes) \<Rightarrow> bytes \<Rightarrow> MerkleNode option" where
  "mkLeaf h data =
     (if length data = 0 then None
      else Some (MerkleNode True data (mkLeafRootHash h data) None None))"

definition mkBranch :: "(bytes \<Rightarrow> bytes) \<Rightarrow> MerkleNode option \<Rightarrow> MerkleNode option \<Rightarrow> MerkleNode option" where
  "mkBranch h l r =
     (case l of None \<Rightarrow> None | Some left \<Rightarrow>
      (case r of None \<Rightarrow> None | Some right \<Rightarrow>
       Some (MerkleNode False [] (mkRootHash h (node_root left) (node_root right)) (Some left) (Some right))))"

text \<open>
  The recursion of \<open>mkMerkleTreeRoot\<close> does not end for \<open>n = 0\<close>, hence the option; an index or
  slice bound out of range panics.
\<close>

partial_function (option) mkMerkleTreeRoot ::
  "(bytes \<Rightarrow> bytes) \<Rightarrow> nat \<Rightarrow> bytes list \<Rightarrow> MerkleNode option outcome option" where
  "mkMerkleTreeRoot h n data =
     (if n = 1 then Some (if data = [] then Panic else Ok (mkLeaf h (hd data)))
      else if powerOfTwo n > length data then Some Panic
      else Option.bind (mkMerkleTreeRoot h (powerOfTwo n) (take (powerOfTwo n) data)) (\<lambda>lo.
           Option.bind (mkMerkleTreeRoot h (n - powerOfTwo n) (drop (powerOfTwo n) data)) (\<lambda>ro.
           Some (obind lo (\<lambda>l. obind ro (\<lambda>r. Ok (mkBranch h l r)))))))"

definition merkle_New :: "(bytes \<Rightarrow> bytes) \<Rightarrow> bytes list \<Rightarrow> MerkleTree option outcome option" where
  "merkle_New h data =
     (if length data = 0 then Some (Ok None)
      else (case mkMerkleTreeRoot h (length data) data of
          None \<Rightarrow> None
        | Some r \<Rightarrow> Some (obind r (\<lambda>node. Ok (Some \<lparr> mt_tree = node \<rparr>)))))"

definition GetMtRoot :: "MerkleTree option \<Rightarrow> MerkleNode option" where
  "GetMtRoot t = (case t of None \<Rightarrow> None | Some tree \<Rightarrow> mt_tree tree)"

definition GetMtHash :: "MerkleTree option \<Rightarrow> bytes outcome" where
  "GetMtHash t =
     (case t of None \<Rightarrow> Ok []
      | Some tree \<Rightarrow> (case GetMtRoot t of None \<Rightarrow> Panic | Some node \<Rightarrow> Ok (node_root node)))"

section \<open>The split point\<close>

lemma bit_top:
  assumes "2 ^ i \<le> n" "n < 2 ^ Suc i"
  shows "bit (n :: nat) i"
proof -
  have "n div 2 ^ i = 1"
    using assms by (intro div_nat_eqI) simp_all
  then show ?thesis by (simp add: bit_iff_odd)
qed

lemma and_pred_top:
  assumes "2 ^ i < n" "n < 2 ^ Suc i"
  shows "2 ^ i \<le> n AND (n - (1 :: nat))" "n AND (n - 1) < 2 ^ Suc i"
proof -
  have "bit n i" "bit (n - 1) i"
    using assms by (auto intro!: bit_top)
  then have "bit (n AND (n - 1)) i"
    by (simp add: bit_and_iff)
  then show "2 ^ i \<le> n AND (n - 1)"
    by (metis bit_iff_odd div_less even_zero not_less)
  show "n AND (n - 1) < 2 ^ Suc i"
    using and_pred_le [of n] assms by linarith
qed

lemma and_pred_power: "2 ^ i AND (2 ^ i - 1) = (0 :: nat)"
  unfolding mask_eq_exp_minus_1 [symmetric] take_bit_eq_mask [symmetric] by simp

lemma powerOfTwo0_top:
  assumes "2 ^ i \<le> n" "n < 2 ^ Suc i"
  shows "powerOfTwo0 n = 2 ^ i"
  using assms
proof (induction n rule: powerOfTwo0.induct)
  case (1 n)
  show ?case
  proof (cases "n = 2 ^ i")
    case True
    then show ?thesis
      by (subst powerOfTwo0.simps) (simp only: and_pred_power if_True refl)
  next
    case False
    with "1.prems" have "2 ^ i < n" by simp
    note top = and_pred_top [OF this "1.prems"(2)]
    have nz: "n AND (n - 1) \<noteq> 0"
      using top(1) by (intro notI) simp
    have "powerOfTwo0 n = powerOfTwo0 (n AND (n - 1))"
      by (subst powerOfTwo0.simps) (simp only: nz if_False)
    also have "\<dots> = 2 ^ i"
      by (rule "1.IH" [OF nz top])
    finally show ?thesis .
  qed
qed

lemma log_split:
  assumes "2 \<le> n"
  obtains i where "2 ^ i < n" "n \<le> (2 :: nat) ^ Suc i"
proof -
  obtain i where "2 ^ i \<le> n - 1" "n - 1 < 2 ^ (i + 1)"
    using ex_power_ivl1 [of 2 "n - 1"] assms by fastforce
  with assms show ?thesis
    by (intro that [of i]) simp_all
qed

text \<open>\<open>powerOfTwo n\<close> is the largest power of two below \<open>n\<close>.\<close>

lemma powerOfTwo_split:
  assumes "2 ^ i < n" "n \<le> 2 ^ Suc i"
  shows "powerOfTwo n = 2 ^ i"
proof (cases "n = 2 ^ Suc i")
  case True
  then show ?thesis
    using and_pred_power [of "Suc i"] by (simp add: powerOfTwo_def drop_bit_eq_div)
next
  case False
  then have "n < 2 ^ Suc i" using assms by simp
  with assms have nz: "n AND (n - 1) \<noteq> 0" and p: "powerOfTwo0 n = 2 ^ i"
    using and_pred_top(1) [of i n] powerOfTwo0_top [of i n] by (auto intro!: notI)
  show ?thesis
    by (simp only: powerOfTwo_def nz if_False p)
qed

section \<open>The reference: pairing level by level\<close>

fun pair_up :: "(bytes \<Rightarrow> bytes) \<Rightarrow> bytes list \<Rightarrow> bytes list" where
  "pair_up h [] = []"
| "pair_up h [a] = [a]"
| "pair_up h (a # b # ds) = h (a @ b) # pair_up h ds"

lemma length_pair_up: "length (pair_up h ds) = (length ds + 1) div 2"
  by (induction h ds rule: pair_up.induct) simp_all

function merkle_levels :: "(bytes \<Rightarrow> bytes) \<Rightarrow> bytes list \<Rightarrow> bytes" where
  "merkle_levels h [] = []"
| "merkle_levels h [d] = d"
| "merkle_levels h (a # b # ds) = merkle_levels h (pair_up h (a # b # ds))"
  by pat_completeness auto
termination
  by (relation "measure (\<lambda>(h, ds). length ds)") (simp_all add: length_pair_up)

lemma merkle_levels_pair_up: "ds \<noteq> [] \<Longrightarrow> merkle_levels h (pair_up h ds) = merkle_levels h ds"
  by (cases "(h, ds)" rule: merkle_levels.cases) simp_all

lemma pair_up_append:
  "even (length xs) \<Longrightarrow> pair_up h (xs @ ys) = pair_up h xs @ pair_up h ys"
  by (induction h xs rule: pair_up.induct) simp_all

lemma merkle_levels_split:
  assumes "length xs = 2 ^ i" "ys \<noteq> []" "length ys \<le> 2 ^ i"
  shows "merkle_levels h (xs @ ys) = h (merkle_levels h xs @ merkle_levels h ys)"
  using assms
proof (induction i arbitrary: xs ys)
  case 0
  then obtain x y where "xs = [x]" "ys = [y]"
    by (auto simp: length_Suc_conv le_Suc_eq)
  then show ?case by simp
next
  case (Suc i)
  have ne: "pair_up h ys \<noteq> []" "xs \<noteq> []"
    using Suc.prems length_pair_up [of h ys] by (auto simp flip: length_greater_0_conv)
  have "merkle_levels h (xs @ ys) = merkle_levels h (pair_up h xs @ pair_up h ys)"
    using Suc.prems by (simp add: merkle_levels_pair_up [symmetric] pair_up_append)
  also have "\<dots> = h (merkle_levels h (pair_up h xs) @ merkle_levels h (pair_up h ys))"
    using Suc.prems ne by (intro Suc.IH) (simp_all add: length_pair_up)
  finally show ?case
    using Suc.prems ne by (simp add: merkle_levels_pair_up)
qed

section \<open>The shape of a tree\<close>

text \<open>A complete tree: every branch has both children.\<close>

inductive full_tree :: "MerkleNode \<Rightarrow> bool" where
  leaf: "full_tree (MerkleNode True d r lo ro)"
| branch: "full_tree l \<Longrightarrow> full_tree rt \<Longrightarrow> full_tree (MerkleNode False d r (Some l) (Some rt))"

fun leaf_roots :: "MerkleNode \<Rightarrow> bytes set" where
  "leaf_roots (MerkleNode True d r lo ro) = {r}"
| "leaf_roots (MerkleNode False d r (Some l) (Some rt)) = leaf_roots l \<union> leaf_roots rt"
| "leaf_roots (MerkleNode False d r lo ro) = {}"

section \<open>The tree's root is the reference's\<close>

lemma mkMerkleTreeRoot_1: "mkMerkleTreeRoot h 1 [d] = Some (Ok (mkLeaf h d))"
  by (subst mkMerkleTreeRoot.simps) simp

lemma mkMerkleTreeRoot_reference:
  assumes "length data = n" "0 < n" "[] \<notin> set data"
  shows "\<exists>node. mkMerkleTreeRoot h n data = Some (Ok (Some node)) \<and>
    node_root node = merkle_levels h (map h data) \<and> full_tree node \<and> leaf_roots node = h ` set data"
  using assms
proof (induction n arbitrary: data rule: less_induct)
  case (less n)
  show ?case
  proof (cases "n = 1")
    case True
    with less.prems(1) have "length data = Suc 0" by simp
    then obtain d where "data = [d]"
      by (auto simp only: length_Suc_conv length_0_conv)
    with True less.prems(3) show ?thesis
      by (simp only: mkMerkleTreeRoot_1) (auto simp: mkLeaf_def mkLeafRootHash_def GenHash_def intro: full_tree.leaf)
  next
    case False
    with less.prems have "2 \<le> n" by simp
    then obtain i where i: "2 ^ i < n" "n \<le> 2 ^ Suc i" by (rule log_split)
    have p: "powerOfTwo n = 2 ^ i" by (rule powerOfTwo_split [OF i])
    let ?l = "take (2 ^ i) data" and ?r = "drop (2 ^ i) data"
    have parts: "length ?l = 2 ^ i" "length ?r = n - 2 ^ i" "[] \<notin> set ?l" "[] \<notin> set ?r"
      using less.prems i by (auto dest: in_set_takeD in_set_dropD)
    obtain l where l: "mkMerkleTreeRoot h (2 ^ i) ?l = Some (Ok (Some l))"
      "node_root l = merkle_levels h (map h ?l)" "full_tree l" "leaf_roots l = h ` set ?l"
      using less.IH [OF i(1) parts(1) _ parts(3)] by auto
    obtain r where r: "mkMerkleTreeRoot h (n - 2 ^ i) ?r = Some (Ok (Some r))"
      "node_root r = merkle_levels h (map h ?r)" "full_tree r" "leaf_roots r = h ` set ?r"
      using less.IH [OF _ parts(2) _ parts(4)] i(1) by auto
    have "merkle_levels h (map h ?l @ map h ?r) =
        h (merkle_levels h (map h ?l) @ merkle_levels h (map h ?r))"
      by (rule merkle_levels_split [of _ i]) (use parts i in \<open>auto simp flip: length_greater_0_conv\<close>)
    then have levels: "merkle_levels h (map h data) = h (node_root l @ node_root r)"
      by (simp only: l(2) r(2) map_append [symmetric] append_take_drop_id)
    have "mkMerkleTreeRoot h n data = Some (Ok (mkBranch h (Some l) (Some r)))"
      using False i less.prems(1)
      by (subst mkMerkleTreeRoot.simps) (simp add: p l(1) r(1))
    moreover have "h ` set ?l \<union> h ` set ?r = h ` set data"
      by (simp only: image_Un [symmetric] set_append [symmetric] append_take_drop_id)
    ultimately show ?thesis
      using l(3) r(3) by (simp add: mkBranch_def mkRootHash_def GenHash_def levels l(4) r(4) full_tree.branch)
  qed
qed

lemma merkle_New_reference:
  assumes "data \<noteq> []" "[] \<notin> set data"
  shows "\<exists>t. merkle_New h data = Some (Ok t) \<and> GetMtHash t = Ok (merkle_levels h (map h data))"
  using mkMerkleTreeRoot_reference [of data "length data" h] assms
  by (auto simp: merkle_New_def GetMtHash_def GetMtRoot_def)

text \<open>The digest \<open>GetMtHash(New(h, data))\<close> that the callers use.\<close>

definition merkle_hash :: "(bytes \<Rightarrow> bytes) \<Rightarrow> bytes list \<Rightarrow> bytes outcome option" where
  "merkle_hash h data =
     (case merkle_New h data of None \<Rightarrow> None | Some r \<Rightarrow> Some (obind r GetMtHash))"

lemma merkle_hash_reference:
  "data \<noteq> [] \<Longrightarrow> [] \<notin> set data \<Longrightarrow> merkle_hash h data = Some (Ok (merkle_levels h (map h data)))"
  using merkle_New_reference [of data h] by (auto simp: merkle_hash_def)

lemma merkle_hash_Nil: "merkle_hash h [] = Some (Ok [])"
  by (simp add: merkle_hash_def merkle_New_def GetMtHash_def)

section \<open>Equal roots of equally many items\<close>

text \<open>The strings that are hashed while a tree is built: the items and the digests of sibling nodes.\<close>

fun node_inputs :: "MerkleNode \<Rightarrow> bytes list" where
  "node_inputs (MerkleNode True d r lo ro) = [d]"
| "node_inputs (MerkleNode False d r (Some l) (Some rt)) =
     (node_root l @ node_root rt) # node_inputs l @ node_inputs rt"
| "node_inputs (MerkleNode False d r lo ro) = []"

text \<open>Two different strings among given ones have the same digest.\<close>

definition collide :: "(bytes \<Rightarrow> bytes) \<Rightarrow> bytes list \<Rightarrow> bytes list \<Rightarrow> bool" where
  "collide h xs ys \<longleftrightarrow> (\<exists>a \<in> set xs. \<exists>b \<in> set ys. a \<noteq> b \<and> h a = h b)"

lemma collide_mono: "collide h xs ys \<Longrightarrow> set xs \<subseteq> set xs' \<Longrightarrow> set ys \<subseteq> set ys' \<Longrightarrow> collide h xs' ys'"
  by (auto simp: collide_def)

lemma mkMerkleTreeRoot_split:
  assumes "2 \<le> length data" "[] \<notin> set data"
  obtains k l r where "0 < k" "k < length data" "powerOfTwo (length data) = k"
    "mkMerkleTreeRoot h k (take k data) = Some (Ok (Some l))"
    "mkMerkleTreeRoot h (length data - k) (drop k data) = Some (Ok (Some r))"
    "mkMerkleTreeRoot h (length data) data =
      Some (Ok (Some (MerkleNode False [] (h (node_root l @ node_root r)) (Some l) (Some r))))"
proof -
  let ?n = "length data"
  obtain i where i: "2 ^ i < ?n" "?n \<le> 2 ^ Suc i" using assms(1) by (rule log_split)
  have p: "powerOfTwo ?n = 2 ^ i" by (rule powerOfTwo_split [OF i])
  have parts: "[] \<notin> set (take (2 ^ i) data)" "[] \<notin> set (drop (2 ^ i) data)"
    using assms(2) by (auto dest: in_set_takeD in_set_dropD)
  obtain l where l: "mkMerkleTreeRoot h (2 ^ i) (take (2 ^ i) data) = Some (Ok (Some l))"
    using mkMerkleTreeRoot_reference [of "take (2 ^ i) data" "2 ^ i" h] parts(1) i(1) by auto
  obtain r where r: "mkMerkleTreeRoot h (?n - 2 ^ i) (drop (2 ^ i) data) = Some (Ok (Some r))"
    using mkMerkleTreeRoot_reference [of "drop (2 ^ i) data" "?n - 2 ^ i" h] parts(2) i(1) by auto
  have "mkMerkleTreeRoot h ?n data = Some (Ok (mkBranch h (Some l) (Some r)))"
    using i assms(1) by (subst mkMerkleTreeRoot.simps) (simp add: p l r)
  with i(1) p l r show ?thesis
    by (intro that [of "2 ^ i" l r]) (simp_all add: mkBranch_def mkRootHash_def GenHash_def)
qed

lemma mkMerkleTreeRoot_single: "x \<noteq> [] \<Longrightarrow>
    mkMerkleTreeRoot h (Suc 0) [x] = Some (Ok (Some (MerkleNode True x (h x) None None)))"
  using mkMerkleTreeRoot_1 [of h x] by (simp add: mkLeaf_def mkLeafRootHash_def GenHash_def)

text \<open>Two trees over equally many items that have the same root hash.\<close>

lemma mkMerkleTreeRoot_binds:
  assumes "mkMerkleTreeRoot h (length xs) xs = Some (Ok (Some s))" "mkMerkleTreeRoot h (length ys) ys = Some (Ok (Some t))"
    "node_root s = node_root t" "length xs = length ys" "xs \<noteq> []" "[] \<notin> set xs" "[] \<notin> set ys" "\<And>x. length (h x) = w"
  shows "xs = ys \<or> collide h (node_inputs s) (node_inputs t)"
  using assms(1-7)
proof (induction "length xs" arbitrary: xs ys s t rule: less_induct)
  case less
  show ?case
  proof (cases "2 \<le> length xs")
    case False
    with less.prems(5) have "length xs = Suc 0" by (cases xs) (auto simp: not_le less_Suc_eq numeral_2_eq_2)
    then obtain x y where "xs = [x]" "ys = [y]"
      using less.prems(4) by (metis length_0_conv length_Suc_conv)
    with less.prems show ?thesis by (auto simp: mkMerkleTreeRoot_single collide_def)
  next
    case True
    obtain k l r where x: "0 < k" "k < length xs" "powerOfTwo (length xs) = k"
      "mkMerkleTreeRoot h k (take k xs) = Some (Ok (Some l))" "mkMerkleTreeRoot h (length xs - k) (drop k xs) = Some (Ok (Some r))"
      "mkMerkleTreeRoot h (length xs) xs = Some (Ok (Some (MerkleNode False [] (h (node_root l @ node_root r)) (Some l) (Some r))))"
      by (rule mkMerkleTreeRoot_split [OF True less.prems(6)])
    obtain k' l' r' where y: "powerOfTwo (length ys) = k'"
      "mkMerkleTreeRoot h k' (take k' ys) = Some (Ok (Some l'))" "mkMerkleTreeRoot h (length ys - k') (drop k' ys) = Some (Ok (Some r'))"
      "mkMerkleTreeRoot h (length ys) ys = Some (Ok (Some (MerkleNode False [] (h (node_root l' @ node_root r')) (Some l') (Some r'))))"
      by (rule mkMerkleTreeRoot_split [of ys h]) (use True less.prems in auto)
    have kk: "k' = k" using x(3) y(1) less.prems(4) by simp
    have st: "s = MerkleNode False [] (h (node_root l @ node_root r)) (Some l) (Some r)"
      "t = MerkleNode False [] (h (node_root l' @ node_root r')) (Some l') (Some r')"
      using less.prems(1,2) x(6) y(4) by auto
    have sub: "set (node_inputs l) \<subseteq> set (node_inputs s)" "set (node_inputs l') \<subseteq> set (node_inputs t)"
      "set (node_inputs r) \<subseteq> set (node_inputs s)" "set (node_inputs r') \<subseteq> set (node_inputs t)"
      by (auto simp: st)
    show ?thesis
    proof (cases "node_root l @ node_root r = node_root l' @ node_root r'")
      case False
      with less.prems(3) show ?thesis by (auto simp: st collide_def)
    next
      case eq: True
      have ne: "take k xs \<noteq> []" "take k ys \<noteq> []" "ys \<noteq> []" "[] \<notin> set (take k xs)" "[] \<notin> set (drop k xs)"
        "[] \<notin> set (take k ys)" "[] \<notin> set (drop k ys)"
        using x(1,2) less.prems(4,6,7) by (auto dest: in_set_takeD in_set_dropD)
      have len: "length (node_root m) = w" if "mkMerkleTreeRoot h n zs = Some (Ok (Some m))" "zs \<noteq> []" "[] \<notin> set zs" "n = length zs" for m n zs
      proof (cases "2 \<le> length zs")
        case True
        from mkMerkleTreeRoot_split [OF True that(3), of h] obtain d l r where
          "mkMerkleTreeRoot h (length zs) zs = Some (Ok (Some (MerkleNode False d (h (node_root l @ node_root r)) (Some l) (Some r))))"
          by metis
        with that(1,4) assms(8) show ?thesis by auto
      next
        case False
        then have "\<exists>z. zs = [z]" using that(2) by (cases zs; cases "tl zs") auto
        then obtain z where "zs = [z]" by blast
        with that assms(8) show ?thesis by (auto simp: mkMerkleTreeRoot_single)
      qed
      have "length (node_root l) = w" "length (node_root l') = w"
        using len [OF x(4)] len [of k' "take k' ys" l'] y(2) ne less.prems(4) x(2) by (auto simp: kk)
      with eq have roots: "node_root l = node_root l'" "node_root r = node_root r'" by auto
      have "take k xs = take k ys \<or> collide h (node_inputs l) (node_inputs l')"
        by (rule less.hyps) (use x y ne roots less.prems(4) kk in auto)
      moreover have "drop k xs = drop k ys \<or> collide h (node_inputs r) (node_inputs r')"
        by (rule less.hyps) (use x y ne roots less.prems(4) kk in auto)
      ultimately show ?thesis
        using collide_mono [OF _ sub(1,2)] collide_mono [OF _ sub(3,4)] by (metis append_take_drop_id)
    qed
  qed
qed

definition hashed :: "(bytes \<Rightarrow> bytes) \<Rightarrow> bytes list \<Rightarrow> bytes list" where
  "hashed h data =
     (case merkle_New h data of
        Some (Ok t) \<Rightarrow> (case GetMtRoot t of None \<Rightarrow> [] | Some n \<Rightarrow> node_inputs n)
      | _ \<Rightarrow> [])"

lemma merkle_hash_binds:
  assumes "merkle_hash h xs = merkle_hash h ys" "length xs = length ys" "xs \<noteq> []"
    "[] \<notin> set xs" "[] \<notin> set ys" "\<And>x. length (h x) = w"
  shows "xs = ys \<or> collide h (hashed h xs) (hashed h ys)"
proof -
  have ne: "ys \<noteq> []" using assms(2,3) by auto
  then obtain m n where t: "mkMerkleTreeRoot h (length xs) xs = Some (Ok (Some m))" "mkMerkleTreeRoot h (length ys) ys = Some (Ok (Some n))"
    using mkMerkleTreeRoot_reference [of xs "length xs" h] mkMerkleTreeRoot_reference [of ys "length ys" h] assms(3-5) by auto
  then have "merkle_New h xs = Some (Ok (Some \<lparr> mt_tree = Some m \<rparr>))" "merkle_New h ys = Some (Ok (Some \<lparr> mt_tree = Some n \<rparr>))"
    using assms(3) ne by (auto simp: merkle_New_def)
  then have h: "hashed h xs = node_inputs m" "hashed h ys = node_inputs n" "node_root m = node_root n"
    using assms(1) by (simp_all add: hashed_def GetMtRoot_def merkle_hash_def GetMtHash_def)
  show ?thesis
    unfolding h(1,2) by (rule mkMerkleTreeRoot_binds [OF t h(3) assms(2-6)])
qed

end
