(* ===== verification/CodecSpec.thy ===== *)
theory CodecSpec
  imports Base58 Script Merkle
begin

text \<open>
  Properties of the codecs: integers, base 58, addresses and wallets, the scripts' binary form, and
  the Merkle root.
\<close>

text \<open>\<open>D64func\<close> accepts exactly the eight-byte encodings \<open>E64func\<close> produces and returns the
  number encoded: the two are inverse bijections, and no other input decodes.\<close>

theorem u64_codec_exact: "D64func a = Ok v \<longleftrightarrow> a = E64func v"
  using D64func_cases [of a v] by auto

text \<open>C34: Base-58 decoding inverts encoding on every byte string, leading zero bytes included.\<close>

theorem base58_roundtrip: "Decode (Encode b) = b"
  by (rule Decode_Encode)

text \<open>On strings over the alphabet, encoding inverts decoding, so no two such strings decode
  alike.\<close>

theorem base58_injective:
  assumes "\<forall>c \<in> set s. b58 ! unat c \<noteq> 255" "\<forall>c \<in> set s'. b58 ! unat c \<noteq> 255" "Decode s = Decode s'"
  shows "s = s'"
  by (metis Encode_Decode [OF assms(1)] Encode_Decode [OF assms(2)] assms(3))

theorem base58_injective_witness: "lit ''12z'' = lit ''12z''"
  by (rule base58_injective) (simp_all add: lit_def b58_def)

text \<open>A version byte and payload survive \<open>CheckEncode\<close> followed by \<open>CheckDecode\<close>, for every hash
  function with 32-byte digests.\<close>

theorem base58_check_roundtrip:
  assumes "\<And>x. length (sha256 x) = 32"
  shows "CheckDecode sha256 (CheckEncode sha256 input version) = Ok (input, version)"
  using CheckDecode_CheckEncode [OF assms] .

theorem base58_check_roundtrip_witness:
  "CheckDecode (\<lambda>x. replicate 32 0) (CheckEncode (\<lambda>x. replicate 32 0) [1, 2] 7) = Ok ([1, 2], 7)"
  by (rule base58_check_roundtrip) simp

text \<open>If \<open>NewWallet\<close> returns, its address is the address of one of the generated key pairs, has
  the 47 bytes every other part of the program requires, and \<open>AddrToPub\<close> recovers the public key
  from it; and it returns as soon as the generator yields a key whose address has 47 bytes.\<close>

theorem wallet_address_recovers_key:
  assumes "\<And>i. length (fst (gen i)) = 32" "length (PublicKeyToAddress (fst (gen n))) = 47"
  shows "\<exists>w i. NewWallet gen = Some w \<and> wAddress w = PublicKeyToAddress (fst (gen i)) \<and>
    length (wAddress w) = 47 \<and> AddrToPub (BytesToAddress (wAddress w)) = fst (gen i)"
proof -
  obtain w where w: "NewWallet gen = Some w"
    using NewWallet_loop_returns [of gen 0 n "[]" "[]"] assms(2) by (auto simp: NewWallet_def)
  then have s: "length (wAddress w) = 47"
    "\<exists>p q. (p, q) \<in> insert ([], []) (range gen) \<and> wAddress w = PublicKeyToAddress p \<and> wPrivateKey w = Encode q"
    using NewWallet_loop_sound [of gen 0 "[]" "[]" w] by (auto simp: NewWallet_def)
  have "length (PublicKeyToAddress []) \<noteq> 47"
    by (simp add: PublicKeyToAddress_def lit_def Encode_def leading_def big_SetBytes_def Encode_loop.simps [of 0])
  with s(1) have "wAddress w \<noteq> PublicKeyToAddress []" by auto
  with s(2) obtain p q where "(p, q) \<in> range gen" "wAddress w = PublicKeyToAddress p" by blast
  then have "\<exists>i. wAddress w = PublicKeyToAddress (fst (gen i))" by (metis fst_conv imageE)
  then obtain i where i: "wAddress w = PublicKeyToAddress (fst (gen i))" by blast
  then have "AddrToPub (BytesToAddress (wAddress w)) = fst (gen i)"
    using AddrToPub_PubtoAddr [OF assms(1) [of i]] s(1) by (simp add: PublicKeyToAddress_def PubtoAddr_def)
  with w i s(1) show ?thesis by blast
qed

lemma length_Encode_loop_ge: "58 ^ k \<le> n \<Longrightarrow> Suc k \<le> length (Encode_loop n)"
proof (induction k arbitrary: n)
  case 0
  then show ?case by (subst Encode_loop.simps) simp
next
  case (Suc k)
  then have "58 ^ k \<le> n div 58" by (simp add: less_eq_div_iff_mult_less_eq)
  moreover have "0 < n" using Suc.prems by (rule less_le_trans [rotated]) simp
  ultimately show ?case
    using Suc.IH [of "n div 58"]
    by (subst Encode_loop.simps) simp
qed

lemma length_Encode_255: "length (PublicKeyToAddress (replicate 32 255)) = 47"
proof -
  have u: "unat (255 :: byte) = 255" by simp
  have "foldl (\<lambda>x c. 256 * x + unat (c :: byte)) a (replicate n 255) + 1 = (a + 1) * 256 ^ n" for a n
    by (induction n arbitrary: a) (simp_all only: replicate.simps foldl.simps u power.simps, simp_all add: algebra_simps)
  from this [of 0 32] have "big_SetBytes (replicate 32 255) = 2 ^ 256 - 1"
    by (simp add: big_SetBytes_def)
  then have "44 \<le> length (Encode (replicate 32 255))"
    using length_Encode_loop_ge [of 43 "2 ^ 256 - 1"] by (simp add: Encode_def)
  then show ?thesis
    using length_Encode_32 [of "replicate 32 255"] by (simp add: PublicKeyToAddress_def lit_def)
qed

theorem wallet_address_recovers_key_witness:
  "\<exists>w i. NewWallet (\<lambda>i. (replicate 32 255, [])) = Some w \<and>
    wAddress w = PublicKeyToAddress (fst ((\<lambda>i. (replicate 32 255, [] :: bytes)) (i :: nat))) \<and>
    length (wAddress w) = 47 \<and>
    AddrToPub (BytesToAddress (wAddress w)) = fst ((\<lambda>i. (replicate 32 255, [] :: bytes)) i)"
  by (rule wallet_address_recovers_key) (simp_all only: fst_conv length_replicate length_Encode_255)

text \<open>Reading back the binary form of a script whose arguments carry the type their tag
  announces returns that script and the bytes that follow it.\<close>

theorem script_binary_roundtrip:
  assumes "\<forall>a \<in> set (sc_args s). typed_arg a" "length (script_Show s @ rest) < 2 ^ 32"
    "length (sc_args s) < 2 ^ 32"
  shows "script_Read \<lparr> sc_name = [], sc_args = [] \<rparr> (script_Show s @ rest) = Ok (s, rest)"
  using script_Read_Show [OF assms] .

theorem script_binary_roundtrip_witness:
  "script_Read \<lparr> sc_name = [], sc_args = [] \<rparr>
     (script_Show \<lparr> sc_name = [1], sc_args = [\<lparr> arg_typ = AMOUNT, arg_value = VUint 7 \<rparr>] \<rparr> @ [9]) =
   Ok (\<lparr> sc_name = [1], sc_args = [\<lparr> arg_typ = AMOUNT, arg_value = VUint 7 \<rparr>] \<rparr>, [9])"
  by (rule script_binary_roundtrip) (simp_all add: script_Show_def arg_Show_def Eslice_def Let_def)

text \<open>C19: The recursive tree construction returns for every list of non-empty items, and the root it
  computes is the one obtained by pairing the items' digests level by level.\<close>

theorem merkle_root_reference:
  assumes "data \<noteq> []" "[] \<notin> set data"
  shows "\<exists>t. merkle_New h data = Some (Ok t) \<and> GetMtHash t = Ok (merkle_levels h (map h data))"
  using merkle_New_reference [OF assms] .

theorem merkle_root_reference_witness:
  "\<exists>t. merkle_New (\<lambda>x. 0 # x) [[1], [2], [3]] = Some (Ok t) \<and> GetMtHash t = Ok [0, 0, 0, 1, 0, 2, 0, 3]"
  using merkle_root_reference [of "[[1], [2], [3]]" "\<lambda>x. 0 # x"] by simp

text \<open>C20: Equally long lists of non-empty items with the same Merkle root are equal, unless the two
  constructions themselves show a collision: one of the finitely many strings hashed for the one root (its
  items and the pairs of sibling digests) differs from one hashed for the other and has the same digest.
  The digests are all of the same length.\<close>

theorem merkle_root_binds:
  assumes "merkle_hash h xs = merkle_hash h ys" "length xs = length ys" "xs \<noteq> []"
    "[] \<notin> set xs" "[] \<notin> set ys" "\<And>x. length (h x) = w"
  shows "xs = ys \<or> (\<exists>a \<in> set (hashed h xs). \<exists>b \<in> set (hashed h ys). a \<noteq> b \<and> h a = h b)"
  using merkle_hash_binds [OF assms] by (simp add: collide_def)

lemma hashed_single: "x \<noteq> [] \<Longrightarrow> hashed h [x] = [x]"
  by (simp add: hashed_def merkle_New_def mkMerkleTreeRoot_single GetMtRoot_def)

text \<open>Two single items that the given hash sends to the same digest: the strings found are the items.\<close>

theorem merkle_root_binds_witness:
  "\<exists>a \<in> set (hashed (\<lambda>x. take 1 (x @ [0])) [[1, 2]]). \<exists>b \<in> set (hashed (\<lambda>x. take 1 (x @ [0])) [[1, 3]]).
    a \<noteq> b \<and> take 1 (a @ [0]) = take 1 (b @ [0])"
proof -
  let ?h = "\<lambda>x. take 1 (x @ [0])"
  have "merkle_hash ?h [[1, 2]] = merkle_hash ?h [[1, 3]]" by (simp add: merkle_hash_reference)
  from merkle_root_binds [OF this, of 1] show ?thesis by (simp add: hashed_single)
qed

text \<open>The tree does not separate leaves from inner nodes: the list of two items and the list of
  the single item made of their digests have the same root.\<close>

theorem merkle_second_preimage:
  assumes "x \<noteq> []" "y \<noteq> []" "h x \<noteq> []"
  shows "merkle_hash h [x, y] = merkle_hash h [h x @ h y]"
  using assms by (simp add: merkle_hash_reference)

theorem merkle_second_preimage_witness:
  "merkle_hash (\<lambda>x. 0 # x) [[1], [2]] = merkle_hash (\<lambda>x. 0 # x) [[0, 1, 0, 2]]"
  using merkle_second_preimage [of "[1]" "[2]" "\<lambda>x. 0 # x"] by simp

end
