(* ===== verification/Exec.thy ===== *)
theory Exec
  imports StoreApi Script Merkle
begin

text \<open>
  The contract executor \<open>contract/exec/exec.go\<close>. A script list runs against the contract database
  and collects its writes in a map; \<open>Root\<close> hashes the map in key order, \<open>Flush\<close> commits it. The
  lemmas describe what each statement does to the balances, the owner and the freeze flags.
\<close>

section \<open>Keys\<close>

definition aKey :: "gostring \<Rightarrow> bytes" where
  "aKey tok = tok"

definition bKey :: "gostring \<Rightarrow> gostring \<Rightarrow> bytes" where
  "bKey tok addr = ((lit ''b'' @ lit ''/'') @ tok) @ addr"

definition fKey :: "gostring \<Rightarrow> gostring \<Rightarrow> bytes" where
  "fKey tok addr = ((lit ''f'' @ lit ''/'') @ tok) @ addr"

definition tKey :: "gostring \<Rightarrow> gostring \<Rightarrow> bytes" where
  "tKey tok addr = ((lit ''t'' @ lit ''/'') @ tok) @ addr"

section \<open>Statements\<close>

type_synonym writeset = "(gostring, gostring) fmap"

text \<open>\<open>binary.LittleEndian.Uint64\<close> reads the first eight bytes and panics on fewer.\<close>

definition LE_Uint64 :: "bytes \<Rightarrow> u64 outcome" where
  "LE_Uint64 v = (if length v < 8 then Panic else Ok (le_word (take 8 v)))"

definition LE_PutUint64 :: "u64 \<Rightarrow> bytes" where
  "LE_PutUint64 v = le_bytes 8 v"

text \<open>
  The block every statement repeats to read a number: the pending write if there is one, else the
  database, a missing key counting as zero.
\<close>

definition read_u64 :: "('d, 't) DB \<Rightarrow> 'd \<Rightarrow> writeset \<Rightarrow> bytes \<Rightarrow> u64 outcome" where
  "read_u64 D d mp k =
     (case fmlookup mp k of
        Some v \<Rightarrow> LE_Uint64 v
      | None \<Rightarrow>
          (case db_Get D d k of
             Ok w \<Rightarrow> LE_Uint64 w
           | Err e \<Rightarrow> if e = NotExist then Ok 0 else Err e
           | Panic \<Rightarrow> Panic))"

definition deal0 :: "('d, 't) DB \<Rightarrow> 'd \<Rightarrow> gostring \<Rightarrow> writeset \<Rightarrow> Script \<Rightarrow> writeset outcome" where
  "deal0 D d executor mp sc =
     obind (argument sc 0) (\<lambda>a0.
     obind (argument sc 1) (\<lambda>a1.
     let arg0 = as_string a0; arg1 = as_uint64 a1; k = aKey arg0 in
     if fmlookup mp k \<noteq> None then Err (ErrText ''token exist'')
     else (case db_Get D d k of
         Ok _ \<Rightarrow> Err (ErrText ''token exist'')
       | Panic \<Rightarrow> Panic
       | Err _ \<Rightarrow>
           let mp = fmupd arg0 executor mp;
               mp = fmupd (bKey arg0 executor) (LE_PutUint64 0) mp;
               mp = fmupd (tKey arg0 executor) (LE_PutUint64 arg1) mp
           in Ok (fmupd (fKey arg0 executor) [0] mp))))"

text \<open>The ownership test of \<open>deal1\<close>, \<open>deal3\<close> and \<open>deal4\<close>: the owner is read from the database only.\<close>

definition check_owner :: "('d, 't) DB \<Rightarrow> 'd \<Rightarrow> gostring \<Rightarrow> gostring \<Rightarrow> unit outcome" where
  "check_owner D d arg0 executor =
     obind (db_Get D d (aKey arg0)) (\<lambda>v.
       if v \<noteq> executor then Err (ErrText ''permission denied'') else Ok ())"

definition deal1 :: "('d, 't) DB \<Rightarrow> 'd \<Rightarrow> gostring \<Rightarrow> writeset \<Rightarrow> Script \<Rightarrow> writeset outcome" where
  "deal1 D d executor mp sc =
     obind (argument sc 0) (\<lambda>a0.
     obind (argument sc 1) (\<lambda>a1.
     let arg0 = as_string a0; arg1 = as_uint64 a1 in
     obind (check_owner D d arg0 executor) (\<lambda>_.
     obind (read_u64 D d mp (bKey arg0 executor)) (\<lambda>b.
     Ok (fmupd (bKey arg0 executor) (LE_PutUint64 (b + arg1)) mp)))))"

text \<open>The freeze flag of \<open>deal2\<close>: set when the stored value is the single byte 1.\<close>

definition check_frozen :: "('d, 't) DB \<Rightarrow> 'd \<Rightarrow> writeset \<Rightarrow> bytes \<Rightarrow> unit outcome" where
  "check_frozen D d mp k =
     (case fmlookup mp k of
        Some v \<Rightarrow> if v = [1] then Err (ErrText ''freezed'') else Ok ()
      | None \<Rightarrow>
          (case db_Get D d k of
             Ok w \<Rightarrow> if w = [1] then Err (ErrText ''freezed'') else Ok ()
           | Err e \<Rightarrow> if e \<noteq> NotExist then Err e else Ok ()
           | Panic \<Rightarrow> Panic))"

definition deal2 :: "('d, 't) DB \<Rightarrow> 'd \<Rightarrow> gostring \<Rightarrow> writeset \<Rightarrow> Script \<Rightarrow> writeset outcome" where
  "deal2 D d executor mp sc =
     obind (argument sc 0) (\<lambda>a0.
     obind (argument sc 1) (\<lambda>a1.
     obind (argument sc 2) (\<lambda>a2.
     let arg0 = as_string a0; arg1 = as_uint64 a1; arg2 = as_string a2 in
     obind (db_Get D d (aKey arg0)) (\<lambda>_.
     obind (check_frozen D d mp (fKey arg0 executor)) (\<lambda>_.
     obind (read_u64 D d mp (bKey arg0 executor)) (\<lambda>from.
     if from < arg1 then Err (ErrText ''insufficient balance'')
     else obind (read_u64 D d mp (bKey arg0 arg2)) (\<lambda>to.
       let mp = fmupd (bKey arg0 executor) (LE_PutUint64 (from - arg1)) mp
       in Ok (fmupd (bKey arg0 arg2) (LE_PutUint64 (to + arg1)) mp))))))))"

definition deal3 :: "('d, 't) DB \<Rightarrow> 'd \<Rightarrow> gostring \<Rightarrow> writeset \<Rightarrow> Script \<Rightarrow> writeset outcome" where
  "deal3 D d executor mp sc =
     obind (argument sc 0) (\<lambda>a0.
     obind (argument sc 1) (\<lambda>a1.
     let arg0 = as_string a0; arg1 = as_string a1 in
     obind (check_owner D d arg0 executor) (\<lambda>_.
     Ok (fmupd (fKey arg0 arg1) [1] mp))))"

definition deal4 :: "('d, 't) DB \<Rightarrow> 'd \<Rightarrow> gostring \<Rightarrow> writeset \<Rightarrow> Script \<Rightarrow> writeset outcome" where
  "deal4 D d executor mp sc =
     obind (argument sc 0) (\<lambda>a0.
     obind (argument sc 1) (\<lambda>a1.
     let arg0 = as_string a0; arg1 = as_string a1 in
     obind (check_owner D d arg0 executor) (\<lambda>_.
     Ok (fmupd (fKey arg0 arg1) [0] mp))))"

definition deal5 :: "('d, 't) DB \<Rightarrow> 'd \<Rightarrow> gostring \<Rightarrow> writeset \<Rightarrow> Script \<Rightarrow> writeset outcome" where
  "deal5 D d executor mp sc = Ok mp"

definition deal6 :: "('d, 't) DB \<Rightarrow> 'd \<Rightarrow> gostring \<Rightarrow> writeset \<Rightarrow> Script \<Rightarrow> writeset outcome" where
  "deal6 D d executor mp sc = Ok mp"

text \<open>\<open>dealRegistry\<close>; calling the nil function of an unknown name panics.\<close>

definition dealRegistry ::
  "gostring \<Rightarrow> (('d, 't) DB \<Rightarrow> 'd \<Rightarrow> gostring \<Rightarrow> writeset \<Rightarrow> Script \<Rightarrow> writeset outcome) option" where
  "dealRegistry name =
     (if name = lit ''new'' then Some deal0
      else if name = lit ''mint'' then Some deal1
      else if name = lit ''transfer'' then Some deal2
      else if name = lit ''freeze'' then Some deal3
      else if name = lit ''unfreeze'' then Some deal4
      else None)"

section \<open>Balance, New, Root, Flush\<close>

definition Balance :: "('d, 't) DB \<Rightarrow> 'd \<Rightarrow> gostring \<Rightarrow> gostring \<Rightarrow> u64 outcome" where
  "Balance D d tok addr = obind (db_Get D d (bKey tok addr)) LE_Uint64"

text \<open>A nil script in the list (\<open>None\<close>) is dereferenced by \<open>scs[i].Name()\<close> and panics.\<close>

fun run_scripts :: "('d, 't) DB \<Rightarrow> 'd \<Rightarrow> gostring \<Rightarrow> writeset \<Rightarrow> Script option list \<Rightarrow> writeset outcome" where
  "run_scripts D d owner mp [] = Ok mp"
| "run_scripts D d owner mp (sc # scs) =
     (case sc of None \<Rightarrow> Panic
      | Some s \<Rightarrow>
          (case dealRegistry (sc_name s) of None \<Rightarrow> Panic
           | Some f \<Rightarrow> obind (f D d owner mp s) (\<lambda>mp. run_scripts D d owner mp scs)))"

record exec =
  e_mp :: writeset

definition exec_New :: "('d, 't) DB \<Rightarrow> 'd \<Rightarrow> Script option list \<Rightarrow> gostring \<Rightarrow> exec outcome" where
  "exec_New D d scs owner =
     obind (run_scripts D d owner fmempty scs) (\<lambda>mp. Ok \<lparr> e_mp = mp \<rparr>)"

fun root_items :: "writeset \<Rightarrow> gostring list \<Rightarrow> bytes list \<Rightarrow> bytes list" where
  "root_items mp [] xs = xs"
| "root_items mp (k # ss) xs = root_items mp ss ((xs @ [k]) @ [case fmlookup mp k of None \<Rightarrow> [] | Some v \<Rightarrow> v])"

definition exec_Root :: "(bytes \<Rightarrow> bytes) \<Rightarrow> exec \<Rightarrow> bytes outcome option" where
  "exec_Root sha3 e =
     (let ss = sorted_list_of_fset (fmdom (e_mp e))
      in merkle_hash sha3 (root_items (e_mp e) ss []))"

text \<open>
  Go leaves the order of \<open>for k, v := range e.mp\<close> open: \<open>order\<close> lists the map's pairs in the order
  the loop takes them.
\<close>

fun flush_loop :: "('d, 't) Transaction \<Rightarrow> (gostring \<times> gostring) list \<Rightarrow> ('t, unit) act" where
  "flush_loop T [] t = (t, Ok ())"
| "flush_loop T ((k, v) # kvs) t = abind (tx_Set T k v) (\<lambda>_. flush_loop T kvs) t"

definition range_order :: "writeset \<Rightarrow> (gostring \<times> gostring) list \<Rightarrow> bool" where
  "range_order mp order \<longleftrightarrow>
     distinct (map fst order) \<and> set order = {(k, v). fmlookup mp k = Some v}"

definition exec_Flush ::
  "('d, 't) DB \<Rightarrow> ('d, 't) Transaction \<Rightarrow> (gostring \<times> gostring) list \<Rightarrow> ('d, unit) act" where
  "exec_Flush D T order d =
     (case flush_loop T order (db_NewTransaction D d) of
        (tx, Err e) \<Rightarrow> (d, Err e)
      | (tx, Panic) \<Rightarrow> (d, Panic)
      | (tx, Ok _) \<Rightarrow> tx_Commit T tx d)"

section \<open>Keys that differ\<close>

lemma key_prefixes [simp]:
  "bKey tok a \<noteq> fKey tok' a'" "fKey tok a \<noteq> bKey tok' a'" "bKey tok a \<noteq> tKey tok' a'"
  "tKey tok a \<noteq> bKey tok' a'" "fKey tok a \<noteq> tKey tok' a'" "tKey tok a \<noteq> fKey tok' a'"
  by (simp_all add: bKey_def fKey_def tKey_def lit_def)

lemma key_inject [simp]:
  "bKey tok a = bKey tok a' \<longleftrightarrow> a = a'" "fKey tok a = fKey tok a' \<longleftrightarrow> a = a'"
  "tKey tok a = tKey tok a' \<longleftrightarrow> a = a'"
  by (simp_all add: bKey_def fKey_def tKey_def)

lemma key_inject_length:
  "length a = length a' \<Longrightarrow> bKey tok a = bKey tok' a' \<longleftrightarrow> tok = tok' \<and> a = a'"
  "length a = length a' \<Longrightarrow> fKey tok a = fKey tok' a' \<longleftrightarrow> tok = tok' \<and> a = a'"
  by (auto simp: bKey_def fKey_def append_eq_append_conv)

lemma keys_not_Nil [simp]: "bKey tok a \<noteq> []" "fKey tok a \<noteq> []" "tKey tok a \<noteq> []"
  by (simp_all add: bKey_def fKey_def tKey_def)

lemma LE_Uint64_Put [simp]: "LE_Uint64 (LE_PutUint64 v) = Ok v"
  by (simp add: LE_Uint64_def LE_PutUint64_def le_word_le_bytes_id)

section \<open>Balances\<close>

text \<open>What a statement sees under a key: the pending write, else the database's content \<open>c\<close>.\<close>

definition eff :: "writeset \<Rightarrow> (bytes \<Rightarrow> bytes option) \<Rightarrow> bytes \<Rightarrow> bytes option" where
  "eff mp c k = (case fmlookup mp k of Some v \<Rightarrow> Some v | None \<Rightarrow> c k)"

lemma eff_upd [simp]: "eff (fmupd k v mp) c = (eff mp c)(k \<mapsto> v)"
  by (rule ext) (simp add: eff_def)

lemma eff_empty [simp]: "eff fmempty c = c"
  by (rule ext) (simp add: eff_def)

definition token_balance :: "(bytes \<Rightarrow> bytes option) \<Rightarrow> gostring \<Rightarrow> gostring \<Rightarrow> u64" where
  "token_balance c tok a =
     (case c (bKey tok a) of None \<Rightarrow> 0 | Some v \<Rightarrow> or_zero 0 (LE_Uint64 v))"

lemma token_balance_upd [simp]:
  "token_balance (c(bKey tok a \<mapsto> LE_PutUint64 v)) tok b = (if b = a then v else token_balance c tok b)"
  "token_balance (c(fKey tok' a \<mapsto> w)) tok b = token_balance c tok b"
  by (simp_all add: token_balance_def)

lemma sum_transfer:
  fixes f g :: "'a \<Rightarrow> 'b::ab_group_add"
  assumes "finite A" "x \<in> A" "y \<in> A" "x \<noteq> y" "g x = f x - m" "g y = f y + m"
    "\<And>z. z \<noteq> x \<Longrightarrow> z \<noteq> y \<Longrightarrow> g z = f z"
  shows "sum g A = sum f A"
proof -
  have split: "sum h A = h x + (h y + sum h (A - {x} - {y}))" for h :: "'a \<Rightarrow> 'b"
    using assms(1-4) by (simp add: sum.remove [of A x] sum.remove [of "A - {x}" y])
  have "sum g (A - {x} - {y}) = sum f (A - {x} - {y})"
    using assms(7) by (intro sum.cong) auto
  then show ?thesis
    unfolding split [of g] split [of f] assms(5,6) by simp
qed

context store_tx begin

lemma read_u64_eff:
  assumes "k \<noteq> []"
  shows "read_u64 D d mp k = (case eff mp (stored d) k of None \<Rightarrow> Ok 0 | Some v \<Rightarrow> LE_Uint64 v)"
  using assms by (auto simp: read_u64_def eff_def get_stored split: option.splits)

lemma read_balance:
  assumes "read_u64 D d mp (bKey tok a) = Ok b"
  shows "token_balance (eff mp (stored d)) tok a = b"
  using assms by (auto simp: read_u64_eff token_balance_def split: option.splits)

lemma check_frozen_eff:
  assumes "k \<noteq> []"
  shows "check_frozen D d mp k =
    (if eff mp (stored d) k = Some [1] then Err (ErrText ''freezed'') else Ok ())"
  using assms by (auto simp: check_frozen_def eff_def get_stored split: option.splits)

lemma check_owner_ok:
  assumes "tok \<noteq> []"
  shows "check_owner D d tok ex = Ok () \<longleftrightarrow> stored d tok = Some ex"
  using assms by (auto simp: check_owner_def aKey_def get_stored obind_Ok_iff split: option.splits)

lemma db_Get_ok: "k \<noteq> [] \<Longrightarrow> db_Get D d k = Ok v \<longleftrightarrow> stored d k = Some v"
  by (auto simp: get_stored split: option.splits)

text \<open>A transfer that succeeds: what it required and what it wrote.\<close>

lemma deal2_Ok:
  assumes "deal2 D d ex mp sc = Ok mp'"
  obtains tok amt to frombal tobal where
    "argument sc 0 = Ok tok" "argument sc 1 = Ok amt" "argument sc 2 = Ok to"
    "eff mp (stored d) (fKey (as_string tok) ex) \<noteq> Some [1]"
    "token_balance (eff mp (stored d)) (as_string tok) ex = frombal" "as_uint64 amt \<le> frombal"
    "token_balance (eff mp (stored d)) (as_string tok) (as_string to) = tobal"
    "mp' = fmupd (bKey (as_string tok) (as_string to)) (LE_PutUint64 (tobal + as_uint64 amt))
      (fmupd (bKey (as_string tok) ex) (LE_PutUint64 (frombal - as_uint64 amt)) mp)"
  using assms
  by (auto simp: deal2_def Let_def obind_Ok_iff check_frozen_eff not_less
      dest!: read_balance split: if_splits)

lemma deal1_Ok:
  assumes "deal1 D d ex mp sc = Ok mp'"
  obtains tok amt b where "argument sc 0 = Ok tok" "argument sc 1 = Ok amt"
    "check_owner D d (as_string tok) ex = Ok ()"
    "token_balance (eff mp (stored d)) (as_string tok) ex = b"
    "mp' = fmupd (bKey (as_string tok) ex) (LE_PutUint64 (b + as_uint64 amt)) mp"
  using assms by (auto simp: deal1_def Let_def obind_Ok_iff dest!: read_balance)

lemma deal3_Ok:
  assumes "deal3 D d ex mp sc = Ok mp'"
  obtains tok a where "argument sc 0 = Ok tok" "argument sc 1 = Ok a"
    "check_owner D d (as_string tok) ex = Ok ()"
    "mp' = fmupd (fKey (as_string tok) (as_string a)) [1] mp"
  using assms by (auto simp: deal3_def Let_def obind_Ok_iff)

lemma deal4_Ok:
  assumes "deal4 D d ex mp sc = Ok mp'"
  obtains tok a where "argument sc 0 = Ok tok" "argument sc 1 = Ok a"
    "check_owner D d (as_string tok) ex = Ok ()"
    "mp' = fmupd (fKey (as_string tok) (as_string a)) [0] mp"
  using assms by (auto simp: deal4_def Let_def obind_Ok_iff)

lemma deal0_Ok:
  assumes "deal0 D d ex mp sc = Ok mp'"
  obtains tok amt where "argument sc 0 = Ok tok" "argument sc 1 = Ok amt"
    "fmlookup mp (as_string tok) = None" "\<not> is_ok (db_Get D d (as_string tok))"
    "mp' = fmupd (fKey (as_string tok) ex) [0] (fmupd (tKey (as_string tok) ex)
      (LE_PutUint64 (as_uint64 amt)) (fmupd (bKey (as_string tok) ex) (LE_PutUint64 0)
      (fmupd (as_string tok) ex mp)))"
  using assms
  by (auto simp: deal0_def Let_def obind_Ok_iff aKey_def split: if_splits outcome.splits)

end

lemma dealRegistry_simps [simp]:
  "dealRegistry (lit ''new'') = Some deal0" "dealRegistry (lit ''mint'') = Some deal1"
  "dealRegistry (lit ''transfer'') = Some deal2" "dealRegistry (lit ''freeze'') = Some deal3"
  "dealRegistry (lit ''unfreeze'') = Some deal4"
  by (simp_all add: dealRegistry_def lit_def)

lemma dealRegistry_cases:
  assumes "dealRegistry n = Some f"
  shows "n = lit ''new'' \<and> f = deal0 \<or> n = lit ''mint'' \<and> f = deal1 \<or>
    n = lit ''transfer'' \<and> f = deal2 \<or> n = lit ''freeze'' \<and> f = deal3 \<or>
    n = lit ''unfreeze'' \<and> f = deal4"
  using assms by (auto simp: dealRegistry_def split: if_splits)

text \<open>One statement of a script list that ran to its end.\<close>

lemma run_scripts_Cons_Ok:
  assumes "run_scripts D d owner mp (sc # scs) = Ok mp'"
  obtains s f mp1 where "sc = Some s" "dealRegistry (sc_name s) = Some f"
    "f D d owner mp s = Ok mp1" "run_scripts D d owner mp1 scs = Ok mp'"
  using assms by (auto simp: obind_Ok_iff split: option.splits)

section \<open>Supply, permissions, ownership\<close>

text \<open>
  A statement that only moves token \<open>tok\<close> from \<open>ex\<close> to another account in \<open>A\<close>, or changes a
  freeze flag.
\<close>

definition moves_within :: "gostring \<Rightarrow> gostring \<Rightarrow> gostring set \<Rightarrow> Script option \<Rightarrow> bool" where
  "moves_within tok ex A sc \<longleftrightarrow>
     (\<exists>s. sc = Some s \<and>
       (sc_name s = lit ''freeze'' \<or> sc_name s = lit ''unfreeze'' \<or>
        sc_name s = lit ''transfer'' \<and> argument s 0 = Ok (VString tok) \<and>
        (\<exists>to \<in> A. to \<noteq> ex \<and> argument s 2 = Ok (VString to))))"

text \<open>What the accounts of a set hold together, as a natural number.\<close>

definition supply_of :: "(bytes \<Rightarrow> bytes option) \<Rightarrow> gostring \<Rightarrow> gostring set \<Rightarrow> nat" where
  "supply_of c tok A = (\<Sum>a \<in> A. unat (token_balance c tok a))"

lemma lit_names_distinct [simp]:
  "lit ''freeze'' \<noteq> lit ''transfer''" "lit ''unfreeze'' \<noteq> lit ''transfer''"
  "lit ''freeze'' \<noteq> lit ''new''" "lit ''unfreeze'' \<noteq> lit ''new''"
  "lit ''freeze'' \<noteq> lit ''mint''" "lit ''unfreeze'' \<noteq> lit ''mint''"
  "lit ''transfer'' \<noteq> lit ''new''" "lit ''transfer'' \<noteq> lit ''mint''"
  "lit ''transfer'' \<noteq> lit ''freeze''" "lit ''transfer'' \<noteq> lit ''unfreeze''"
  "lit ''freeze'' \<noteq> lit ''unfreeze''" "lit ''unfreeze'' \<noteq> lit ''freeze''"
  "lit ''new'' \<noteq> lit ''mint''" "lit ''mint'' \<noteq> lit ''new''"
  "lit ''new'' \<noteq> lit ''freeze''" "lit ''new'' \<noteq> lit ''unfreeze''"
  "lit ''mint'' \<noteq> lit ''freeze''" "lit ''mint'' \<noteq> lit ''unfreeze''"
  "lit ''new'' \<noteq> lit ''transfer''" "lit ''mint'' \<noteq> lit ''transfer''"
  by (simp_all add: lit_def)

context store_tx begin

lemma transfer_supply:
  assumes run: "deal2 D d ex mp s = Ok mp'" and A: "finite A" "ex \<in> A" "to \<in> A" "to \<noteq> ex"
    and args: "argument s 0 = Ok (VString tok)" "argument s 2 = Ok (VString to)"
    and fits: "supply_of (eff mp (stored d)) tok A < 2 ^ 64"
  shows "supply_of (eff mp' (stored d)) tok A = supply_of (eff mp (stored d)) tok A"
proof -
  let ?f = "token_balance (eff mp (stored d)) tok" and ?g = "token_balance (eff mp' (stored d)) tok"
  from run obtain amt where le: "amt \<le> ?f ex" and
    mp': "mp' = fmupd (bKey tok to) (LE_PutUint64 (?f to + amt))
      (fmupd (bKey tok ex) (LE_PutUint64 (?f ex - amt)) mp)"
    by (rule deal2_Ok) (use args in auto)
  have "unat (?f to) + unat (?f ex) = (\<Sum>a \<in> {to, ex}. unat (?f a))" using A(4) by simp
  also have "\<dots> \<le> supply_of (eff mp (stored d)) tok A"
    unfolding supply_of_def using A by (intro sum_mono2) auto
  finally have "unat (?f to) + unat amt < 2 ^ 64" using le fits by (simp add: word_le_nat_alt)
  then have u: "unat (?f to + amt) = unat (?f to) + unat amt" "unat (?f ex - amt) = unat (?f ex) - unat amt"
    using le by (simp_all add: unat_plus_if' unat_sub)
  have "(\<Sum>a \<in> A. int (unat (?g a))) = (\<Sum>a \<in> A. int (unat (?f a)))"
    by (rule sum_transfer [OF A(1,2,3), where m = "int (unat amt)"])
      (use A(4) le in \<open>auto simp: mp' u word_le_nat_alt\<close>)
  then show ?thesis unfolding supply_of_def of_nat_sum [symmetric] of_nat_eq_iff .
qed

lemma run_scripts_supply:
  assumes "run_scripts D d ex mp scs = Ok mp'" "\<forall>sc \<in> set scs. moves_within tok ex A sc"
    "finite A" "ex \<in> A" "supply_of (eff mp (stored d)) tok A < 2 ^ 64"
  shows "supply_of (eff mp' (stored d)) tok A = supply_of (eff mp (stored d)) tok A"
  using assms(1,2,5)
proof (induction scs arbitrary: mp)
  case Nil
  then show ?case by simp
next
  case (Cons sc scs)
  obtain s f mp1 where s: "sc = Some s" "dealRegistry (sc_name s) = Some f"
    "f D d ex mp s = Ok mp1" "run_scripts D d ex mp1 scs = Ok mp'"
    by (rule run_scripts_Cons_Ok [OF Cons.prems(1)])
  have same: "supply_of (eff mp1 (stored d)) tok A = supply_of (eff mp (stored d)) tok A"
  proof (cases "sc_name s = lit ''transfer''")
    case True
    with Cons.prems(2) s(1,2) obtain to where "to \<in> A" "to \<noteq> ex" "f = deal2"
      "argument s 0 = Ok (VString tok)" "argument s 2 = Ok (VString to)"
      by (auto simp: moves_within_def)
    with s(3) assms(3,4) Cons.prems(3) show ?thesis
      by (metis transfer_supply)
  next
    case False
    then show ?thesis
      using Cons.prems(2) s by (auto simp: moves_within_def supply_of_def elim!: deal3_Ok deal4_Ok)
  qed
  with Cons.IH [OF s(4)] Cons.prems(2,3) show ?case by simp
qed

text \<open>Statements that need the token's owner.\<close>

lemma run_scripts_owner:
  assumes "run_scripts D d ex mp scs = Ok mp'" "Some s \<in> set scs"
    "sc_name s \<in> {lit ''mint'', lit ''freeze'', lit ''unfreeze''}"
    "argument s 0 = Ok (VString tok)" "tok \<noteq> []"
  shows "stored d tok = Some ex"
  using assms(1,2)
proof (induction scs arbitrary: mp)
  case Nil
  then show ?case by simp
next
  case (Cons sc scs)
  obtain s' f mp1 where s: "sc = Some s'" "dealRegistry (sc_name s') = Some f"
    "f D d ex mp s' = Ok mp1" "run_scripts D d ex mp1 scs = Ok mp'"
    by (rule run_scripts_Cons_Ok [OF Cons.prems(1)])
  show ?case
  proof (cases "s' = s")
    case True
    have "check_owner D d tok ex = Ok ()"
      using assms(3,4) s True by (auto elim!: deal1_Ok deal3_Ok deal4_Ok)
    then show ?thesis
      using assms(5) by (simp add: check_owner_ok)
  next
    case False
    then show ?thesis
      using Cons.IH [OF s(4)] Cons.prems(2) s(1) by auto
  qed
qed

end

text \<open>A token name that is not the start of a balance, freeze or total key.\<close>

definition plain_name :: "gostring \<Rightarrow> bool" where
  "plain_name tok \<longleftrightarrow>
     \<not> prefix (lit ''b/'') tok \<and> \<not> prefix (lit ''f/'') tok \<and> \<not> prefix (lit ''t/'') tok"

lemma plain_name_key:
  "plain_name tok \<Longrightarrow> bKey n a \<noteq> tok" "plain_name tok \<Longrightarrow> fKey n a \<noteq> tok"
  "plain_name tok \<Longrightarrow> tKey n a \<noteq> tok"
  by (auto simp: plain_name_def bKey_def fKey_def tKey_def lit_def)

context store_tx begin

text \<open>No statement writes under the name of a token the database already has.\<close>

lemma run_scripts_keeps_owner:
  assumes "run_scripts D d ex mp scs = Ok mp'" "fmlookup mp tok = None"
    "stored d tok = Some own" "plain_name tok" "tok \<noteq> []"
  shows "fmlookup mp' tok = None"
  using assms(1,2)
proof (induction scs arbitrary: mp)
  case Nil
  then show ?case by simp
next
  case (Cons sc scs)
  obtain s f mp1 where s: "sc = Some s" "dealRegistry (sc_name s) = Some f"
    "f D d ex mp s = Ok mp1" "run_scripts D d ex mp1 scs = Ok mp'"
    by (rule run_scripts_Cons_Ok [OF Cons.prems(1)])
  have "is_ok (db_Get D d tok)"
    using assms(3,5) by (simp add: get_stored)
  then have "fmlookup mp1 tok = None"
    using dealRegistry_cases [OF s(2)] s(3) Cons.prems(2) plain_name_key [OF assms(4)]
    by (auto elim!: deal0_Ok deal1_Ok deal2_Ok deal3_Ok deal4_Ok)
  then show ?case
    by (rule Cons.IH [OF s(4)])
qed

lemma deal2_frozen:
  assumes "argument s 0 = Ok (VString tok)" "argument s 1 = Ok amt" "argument s 2 = Ok to"
    "stored d tok = Some own" "tok \<noteq> []" "eff mp (stored d) (fKey tok ex) = Some [1]"
  shows "deal2 D d ex mp s = Err (ErrText ''freezed'')"
  using assms by (simp add: deal2_def get_stored aKey_def check_frozen_eff)

text \<open>A transfer that meets its conditions succeeds.\<close>

lemma deal2_succeeds:
  assumes "argument s 0 = Ok (VString tok)" "argument s 1 = Ok (VUint amt)" "argument s 2 = Ok (VString to)"
    "stored d tok = Some own" "tok \<noteq> []" "eff mp (stored d) (fKey tok ex) \<noteq> Some [1]"
    "\<And>a v. eff mp (stored d) (bKey tok a) = Some v \<Longrightarrow> 8 \<le> length v"
    "amt \<le> token_balance (eff mp (stored d)) tok ex"
  shows "deal2 D d ex mp s =
    Ok (fmupd (bKey tok to) (LE_PutUint64 (token_balance (eff mp (stored d)) tok to + amt))
      (fmupd (bKey tok ex) (LE_PutUint64 (token_balance (eff mp (stored d)) tok ex - amt)) mp))"
proof -
  have read: "read_u64 D d mp (bKey tok a) = Ok (token_balance (eff mp (stored d)) tok a)" for a
    using assms(7) [of a]
    by (auto simp: read_u64_eff token_balance_def LE_Uint64_def split: option.splits)
  show ?thesis
    using assms by (simp add: deal2_def Let_def get_stored aKey_def check_frozen_eff read not_less)
qed

section \<open>Flush\<close>

lemma flush_loop_seen:
  assumes "\<forall>(k, v) \<in> set order. k \<noteq> []" "distinct (map fst order)"
  shows "snd (flush_loop T order t) = Ok ()"
    "seen (fst (flush_loop T order t)) = (\<lambda>k. case map_of order k of Some v \<Rightarrow> Some v | None \<Rightarrow> seen t k)"
    "seen t = overlay (pending t) c \<Longrightarrow>
      seen (fst (flush_loop T order t)) = overlay (pending (fst (flush_loop T order t))) c"
  using assms
proof (induction order arbitrary: t)
  case Nil
  {
    case 1
    then show ?case by simp
  next
    case 2
    then show ?case by simp
  next
    case 3
    then show ?case by simp
  }
next
  case (Cons kv order)
  obtain k v where kv: "kv = (k, v)" by (cases kv)
  {
    case 1
    with Cons kv show ?case by (simp add: abind_done set_ok)
  next
    case 2
    then have "map_of order k = None"
      by (simp add: kv map_of_eq_None_iff)
    with 2 Cons kv show ?case
      by (auto simp: abind_done set_ok set_seen fun_eq_iff split: option.splits)
  next
    case 3
    let ?t1 = "fst (tx_Set T k v t)"
    have ne: "k \<noteq> []" using 3 kv by simp
    have "seen ?t1 = overlay (pending ?t1) c"
      unfolding set_seen [OF ne] set_pending [OF ne] overlay_upd 3(1) ..
    moreover have "\<forall>(k, v) \<in> set order. k \<noteq> []" "distinct (map fst order)"
      using 3 kv by auto
    ultimately have "seen (fst (flush_loop T order ?t1)) = overlay (pending (fst (flush_loop T order ?t1))) c"
      by (rule Cons.IH(3))
    with ne show ?case
      by (simp add: kv abind_done set_ok)
  }
qed

lemma exec_Flush_stored:
  assumes "range_order mp order" "fmlookup mp [] = None"
  shows "snd (exec_Flush D T order d) = Ok ()"
    "stored (fst (exec_Flush D T order d)) = eff mp (stored d)"
proof -
  let ?t = "db_NewTransaction D d"
  have ne: "\<forall>(k, v) \<in> set order. k \<noteq> []" and dist: "distinct (map fst order)"
    using assms by (auto simp: range_order_def)
  have lookup: "map_of order k = fmlookup mp k" for k
    using assms(1) dist
    by (cases "fmlookup mp k")
       (auto simp: range_order_def map_of_eq_None_iff image_iff intro!: map_of_is_SomeI)
  note fl = flush_loop_seen [OF ne dist, of ?t]
  obtain tx where tx: "flush_loop T order ?t = (tx, Ok ())"
    using fl(1) by (cases "flush_loop T order ?t") auto
  show "snd (exec_Flush D T order d) = Ok ()"
    by (simp add: exec_Flush_def tx commit_ok)
  show "stored (fst (exec_Flush D T order d)) = eff mp (stored d)"
  proof -
    have "seen tx = overlay (pending tx) (stored d)"
      using fl(3) [OF in_step_new] by (simp add: tx)
    then have "stored (fst (exec_Flush D T order d)) = seen tx"
      by (simp add: exec_Flush_def tx commit_in_step)
    also have "seen tx = eff mp (stored d)"
      by (rule ext) (use fl(2) in \<open>simp add: tx eff_def lookup seen_new split: option.split\<close>)
    finally show ?thesis .
  qed
qed

text \<open>An empty key makes the flush fail, and then nothing is stored.\<close>

lemma flush_loop_empty_key:
  "([], v) \<in> set order \<Longrightarrow> snd (flush_loop T order t) \<noteq> Ok ()"
proof (induction order arbitrary: t)
  case Nil
  then show ?case by simp
next
  case (Cons kv order)
  obtain k w where kv: "kv = (k, w)" by (cases kv)
  obtain t' r where t': "tx_Set T k w t = (t', r)" by (cases "tx_Set T k w t")
  from Cons.prems kv have "k = [] \<or> ([], v) \<in> set order" by auto
  then show ?case
    using Cons.IH [of t'] set_empty [of w t] t'
    by (cases r) (auto simp: kv abind_def)
qed

lemma exec_Flush_empty_key:
  assumes "([], v) \<in> set order"
  shows "fst (exec_Flush D T order d) = d" "snd (exec_Flush D T order d) \<noteq> Ok ()"
  using flush_loop_empty_key [OF assms, of "db_NewTransaction D d"]
  by (cases "flush_loop T order (db_NewTransaction D d)";
      cases "snd (flush_loop T order (db_NewTransaction D d))"; simp add: exec_Flush_def)+

lemma Balance_stored:
  "Balance D d tok a = (case stored d (bKey tok a) of None \<Rightarrow> Err NotExist | Some v \<Rightarrow> LE_Uint64 v)"
  by (simp add: Balance_def get_stored split: option.splits)

end

section \<open>The root binds the write set\<close>

lemma root_items_append:
  "root_items mp ss xs = xs @ concat (map (\<lambda>k. [k, case fmlookup mp k of None \<Rightarrow> [] | Some v \<Rightarrow> v]) ss)"
  by (induction ss arbitrary: xs) simp_all

lemma concat_pairs_inject:
  "concat (map (\<lambda>k. [k, f k]) ss) = concat (map (\<lambda>k. [k, g k]) ts) \<Longrightarrow>
    ss = ts \<and> (\<forall>k \<in> set ss. f k = g k)"
proof (induction ss arbitrary: ts)
  case Nil
  then show ?case by (cases ts) auto
next
  case (Cons s ss)
  then show ?case by (cases ts) auto
qed

lemma length_concat_pairs: "length (concat (map (\<lambda>k. [k, f k]) ss)) = 2 * length ss"
  by (induction ss) simp_all

definition no_empty_item :: "writeset \<Rightarrow> bool" where
  "no_empty_item mp \<longleftrightarrow> fmlookup mp [] = None \<and> (\<forall>k. fmlookup mp k \<noteq> Some [])"

lemma length_sorted_fset: "length (sorted_list_of_fset A) = fcard A"
  by (simp add: sorted_list_of_fset.rep_eq fcard.rep_eq)

text \<open>The items of the root: the keys in order, each with its value.\<close>

definition written :: "exec \<Rightarrow> bytes list" where
  "written e = root_items (e_mp e) (sorted_list_of_fset (fmdom (e_mp e))) []"

lemma exec_Root_written: "exec_Root h e = merkle_hash h (written e)"
  by (simp add: exec_Root_def written_def Let_def)

lemma written_items:
  assumes "no_empty_item (e_mp e)" "e_mp e \<noteq> fmempty"
  shows "written e \<noteq> []" "[] \<notin> set (written e)"
proof -
  let ?ss = "sorted_list_of_fset (fmdom (e_mp e))"
  have "?ss \<noteq> []"
    using assms(2) by (metis fmdom_empty fmrestrict_fset_dom fmrestrict_fset_null fset_of_list_simps(1)
        sorted_list_of_fset_simps(2))
  then show "written e \<noteq> []" by (cases ?ss) (simp_all add: written_def root_items_append)
  show "[] \<notin> set (written e)"
    using assms(1) by (auto simp: written_def root_items_append no_empty_item_def split: option.splits dest: fmdom_notD)
qed

lemma exec_Root_binds:
  assumes root: "exec_Root h e1 = exec_Root h e2" and size: "fcard (fmdom (e_mp e1)) = fcard (fmdom (e_mp e2))"
    and items: "no_empty_item (e_mp e1)" "no_empty_item (e_mp e2)" and w: "\<And>x. length (h x) = w"
    and ne: "e_mp e1 \<noteq> fmempty"
  shows "e_mp e1 = e_mp e2 \<or> collide h (hashed h (written e1)) (hashed h (written e2))"
proof (rule disjCI)
  assume nocoll: "\<not> collide h (hashed h (written e1)) (hashed h (written e2))"
  let ?ss = "\<lambda>e. sorted_list_of_fset (fmdom (e_mp e))"
  have ne2: "e_mp e2 \<noteq> fmempty"
    using ne size by (metis fcard_fempty fcard_0_eq fmdom_empty fmrestrict_fset_dom fmrestrict_fset_null)
  have "merkle_hash h (written e1) = merkle_hash h (written e2)"
    using root by (simp add: exec_Root_written)
  moreover have "length (written e1) = length (written e2)"
    using size by (simp add: written_def root_items_append length_concat_pairs length_sorted_fset)
  ultimately have same: "written e1 = written e2"
    using merkle_hash_binds [of h "written e1" "written e2" w] nocoll w written_items [OF items(1) ne]
      written_items [OF items(2) ne2] by auto
  then have eq: "?ss e1 = ?ss e2"
    "\<forall>k \<in> set (?ss e1). (case fmlookup (e_mp e1) k of None \<Rightarrow> [] | Some v \<Rightarrow> v) =
      (case fmlookup (e_mp e2) k of None \<Rightarrow> [] | Some v \<Rightarrow> v)"
    using concat_pairs_inject [OF same [unfolded written_def root_items_append append_Nil]]
    by blast+
  have dom: "fmdom (e_mp e1) = fmdom (e_mp e2)"
    using eq(1) by (metis sorted_list_of_fset_simps(2))
  show "e_mp e1 = e_mp e2"
  proof (rule fmap_ext)
    fix k
    show "fmlookup (e_mp e1) k = fmlookup (e_mp e2) k"
    proof (cases "k |\<in>| fmdom (e_mp e1)")
      case True
      then obtain v where v: "fmlookup (e_mp e1) k = Some v" by (rule fmdomE)
      from True dom obtain v' where v': "fmlookup (e_mp e2) k = Some v'" by (auto elim: fmdomE)
      from True have "k \<in> set (?ss e1)" by simp
      with eq(2) v v' show ?thesis by fastforce
    next
      case False
      with dom show ?thesis by (simp add: fmdom_notD)
    qed
  qed
qed

end
