(* ===== verification/ExecSpec.thy ===== *)
theory ExecSpec
  imports Exec
begin

text \<open>
  The executor's properties over the store \<open>bgStore B\<close> on any key-value engine with room, each
  with an instance on the finite-map engine.
\<close>

section \<open>A small contract database\<close>

text \<open>Token \<open>T\<close> is owned by \<open>o\<close>, who holds 100 units; the account \<open>z\<close> is frozen.\<close>

definition sample_db :: mdb where
  "sample_db = fmap_of_list
     [(lit ''T'', lit ''o''), (bKey (lit ''T'') (lit ''o''), LE_PutUint64 100),
      (fKey (lit ''T'') (lit ''z''), [1])]"

definition transfer_script :: "gostring \<Rightarrow> u64 \<Rightarrow> gostring \<Rightarrow> Script" where
  "transfer_script tok amt to = \<lparr> sc_name = lit ''transfer'', sc_args =
     [\<lparr> arg_typ = TOKENID, arg_value = VString tok \<rparr>, \<lparr> arg_typ = AMOUNT, arg_value = VUint amt \<rparr>,
      \<lparr> arg_typ = ADDRESS, arg_value = VString to \<rparr>] \<rparr>"

lemma transfer_script_simps [simp]:
  "sc_name (transfer_script tok amt to) = lit ''transfer''"
  "argument (transfer_script tok amt to) 0 = Ok (VString tok)"
  "argument (transfer_script tok amt to) 1 = Ok (VUint amt)"
  "argument (transfer_script tok amt to) (Suc 0) = Ok (VUint amt)"
  "argument (transfer_script tok amt to) 2 = Ok (VString to)"
  by (simp_all add: transfer_script_def argument_def)

lemma sample_run:
  "exec_New (bgStore map_badger) sample_db [Some (transfer_script (lit ''T'') 30 (lit ''a''))] (lit ''o'') =
     Ok \<lparr> e_mp = fmupd (bKey (lit ''T'') (lit ''a'')) (LE_PutUint64 30)
       (fmupd (bKey (lit ''T'') (lit ''o'')) (LE_PutUint64 70) fmempty) \<rparr>"
  by (simp add: exec_New_def deal2_def check_frozen_def read_u64_def get_tx_def sample_db_def Let_def
      aKey_def)
     (simp add: aKey_def bKey_def fKey_def lit_def)

section \<open>Lemmas for whole executions\<close>

lemma moves_keep_empty_key:
  assumes "run_scripts D d ex mp scs = Ok mp'" "\<forall>sc \<in> set scs. moves_within tok ex A sc"
    "fmlookup mp [] = None" "store_tx D T seen pending stored"
  shows "fmlookup mp' [] = None"
  using assms(1-3)
proof (induction scs arbitrary: mp)
  case Nil
  then show ?case by simp
next
  case (Cons sc scs)
  obtain s f mp1 where s: "sc = Some s" "dealRegistry (sc_name s) = Some f"
    "f D d ex mp s = Ok mp1" "run_scripts D d ex mp1 scs = Ok mp'"
    by (rule run_scripts_Cons_Ok [OF Cons.prems(1)])
  have "f = deal2 \<or> f = deal3 \<or> f = deal4"
    using Cons.prems(2) s(1,2) by (auto simp: moves_within_def)
  with s(3) Cons.prems(3) have "fmlookup mp1 [] = None"
    by (auto elim!: store_tx.deal2_Ok [OF assms(4)] store_tx.deal3_Ok [OF assms(4)]
        store_tx.deal4_Ok [OF assms(4)])
  with Cons.IH [OF s(4)] Cons.prems(2) show ?case by simp
qed

lemma exec_New_Ok: "exec_New D d scs owner = Ok e \<longleftrightarrow> run_scripts D d owner fmempty scs = Ok (e_mp e)"
  by (cases e) (auto simp: exec_New_def obind_Ok_iff)

lemma range_order_insert:
  "distinct (map fst ((k, v) # order)) \<Longrightarrow> range_order mp order \<Longrightarrow> k \<notin> fst ` set order \<Longrightarrow>
    range_order (fmupd k v mp) ((k, v) # order)"
  by (auto simp: range_order_def image_iff split: if_splits)

lemma range_order_empty: "range_order fmempty []"
  by (simp add: range_order_def)

lemma sample_order:
  "range_order (fmupd (bKey (lit ''T'') (lit ''a'')) (LE_PutUint64 30)
       (fmupd (bKey (lit ''T'') (lit ''o'')) (LE_PutUint64 70) fmempty))
     [(bKey (lit ''T'') (lit ''a''), LE_PutUint64 30), (bKey (lit ''T'') (lit ''o''), LE_PutUint64 70)]"
  by (intro range_order_insert range_order_empty) (simp_all add: lit_def)

section \<open>Properties\<close>

text \<open>C4: Running and flushing a list of transfers to accounts other than the executor's and of freeze or
  unfreeze statements leaves what the accounts of a set hold together as it was, as a natural number: no
  unit is lost and no balance wraps around. The set is finite and holds the executor and the receivers,
  and before the run they hold less than 2^64 units together (\<open>mint\<close> does not keep to that bound). The
  flush succeeds whatever order the map is traversed in. A transfer to the executor itself is not covered;
  it does create units.\<close>

theorem contract_supply_conserved:
  assumes "roomy_badger B view writes contents"
    "exec_New (bgStore B) d scs ex = Ok e" "\<forall>sc \<in> set scs. moves_within tok ex A sc"
    "finite A" "ex \<in> A" "supply_of (contents d) tok A < 2 ^ 64" "range_order (e_mp e) order"
  shows "\<exists>d'. exec_Flush (bgStore B) (bgTransaction B) order d = (d', Ok ()) \<and>
    supply_of (contents d') tok A = supply_of (contents d) tok A"
proof -
  note st = bg_store_tx [OF assms(1)]
  have run: "run_scripts (bgStore B) d ex fmempty scs = Ok (e_mp e)"
    using assms(2) by (simp add: exec_New_Ok)
  have "fmlookup (e_mp e) [] = None"
    by (rule moves_keep_empty_key [OF run assms(3) _ st]) simp
  note flush = store_tx.exec_Flush_stored [OF st assms(7) this]
  show ?thesis
    using flush [of d] store_tx.run_scripts_supply [OF st run assms(3,4,5)] assms(6)
    by (cases "exec_Flush (bgStore B) (bgTransaction B) order d") auto
qed

theorem contract_supply_conserved_witness:
  "\<exists>d'. exec_Flush (bgStore map_badger) (bgTransaction map_badger)
      [(bKey (lit ''T'') (lit ''a''), LE_PutUint64 30), (bKey (lit ''T'') (lit ''o''), LE_PutUint64 70)]
      sample_db = (d', Ok ()) \<and> supply_of (fmlookup d') (lit ''T'') {lit ''o'', lit ''a''} = 100"
proof -
  have held: "supply_of (fmlookup sample_db) (lit ''T'') {lit ''o'', lit ''a''} = 100"
    by (simp add: supply_of_def token_balance_def sample_db_def lit_def bKey_def fKey_def LE_PutUint64_def LE_Uint64_def
        le_word_le_bytes_id)
  have "\<forall>sc \<in> set [Some (transfer_script (lit ''T'') 30 (lit ''a''))].
      moves_within (lit ''T'') (lit ''o'') {lit ''o'', lit ''a''} sc"
    by (simp add: moves_within_def) (simp add: lit_def)
  then show ?thesis
    using contract_supply_conserved [OF map_badger_roomy sample_run, where tok = "lit ''T''" and A = "{lit ''o'', lit ''a''}"
      and order = "[(bKey (lit ''T'') (lit ''a''), LE_PutUint64 30), (bKey (lit ''T'') (lit ''o''), LE_PutUint64 70)]"]
      sample_order held by simp
qed

text \<open>C14: A successful single transfer to another account moves exactly the amount: the token
  exists, the executor held at least the amount, after the flush its balance is reduced by it and
  the receiver's raised by it, and every other key of the contract database is unchanged.\<close>

theorem contract_transfer_exact:
  assumes "roomy_badger B view writes contents" "tok \<noteq> []" "to \<noteq> ex"
    "exec_New (bgStore B) d [Some (transfer_script tok amt to)] ex = Ok e"
    "range_order (e_mp e) order"
    "exec_Flush (bgStore B) (bgTransaction B) order d = (d', Ok ())"
  shows "contents d tok \<noteq> None \<and> contents d (fKey tok ex) \<noteq> Some [1] \<and>
    amt \<le> token_balance (contents d) tok ex \<and>
    Balance (bgStore B) d' tok ex = Ok (token_balance (contents d) tok ex - amt) \<and>
    Balance (bgStore B) d' tok to = Ok (token_balance (contents d) tok to + amt) \<and>
    (\<forall>k. k \<noteq> bKey tok ex \<longrightarrow> k \<noteq> bKey tok to \<longrightarrow> contents d' k = contents d k)"
proof -
  note st = bg_store_tx [OF assms(1)]
  let ?b = "token_balance (contents d) tok"
  have run: "deal2 (bgStore B) d ex fmempty (transfer_script tok amt to) = Ok (e_mp e)"
    using assms(4) by (auto simp: exec_New_Ok obind_Ok_iff)
  then have mp: "contents d (fKey tok ex) \<noteq> Some [1]" "amt \<le> ?b ex"
    "e_mp e = fmupd (bKey tok to) (LE_PutUint64 (?b to + amt))
      (fmupd (bKey tok ex) (LE_PutUint64 (?b ex - amt)) fmempty)"
    by (auto elim!: store_tx.deal2_Ok [OF st])
  have tok: "contents d tok \<noteq> None"
    using run assms(2) by (auto simp: deal2_def obind_Ok_iff aKey_def store_tx.db_Get_ok [OF st]
        simp del: bg_fields)
  have "contents d' = eff (e_mp e) (contents d)"
    using store_tx.exec_Flush_stored(2) [OF st assms(5), of d] assms(6) mp(3)
    by simp
  then have d': "contents d' = (contents d)(bKey tok ex \<mapsto> LE_PutUint64 (?b ex - amt),
      bKey tok to \<mapsto> LE_PutUint64 (?b to + amt))"
    by (simp add: mp(3))
  show ?thesis
    using mp(1,2) tok assms(3) by (simp add: store_tx.Balance_stored [OF st] d')
qed

theorem contract_transfer_exact_witness:
  "\<exists>d'. exec_Flush (bgStore map_badger) (bgTransaction map_badger)
      [(bKey (lit ''T'') (lit ''a''), LE_PutUint64 30), (bKey (lit ''T'') (lit ''o''), LE_PutUint64 70)]
      sample_db = (d', Ok ()) \<and>
    Balance (bgStore map_badger) d' (lit ''T'') (lit ''a'') =
      Ok (token_balance (fmlookup sample_db) (lit ''T'') (lit ''a'') + 30)"
proof -
  let ?fl = "exec_Flush (bgStore map_badger) (bgTransaction map_badger)
      [(bKey (lit ''T'') (lit ''a''), LE_PutUint64 30), (bKey (lit ''T'') (lit ''o''), LE_PutUint64 70)]
      sample_db"
  have "snd ?fl = Ok ()"
    by (rule ms.exec_Flush_stored [OF sample_order]) simp
  then obtain d' where d': "?fl = (d', Ok ())" by (cases ?fl) auto
  from contract_transfer_exact [OF map_badger_roomy _ _ sample_run _ this] d' sample_order
  show ?thesis by (auto simp: lit_def)
qed

text \<open>C15: A statement that mints, freezes or unfreezes a token can only be part of a successful
  execution when the executor is the owner recorded in the contract database.\<close>

theorem contract_owner_only:
  assumes "roomy_badger B view writes contents" "exec_New (bgStore B) d scs ex = Ok e"
    "Some s \<in> set scs" "sc_name s \<in> {lit ''mint'', lit ''freeze'', lit ''unfreeze''}"
    "argument s 0 = Ok (VString tok)" "tok \<noteq> []"
  shows "contents d tok = Some ex"
  using store_tx.run_scripts_owner [OF bg_store_tx [OF assms(1)] _ assms(3-6)] assms(2)
  by (simp add: exec_New_Ok)

theorem contract_owner_only_witness: "fmlookup sample_db (lit ''T'') = Some (lit ''o'')"
proof -
  let ?s = "\<lparr> sc_name = lit ''mint'', sc_args =
    [\<lparr> arg_typ = TOKENID, arg_value = VString (lit ''T'') \<rparr>, \<lparr> arg_typ = AMOUNT, arg_value = VUint 5 \<rparr>] \<rparr>"
  have "exec_New (bgStore map_badger) sample_db [Some ?s] (lit ''o'') =
     Ok \<lparr> e_mp = fmupd (bKey (lit ''T'') (lit ''o'')) (LE_PutUint64 105) fmempty \<rparr>"
    by (simp add: exec_New_def deal1_def check_owner_def read_u64_def get_tx_def sample_db_def Let_def
        argument_def aKey_def)
       (simp add: aKey_def bKey_def fKey_def lit_def)
  from contract_owner_only [OF map_badger_roomy this, of ?s] show ?thesis
    by (simp add: argument_def lit_def)
qed

text \<open>No execution, whatever its statements and whoever runs it, changes the owner of a token
  that exists (for token names that are not themselves of the form of a balance, freeze or total
  key).\<close>

theorem contract_keeps_owner:
  assumes "roomy_badger B view writes contents" "exec_New (bgStore B) d scs ex = Ok e"
    "range_order (e_mp e) order" "contents d tok = Some own" "plain_name tok" "tok \<noteq> []"
  shows "contents (fst (exec_Flush (bgStore B) (bgTransaction B) order d)) tok = Some own"
proof -
  note st = bg_store_tx [OF assms(1)]
  have keep: "fmlookup (e_mp e) tok = None"
    by (rule store_tx.run_scripts_keeps_owner [OF st _ _ assms(4-6)])
       (use assms(2) in \<open>auto simp: exec_New_Ok\<close>)
  show ?thesis
  proof (cases "fmlookup (e_mp e) []")
    case None
    from store_tx.exec_Flush_stored(2) [OF st assms(3) this, of d] keep assms(4) show ?thesis
      by (simp add: eff_def)
  next
    case (Some v)
    then have "([], v) \<in> set order"
      using assms(3) by (simp add: range_order_def)
    with assms(4) show ?thesis
      by (simp add: store_tx.exec_Flush_empty_key [OF st])
  qed
qed

theorem contract_keeps_owner_witness:
  "fmlookup (fst (exec_Flush (bgStore map_badger) (bgTransaction map_badger)
      [(bKey (lit ''T'') (lit ''a''), LE_PutUint64 30), (bKey (lit ''T'') (lit ''o''), LE_PutUint64 70)]
      sample_db)) (lit ''T'') = Some (lit ''o'')"
  by (rule contract_keeps_owner [OF map_badger_roomy sample_run])
     (simp_all add: sample_order plain_name_def, simp_all add: sample_db_def lit_def bKey_def fKey_def)

text \<open>A frozen account cannot transfer: an execution whose first statement is a transfer of an
  existing token by an account whose freeze flag is set ends with the error \<open>freezed\<close>, whatever
  follows.\<close>

theorem contract_frozen_refused:
  assumes "roomy_badger B view writes contents" "tok \<noteq> []" "contents d tok = Some own"
    "contents d (fKey tok ex) = Some [1]"
  shows "exec_New (bgStore B) d (Some (transfer_script tok amt to) # scs) ex =
    Err (ErrText ''freezed'')"
proof -
  have "deal2 (bgStore B) d ex fmempty (transfer_script tok amt to) = Err (ErrText ''freezed'')"
    by (rule store_tx.deal2_frozen [OF bg_store_tx [OF assms(1)] _ _ _ assms(3,2)])
       (simp_all add: assms(4))
  then show ?thesis
    by (simp add: exec_New_def)
qed

theorem contract_frozen_refused_witness:
  "exec_New (bgStore map_badger) sample_db [Some (transfer_script (lit ''T'') 1 (lit ''a''))] (lit ''z'') =
    Err (ErrText ''freezed'')"
  by (rule contract_frozen_refused [OF map_badger_roomy, of _ _ "lit ''o''"])
     (simp_all add: sample_db_def lit_def bKey_def fKey_def)

text \<open>A transfer to oneself creates money: the receiver's new balance is written after the
  sender's and was read before it, so the account gains the amount and the supply grows.\<close>

theorem contract_self_transfer_mints:
  assumes "roomy_badger B view writes contents" "tok \<noteq> []" "contents d tok = Some own"
    "contents d (fKey tok ex) \<noteq> Some [1]" "\<And>v. contents d (bKey tok ex) = Some v \<Longrightarrow> length v = 8"
    "amt \<le> token_balance (contents d) tok ex"
  shows "\<exists>e. exec_New (bgStore B) d [Some (transfer_script tok amt ex)] ex = Ok e \<and>
    token_balance (eff (e_mp e) (contents d)) tok ex = token_balance (contents d) tok ex + amt"
proof -
  note st = bg_store_tx [OF assms(1)]
  let ?b = "token_balance (contents d) tok ex"
  have read: "read_u64 (bgStore B) d fmempty (bKey tok ex) = Ok ?b"
    using assms(5)
    by (auto simp: store_tx.read_u64_eff [OF st] token_balance_def LE_Uint64_def
        split: option.splits)
  have "deal2 (bgStore B) d ex fmempty (transfer_script tok amt ex) =
      Ok (fmupd (bKey tok ex) (LE_PutUint64 (?b + amt))
        (fmupd (bKey tok ex) (LE_PutUint64 (?b - amt)) fmempty))"
    using assms(2,3,4,6)
    by (simp add: deal2_def Let_def store_tx.get_stored [OF st] aKey_def
        store_tx.check_frozen_eff [OF st] read not_less del: bg_fields)
  then show ?thesis
    by (simp add: exec_New_def)
qed

theorem contract_self_transfer_mints_witness:
  "\<exists>e. exec_New (bgStore map_badger) sample_db [Some (transfer_script (lit ''T'') 100 (lit ''o''))] (lit ''o'')
      = Ok e \<and>
    token_balance (eff (e_mp e) (fmlookup sample_db)) (lit ''T'') (lit ''o'') =
    token_balance (fmlookup sample_db) (lit ''T'') (lit ''o'') + 100"
  by (rule contract_self_transfer_mints [OF map_badger_roomy, of _ _ "lit ''o''"])
     (auto simp: sample_db_def lit_def bKey_def fKey_def token_balance_def LE_PutUint64_def
        LE_Uint64_def le_word_le_bytes_id)

text \<open>The root of an execution commits to its writes: two executions with equally many writes,
  none under an empty key or of an empty value, and the same root have the same write set, unless
  two different ones of the strings hashed for the two roots have the same digest.\<close>

theorem contract_root_binds:
  assumes "exec_Root h e1 = exec_Root h e2" "fcard (fmdom (e_mp e1)) = fcard (fmdom (e_mp e2))"
    "no_empty_item (e_mp e1)" "no_empty_item (e_mp e2)" "\<And>x. length (h x) = w" "e_mp e1 \<noteq> fmempty"
  shows "e_mp e1 = e_mp e2 \<or> collide h (hashed h (written e1)) (hashed h (written e2))"
  using exec_Root_binds [OF assms] .

theorem contract_root_binds_witness:
  "collide (\<lambda>x. [0]) (hashed (\<lambda>x. [0]) (written \<lparr> e_mp = fmupd [1] [2] fmempty \<rparr>))
    (hashed (\<lambda>x. [0]) (written \<lparr> e_mp = fmupd [1] [3] fmempty \<rparr>))"
proof -
  have ne: "fmupd [1] [2] fmempty \<noteq> (fmupd [1] [3] fmempty :: writeset)"
  proof
    assume "fmupd [1] [2] fmempty = (fmupd [1] [3] fmempty :: writeset)"
    from arg_cong [OF this, of "\<lambda>m. fmlookup m [1]"] show False by simp
  qed
  have root: "exec_Root (\<lambda>x. [0]) \<lparr> e_mp = fmupd [1] v fmempty \<rparr> = Some (Ok [0])" if "v \<noteq> []" for v
    using that merkle_hash_reference [of "written \<lparr> e_mp = fmupd [1] v fmempty \<rparr>" "\<lambda>x. [0]"]
    by (simp add: exec_Root_written written_def root_items_append sorted_list_of_fset.rep_eq)
  show ?thesis
    using contract_root_binds [of "\<lambda>x. [0]" "\<lparr> e_mp = fmupd [1] [2] fmempty \<rparr>" "\<lparr> e_mp = fmupd [1] [3] fmempty \<rparr>" 1] ne
    by (simp add: root no_empty_item_def)
qed

end
