(* ===== verification/Transactions.thy ===== *)
theory Transactions
  imports Base58
begin

text \<open>
  Transactions, orders and blocks as data (\<open>transaction/transaction.go\<close>, \<open>block/\<close>) with their
  hashing and signing. SHA3-256 and Ed25519 are parameters: \<open>sha3\<close> maps data to a digest, and the
  record \<open>ed25519\<close> holds the signature functions of \<open>golang.org/x/crypto/ed25519\<close>, which panic on a
  key of the wrong length. \<open>time.Now().Unix()\<close> is the parameter \<open>now\<close>.
\<close>

section \<open>Data\<close>

record Order =
  oId :: bytes
  oAddress :: Address
  oPrice :: u64
  oHash :: bytes
  oCiphertext :: bytes
  oSignature :: bytes
  oTradename :: gostring
  oRegion :: gostring

record transaction =
  tNonce :: u64
  tBlockNumber :: u64
  tAmount :: u64
  tFrom :: Address
  tTo :: Address
  tHash :: bytes
  tSignature :: bytes
  tTime :: i64
  tFee :: u64
  tRoot :: bytes
  tScript :: gostring
  tOrd :: Order
  tErrmsg :: gostring

text \<open>The zero values \<open>Order{}\<close> and \<open>Transaction{}\<close>; an address is an array of 47 bytes.\<close>

definition zero_address :: Address where
  "zero_address = replicate 47 0"

definition zero_order :: Order where
  "zero_order = \<lparr> oId = [], oAddress = zero_address, oPrice = 0, oHash = [], oCiphertext = [],
     oSignature = [], oTradename = [], oRegion = [] \<rparr>"

definition zero_transaction :: transaction where
  "zero_transaction = \<lparr> tNonce = 0, tBlockNumber = 0, tAmount = 0, tFrom = zero_address,
     tTo = zero_address, tHash = [], tSignature = [], tTime = 0, tFee = 0, tRoot = [], tScript = [],
     tOrd = zero_order, tErrmsg = [] \<rparr>"

record MinerTx =
  mAmount :: u64
  mRecAddress :: bytes

record Block_Res =
  brAddress :: Address
  brBalance :: u64

record Block =
  bHeight :: u64
  bPrevBlockHash :: bytes
  bTxs :: "transaction list"
  bRoot :: bytes
  bVersion :: u64
  bTimestamp :: i64
  bHash :: bytes
  bMiner :: bytes
  bTxres :: "Address \<Rightarrow> u64 option"
  bFirstTx :: "MinerTx list"

record Blocks =
  sHeight :: u64
  sPrevBlockHash :: bytes
  sTxs :: "transaction list"
  sRoot :: bytes
  sVersion :: u64
  sTimestamp :: i64
  sHash :: bytes
  sMiner :: bytes
  sRes :: "Block_Res list"
  sFirstTx :: "MinerTx list"

section \<open>Hashing\<close>

definition NewTransaction_hash_input :: "u64 \<Rightarrow> u64 \<Rightarrow> Address \<Rightarrow> Address \<Rightarrow> i64 \<Rightarrow> bytes" where
  "NewTransaction_hash_input nonce amount from to time =
     (((E64func nonce @ E64func amount) @ from) @ to) @ E64func time"

definition tx_New :: transaction where
  "tx_New = zero_transaction"

definition tx_NewTransaction ::
  "(bytes \<Rightarrow> bytes) \<Rightarrow> i64 \<Rightarrow> u64 \<Rightarrow> u64 \<Rightarrow> Address \<Rightarrow> Address \<Rightarrow> gostring \<Rightarrow> transaction" where
  "tx_NewTransaction sha3 now nonce amount from to script =
     zero_transaction\<lparr> tNonce := nonce, tAmount := amount, tFrom := from, tTo := to, tTime := now,
       tFee := 0, tScript := script,
       tHash := sha3 (NewTransaction_hash_input nonce amount from to now) \<rparr>"

definition tx_Newtoken ::
  "(bytes \<Rightarrow> bytes) \<Rightarrow> i64 \<Rightarrow> u64 \<Rightarrow> u64 \<Rightarrow> u64 \<Rightarrow> Address \<Rightarrow> Address \<Rightarrow> gostring \<Rightarrow> transaction" where
  "tx_Newtoken sha3 now nonce amount fee from to script =
     zero_transaction\<lparr> tNonce := nonce, tAmount := amount, tFrom := from, tTo := to, tTime := now,
       tFee := fee, tScript := script,
       tHash := sha3 (NewTransaction_hash_input nonce amount from to now) \<rparr>"

definition tx_NewOrder ::
  "(bytes \<Rightarrow> bytes) \<Rightarrow> transaction \<Rightarrow> bytes \<Rightarrow> bytes \<Rightarrow> Address \<Rightarrow> u64 \<Rightarrow> transaction" where
  "tx_NewOrder sha3 tx ident cip address price =
     (let hashBytes = ((E64func price @ ident) @ cip) @ address in
      tx\<lparr> tOrd := zero_order\<lparr> oHash := sha3 hashBytes, oId := ident, oCiphertext := cip,
        oAddress := address, oPrice := price \<rparr> \<rparr>)"

definition HashTransaction :: "(bytes \<Rightarrow> bytes) \<Rightarrow> transaction \<Rightarrow> transaction" where
  "HashTransaction sha3 tx =
     tx\<lparr> tHash := sha3 (concat [E64func (tNonce tx), E64func (tAmount tx), tFrom tx, tTo tx,
       E64func (tTime tx)]) \<rparr>"

definition TrimmedCopy :: "transaction \<Rightarrow> transaction" where
  "TrimmedCopy tx = zero_transaction\<lparr> tNonce := tNonce tx, tAmount := tAmount tx, tFrom := tFrom tx,
     tTo := tTo tx, tTime := tTime tx \<rparr>"

section \<open>Signatures\<close>

record ed25519 =
  ed_sign :: "bytes \<Rightarrow> bytes \<Rightarrow> bytes"
  ed_verify :: "bytes \<Rightarrow> bytes \<Rightarrow> bytes \<Rightarrow> bool"

definition Sign :: "ed25519 \<Rightarrow> bytes \<Rightarrow> bytes \<Rightarrow> bytes outcome" where
  "Sign ed priv msg = (if length priv \<noteq> 64 then Panic else Ok (ed_sign ed priv msg))"

definition Verify :: "ed25519 \<Rightarrow> bytes \<Rightarrow> bytes \<Rightarrow> bytes \<Rightarrow> bool outcome" where
  "Verify ed pub msg sig = (if length pub \<noteq> 32 then Panic else Ok (ed_verify ed pub msg sig))"

definition SignOrder :: "ed25519 \<Rightarrow> transaction \<Rightarrow> bytes \<Rightarrow> transaction outcome" where
  "SignOrder ed tx priv =
     obind (Sign ed priv (oHash (tOrd tx))) (\<lambda>signatures.
       Ok (tx\<lparr> tOrd := (tOrd tx)\<lparr> oSignature := signatures \<rparr> \<rparr>))"

text \<open>\<open>SignTx\<close> returns nil for a key of the wrong length instead of panicking.\<close>

definition SignTx :: "ed25519 \<Rightarrow> transaction \<Rightarrow> bytes \<Rightarrow> transaction option outcome" where
  "SignTx ed tx priv =
     (if length priv \<noteq> 64 then Ok None
      else obind (Sign ed priv (tHash tx)) (\<lambda>signatures. Ok (Some (tx\<lparr> tSignature := signatures \<rparr>))))"

definition Sgin :: "ed25519 \<Rightarrow> transaction \<Rightarrow> bytes \<Rightarrow> transaction outcome" where
  "Sgin ed tx privateKey =
     obind (Sign ed privateKey (tHash tx)) (\<lambda>signatures. Ok (tx\<lparr> tSignature := signatures \<rparr>))"

definition tx_Verify :: "(bytes \<Rightarrow> bytes) \<Rightarrow> ed25519 \<Rightarrow> transaction \<Rightarrow> bool outcome" where
  "tx_Verify sha3 ed tx =
     (let txCopy = HashTransaction sha3 (TrimmedCopy tx) in
      obind (AddressToPublicKey (tFrom tx)) (\<lambda>publicKey.
        Verify ed publicKey (tHash txCopy) (tSignature tx)))"

section \<open>Blocks\<close>

definition NewBlock0 :: Block where
  "NewBlock0 = \<lparr> bHeight = 0, bPrevBlockHash = [], bTxs = [], bRoot = [], bVersion = 0,
     bTimestamp = 0, bHash = [], bMiner = [], bTxres = Map.empty, bFirstTx = [] \<rparr>"

text \<open>\<open>txs_json\<close> stands for \<open>json.Marshal\<close> of a transaction list.\<close>

definition Block_SetHash :: "(bytes \<Rightarrow> bytes) \<Rightarrow> (transaction list \<Rightarrow> bytes) \<Rightarrow> Block \<Rightarrow> Block" where
  "Block_SetHash sha3 txs_json block =
     block\<lparr> bHash := sha3 (concat [E64func (bHeight block), bPrevBlockHash block,
       txs_json (bTxs block), E64func (bTimestamp block)]) \<rparr>"

definition Blocks_SetHash :: "(bytes \<Rightarrow> bytes) \<Rightarrow> (transaction list \<Rightarrow> bytes) \<Rightarrow> Blocks \<Rightarrow> Blocks" where
  "Blocks_SetHash sha3 txs_json block =
     block\<lparr> sHash := sha3 (concat [E64func (sHeight block), sPrevBlockHash block,
       txs_json (sTxs block), E64func (sTimestamp block)]) \<rparr>"

definition blocks_change :: "Blocks \<Rightarrow> Block" where
  "blocks_change b =
     \<lparr> bHeight = sHeight b, bPrevBlockHash = sPrevBlockHash b, bTxs = sTxs b, bRoot = sRoot b,
       bVersion = sVersion b, bTimestamp = sTimestamp b, bHash = sHash b, bMiner = sMiner b,
       bTxres = foldl (\<lambda>m br. m(brAddress br \<mapsto> brBalance br)) Map.empty (sRes b),
       bFirstTx = sFirstTx b \<rparr>"

section \<open>Properties\<close>

lemma hash_input_inject:
  assumes "length from = 47" "length to = 47" "length from' = 47" "length to' = 47"
  shows "NewTransaction_hash_input n a from to t = NewTransaction_hash_input n' a' from' to' t' \<longleftrightarrow>
    n = n' \<and> a = a' \<and> from = from' \<and> to = to' \<and> t = t'"
  using assms by (auto simp: NewTransaction_hash_input_def append_eq_append_conv)

text \<open>A transaction signed by the key behind its sender address verifies, and only the key, the
  nonce, the amount, the two addresses and the time matter for it: verification recomputes the hash
  \<open>NewTransaction\<close> stored.\<close>

theorem signed_transaction_verifies:
  assumes "\<And>m. ed_verify ed pub m (ed_sign ed priv m)" "length pub = 32" "length priv = 64"
    "AddressToPublicKey from = Ok pub"
  shows "\<exists>tx. SignTx ed (tx_NewTransaction sha3 now nonce amount from to script) priv = Ok (Some tx) \<and>
    tx_Verify sha3 ed tx = Ok True"
  using assms
  by (simp add: SignTx_def Sign_def tx_Verify_def Verify_def Let_def HashTransaction_def
      TrimmedCopy_def tx_NewTransaction_def NewTransaction_hash_input_def)

theorem signed_transaction_verifies_witness:
  "\<exists>tx. SignTx \<lparr> ed_sign = (\<lambda>k m. m), ed_verify = (\<lambda>k m s. s = m) \<rparr>
      (tx_NewTransaction id 5 1 10 (lit ''Kto'' @ Encode (replicate 32 1)) [] []) (replicate 64 2) = Ok (Some tx) \<and>
    tx_Verify id \<lparr> ed_sign = (\<lambda>k m. m), ed_verify = (\<lambda>k m s. s = m) \<rparr> tx = Ok True"
  by (rule signed_transaction_verifies [of _ "replicate 32 1"])
     (simp_all add: AddressToPublicKey_def Decode_Encode length_lit_Kto)

text \<open>The transaction hash commits to nonce, amount, sender, receiver and time: two transactions
  with the same hash agree on all five, or the hash function has a collision.\<close>

theorem transaction_hash_binds:
  assumes "length from = 47" "length to = 47" "length from' = 47" "length to' = 47"
    "tHash (tx_NewTransaction sha3 now nonce amount from to script) =
     tHash (tx_NewTransaction sha3 now' nonce' amount' from' to' script')"
  shows "(nonce = nonce' \<and> amount = amount' \<and> from = from' \<and> to = to' \<and> now = now') \<or>
    (\<exists>x y. x \<noteq> y \<and> sha3 x = sha3 y)"
proof (cases "NewTransaction_hash_input nonce amount from to now =
    NewTransaction_hash_input nonce' amount' from' to' now'")
  case True
  then show ?thesis by (simp only: hash_input_inject [OF assms(1-4)]) simp
next
  case False
  with assms(5) show ?thesis by (auto simp: tx_NewTransaction_def)
qed

theorem transaction_hash_binds_witness:
  "((1 :: u64) = 1 \<and> (2 :: u64) = 2 \<and> zero_address = zero_address \<and> zero_address = zero_address \<and> (3 :: i64) = 3) \<or>
    (\<exists>x y. x \<noteq> y \<and> id x = (id y :: bytes))"
  by (rule transaction_hash_binds [where ?sha3.0 = id and script = "[]" and script' = "[7]"])
     (simp_all add: zero_address_def tx_NewTransaction_def)

text \<open>The hash that is signed covers neither the fee nor the script: transactions of
  \<open>Newtoken\<close> that differ in both have the same hash, and a signature made for the one verifies on the
  other.\<close>

theorem signature_ignores_fee_and_script:
  "tHash (tx_Newtoken sha3 now nonce amount fee from to script) =
     tHash (tx_Newtoken sha3 now nonce amount fee' from to script') \<and>
   tx_Verify sha3 ed ((tx_Newtoken sha3 now nonce amount fee from to script)\<lparr> tSignature := sig \<rparr>) =
     tx_Verify sha3 ed ((tx_Newtoken sha3 now nonce amount fee' from to script')\<lparr> tSignature := sig \<rparr>)"
  by (simp add: tx_Newtoken_def tx_Verify_def Let_def HashTransaction_def TrimmedCopy_def)

text \<open>The order hash concatenates identifier and ciphertext without a separator: moving bytes
  from the one to the other leaves it unchanged.\<close>

theorem order_hash_boundary:
  "oHash (tOrd (tx_NewOrder sha3 tx (a @ b) c address price)) =
   oHash (tOrd (tx_NewOrder sha3 tx a (b @ c) address price))"
  by (simp add: tx_NewOrder_def Let_def)

end
