(* ===== verification/Ledger.thy ===== *)
theory Ledger
  imports StoreApi Transactions
begin

text \<open>
  The ledger's accounts (\<open>blockchain/blockchain.go\<close>): balances under the address itself, nonces and
  locked amounts in the maps \<open>nonce\<close> and \<open>lock\<close>, the height under \<open>height\<close>. Operations are written
  against the store interfaces \<open>D\<close> and \<open>T\<close>. A method that opens and commits its own transaction is
  an act on the database; a function that is given a transaction is an act on it. The mutex and the
  log output are not modelled.
\<close>

section \<open>Writing balances and nonces\<close>

definition set_balance :: "('d, 't) Transaction \<Rightarrow> bytes \<Rightarrow> bytes \<Rightarrow> ('t, unit) act" where
  "set_balance T addr balance = aignore (tx_Del T addr) (tx_Set T addr balance)"

definition set_nonce :: "('d, 't) Transaction \<Rightarrow> bytes \<Rightarrow> bytes \<Rightarrow> ('t, unit) act" where
  "set_nonce T addr nonce = tx_Mset T (lit ''nonce'') addr nonce"

text \<open>
  The common start of \<open>setMinerAccount\<close>, \<open>setMinerFee\<close>, \<open>MinerAccount\<close> and \<open>setAccount\<close>: read the
  receiver's balance, writing a zero balance first when the read fails.
\<close>

definition get_or_create :: "('d, 't) Transaction \<Rightarrow> bytes \<Rightarrow> ('t, bytes) act" where
  "get_or_create T to t =
     (case tx_Get T t to of
        Ok tobalance \<Rightarrow> (t, Ok tobalance)
      | Err e \<Rightarrow> aignore (set_balance T to (E64func 0)) (aret (E64func 0)) t
      | Panic \<Rightarrow> (t, Panic))"

definition setMinerAccount :: "('d, 't) Transaction \<Rightarrow> bytes \<Rightarrow> u64 \<Rightarrow> ('t, unit) act" where
  "setMinerAccount T to amount =
     abind (get_or_create T to) (\<lambda>tobalance.
     let ToBalance = or_zero 0 (D64func tobalance) + amount in
     aignore (set_balance T to (E64func ToBalance)) (aret ()))"

definition setMinerFee :: "('d, 't) Transaction \<Rightarrow> bytes \<Rightarrow> u64 \<Rightarrow> ('t, unit) act" where
  "setMinerFee T to amount =
     abind (get_or_create T to) (\<lambda>tobalance.
     let ToBalance = or_zero 0 (D64func tobalance) + amount in
     aignore (set_balance T to (E64func ToBalance)) (aret ()))"

definition MinerAccount :: "('d, 't) Transaction \<Rightarrow> bytes \<Rightarrow> u64 \<Rightarrow> ('t, unit) act" where
  "MinerAccount T addr amount =
     abind (get_or_create T addr) (\<lambda>tobalance.
     let ToBalance = or_zero 0 (D64func tobalance) + amount in
     aignore (set_balance T addr (E64func ToBalance)) (aret ()))"

text \<open>Both balances are read before either is written; the sender's is written first.\<close>

definition setAccount ::
  "('d, 't) Transaction \<Rightarrow> bytes \<Rightarrow> bytes \<Rightarrow> u64 \<Rightarrow> u64 \<Rightarrow> transaction \<Rightarrow> ('t, unit) act" where
  "setAccount T from to amount nonce Tx =
     abind (get_or_create T to) (\<lambda>tobalance t.
     let fromba = or_zero [] (tx_Get T t from);
         FromBalance = or_zero 0 (D64func fromba);
         ToBalance = or_zero 0 (D64func tobalance);
         FromBalance = (if tFee Tx \<noteq> 0 then (FromBalance - amount) - tFee Tx else FromBalance - amount);
         ToBalance = ToBalance + amount
     in aignore (set_balance T from (E64func FromBalance))
       (aignore (set_balance T to (E64func ToBalance))
       (aignore (tx_Mdel T (lit ''nonce'') from)
       (aignore (set_nonce T from (E64func (nonce + 1))) (aret ())))) t)"

section \<open>Reading through a transaction of one's own\<close>

text \<open>
  \<open>tx := Bc.db.NewTransaction(); ...; err = tx.Commit()\<close>: a failing read leaves the database, a
  successful one ends with a commit whose error replaces the result.
\<close>

definition read_commit :: "('d, 't) DB \<Rightarrow> ('d, 't) Transaction \<Rightarrow> ('t \<Rightarrow> 'a outcome) \<Rightarrow> ('d, 'a) act" where
  "read_commit D T f d =
     (let tx = db_NewTransaction D d in
      case f tx of
        Ok x \<Rightarrow> abind (tx_Commit T tx) (\<lambda>_. aret x) d
      | Err e \<Rightarrow> (d, Err e)
      | Panic \<Rightarrow> (d, Panic))"

definition GetMaxBlockHeight :: "('d, 't) DB \<Rightarrow> 'd \<Rightarrow> u64 outcome" where
  "GetMaxBlockHeight D d = obind (db_Get D d (lit ''height'')) D64func"

definition GetBalance :: "('d, 't) DB \<Rightarrow> ('d, 't) Transaction \<Rightarrow> bytes \<Rightarrow> ('d, u64) act" where
  "GetBalance D T addr = read_commit D T (\<lambda>tx. obind (tx_Get T tx addr) D64func)"

definition Height :: "('d, 't) DB \<Rightarrow> ('d, 't) Transaction \<Rightarrow> ('d, u64) act" where
  "Height D T = read_commit D T (\<lambda>tx. obind (tx_Get T tx (lit ''height'')) D64func)"

definition SetNonce :: "('d, 't) DB \<Rightarrow> ('d, 't) Transaction \<Rightarrow> bytes \<Rightarrow> u64 \<Rightarrow> ('d, unit) act" where
  "SetNonce D T addr n d =
     (case tx_Mset T (lit ''nonce'') addr (E64func n) (db_NewTransaction D d) of
        (tx, Ok _) \<Rightarrow> tx_Commit T tx d
      | (tx, Err e) \<Rightarrow> (d, Err e)
      | (tx, Panic) \<Rightarrow> (d, Panic))"

definition GetNonce :: "('d, 't) DB \<Rightarrow> ('d, 't) Transaction \<Rightarrow> bytes \<Rightarrow> ('d, u64) act" where
  "GetNonce D T n d =
     (let tx = db_NewTransaction D d in
      case tx_Mget T tx (lit ''nonce'') n of
        Err e \<Rightarrow> aignore (SetNonce D T n 1) (aret 1) d
      | Panic \<Rightarrow> (d, Panic)
      | Ok nonce \<Rightarrow>
          (case D64func nonce of
             Err e \<Rightarrow> (d, Err e)
           | Panic \<Rightarrow> (d, Panic)
           | Ok nu \<Rightarrow> abind (tx_Commit T tx) (\<lambda>_. aret nu) d))"

section \<open>Locked amounts\<close>

definition GetLockBalance :: "('d, 't) DB \<Rightarrow> ('d, 't) Transaction \<Rightarrow> gostring \<Rightarrow> ('d, u64) act" where
  "GetLockBalance D T addr = read_commit D T (\<lambda>tx. obind (tx_Mget T tx (lit ''lock'') addr) D64func)"

definition SetLockBalance :: "('d, 't) Transaction \<Rightarrow> gostring \<Rightarrow> u64 \<Rightarrow> ('t, unit) act" where
  "SetLockBalance T addr amount tx =
     (let bal = E64func amount in
      case tx_Mget T tx (lit ''lock'') addr of
        Ok _ \<Rightarrow> abind (tx_Mdel T (lit ''lock'') addr) (\<lambda>_. tx_Mset T (lit ''lock'') addr bal) tx
      | Err e \<Rightarrow> tx_Mset T (lit ''lock'') addr bal tx
      | Panic \<Rightarrow> (tx, Panic))"

text \<open>The end of \<open>LockBalance\<close> and \<open>Unlockbalance\<close>: write the new amount and commit, false on any error.\<close>

definition commit_lock ::
  "('d, 't) DB \<Rightarrow> ('d, 't) Transaction \<Rightarrow> 't \<Rightarrow> gostring \<Rightarrow> u64 \<Rightarrow> ('d, bool) act" where
  "commit_lock D T tx addr amount d =
     (case SetLockBalance T addr amount tx of
        (tx, Err e) \<Rightarrow> (d, Ok False)
      | (tx, Panic) \<Rightarrow> (d, Panic)
      | (tx, Ok _) \<Rightarrow>
          (case tx_Commit T tx d of
             (d, Err e) \<Rightarrow> (d, Ok False)
           | (d, Panic) \<Rightarrow> (d, Panic)
           | (d, Ok _) \<Rightarrow> (d, Ok True)))"

definition LockBalance :: "('d, 't) DB \<Rightarrow> ('d, 't) Transaction \<Rightarrow> gostring \<Rightarrow> u64 \<Rightarrow> ('d, bool) act" where
  "LockBalance D T addr amount d =
     (let tx = db_NewTransaction D d;
          (d, rb) = GetBalance D T addr d; addrBal = or_zero 0 rb;
          (d, rl) = GetLockBalance D T addr d; addrLockbal = or_zero 0 rl;
          lb = addrLockbal + amount;
          num = addrBal - addrLockbal
      in if rb = Panic \<or> rl = Panic then (d, Panic)
         else if addrBal < lb \<or> addrBal < amount \<or> num < amount then (d, Ok False)
         else commit_lock D T tx addr (amount + addrLockbal) d)"

definition Unlockbalance :: "('d, 't) DB \<Rightarrow> ('d, 't) Transaction \<Rightarrow> gostring \<Rightarrow> u64 \<Rightarrow> ('d, bool) act" where
  "Unlockbalance D T addr amount d =
     (let tx = db_NewTransaction D d;
          (d, rl) = GetLockBalance D T addr d; addrLockbal = or_zero 0 rl
      in if rl = Panic then (d, Panic)
         else if addrLockbal < amount then (d, Ok False)
         else commit_lock D T tx addr (addrLockbal - amount) d)"

section \<open>Affordable transactions\<close>

text \<open>\<open>fittle\<close>: spendable amounts are kept as signed 64-bit numbers.\<close>

definition spendable :: "('d, 't) Transaction \<Rightarrow> 't \<Rightarrow> Address \<Rightarrow> bytes \<Rightarrow> u64" where
  "spendable T tx a balance =
     (let num = (case tx_Mget T tx (lit ''lock'') (AddressToByte a) of Ok v \<Rightarrow> v | _ \<Rightarrow> E64func 0)
      in or_zero 0 (D64func balance) - or_zero 0 (D64func num))"

fun fittle_amounts ::
  "('d, 't) Transaction \<Rightarrow> 't \<Rightarrow> transaction list \<Rightarrow> (Address \<Rightarrow> i64 option) \<Rightarrow> (Address \<Rightarrow> i64 option)" where
  "fittle_amounts T tx [] m = m"
| "fittle_amounts T tx (Tx # tr) m =
     (let m = (if m (tTo Tx) = None
           then m(tTo Tx \<mapsto> spendable T tx (tTo Tx)
             (case tx_Get T tx (AddressToByte (tTo Tx)) of Ok v \<Rightarrow> v | _ \<Rightarrow> E64func 0))
           else m);
         m = (if m (tFrom Tx) = None
           then m(tFrom Tx \<mapsto> spendable T tx (tFrom Tx) (or_zero [] (tx_Get T tx (AddressToByte (tFrom Tx)))))
           else m)
      in fittle_amounts T tx tr m)"

fun fittle_take :: "transaction list \<Rightarrow> (Address \<Rightarrow> i64 option) \<Rightarrow> transaction list \<Rightarrow> transaction list" where
  "fittle_take [] m tx_s = tx_s"
| "fittle_take (Tx # tr) m tx_s =
     (let fb = (case m (tFrom Tx) of None \<Rightarrow> 0 | Some b \<Rightarrow> b) - tAmount Tx;
          m = m(tFrom Tx \<mapsto> fb)
      in fittle_take tr m (if 0 \<le> sint fb then tx_s @ [Tx] else tx_s))"

definition fittle :: "('d, 't) Transaction \<Rightarrow> transaction list \<Rightarrow> 't \<Rightarrow> transaction list" where
  "fittle T tr tx = fittle_take tr (fittle_amounts T tx tr Map.empty) []"

section \<open>The block reward\<close>

text \<open>\<open>for i := 0; uint64(i) <= x; i++\<close> with the first round setting \<open>distr\<close> to the full amount.\<close>

fun distr_loop :: "nat \<Rightarrow> u64 \<Rightarrow> u64" where
  "distr_loop 0 tot = tot"
| "distr_loop (Suc n) tot = distr_loop n (tot * 8 div 10)"

definition block_reward :: "u64 \<Rightarrow> u64" where
  "block_reward height = distr_loop (unat (height div 31536000)) 49460000000"

definition order_counts :: "ed25519 \<Rightarrow> bytes \<Rightarrow> transaction \<Rightarrow> bool outcome" where
  "order_counts ed QTJ tr =
     (if length (oSignature (tOrd tr)) \<noteq> 0
      then Verify ed QTJ (oHash (tOrd tr)) (oSignature (tOrd tr)) else Ok False)"

fun count_orders :: "ed25519 \<Rightarrow> bytes \<Rightarrow> transaction list \<Rightarrow> u64 \<Rightarrow> u64 outcome" where
  "count_orders ed QTJ [] lenOrd = Ok lenOrd"
| "count_orders ed QTJ (tr # Txs) lenOrd =
     obind (order_counts ed QTJ tr) (\<lambda>ok. count_orders ed QTJ Txs (if ok then lenOrd + 1 else lenOrd))"

fun pay_orders :: "ed25519 \<Rightarrow> bytes \<Rightarrow> u64 \<Rightarrow> transaction list \<Rightarrow> MinerTx list \<Rightarrow> MinerTx list outcome" where
  "pay_orders ed QTJ fAmount [] minerTx = Ok minerTx"
| "pay_orders ed QTJ fAmount (tr # Txs) minerTx =
     obind (order_counts ed QTJ tr) (\<lambda>ok. pay_orders ed QTJ fAmount Txs
       (if ok then minerTx @ [\<lparr> mAmount = fAmount, mRecAddress = AddressToByte (oAddress (tOrd tr)) \<rparr>]
        else minerTx))"

definition Distr ::
  "ed25519 \<Rightarrow> transaction list \<Rightarrow> bytes \<Rightarrow> bytes \<Rightarrow> bytes \<Rightarrow> bytes \<Rightarrow> u64 \<Rightarrow> MinerTx list outcome" where
  "Distr ed Txs minaddr Ds Cm QTJ height =
     obind (AddrTopub QTJ) (\<lambda>QTJ.
     let distr = block_reward height in
     obind (count_orders ed QTJ Txs 0) (\<lambda>lenOrd.
     obind (if lenOrd \<noteq> 0
         then obind (pay_orders ed QTJ (distr div 10 div lenOrd) Txs []) (\<lambda>minerTx.
           Ok (minerTx @ [\<lparr> mAmount = distr div 10, mRecAddress = Ds \<rparr>]))
         else Ok [\<lparr> mAmount = distr * 2 div 10, mRecAddress = Ds \<rparr>]) (\<lambda>minerTx.
     Ok ((minerTx @ [\<lparr> mAmount = distr * 4 div 10, mRecAddress = minaddr \<rparr>])
       @ [\<lparr> mAmount = distr * 4 div 10, mRecAddress = Cm \<rparr>]))))"

section \<open>What the operations write\<close>

text \<open>The number stored under a key, zero when it is absent or not a number.\<close>

definition num_at :: "(bytes \<Rightarrow> bytes option) \<Rightarrow> bytes \<Rightarrow> u64" where
  "num_at c k = (case c k of None \<Rightarrow> 0 | Some v \<Rightarrow> or_zero 0 (D64func v))"

definition nonce_key :: "bytes \<Rightarrow> bytes" where
  "nonce_key a = eMapKey (lit ''nonce'') a"

definition lock_key :: "bytes \<Rightarrow> bytes" where
  "lock_key a = eMapKey (lit ''lock'') a"

lemma num_at_upd [simp]: "num_at (c(k \<mapsto> E64func v)) j = (if j = k then v else num_at c j)"
  by (simp add: num_at_def)

lemma nonce_key_length: "length a = length b \<Longrightarrow> nonce_key a \<noteq> b"
  by (auto simp: nonce_key_def eMapKey_def)

lemma lock_key_length: "length a = length b \<Longrightarrow> lock_key a \<noteq> b"
  by (auto simp: lock_key_def eMapKey_def)

lemma aignore_Ok_snd: "snd (m t) = Ok x \<Longrightarrow> aignore m f t = f (fst (m t))"
  by (cases "m t") (simp add: aignore_def)

context store_tx begin

lemma set_balance_done:
  assumes "a \<noteq> []"
  shows "snd (set_balance T a v t) = Ok ()" "seen (fst (set_balance T a v t)) = (seen t)(a \<mapsto> v)"
    "pending (fst (set_balance T a v t)) = (pending t)(a \<mapsto> Some v)"
  using assms
  by (simp_all add: set_balance_def aignore_Ok_snd [where x = "()"] writes_ok writes_seen writes_pending)

lemma get_or_create_done:
  assumes "a \<noteq> []"
  shows "\<exists>v. snd (get_or_create T a t) = Ok v \<and> or_zero 0 (D64func v) = num_at (seen t) a"
    "num_at (seen (fst (get_or_create T a t))) = num_at (seen t)"
    "\<And>k. k \<noteq> a \<Longrightarrow> seen (fst (get_or_create T a t)) k = seen t k"
  using assms
  by (auto simp: get_or_create_def get_seen num_at_def set_balance_done aignore_Ok_snd [where x = "()"]
      fun_eq_iff split: option.splits)

text \<open>
  A credit by \<open>setMinerAccount\<close>, \<open>setMinerFee\<close> or \<open>MinerAccount\<close> sets one key.
\<close>

lemma credit_done:
  assumes "a \<noteq> []" "f \<in> {setMinerAccount T a amount, setMinerFee T a amount, MinerAccount T a amount}"
  shows "snd (f t) = Ok ()" "seen (fst (f t)) = (seen t)(a \<mapsto> E64func (num_at (seen t) a + amount))"
proof -
  obtain v where v: "snd (get_or_create T a t) = Ok v" "or_zero 0 (D64func v) = num_at (seen t) a"
    using get_or_create_done(1) [OF assms(1)] by blast
  have f: "f t = aignore (set_balance T a (E64func (num_at (seen t) a + amount))) (aret ())
      (fst (get_or_create T a t))"
    using assms(2) v(2)
    by (auto simp: setMinerAccount_def setMinerFee_def MinerAccount_def abind_done [where m = "get_or_create T a", OF v(1)]
        Let_def)
  show "snd (f t) = Ok ()"
    by (simp add: f aignore_Ok_snd [where x = "()"] set_balance_done assms(1))
  show "seen (fst (f t)) = (seen t)(a \<mapsto> E64func (num_at (seen t) a + amount))"
    using get_or_create_done(3) [OF assms(1), of _ t]
    by (auto simp: f aignore_Ok_snd [where x = "()"] set_balance_done assms(1) fun_eq_iff)
qed

text \<open>The sender's new balance, computed as \<open>setAccount\<close> does.\<close>

lemma setAccount_done:
  assumes "from \<noteq> []" "to \<noteq> []"
  shows "snd (setAccount T from to amount nonce Tx t) = Ok ()"
    "seen (fst (setAccount T from to amount nonce Tx t)) =
      (seen t)(from \<mapsto> E64func (num_at (seen t) from - amount - tFee Tx),
        to \<mapsto> E64func (num_at (seen t) to + amount), nonce_key from \<mapsto> E64func (nonce + 1))"
proof -
  obtain v where v: "snd (get_or_create T to t) = Ok v" "or_zero 0 (D64func v) = num_at (seen t) to"
    using get_or_create_done(1) [OF assms(2)] by blast
  let ?t = "fst (get_or_create T to t)"
  have fromv: "or_zero 0 (D64func (or_zero [] (tx_Get T ?t from))) = num_at (seen t) from"
    using get_or_create_done(2) [OF assms(2), of t, THEN fun_cong, of "from"] assms(1)
    by (cases "seen ?t from") (simp_all add: get_seen num_at_def D64func_def)
  let ?bal = "num_at (seen t) from - amount - tFee Tx"
  have eq: "setAccount T from to amount nonce Tx t =
      aignore (set_balance T from (E64func ?bal))
       (aignore (set_balance T to (E64func (num_at (seen t) to + amount)))
       (aignore (tx_Mdel T (lit ''nonce'') from)
       (aignore (set_nonce T from (E64func (nonce + 1))) (aret ())))) ?t"
    unfolding setAccount_def abind_done [where m = "get_or_create T to", OF v(1)] Let_def fromv v(2)
    by simp
  show "snd (setAccount T from to amount nonce Tx t) = Ok ()"
    by (simp add: eq aignore_Ok_snd [where x = "()"] set_balance_done assms set_nonce_def mset_ok mdel_ok)
  show "seen (fst (setAccount T from to amount nonce Tx t)) =
      (seen t)(from \<mapsto> E64func ?bal, to \<mapsto> E64func (num_at (seen t) to + amount),
        nonce_key from \<mapsto> E64func (nonce + 1))"
    using get_or_create_done(3) [OF assms(2), of _ t]
    by (auto simp: eq aignore_Ok_snd [where x = "()"] set_balance_done assms set_nonce_def mset_ok mdel_ok
        mset_seen mdel_seen nonce_key_def fun_eq_iff)
qed

section \<open>Reads leave the database alone\<close>

lemma read_commit_done:
  "stored (fst (read_commit D T f d)) = stored d"
  "snd (read_commit D T f d) = f (db_NewTransaction D d)"
proof -
  have "stored (fst (tx_Commit T (db_NewTransaction D d) d)) = stored d"
    by (simp add: commit_stored pending_new)
  then show "stored (fst (read_commit D T f d)) = stored d"
    "snd (read_commit D T f d) = f (db_NewTransaction D d)"
    using commit_ok [of "db_NewTransaction D d" d]
    by (auto simp: read_commit_def Let_def abind_done split: outcome.split)
qed

lemma GetBalance_done:
  assumes "a \<noteq> []"
  shows "stored (fst (GetBalance D T a d)) = stored d"
    "snd (GetBalance D T a d) = (case stored d a of None \<Rightarrow> Err NotExist | Some v \<Rightarrow> D64func v)"
    "or_zero 0 (snd (GetBalance D T a d)) = num_at (stored d) a"
  using assms
  by (auto simp: GetBalance_def read_commit_done get_seen seen_new num_at_def split: option.split)

lemma GetLockBalance_done:
  "stored (fst (GetLockBalance D T a d)) = stored d"
  "or_zero 0 (snd (GetLockBalance D T a d)) = num_at (stored d) (lock_key a)"
  "snd (GetLockBalance D T a d) \<noteq> Panic"
  by (auto simp: GetLockBalance_def read_commit_done mget_seen seen_new num_at_def lock_key_def
      split: option.split)

lemma SetLockBalance_done:
  "snd (SetLockBalance T a amount t) = Ok ()"
  "seen (fst (SetLockBalance T a amount t)) = (seen t)(lock_key a \<mapsto> E64func amount)"
  "pending t = Map.empty \<Longrightarrow>
    overlay (pending (fst (SetLockBalance T a amount t))) c = c(lock_key a \<mapsto> E64func amount)"
  by (auto simp: SetLockBalance_def Let_def mget_seen abind_done writes_ok writes_seen writes_pending
      lock_key_def split: option.split)

lemma commit_lock_done:
  assumes "pending tx = Map.empty"
  shows "snd (commit_lock D T tx a amount d) = Ok True"
    "stored (fst (commit_lock D T tx a amount d)) = (stored d)(lock_key a \<mapsto> E64func amount)"
proof -
  obtain tx' where tx': "SetLockBalance T a amount tx = (tx', Ok ())"
    using SetLockBalance_done(1) [of a amount tx] by (cases "SetLockBalance T a amount tx") auto
  obtain d' where d': "tx_Commit T tx' d = (d', Ok ())"
    using commit_ok [of tx' d] by (cases "tx_Commit T tx' d") auto
  show "snd (commit_lock D T tx a amount d) = Ok True"
    by (simp add: commit_lock_def tx' d')
  show "stored (fst (commit_lock D T tx a amount d)) = (stored d)(lock_key a \<mapsto> E64func amount)"
    using commit_stored [of tx' d] SetLockBalance_done(3) [OF assms, of a amount "stored d"]
    by (simp add: commit_lock_def tx' d')
qed

lemma GetBalance_no_panic: "a \<noteq> [] \<Longrightarrow> snd (GetBalance D T a d) \<noteq> Panic"
  by (auto simp: GetBalance_done split: option.split)

lemma LockBalance_done:
  assumes "a \<noteq> []"
  shows "snd (LockBalance D T a amount d) =
      Ok (\<not> (num_at (stored d) a < num_at (stored d) (lock_key a) + amount \<or> num_at (stored d) a < amount \<or>
        num_at (stored d) a - num_at (stored d) (lock_key a) < amount))"
    "stored (fst (LockBalance D T a amount d)) =
      (if snd (LockBalance D T a amount d) = Ok True
       then (stored d)(lock_key a \<mapsto> E64func (amount + num_at (stored d) (lock_key a))) else stored d)"
proof -
  obtain d1 rb where b: "GetBalance D T a d = (d1, rb)" by (cases "GetBalance D T a d")
  obtain d2 rl where l: "GetLockBalance D T a d1 = (d2, rl)" by (cases "GetLockBalance D T a d1")
  have s: "stored d1 = stored d" "stored d2 = stored d" "rb \<noteq> Panic" "rl \<noteq> Panic"
    "or_zero 0 rb = num_at (stored d) a" "or_zero 0 rl = num_at (stored d) (lock_key a)"
    using GetBalance_done [OF assms, of d] GetBalance_no_panic [OF assms, of d]
      GetLockBalance_done [of a d1] b l by auto
  show "snd (LockBalance D T a amount d) =
      Ok (\<not> (num_at (stored d) a < num_at (stored d) (lock_key a) + amount \<or> num_at (stored d) a < amount \<or>
        num_at (stored d) a - num_at (stored d) (lock_key a) < amount))"
    "stored (fst (LockBalance D T a amount d)) =
      (if snd (LockBalance D T a amount d) = Ok True
       then (stored d)(lock_key a \<mapsto> E64func (amount + num_at (stored d) (lock_key a))) else stored d)"
    using s by (simp_all add: LockBalance_def Let_def b l commit_lock_done pending_new)
qed

lemma Unlockbalance_done:
  "snd (Unlockbalance D T a amount d) = Ok (\<not> num_at (stored d) (lock_key a) < amount)"
  "stored (fst (Unlockbalance D T a amount d)) =
    (if num_at (stored d) (lock_key a) < amount then stored d
     else (stored d)(lock_key a \<mapsto> E64func (num_at (stored d) (lock_key a) - amount)))"
proof -
  obtain d2 rl where l: "GetLockBalance D T a d = (d2, rl)" by (cases "GetLockBalance D T a d")
  have s: "stored d2 = stored d" "rl \<noteq> Panic" "or_zero 0 rl = num_at (stored d) (lock_key a)"
    using GetLockBalance_done [of a d] l by auto
  show "snd (Unlockbalance D T a amount d) = Ok (\<not> num_at (stored d) (lock_key a) < amount)"
    "stored (fst (Unlockbalance D T a amount d)) =
    (if num_at (stored d) (lock_key a) < amount then stored d
     else (stored d)(lock_key a \<mapsto> E64func (num_at (stored d) (lock_key a) - amount)))"
    using s by (simp_all add: Unlockbalance_def Let_def l commit_lock_done pending_new)
qed

lemma SetNonce_done:
  "snd (SetNonce D T a n d) = Ok ()"
  "stored (fst (SetNonce D T a n d)) = (stored d)(nonce_key a \<mapsto> E64func n)"
proof -
  let ?t = "db_NewTransaction D d"
  obtain tx where tx: "tx_Mset T (lit ''nonce'') a (E64func n) ?t = (tx, Ok ())"
    using mset_ok [of "lit ''nonce''" a "E64func n" ?t] by (cases "tx_Mset T (lit ''nonce'') a (E64func n) ?t") auto
  have "pending tx = [nonce_key a \<mapsto> Some (E64func n)]"
    using mset_pending [of "lit ''nonce''" a "E64func n" ?t] by (simp add: tx pending_new nonce_key_def)
  then show "snd (SetNonce D T a n d) = Ok ()"
    "stored (fst (SetNonce D T a n d)) = (stored d)(nonce_key a \<mapsto> E64func n)"
    by (simp_all add: SetNonce_def tx commit_ok commit_stored)
qed

lemma GetNonce_done:
  "snd (GetNonce D T a d) = (case stored d (nonce_key a) of None \<Rightarrow> Ok 1 | Some v \<Rightarrow> D64func v)"
  "stored (fst (GetNonce D T a d)) =
    (if stored d (nonce_key a) = None then (stored d)(nonce_key a \<mapsto> E64func 1) else stored d)"
proof -
  let ?t = "db_NewTransaction D d"
  have c: "stored (fst (tx_Commit T ?t d)) = stored d"
    by (simp add: commit_stored pending_new)
  show "snd (GetNonce D T a d) = (case stored d (nonce_key a) of None \<Rightarrow> Ok 1 | Some v \<Rightarrow> D64func v)"
    "stored (fst (GetNonce D T a d)) =
    (if stored d (nonce_key a) = None then (stored d)(nonce_key a \<mapsto> E64func 1) else stored d)"
    using c by (auto simp: GetNonce_def Let_def mget_seen seen_new nonce_key_def [symmetric] abind_done
        commit_ok aignore_Ok_snd [where x = "()"] SetNonce_done split: option.split outcome.split)
qed

end

end
