(* ===== verification/LedgerSpec.thy ===== *)
theory LedgerSpec
  imports Ledger
begin

text \<open>
  Properties of the ledger's accounts over the store on any key-value engine with room: what a
  transfer changes, locked amounts, nonces, and the block reward.
\<close>

section \<open>Transfers\<close>

text \<open>\<open>setAccount\<close> between two different accounts takes amount and fee from the sender, gives the
  amount to the receiver, sets the sender's nonce to the transaction's plus one, and changes no
  other key.\<close>

theorem account_transfer_exact:
  assumes "roomy_badger B view writes contents" "length from = 47" "length to = 47" "from \<noteq> to"
  shows "snd (setAccount (bgTransaction B) from to amount nonce Tx t) = Ok () \<and>
    (let v' = view (fst (setAccount (bgTransaction B) from to amount nonce Tx t)) in
      num_at v' from = num_at (view t) from - amount - tFee Tx \<and>
      num_at v' to = num_at (view t) to + amount \<and>
      v' (nonce_key from) = Some (E64func (nonce + 1)) \<and>
      (\<forall>k. k \<noteq> from \<longrightarrow> k \<noteq> to \<longrightarrow> k \<noteq> nonce_key from \<longrightarrow> v' k = view t k))"
proof -
  have "from \<noteq> []" "to \<noteq> []" using assms by auto
  note upd = store_tx.setAccount_done [OF bg_store_tx [OF assms(1)] this]
  have "nonce_key from \<noteq> from" "nonce_key from \<noteq> to"
    using nonce_key_length [of "from" "from"] nonce_key_length [of "from" to] assms by auto
  then show ?thesis
    using assms(4) by (simp add: upd Let_def)
qed

definition addr_a :: Address where "addr_a = BytesToAddress (lit ''KtoA'')"
definition addr_b :: Address where "addr_b = BytesToAddress (lit ''KtoB'')"

lemma addr_ab: "length addr_a = 47" "length addr_b = 47" "addr_a \<noteq> addr_b" "addr_b \<noteq> addr_a"
  by (simp_all add: addr_a_def addr_b_def BytesToAddress_def lit_def Lenthaddr_def)

theorem account_transfer_exact_witness:
  "num_at (mview (fst (setAccount (bgTransaction map_badger) addr_a addr_b 30 1
      (zero_transaction\<lparr> tFee := 5 \<rparr>) (fmupd addr_a (E64func 100) fmempty, fmempty)))) addr_a = 65"
  using account_transfer_exact [OF map_badger_roomy addr_ab(1,2,3), of 30 1 "zero_transaction\<lparr> tFee := 5 \<rparr>"
      "(fmupd addr_a (E64func 100) fmempty, fmempty)"]
  by (simp add: Let_def num_at_def)

text \<open>A transaction whose sender is its receiver is not charged: the balance ends up the amount
  higher, and the fee is not taken.\<close>

theorem account_self_transfer_mints:
  assumes "roomy_badger B view writes contents" "length a = 47"
  shows "num_at (view (fst (setAccount (bgTransaction B) a a amount nonce Tx t))) a =
    num_at (view t) a + amount"
proof -
  have "a \<noteq> []" using assms by auto
  from store_tx.setAccount_done(2) [OF bg_store_tx [OF assms(1)] this this]
    nonce_key_length [of a a] show ?thesis by simp
qed

theorem account_self_transfer_mints_witness:
  "num_at (mview (fst (setAccount (bgTransaction map_badger) addr_a addr_a 30 1 zero_transaction
    (fmupd addr_a (E64func 100) fmempty, fmempty)))) addr_a = 130"
  using account_self_transfer_mints [OF map_badger_roomy addr_ab(1), of 30 1 zero_transaction
      "(fmupd addr_a (E64func 100) fmempty, fmempty)"]
  by (simp add: num_at_def)

section \<open>Locked amounts\<close>

text \<open>C35: As long as the locked amount does not exceed the balance, \<open>LockBalance\<close> succeeds exactly
  when the new total still fits under the balance; it then stores the new total under the account's
  lock entry and changes nothing else, and otherwise it changes nothing. So the locked amount never
  exceeds the balance afterwards.\<close>

theorem lock_balance_exact:
  fixes B :: "('d, 't) badger"
  assumes "roomy_badger B view writes contents" "length a = 47"
    "num_at (contents d) (lock_key a) \<le> num_at (contents d) a"
  shows "let r = LockBalance (bgStore B) (bgTransaction B) a amount d;
      bal = num_at (contents d) a; locked = num_at (contents d) (lock_key a) in
    snd r = Ok (unat locked + unat amount \<le> unat bal) \<and>
    (if unat locked + unat amount \<le> unat bal
     then contents (fst r) = (contents d)(lock_key a \<mapsto> E64func (locked + amount)) else contents (fst r) = contents d) \<and>
    num_at (contents (fst r)) (lock_key a) \<le> num_at (contents (fst r)) a"
proof -
  define bal locked where "bal = num_at (contents d) a" and "locked = num_at (contents d) (lock_key a)"
  have "a \<noteq> []" using assms by auto
  note upd = store_tx.LockBalance_done [OF bg_store_tx [OF assms(1)] this, of amount d,
      folded bal_def locked_def]
  have le: "unat locked \<le> unat bal"
    using assms(3) by (simp add: bal_def locked_def word_le_nat_alt)
  have sum: "unat (locked + amount) = unat locked + unat amount"
    if "unat locked + unat amount < 2 ^ 64"
    using that by (simp add: unat_plus_if')
  have diff: "unat (bal - locked) = unat bal - unat locked"
    using le by (simp add: unat_sub word_le_nat_alt)
  have small: "unat bal < 2 ^ 64" by (rule order_less_le_trans [OF unsigned_less]) simp
  have eq: "\<not> (bal < locked + amount \<or> bal < amount \<or> bal - locked < amount) \<longleftrightarrow>
      unat locked + unat amount \<le> unat bal"
    using le small sum diff by (auto simp: word_less_nat_alt not_less)
  have ne: "lock_key a \<noteq> a" by (rule lock_key_length) simp
  have bound: "locked + amount \<le> bal" if "unat locked + unat amount \<le> unat bal"
    using that small sum by (simp add: word_le_nat_alt)
  show ?thesis
    unfolding Let_def bal_def [symmetric] locked_def [symmetric] upd eq
    using bound ne le assms(3)
    by (auto simp: bal_def [symmetric] locked_def [symmetric] add.commute word_le_nat_alt)
qed

theorem lock_balance_exact_witness:
  "snd (LockBalance (bgStore map_badger) (bgTransaction map_badger) addr_a 30
    (fmupd addr_a (E64func 100) fmempty)) = Ok True"
proof -
  have "lock_key addr_a \<noteq> addr_a" by (rule lock_key_length) simp
  then show ?thesis
    using lock_balance_exact [OF map_badger_roomy addr_ab(1), of "fmupd addr_a (E64func 100) fmempty" 30]
    by (simp add: Let_def num_at_def)
qed

text \<open>Unlocking what was just locked restores the locked amount.\<close>

theorem unlock_after_lock:
  assumes "roomy_badger B view writes contents" "length a = 47"
    "num_at (contents d) (lock_key a) \<le> num_at (contents d) a"
    "LockBalance (bgStore B) (bgTransaction B) a amount d = (d', Ok True)"
  shows "\<exists>d''. Unlockbalance (bgStore B) (bgTransaction B) a amount d' = (d'', Ok True) \<and>
    contents d'' = (contents d)(lock_key a \<mapsto> E64func (num_at (contents d) (lock_key a)))"
proof -
  let ?l = "num_at (contents d) (lock_key a)" and ?b = "num_at (contents d) a"
  note lock = lock_balance_exact [OF assms(1-3), of amount, unfolded Let_def assms(4)]
  have fits: "unat ?l + unat amount \<le> unat ?b" and d': "contents d' = (contents d)(lock_key a \<mapsto> E64func (?l + amount))"
    using lock by (auto split: if_splits)
  have "unat ?b < 2 ^ 64" by (rule order_less_le_trans [OF unsigned_less]) simp
  then have "\<not> ?l + amount < amount"
    using fits by (simp add: word_less_nat_alt unat_plus_if')
  then show ?thesis
    using store_tx.Unlockbalance_done [OF bg_store_tx [OF assms(1)], of a amount d']
    by (cases "Unlockbalance (bgStore B) (bgTransaction B) a amount d'") (simp add: d')
qed

theorem unlock_after_lock_witness:
  "\<exists>d'' d'. LockBalance (bgStore map_badger) (bgTransaction map_badger) addr_a 30
      (fmupd addr_a (E64func 100) fmempty) = (d', Ok True) \<and>
    Unlockbalance (bgStore map_badger) (bgTransaction map_badger) addr_a 30 d' = (d'', Ok True)"
proof -
  have ne: "lock_key addr_a \<noteq> addr_a" by (rule lock_key_length) simp
  let ?r = "LockBalance (bgStore map_badger) (bgTransaction map_badger) addr_a 30
      (fmupd addr_a (E64func 100) fmempty)"
  have "addr_a \<noteq> []" using addr_ab(1) by auto
  then have "snd ?r = Ok True"
    using ne by (simp add: ms.LockBalance_done(1) num_at_def)
  then obtain d' where d': "?r = (d', Ok True)" by (cases ?r) auto
  from unlock_after_lock [OF map_badger_roomy addr_ab(1) _ d'] ne d' show ?thesis
    by (auto simp: num_at_def)
qed

section \<open>Nonces\<close>

text \<open>\<open>GetNonce\<close> of an address that has none returns 1 and records it; of an address that has one
  it returns the stored value and changes nothing. A second call returns the same.\<close>

theorem get_nonce_stable:
  assumes "roomy_badger B view writes contents"
    "\<And>v. contents d (nonce_key a) = Some v \<Longrightarrow> length v = 8"
  shows "\<exists>n d'. GetNonce (bgStore B) (bgTransaction B) a d = (d', Ok n) \<and>
    contents d' = (contents d)(nonce_key a \<mapsto> E64func n) \<and>
    snd (GetNonce (bgStore B) (bgTransaction B) a d') = Ok n \<and>
    (contents d (nonce_key a) = None \<longrightarrow> n = 1)"
proof -
  note upd = store_tx.GetNonce_done [OF bg_store_tx [OF assms(1)]]
  obtain d' r where r: "GetNonce (bgStore B) (bgTransaction B) a d = (d', r)"
    by (cases "GetNonce (bgStore B) (bgTransaction B) a d")
  show ?thesis
  proof (cases "contents d (nonce_key a)")
    case None
    then show ?thesis using upd [of a d] upd(1) [of a d'] r by auto
  next
    case (Some v)
    then obtain n where n: "D64func v = Ok n"
      using assms(2) by (auto simp: D64func_def)
    then have "v = E64func n" using D64func_cases [of v n] by simp
    with Some n show ?thesis using upd [of a d] upd(1) [of a d'] r by (auto simp: fun_upd_idem)
  qed
qed

theorem get_nonce_stable_witness:
  "\<exists>n d'. GetNonce (bgStore map_badger) (bgTransaction map_badger) addr_a fmempty = (d', Ok n) \<and>
    snd (GetNonce (bgStore map_badger) (bgTransaction map_badger) addr_a d') = Ok n \<and> n = 1"
  using get_nonce_stable [OF map_badger_roomy, of fmempty addr_a] by auto

section \<open>The block reward\<close>

definition total_paid :: "MinerTx list \<Rightarrow> nat" where
  "total_paid ms = sum_list (map (\<lambda>m. unat (mAmount m)) ms)"

lemma unat_times_numeral:
  "unat (w :: u64) * unat (c :: u64) < 2 ^ 64 \<Longrightarrow> unat (w * c) = unat w * unat c"
  by (rule unat_mult_lem [THEN iffD1]) simp

lemma distr_loop_bound: "unat tot \<le> 49460000000 \<Longrightarrow> unat (distr_loop n tot) \<le> unat tot"
proof (induction n arbitrary: tot)
  case 0
  then show ?case by simp
next
  case (Suc n)
  have "unat (tot * 8) = unat tot * 8"
    using Suc.prems unat_times_numeral [of tot 8] by simp
  then have "unat (tot * 8 div 10) \<le> unat tot"
    by (simp add: unat_div)
  with Suc.IH [of "tot * 8 div 10"] Suc.prems show ?case by simp
qed

lemma block_reward_bound: "unat (block_reward height) \<le> 49460000000"
  using distr_loop_bound [of 49460000000 "unat (height div 31536000)"] by (simp add: block_reward_def)

lemma count_pay_orders:
  assumes "count_orders ed Q Txs n = Ok m" "pay_orders ed Q f Txs ms = Ok ms'"
  shows "\<exists>k. k \<le> length Txs \<and> m = n + of_nat k \<and> total_paid ms' = total_paid ms + k * unat f"
  using assms
proof (induction Txs arbitrary: n ms)
  case Nil
  then show ?case by simp
next
  case (Cons tr Txs)
  then obtain ok where ok: "order_counts ed Q tr = Ok ok"
    by (cases "order_counts ed Q tr") simp_all
  show ?case
  proof (cases ok)
    case True
    with Cons.prems ok obtain k where "k \<le> length Txs" "m = n + 1 + of_nat k"
      "total_paid ms' = total_paid (ms @ [\<lparr> mAmount = f, mRecAddress = AddressToByte (oAddress (tOrd tr)) \<rparr>]) + k * unat f"
      using Cons.IH by fastforce
    then show ?thesis
      by (intro exI [of _ "Suc k"]) (simp add: total_paid_def)
  next
    case False
    with Cons.prems ok obtain k where "k \<le> length Txs" "m = n + of_nat k"
      "total_paid ms' = total_paid ms + k * unat f"
      using Cons.IH by fastforce
    then show ?thesis by (intro exI [of _ k]) simp
  qed
qed

text \<open>C36: The rewards of one block never exceed the block reward of its height, and that never
  exceeds the first year's 49460000000, whatever orders the transactions carry.\<close>

theorem distr_within_reward:
  assumes "Distr ed Txs minaddr Ds Cm QTJ height = Ok ms" "length Txs < 2 ^ 64"
  shows "total_paid ms \<le> unat (block_reward height) \<and> unat (block_reward height) \<le> 49460000000"
proof -
  define d where "d = block_reward height"
  have d: "unat d \<le> 49460000000" unfolding d_def by (rule block_reward_bound)
  obtain Q n where Q: "AddrTopub QTJ = Ok Q" and n: "count_orders ed Q Txs 0 = Ok n"
    using assms(1) by (auto simp: Distr_def Let_def obind_Ok_iff)
  have parts: "unat (d * 4 div 10) = unat d * 4 div 10" "unat (d * 2 div 10) = unat d * 2 div 10"
    using d unat_times_numeral [of d 4] unat_times_numeral [of d 2] by (simp_all add: unat_div)
  have "total_paid ms \<le> unat d"
  proof (cases "n = 0")
    case True
    then have "total_paid ms = unat (d * 2 div 10) + unat (d * 4 div 10) + unat (d * 4 div 10)"
      using assms(1) Q n by (auto simp: Distr_def Let_def d_def total_paid_def)
    then show ?thesis unfolding parts by linarith
  next
    case False
    define f where "f = d div 10 div n"
    obtain ps where ps: "pay_orders ed Q f Txs [] = Ok ps"
      and ms: "ms = ((ps @ [\<lparr> mAmount = d div 10, mRecAddress = Ds \<rparr>]) @ [\<lparr> mAmount = d * 4 div 10, mRecAddress = minaddr \<rparr>])
        @ [\<lparr> mAmount = d * 4 div 10, mRecAddress = Cm \<rparr>]"
      using assms(1) Q n False by (auto simp: Distr_def Let_def d_def f_def obind_Ok_iff)
    obtain k where k: "k \<le> length Txs" "n = of_nat k" "total_paid ps = k * unat f"
      using count_pay_orders [OF n ps] by (auto simp: total_paid_def)
    have "unat n = k"
      unfolding k(2) by (rule unat_of_nat_small) (use k(1) assms(2) in simp)
    then have "k * unat f \<le> unat d div 10"
      by (simp add: f_def unat_div)
    then show ?thesis
      using parts k(3) unfolding ms by (simp add: total_paid_def unat_div)
  qed
  with d show ?thesis by (simp add: d_def)
qed

theorem distr_within_reward_witness:
  "total_paid [\<lparr> mAmount = 9892000000, mRecAddress = [1] \<rparr>, \<lparr> mAmount = 19784000000, mRecAddress = [2] \<rparr>,
      \<lparr> mAmount = 19784000000, mRecAddress = [3] \<rparr>] \<le> unat (block_reward 1) \<and> unat (block_reward 1) \<le> 49460000000"
  by (rule distr_within_reward [of "\<lparr> ed_sign = (\<lambda>k m. m), ed_verify = (\<lambda>k m s. s = m) \<rparr>"
        "[]" "[2]" "[1]" "[3]" "lit ''Kto''" 1])
     (simp_all add: Distr_def AddrTopub_def length_lit_Kto block_reward_def Let_def)

end
