(* ===== verification/Strconv.thy ===== *)
theory Strconv
  imports Prelude
begin

text \<open>
  What the code uses of Go's number and text conversions: \<open>strconv.ParseInt\<close> and the digits of
  \<open>ParseUint\<close>, decimal printing, and \<open>encoding/hex\<close>.
\<close>

section \<open>Digits\<close>

definition digit_val :: "byte \<Rightarrow> nat" where
  "digit_val b =
     (if 48 \<le> b \<and> b \<le> 57 then unat b - 48
      else if 97 \<le> b \<and> b \<le> 122 then unat b - 87
      else if 65 \<le> b \<and> b \<le> 90 then unat b - 55 else 36)"

fun parse_digits :: "nat \<Rightarrow> bytes \<Rightarrow> nat \<Rightarrow> nat option" where
  "parse_digits base [] n = (if n < 2 ^ 64 then Some n else None)"
| "parse_digits base (b # bs) n =
     (if base \<le> digit_val b then None else parse_digits base bs (n * base + digit_val b))"

text \<open>Decimal digits as \<open>strconv.FormatUint\<close> prints them.\<close>

fun dec :: "nat \<Rightarrow> bytes" where
  "dec n = (if n < 10 then [of_nat (48 + n)] else dec (n div 10) @ [of_nat (48 + n mod 10)])"

declare dec.simps [simp del]

lemma digit_byte:
  assumes "k < 10"
  shows "48 \<le> (of_nat (48 + k) :: byte) \<and> (of_nat (48 + k) :: byte) \<le> 57"
    "digit_val (of_nat (48 + k)) = k" "(of_nat (48 + k) :: byte) = 48 \<longleftrightarrow> k = 0"
proof -
  have u: "unat (of_nat (48 + k) :: byte) = 48 + k"
    by (rule unat_of_nat_small) (use assms in simp)
  then show b: "48 \<le> (of_nat (48 + k) :: byte) \<and> (of_nat (48 + k) :: byte) \<le> 57"
    using assms by (simp only: word_le_nat_alt u) simp
  show "digit_val (of_nat (48 + k)) = k"
    using b u by (simp only: digit_val_def) simp
  show "(of_nat (48 + k) :: byte) = 48 \<longleftrightarrow> k = 0"
    by (simp only: word_unat_eq_iff u) simp
qed

lemma dec_digits: "\<forall>c \<in> set (dec n). 48 \<le> c \<and> c \<le> 57"
proof (induction n rule: dec.induct)
  case (1 n)
  show ?case
  proof (cases "n < 10")
    case True
    then show ?thesis using digit_byte(1) [of n] by (subst dec.simps) simp
  next
    case False
    then show ?thesis using 1 digit_byte(1) [of "n mod 10"] by (subst dec.simps) auto
  qed
qed

lemma dec_nonempty: "dec n \<noteq> []"
  by (subst dec.simps) simp

lemma dec_hd: "hd (dec n) = 48 \<longleftrightarrow> n = 0"
proof (induction n rule: dec.induct)
  case (1 n)
  show ?case
  proof (cases "n < 10")
    case True
    then show ?thesis using digit_byte(3) [of n] by (subst dec.simps) simp
  next
    case False
    then show ?thesis using 1 by (subst dec.simps) (simp add: dec_nonempty)
  qed
qed

lemma parse_digit:
  assumes "k < 10"
  shows "parse_digits 10 (of_nat (48 + k) # bs) m = parse_digits 10 bs (m * 10 + k)"
  using digit_byte(2) [OF assms] assms by (simp del: of_nat_add)

lemma parse_digits_dec:
  "parse_digits 10 (dec n @ bs) 0 = parse_digits 10 bs n"
proof (induction n arbitrary: bs rule: dec.induct)
  case (1 n)
  show ?case
  proof (cases "n < 10")
    case True
    then show ?thesis using parse_digit [of n bs 0] by (subst dec.simps) simp
  next
    case False
    then have "parse_digits 10 (dec n @ bs) 0 =
        parse_digits 10 (dec (n div 10) @ of_nat (48 + n mod 10) # bs) 0"
      by (subst dec.simps) simp
    also have "\<dots> = parse_digits 10 (of_nat (48 + n mod 10) # bs) (n div 10)"
      by (rule 1 [OF False])
    also have "\<dots> = parse_digits 10 bs (n div 10 * 10 + n mod 10)"
      by (rule parse_digit) simp
    finally show ?thesis by (simp only: div_mult_mod_eq)
  qed
qed

lemma dec_0: "dec 0 = [48]"
  by (subst dec.simps) simp

section \<open>\<open>ParseInt\<close>\<close>

text \<open>
  A number, or a syntax or range error. The digits are read from the left, so a number that has become
  too large is a range error whatever follows. In base 0 underscores are skipped here and checked
  afterwards.
\<close>

datatype parsed = Num nat | SyntaxErr | RangeErr

fun uint_digits :: "bool \<Rightarrow> nat \<Rightarrow> nat \<Rightarrow> bytes \<Rightarrow> nat \<Rightarrow> parsed" where
  "uint_digits base0 maxVal base [] n = Num n"
| "uint_digits base0 maxVal base (b # bs) n =
     (if b = 95 \<and> base0 then uint_digits base0 maxVal base bs n
      else if base \<le> digit_val b then SyntaxErr
      else if maxVal < n * base + digit_val b then RangeErr
      else uint_digits base0 maxVal base bs (n * base + digit_val b))"

definition is_prefix_letter :: "byte \<Rightarrow> bool" where
  "is_prefix_letter c \<longleftrightarrow> c \<in> {98, 66, 111, 79, 120, 88}"

definition prefix_base :: "byte \<Rightarrow> nat" where
  "prefix_base c = (if c = 98 \<or> c = 66 then 2 else if c = 111 \<or> c = 79 then 8 else 16)"

text \<open>Underscores only between digits, or after the base prefix.\<close>

datatype saw = SawStart | SawDigit | SawUnderscore | SawOther

fun underscores :: "bool \<Rightarrow> saw \<Rightarrow> bytes \<Rightarrow> bool" where
  "underscores hex saw [] \<longleftrightarrow> saw \<noteq> SawUnderscore"
| "underscores hex saw (c # cs) \<longleftrightarrow>
     (if digit_val c < 10 \<or> hex \<and> digit_val c < 16 then underscores hex SawDigit cs
      else if c = 95 then saw = SawDigit \<and> underscores hex SawUnderscore cs
      else saw \<noteq> SawUnderscore \<and> underscores hex SawOther cs)"

definition underscoreOK :: "bytes \<Rightarrow> bool" where
  "underscoreOK s =
     (case s of
        a # c # cs \<Rightarrow> if a = 48 \<and> is_prefix_letter c then underscores (c = 120 \<or> c = 88) SawDigit cs
          else underscores False SawStart s
      | _ \<Rightarrow> underscores False SawStart s)"

text \<open>\<open>ParseUint(s, base, bits)\<close> for the bases 0 and 10.\<close>

definition ParseUint0 :: "nat \<Rightarrow> nat \<Rightarrow> bytes \<Rightarrow> parsed" where
  "ParseUint0 base bits s =
     (if s = [] then SyntaxErr
      else if base \<noteq> 0 then uint_digits False (2 ^ bits - 1) base s 0
      else let (base', rest) =
             (if hd s = 48
              then if 3 \<le> length s \<and> is_prefix_letter (s ! 1) then (prefix_base (s ! 1), drop 2 s) else (8, tl s)
              else (10, s))
        in if uint_digits True (2 ^ bits - 1) base' rest 0 \<noteq> SyntaxErr \<and> 95 \<in> set rest \<and> \<not> underscoreOK s \<and>
              uint_digits True (2 ^ bits - 1) base' rest 0 \<noteq> RangeErr
           then SyntaxErr
           else uint_digits True (2 ^ bits - 1) base' rest 0)"

text \<open>The value, and whether there was an error; the value is 0 on a syntax error and the nearest number
  on a range error.\<close>

definition ParseInt :: "nat \<Rightarrow> nat \<Rightarrow> bytes \<Rightarrow> int \<times> bool" where
  "ParseInt base bits s =
     (if s = [] then (0, True)
      else let neg = (hd s = 45); s' = (if hd s = 43 \<or> hd s = 45 then tl s else s); cutoff = 2 ^ (bits - 1)
        in case ParseUint0 base bits s' of
             SyntaxErr \<Rightarrow> (0, True)
           | RangeErr \<Rightarrow> (if neg then - int cutoff else int cutoff - 1, True)
           | Num n \<Rightarrow>
               if \<not> neg \<and> cutoff \<le> n then (int cutoff - 1, True)
               else if neg \<and> cutoff < n then (- int cutoff, True)
               else (if neg then - int n else int n, False))"

text \<open>\<open>%v\<close> of an integer.\<close>

definition show_int :: "int \<Rightarrow> bytes" where
  "show_int z = (if z < 0 then 45 # dec (nat (- z)) else dec (nat z))"

lemma uint_digit:
  assumes "k < 10" "m * 10 + k \<le> maxVal"
  shows "uint_digits z maxVal 10 (of_nat (48 + k) # bs) m = uint_digits z maxVal 10 bs (m * 10 + k)"
proof -
  have "(of_nat (48 + k) :: byte) \<noteq> 95"
    using digit_byte(1) [OF assms(1)] by auto
  with digit_byte(2) [OF assms(1)] assms show ?thesis by (simp del: of_nat_add)
qed

lemma uint_digits_dec:
  "n \<le> maxVal \<Longrightarrow> uint_digits z maxVal 10 (dec n @ bs) 0 = uint_digits z maxVal 10 bs n"
proof (induction n arbitrary: bs rule: dec.induct)
  case (1 n)
  show ?case
  proof (cases "n < 10")
    case True
    then show ?thesis using uint_digit [of n 0 maxVal z bs] 1(2) by (subst dec.simps) simp
  next
    case False
    then have "uint_digits z maxVal 10 (dec n @ bs) 0 =
        uint_digits z maxVal 10 (dec (n div 10) @ of_nat (48 + n mod 10) # bs) 0"
      by (subst dec.simps) simp
    also have "\<dots> = uint_digits z maxVal 10 (of_nat (48 + n mod 10) # bs) (n div 10)"
      by (rule 1(1) [OF False]) (use 1(2) in simp)
    also have "\<dots> = uint_digits z maxVal 10 bs (n div 10 * 10 + n mod 10)"
      by (rule uint_digit) (use 1(2) in simp_all)
    finally show ?thesis by (simp only: div_mult_mod_eq)
  qed
qed

lemma ParseInt_dec:
  assumes "n < 2 ^ (bits - 1)" "0 < bits" "base = 0 \<or> base = 10"
  shows "ParseInt base bits (dec n) = (int n, False)"
proof -
  obtain b bs where b: "dec n = b # bs" using dec_nonempty [of n] by (cases "dec n") auto
  have dig: "48 \<le> b \<and> b \<le> 57" "95 \<notin> set (dec n)" using dec_digits [of n] b by auto
  have no_sign: "b \<noteq> 43" "b \<noteq> 45" using dig(1) by auto
  have le: "n \<le> 2 ^ bits - 1"
  proof -
    have "(2 :: nat) ^ (bits - 1) \<le> 2 ^ bits - 1"
      using assms(2) by (cases bits) simp_all
    with assms(1) show ?thesis by linarith
  qed
  have num: "uint_digits z (2 ^ bits - 1) 10 (dec n) 0 = Num n" for z
    using uint_digits_dec [OF le, of z "[]"] by simp
  have "ParseUint0 base bits (dec n) = Num n"
  proof (cases "base = 0 \<and> b = 48")
    case True
    then have n0: "n = 0" using dec_hd [of n] b by simp
    with True show ?thesis by (simp add: ParseUint0_def dec_0)
  next
    case False
    then consider "base = 10" | "base = 0" "hd (dec n) \<noteq> 48" using assms(3) b by auto
    then show ?thesis
    proof cases
      case 1
      with num [of False] dec_nonempty [of n] show ?thesis by (simp add: ParseUint0_def)
    next
      case 2
      with num [of True] dig(2) dec_nonempty [of n] show ?thesis by (simp add: ParseUint0_def)
    qed
  qed
  moreover have "hd (dec n) \<noteq> 45" "hd (dec n) \<noteq> 43" using no_sign b by auto
  ultimately show ?thesis
    using assms(1) dec_nonempty [of n] by (simp add: ParseInt_def)
qed

section \<open>Hexadecimal text\<close>

definition hex_digit :: "nat \<Rightarrow> byte" where
  "hex_digit n = of_nat (if n < 10 then 48 + n else 87 + n)"

definition hexEncode :: "bytes \<Rightarrow> gostring" where
  "hexEncode src = concat (map (\<lambda>b. [hex_digit (unat b div 16), hex_digit (unat b mod 16)]) src)"

text \<open>What is decoded before the first error, and the error.\<close>

fun hexDecode :: "gostring \<Rightarrow> bytes \<times> unit outcome" where
  "hexDecode [] = ([], Ok ())"
| "hexDecode [a] = ([], Err (ErrText (if digit_val a < 16 then ''encoding/hex: odd length hex string''
     else ''encoding/hex: invalid byte'')))"
| "hexDecode (a # b # s) =
     (if digit_val a < 16 \<and> digit_val b < 16
      then (case hexDecode s of (bs, r) \<Rightarrow> (of_nat (16 * digit_val a + digit_val b) # bs, r))
      else ([], Err (ErrText ''encoding/hex: invalid byte'')))"

lemma unat_hex_digit: "n < 16 \<Longrightarrow> unat (hex_digit n) = (if n < 10 then 48 + n else 87 + n)"
  unfolding hex_digit_def unat_of_nat by simp

lemma hex_digit_inject: "m < 16 \<Longrightarrow> n < 16 \<Longrightarrow> hex_digit m = hex_digit n \<Longrightarrow> m = n"
proof -
  assume "m < 16" "n < 16" "hex_digit m = hex_digit n"
  then have "(if m < 10 then 48 + m else 87 + m) = (if n < 10 then 48 + n else 87 + n)"
    using unat_hex_digit by metis
  with \<open>m < 16\<close> \<open>n < 16\<close> show "m = n" by presburger
qed

lemma digit_val_hex: "n < 16 \<Longrightarrow> digit_val (hex_digit n) = n"
  using unat_hex_digit [of n] by (auto simp: digit_val_def word_le_nat_alt split: if_splits)

lemma hexDecode_hexEncode: "hexDecode (hexEncode bs) = (bs, Ok ())"
proof (induction bs)
  case (Cons b bs)
  have lt: "unat b div 16 < 16" "unat b mod 16 < 16" using unsigned_less [of b, where ?'a = nat] by simp_all
  have "of_nat (16 * (unat b div 16) + unat b mod 16) = b"
    by (simp only: mult_div_mod_eq) simp
  with Cons lt show ?case
    by (simp add: hexEncode_def digit_val_hex del: of_nat_add of_nat_mult)
qed (simp add: hexEncode_def)

end
