(* ===== verification/Lexer.thy ===== *)
theory Lexer
  imports Script Strconv
begin

text \<open>
  The script lexer: the character classes of \<open>contract/parser/ctypes.go\<close> and the word scanner of
  \<open>word.go\<close>. A character is an integer, with -1 for the end of input. The reader and its 1024-byte
  buffer are one list of unread bytes; the push-back buffer of two slots is kept as it is.
\<close>

section \<open>Character classes\<close>

definition EOF :: int where "EOF = - 1"
definition RET :: int where "RET = - 2"
definition ERR :: int where "ERR = - 3"

definition IDENTIFIER :: int where "IDENTIFIER = 0"
definition INT_CONSTANT :: int where "INT_CONSTANT = 1"
definition STRING_CONSTANT :: int where "STRING_CONSTANT = 2"

text \<open>The bits are \<open>_DDG\<close> 1, \<open>_ODG\<close> 2, \<open>_XDG\<close> 4, \<open>_PHA\<close> 8, \<open>_SPC\<close> 16, \<open>_AMP\<close> 32, \<open>_NLN\<close> 64,
  \<open>_CMT\<close> 128, \<open>_SQU\<close> 256, \<open>_DQU\<close> 512.\<close>

definition charList :: "nat list" where
  "charList = [
    0, 0, 0, 0, 0, 0, 0, 0, 0, 16, 64, 16, 16, 64, 0, 0,
    0, 0, 0, 0, 0, 0, 0, 0, 0, 0, 0, 0, 0, 0, 0, 0,
    16, 32, 512, 128, 0, 32, 32, 256, 0, 0, 32, 32, 0, 32, 0, 32,
    7, 7, 7, 7, 7, 7, 7, 7, 5, 5, 0, 0, 32, 32, 32, 0,
    0, 12, 12, 12, 12, 12, 12, 8, 8, 8, 8, 8, 8, 8, 8, 8,
    8, 8, 8, 8, 8, 8, 8, 8, 8, 8, 8, 0, 0, 0, 32, 8,
    0, 12, 12, 12, 12, 12, 12, 8, 8, 8, 8, 8, 8, 8, 8, 8,
    8, 8, 8, 8, 8, 8, 8, 8, 8, 8, 8, 0, 32, 0, 0, 0,
    0, 0, 0, 0, 0, 0, 0, 0, 0, 0, 0, 0, 0, 0, 0, 0,
    0, 0, 0, 0, 0, 0, 0, 0, 0, 0, 0, 0, 0, 0, 0, 0,
    0, 0, 0, 0, 0, 0, 0, 0, 0, 0, 0, 0, 0, 0, 0, 0,
    0, 0, 0, 0, 0, 0, 0, 0, 0, 0, 0, 0, 0, 0, 0, 0,
    0, 0, 0, 0, 0, 0, 0, 0, 0, 0, 0, 0, 0, 0, 0, 0,
    0, 0, 0, 0, 0, 0, 0, 0, 0, 0, 0, 0, 0, 0, 0, 0,
    0, 0, 0, 0, 0, 0, 0, 0, 0, 0, 0, 0, 0, 0, 0, 0,
    0, 0, 0, 0, 0, 0, 0, 0, 0, 0, 0, 0, 0, 0, 0, 0]"

definition charClass :: "int \<Rightarrow> nat \<Rightarrow> bool" where
  "charClass c msk \<longleftrightarrow> charList ! nat (c mod 256) AND msk \<noteq> 0"

definition isEof :: "int \<Rightarrow> bool" where "isEof c \<longleftrightarrow> c = EOF"
definition isSpace :: "int \<Rightarrow> bool" where "isSpace c \<longleftrightarrow> charClass c 16"
definition isDigit :: "int \<Rightarrow> bool" where "isDigit c \<longleftrightarrow> charClass c 1"
definition isOdigit :: "int \<Rightarrow> bool" where "isOdigit c \<longleftrightarrow> charClass c 2"
definition isXdigit :: "int \<Rightarrow> bool" where "isXdigit c \<longleftrightarrow> charClass c 4"
definition isAlpha :: "int \<Rightarrow> bool" where "isAlpha c \<longleftrightarrow> charClass c 8"
definition isAlnum :: "int \<Rightarrow> bool" where "isAlnum c \<longleftrightarrow> charClass c (8 OR 1)"
definition isNewline :: "int \<Rightarrow> bool" where "isNewline c \<longleftrightarrow> charClass c 64"
definition isComment :: "int \<Rightarrow> bool" where "isComment c \<longleftrightarrow> charClass c 128"
definition isSingleQuotation :: "int \<Rightarrow> bool" where "isSingleQuotation c \<longleftrightarrow> charClass c 256"
definition isDoubleQuotation :: "int \<Rightarrow> bool" where "isDoubleQuotation c \<longleftrightarrow> charClass c 512"
definition isAmbiguous :: "int \<Rightarrow> bool" where "isAmbiguous c \<longleftrightarrow> charClass c 32"

section \<open>The scanner's state\<close>

record scriptWord =
  w_typ :: int
  w_name :: gostring
  w_value :: argvalue

text \<open>\<open>l_cnt\<close>, \<open>l_b0\<close>, \<open>l_b1\<close> are the push-back buffer, \<open>l_input\<close> the bytes not read yet.\<close>

record scriptLex =
  l_cnt :: nat
  l_b0 :: int
  l_b1 :: int
  l_input :: bytes
  l_curr :: scriptWord

definition rb_putc :: "int \<Rightarrow> scriptLex \<Rightarrow> scriptLex" where
  "rb_putc c wt = wt\<lparr> l_b0 := c \<rparr>"

text \<open>\<open>None\<close> stands for the failure value \<open>RET\<close> of the push-back buffer, which no character equals.\<close>

definition rb_getc :: "scriptLex \<Rightarrow> int option \<times> scriptLex" where
  "rb_getc wt =
     (if 0 < l_cnt wt
      then (Some (if l_cnt wt = 1 then l_b0 wt else l_b1 wt), wt\<lparr> l_cnt := l_cnt wt - 1 \<rparr>)
      else (None, wt))"

definition ungetc :: "scriptLex \<Rightarrow> scriptLex" where
  "ungetc wt = (if l_cnt wt < 2 then wt\<lparr> l_cnt := l_cnt wt + 1 \<rparr> else wt)"

definition getc :: "scriptLex \<Rightarrow> int \<times> scriptLex" where
  "getc wt =
     (case rb_getc wt of
        (Some c, wt) \<Rightarrow> (c, wt)
      | (None, wt) \<Rightarrow>
          (case l_input wt of
             [] \<Rightarrow> (EOF, rb_putc EOF wt)
           | b # bs \<Rightarrow> (uint b, rb_putc (uint b) (wt\<lparr> l_input := bs \<rparr>))))"

text \<open>What the scanner still has before it: pushed-back characters and unread bytes.\<close>

definition lex_size :: "scriptLex \<Rightarrow> nat" where
  "lex_size wt = length (l_input wt)
     + (if 1 \<le> l_cnt wt \<and> l_b0 wt \<noteq> EOF then 1 else 0)
     + (if 2 \<le> l_cnt wt \<and> l_b1 wt \<noteq> EOF then 1 else 0) + (l_cnt wt - 2)"

lemma byte_not_eof [simp]: "uint (b :: byte) \<noteq> EOF"
  using uint_ge_0 [of b] unfolding EOF_def by linarith

lemma getc_pushed:
  "0 < l_cnt wt \<Longrightarrow>
    getc wt = (if l_cnt wt = 1 then l_b0 wt else l_b1 wt, wt\<lparr> l_cnt := l_cnt wt - 1 \<rparr>)"
  by (simp add: getc_def rb_getc_def)

lemma getc_end: "l_cnt wt = 0 \<Longrightarrow> l_input wt = [] \<Longrightarrow> getc wt = (EOF, wt\<lparr> l_b0 := EOF \<rparr>)"
  by (simp add: getc_def rb_getc_def rb_putc_def)

lemma getc_read:
  "l_cnt wt = 0 \<Longrightarrow> l_input wt = b # bs \<Longrightarrow> getc wt = (uint b, wt\<lparr> l_input := bs, l_b0 := uint b \<rparr>)"
  by (simp add: getc_def rb_getc_def rb_putc_def)

lemma getc_size_lemma:
  assumes "getc wt = (c, wt')"
  shows "(c \<noteq> EOF \<longrightarrow> lex_size wt' < lex_size wt) \<and> lex_size wt' \<le> lex_size wt \<and>
    lex_size (ungetc wt') \<le> lex_size wt"
proof (cases "l_cnt wt")
  case 0
  show ?thesis
  proof (cases "l_input wt")
    case Nil
    with 0 assms have "wt' = wt\<lparr> l_b0 := EOF \<rparr>" "c = EOF" by (simp_all add: getc_end)
    with 0 show ?thesis by (simp add: lex_size_def ungetc_def)
  next
    case (Cons b bs)
    with 0 assms have "wt' = wt\<lparr> l_input := bs, l_b0 := uint b \<rparr>" "c = uint b"
      by (auto simp: getc_read)
    with 0 Cons show ?thesis by (simp add: lex_size_def ungetc_def)
  qed
next
  case (Suc n)
  then have wt': "wt' = wt\<lparr> l_cnt := n \<rparr>" and c: "c = (if n = 0 then l_b0 wt else l_b1 wt)"
    using assms by (simp_all add: getc_pushed)
  consider "n = 0" | "n = 1" | "2 \<le> n" by linarith
  then show ?thesis
    by cases (use Suc wt' c in \<open>auto simp: lex_size_def ungetc_def\<close>)
qed

lemma getc_size:
  assumes "getc wt = (c, wt')"
  shows "c \<noteq> EOF \<Longrightarrow> lex_size wt' < lex_size wt" "lex_size wt' \<le> lex_size wt"
    "lex_size (ungetc wt') \<le> lex_size wt"
  using getc_size_lemma [OF assms] by simp_all

section \<open>Words\<close>

function skipNewline :: "scriptLex \<Rightarrow> scriptLex" where
  "skipNewline wt =
     (case getc wt of (c, wt') \<Rightarrow>
      if isEof c \<or> \<not> isNewline c then ungetc wt' else skipNewline wt')"
  by pat_completeness auto
termination
  by (relation "measure lex_size") (auto simp: isEof_def getc_size(1) [OF sym])

declare skipNewline.simps [simp del]

function getWord :: "bytes \<Rightarrow> scriptLex \<Rightarrow> int \<times> scriptLex" where
  "getWord word wt =
     (case getc wt of (c, wt') \<Rightarrow>
      if isEof c \<or> \<not> isAlnum c
      then (IDENTIFIER, (ungetc wt')\<lparr> l_curr := (l_curr wt')\<lparr> w_typ := IDENTIFIER, w_name := word \<rparr> \<rparr>)
      else getWord (word @ [of_int c]) wt')"
  by pat_completeness auto
termination
  by (relation "measure (\<lambda>(w, wt). lex_size wt)") (auto simp: isEof_def getc_size(1) [OF sym])

declare getWord.simps [simp del]

text \<open>
  \<open>strconv.Unquote\<close> of a text between back quotes: the text itself without carriage returns, or an
  error when it contains a back quote.
\<close>

definition Unquote_raw :: "bytes \<Rightarrow> bytes option" where
  "Unquote_raw v = (if 96 \<in> set v then None else Some (filter (\<lambda>b. b \<noteq> 13) v))"

text \<open>\<open>s\<close> collects the literal from its opening quote \<open>a\<close> on; on success the quotes are cut off.\<close>

function getLiteral :: "int \<Rightarrow> int \<Rightarrow> bytes \<Rightarrow> scriptLex \<Rightarrow> int \<times> scriptLex" where
  "getLiteral a ty s wt =
     (case getc wt of (c, wt') \<Rightarrow>
      if isEof c \<or> isNewline c then (ERR, wt')
      else if a = c
      then (case Unquote_raw (s @ [of_int c]) of
          Some v \<Rightarrow> (ty, wt'\<lparr> l_curr := (l_curr wt')\<lparr> w_typ := ty, w_value := VString (butlast (tl v)) \<rparr> \<rparr>)
        | None \<Rightarrow> (ERR, wt'))
      else getLiteral a ty (s @ [of_int c]) wt')"
  by pat_completeness auto
termination
  by (relation "measure (\<lambda>(a, ty, s, wt). lex_size wt)") (auto simp: isEof_def getc_size(1) [OF sym])

declare getLiteral.simps [simp del]

text \<open>
  \<open>strconv.ParseUint(word, 0, 64)\<close> on a word of hexadecimal digits that, when it begins with 0, goes
  on with a decimal digit: octal after a leading 0, decimal otherwise. \<open>None\<close> is a syntax or range
  error.
\<close>

definition ParseUint :: "bytes \<Rightarrow> nat option" where
  "ParseUint word =
     (case word of
        [] \<Rightarrow> None
      | b # bs \<Rightarrow> if b = 48 then parse_digits 8 bs 0 else parse_digits 10 word 0)"

function getDigit_loop :: "bytes \<Rightarrow> scriptLex \<Rightarrow> bytes \<times> scriptLex" where
  "getDigit_loop word wt =
     (case getc wt of (c, wt') \<Rightarrow>
      if isEof c \<or> \<not> isXdigit c then (word, wt') else getDigit_loop (word @ [of_int c]) wt')"
  by pat_completeness auto
termination
  by (relation "measure (\<lambda>(w, wt). lex_size wt)") (auto simp: isEof_def getc_size(1) [OF sym])

declare getDigit_loop.simps [simp del]

text \<open>The label \<open>out\<close>: push back the character that ended the number and convert the word.\<close>

definition getDigit_out :: "bytes \<Rightarrow> scriptLex \<Rightarrow> int \<times> scriptLex" where
  "getDigit_out word wt =
     (let wt = (ungetc wt)\<lparr> l_curr := (l_curr wt)\<lparr> w_typ := INT_CONSTANT \<rparr> \<rparr> in
      case ParseUint word of
        None \<Rightarrow> (ERR, wt)
      | Some v \<Rightarrow> (INT_CONSTANT, wt\<lparr> l_curr := (l_curr wt)\<lparr> w_value := VUint (of_nat v) \<rparr> \<rparr>))"

definition getDigit :: "int \<Rightarrow> scriptLex \<Rightarrow> int \<times> scriptLex" where
  "getDigit a wt =
     (let word = [of_int a] in
      if a = 48 then
        (case getc wt of (c, wt') \<Rightarrow>
         if isEof c then getDigit_out word wt'
         else if c \<noteq> 120 \<and> c \<noteq> 88 \<and> \<not> isDigit c then getDigit_out word wt'
         else (case getDigit_loop word (ungetc wt') of (word, wt) \<Rightarrow> getDigit_out word wt))
      else (case getDigit_loop word wt of (word, wt) \<Rightarrow> getDigit_out word wt))"

text \<open>\<open>charTypeList\<close> holds \<open>ERR\<close> at every one of its 256 places.\<close>

definition charTypeList :: "int list" where
  "charTypeList = replicate 256 ERR"

lemma lex_size_curr [simp]: "lex_size (wt\<lparr> l_curr := w \<rparr>) = lex_size wt"
  by (simp add: lex_size_def)

lemma skipNewline_size: "lex_size (skipNewline wt) \<le> lex_size wt"
proof (induction wt rule: skipNewline.induct)
  case (1 wt)
  obtain c wt' where g: "getc wt = (c, wt')" by (cases "getc wt")
  show ?case
    using 1 [OF g [symmetric]] getc_size [OF g]
    by (subst skipNewline.simps) (auto simp: g)
qed

function symbol :: "scriptLex \<Rightarrow> int \<times> scriptLex" where
  "symbol wt =
     (case getc wt of (c, wt') \<Rightarrow>
      if isEof c then (c, wt')
      else if isSpace c then symbol wt'
      else if isNewline c then symbol (skipNewline wt')
      else if isAlpha c then getWord [of_int c] wt'
      else if isDigit c then getDigit c wt'
      else if isSingleQuotation c \<or> isDoubleQuotation c then getLiteral c STRING_CONSTANT [of_int c] wt'
      else let ty = charTypeList ! nat (c mod 256) in (ty, wt'\<lparr> l_curr := (l_curr wt')\<lparr> w_typ := ty \<rparr> \<rparr>))"
  by pat_completeness auto
termination
proof (relation "measure lex_size", goal_cases)
  case (2 wt c wt')
  then show ?case using getc_size(1) [of wt c wt'] by (simp add: isEof_def)
next
  case (3 wt c wt')
  then show ?case
    using getc_size(1) [of wt c wt'] skipNewline_size [of wt'] by (simp add: isEof_def)
qed simp

declare symbol.simps [simp del]

definition NewLex :: "bytes \<Rightarrow> scriptLex" where
  "NewLex fd = \<lparr> l_cnt = 0, l_b0 = 0, l_b1 = 0, l_input = fd,
     l_curr = \<lparr> w_typ = 0, w_name = [], w_value = VNil \<rparr> \<rparr>"

section \<open>Every word consumes input\<close>

lemma getWord_size: "getWord w wt = (o1, wt') \<Longrightarrow> lex_size wt' \<le> lex_size wt"
proof (induction w wt rule: getWord.induct)
  case (1 w wt)
  obtain c wt1 where g: "getc wt = (c, wt1)" by (cases "getc wt")
  show ?case
    using 1(1) [OF g [symmetric]] 1(2) getc_size [OF g]
    by (auto simp: g getWord.simps [of w wt] split: if_splits)
qed

lemma getLiteral_size: "getLiteral a ty s wt = (o1, wt') \<Longrightarrow> lex_size wt' \<le> lex_size wt"
proof (induction a ty s wt rule: getLiteral.induct)
  case (1 a ty s wt)
  obtain c wt1 where g: "getc wt = (c, wt1)" by (cases "getc wt")
  show ?case
    using 1(1) [OF g [symmetric]] 1(2) getc_size [OF g]
    by (auto simp: g getLiteral.simps [of a ty s wt] split: if_splits option.splits)
qed

lemma getDigit_loop_size:
  "getDigit_loop w wt = (w', wt') \<Longrightarrow> lex_size (ungetc wt') \<le> lex_size wt"
proof (induction w wt rule: getDigit_loop.induct)
  case (1 w wt)
  obtain c wt1 where g: "getc wt = (c, wt1)" by (cases "getc wt")
  show ?case
    using 1(1) [OF g [symmetric]] 1(2) getc_size [OF g]
    by (auto simp: g getDigit_loop.simps [of w wt] split: if_splits)
qed

lemma getDigit_out_size:
  "getDigit_out w wt = (o1, wt') \<Longrightarrow> lex_size wt' = lex_size (ungetc wt)"
  by (auto simp: getDigit_out_def Let_def split: option.splits)

lemma getDigit_size: "getDigit a wt = (o1, wt') \<Longrightarrow> lex_size wt' \<le> lex_size wt"
proof -
  assume d: "getDigit a wt = (o1, wt')"
  obtain c wt1 where g: "getc wt = (c, wt1)" by (cases "getc wt")
  obtain w2 wt2 where l2: "getDigit_loop [of_int a] (ungetc wt1) = (w2, wt2)"
    by (cases "getDigit_loop [of_int a] (ungetc wt1)")
  obtain w3 wt3 where l3: "getDigit_loop [of_int a] wt = (w3, wt3)"
    by (cases "getDigit_loop [of_int a] wt")
  show ?thesis
    using d getc_size(3) [OF g] getDigit_loop_size [OF l2] getDigit_loop_size [OF l3]
    unfolding getDigit_def Let_def g prod.case l2 l3
    by (auto dest!: getDigit_out_size split: if_splits)
qed

lemma symbol_size:
  "symbol wt = (o1, wt') \<Longrightarrow>
    lex_size wt' \<le> lex_size wt \<and> (o1 \<noteq> EOF \<longrightarrow> lex_size wt' < lex_size wt)"
proof (induction wt rule: symbol.induct)
  case (1 wt)
  obtain c wt1 where g: "getc wt = (c, wt1)" by (cases "getc wt")
  show ?case
    using 1(1) [OF g [symmetric]] 1(2) [OF g [symmetric]] 1(3) getc_size [OF g]
      skipNewline_size [of wt1]
    by (auto simp: g symbol.simps [of wt] isEof_def Let_def
        dest!: getWord_size getLiteral_size getDigit_size split: if_splits)
qed

end
