(* ===== verification/Parser.thy ===== *)
theory Parser
  imports Lexer
begin

text \<open>
  The recursive-descent parser \<open>contract/parser/parser.go\<close> and the conversion of its call nodes to
  scripts in \<open>operate.go\<close>. The parser's state is the scanner with a push-back buffer of words. Every
  function returns: each parsed word consumes input or a pushed-back word (\<open>parser_size\<close>).
\<close>

section \<open>State and nodes\<close>

datatype scriptNode =
  Node (n_op: nat) (n_left: "scriptNode option") (n_right: "scriptNode option") (n_value: argvalue)

definition O_INT :: nat where "O_INT = 1"
definition O_STRING :: nat where "O_STRING = 2"
definition O_CALL :: nat where "O_CALL = 1"
definition O_NAME :: nat where "O_NAME = 2"
definition O_CONST :: nat where "O_CONST = 3"
definition O_ELIST :: nat where "O_ELIST = 4"

definition PrimaryExpression :: nat where "PrimaryExpression = 4"

definition firstList :: "nat list" where
  "firstList = [1, 4 OR 2, 4 OR 2]"

record scriptParser =
  p_wt :: scriptLex
  p_cnt :: nat
  p_w0 :: "scriptWord option"
  p_w1 :: "scriptWord option"

definition rb_getw :: "scriptParser \<Rightarrow> scriptWord option \<times> scriptParser" where
  "rb_getw wp =
     (if 0 < p_cnt wp
      then (if p_cnt wp = 1 then p_w0 wp else p_w1 wp, wp\<lparr> p_cnt := p_cnt wp - 1 \<rparr>)
      else (None, wp))"

definition ungetw :: "scriptParser \<Rightarrow> scriptParser" where
  "ungetw wp = (if p_cnt wp < 2 then wp\<lparr> p_cnt := p_cnt wp + 1 \<rparr> else wp)"

text \<open>The end of the input and a scanning error both give no word.\<close>

definition getw :: "scriptParser \<Rightarrow> scriptWord option \<times> scriptParser" where
  "getw wp =
     (case rb_getw wp of
        (Some w, wp) \<Rightarrow> (Some w, wp)
      | (None, wp) \<Rightarrow>
          (case symbol (p_wt wp) of (ob, wt) \<Rightarrow>
           if ob = EOF \<or> ob = ERR then (None, wp\<lparr> p_wt := wt \<rparr>)
           else (Some (l_curr wt), wp\<lparr> p_wt := wt, p_w0 := Some (l_curr wt) \<rparr>)))"

definition peek :: "scriptParser \<Rightarrow> int \<times> scriptParser" where
  "peek wp =
     (case getw wp of
        (Some w, wp) \<Rightarrow> (w_typ w, ungetw wp)
      | (None, wp) \<Rightarrow> (EOF, wp))"

definition detect1 :: "nat \<Rightarrow> int \<Rightarrow> bool" where
  "detect1 grm ty \<longleftrightarrow> (if ty = EOF then False else firstList ! nat ty AND grm \<noteq> 0)"

definition parser_size :: "scriptParser \<Rightarrow> nat" where
  "parser_size wp = lex_size (p_wt wp) + p_cnt wp"

lemma getw_size:
  assumes "getw wp = (r, wp')"
  shows "r \<noteq> None \<Longrightarrow> parser_size wp' < parser_size wp" "parser_size wp' \<le> parser_size wp"
proof -
  obtain ob wt where s: "symbol (p_wt wp) = (ob, wt)" by (cases "symbol (p_wt wp)")
  note size = symbol_size [OF s]
  show "r \<noteq> None \<Longrightarrow> parser_size wp' < parser_size wp" "parser_size wp' \<le> parser_size wp"
    using assms size
    by (auto simp: getw_def rb_getw_def parser_size_def s split: if_splits option.splits)
qed

lemma peek_size:
  assumes "peek wp = (ty, wp')"
  shows "parser_size wp' \<le> parser_size wp"
proof -
  obtain r wp1 where g: "getw wp = (r, wp1)" by (cases "getw wp")
  show ?thesis
    using assms getw_size [OF g]
    by (cases r) (auto simp: peek_def g ungetw_def parser_size_def split: if_splits)
qed

section \<open>The grammar\<close>

text \<open>\<open>wp.getw().value\<close>: a nil word would be dereferenced.\<close>

definition parser2 :: "(scriptParser, scriptNode) act" where
  "parser2 wp =
     (case peek wp of (ty, wp) \<Rightarrow>
      if ty = INT_CONSTANT then
        (case getw wp of (Some w, wp) \<Rightarrow> (wp, Ok (Node (O_CONST OR push_bit 8 O_INT) None None (w_value w)))
         | (None, wp) \<Rightarrow> (wp, Panic))
      else
        (case peek wp of (ty, wp) \<Rightarrow>
         if ty = STRING_CONSTANT then
           (case getw wp of (Some w, wp) \<Rightarrow> (wp, Ok (Node (O_CONST OR push_bit 8 O_STRING) None None (w_value w)))
            | (None, wp) \<Rightarrow> (wp, Panic))
         else (wp, Err (ErrText ''Expect PrimaryExpression''))))"

lemma parser2_size:
  assumes "parser2 wp = (wp', Ok n)"
  shows "parser_size wp' < parser_size wp"
proof -
  obtain t1 w1 where p1: "peek wp = (t1, w1)" by (cases "peek wp")
  obtain t2 w2 where p2: "peek w1 = (t2, w2)" by (cases "peek w1")
  obtain r1 x1 where g1: "getw w1 = (r1, x1)" by (cases "getw w1")
  obtain r2 x2 where g2: "getw w2 = (r2, x2)" by (cases "getw w2")
  show ?thesis
    using assms peek_size [OF p1] peek_size [OF p2] getw_size [OF g1] getw_size [OF g2]
    by (auto simp: parser2_def p1 p2 g1 g2 split: if_splits option.splits)
qed

text \<open>
  \<open>ArgumentExpressionList\<close>. At what looks like the end of the input one more word is read and
  dropped (\<open>skip EOF\<close>).
\<close>

function parser1 :: "(scriptParser, scriptNode) act" where
  "parser1 wp =
     (case parser2 wp of
        (wp1, Err e) \<Rightarrow> (wp1, Err e)
      | (wp1, Panic) \<Rightarrow> (wp1, Panic)
      | (wp1, Ok n1) \<Rightarrow>
          (case peek wp1 of (t2, wp2) \<Rightarrow>
           if t2 = EOF then (snd (getw wp2), Ok n1)
           else (case peek wp2 of (t3, wp3) \<Rightarrow>
             if \<not> detect1 PrimaryExpression t3 then (wp3, Err (ErrText ''Expect PrimaryExpression''))
             else (case parser1 wp3 of
                 (wp4, Ok n2) \<Rightarrow> (wp4, Ok (Node O_ELIST (Some n1) (Some n2) VNil))
               | (wp4, Err e) \<Rightarrow> (wp4, Err e)
               | (wp4, Panic) \<Rightarrow> (wp4, Panic)))))"
  by pat_completeness auto
termination
proof (relation "measure parser_size", goal_cases)
  case (2 wp wp1 o1 n1 t2 wp2 t3 wp3)
  then show ?case
    using parser2_size [of wp wp1 n1] peek_size [of wp1 t2 wp2] peek_size [of wp2 t3 wp3] by simp
qed simp

declare parser1.simps [simp del]

lemma parser1_size: "parser1 wp = (wp', Ok n) \<Longrightarrow> parser_size wp' < parser_size wp"
proof (induction wp arbitrary: wp' n rule: parser1.induct)
  case (1 wp)
  obtain wp1 r1 where p2: "parser2 wp = (wp1, r1)" by (cases "parser2 wp")
  obtain n1 where r1: "r1 = Ok n1"
    using "1.prems" by (cases r1) (simp_all add: parser1.simps [of wp] p2)
  obtain t2 wp2 where k2: "peek wp1 = (t2, wp2)" by (cases "peek wp1")
  obtain t3 wp3 where k3: "peek wp2 = (t3, wp3)" by (cases "peek wp2")
  obtain r g where g: "getw wp2 = (r, g)" by (cases "getw wp2")
  note sizes = parser2_size [OF p2 [unfolded r1]] peek_size [OF k2] peek_size [OF k3] getw_size(2) [OF g]
  show ?case
  proof (cases "t2 = EOF \<or> \<not> detect1 PrimaryExpression t3")
    case True
    then show ?thesis
      using "1.prems" sizes by (auto simp: parser1.simps [of wp] p2 r1 k2 k3 g split: if_splits)
  next
    case False
    obtain wp4 r4 where p1: "parser1 wp3 = (wp4, r4)" by (cases "parser1 wp3")
    have "r4 = Ok m \<Longrightarrow> parser_size wp4 < parser_size wp3" for m
      using "1.IH" [OF p2 [unfolded r1, symmetric] refl k2 [symmetric] _ k3 [symmetric], of wp4 m] False p1
      by simp
    then show ?thesis
      using "1.prems" sizes False
      by (cases r4) (force simp: parser1.simps [of wp] p2 r1 k2 k3 p1)+
  qed
qed

text \<open>\<open>FunctionCALL\<close>: a name, then the end or the arguments.\<close>

definition parser0 :: "(scriptParser, scriptNode) act" where
  "parser0 wp =
     (case peek wp of (t1, wp1) \<Rightarrow>
      if t1 \<noteq> IDENTIFIER then (wp1, Err (ErrText ''Expect Function Name''))
      else (case getw wp1 of
          (None, wp2) \<Rightarrow> (wp2, Panic)
        | (Some w, wp2) \<Rightarrow>
            let n1 = Node O_NAME None None (VString (w_name w)) in
            (case peek wp2 of (t3, wp3) \<Rightarrow>
             if t3 = EOF then (snd (getw wp3), Ok (Node O_CALL (Some n1) None VNil))
             else (case parser1 wp3 of
                 (wp4, Ok n2) \<Rightarrow> (wp4, Ok (Node O_CALL (Some n1) (Some n2) VNil))
               | (wp4, Err e) \<Rightarrow> (wp4, Err e)
               | (wp4, Panic) \<Rightarrow> (wp4, Panic)))))"

lemma parser0_size:
  assumes "parser0 wp = (wp', Ok n)"
  shows "parser_size wp' < parser_size wp"
proof -
  obtain t1 wp1 where k1: "peek wp = (t1, wp1)" by (cases "peek wp")
  obtain r wp2 where g: "getw wp1 = (r, wp2)" by (cases "getw wp1")
  obtain t3 wp3 where k3: "peek wp2 = (t3, wp3)" by (cases "peek wp2")
  obtain r' g' where g': "getw wp3 = (r', g')" by (cases "getw wp3")
  obtain wp4 r4 where p1: "parser1 wp3 = (wp4, r4)" by (cases "parser1 wp3")
  note sizes = peek_size [OF k1] getw_size [OF g] peek_size [OF k3] getw_size(2) [OF g']
  show ?thesis
    using assms sizes parser1_size [of wp3 wp4] p1
    by (cases r; cases r4) (fastforce simp: parser0_def k1 g k3 g' p1 Let_def split: if_splits)+
qed

text \<open>The loop over calls; \<open>ns\<close> collects the nodes.\<close>

function Parser_loop :: "scriptNode list \<Rightarrow> scriptParser \<Rightarrow> scriptNode list outcome" where
  "Parser_loop ns wp =
     (case peek wp of (ty, wp1) \<Rightarrow>
      if ty = EOF then Ok ns
      else if ty \<noteq> IDENTIFIER then Err (ErrText ''Expect Function Call'')
      else (case parser0 wp1 of
          (wp2, Ok node) \<Rightarrow> Parser_loop (ns @ [node]) wp2
        | (wp2, Err e) \<Rightarrow> Err e
        | (wp2, Panic) \<Rightarrow> Panic))"
  by pat_completeness auto
termination
proof (relation "measure (\<lambda>(ns, wp). parser_size wp)", goal_cases)
  case (2 ns wp ty wp1 wp2 r node)
  then show ?case
    using parser0_size [of wp1 wp2 node] peek_size [of wp ty wp1] by simp
qed simp

declare Parser_loop.simps [simp del]

definition NewParser :: "bytes \<Rightarrow> scriptParser" where
  "NewParser fd = \<lparr> p_wt = NewLex fd, p_cnt = 0, p_w0 = None, p_w1 = None \<rparr>"

section \<open>Scripts\<close>

definition typList :: "nat list" where
  "typList = [O_STRING, O_INT, O_STRING, O_STRING, O_INT]"

definition argumentValue :: "scriptNode \<Rightarrow> scriptNode option" where
  "argumentValue np = (if n_op np AND 255 = O_ELIST then n_left np else Some np)"

definition nextArgument :: "scriptNode \<Rightarrow> scriptNode option" where
  "nextArgument np = (if n_op np AND 255 = O_ELIST then n_right np else None)"

definition takeArgument :: "u32 \<Rightarrow> scriptNode \<Rightarrow> ScriptArgument list \<Rightarrow> ScriptArgument list outcome" where
  "takeArgument ty np args =
     (case argumentValue np of
        None \<Rightarrow> Panic
      | Some arg \<Rightarrow>
          if drop_bit 8 (n_op arg AND 65280) \<noteq> typList ! unat ty then Err (ErrText ''type mismatch'')
          else Ok (args @ [\<lparr> arg_typ = ty, arg_value = n_value arg \<rparr>]))"

text \<open>
  The body the seven \<open>operate\<close> functions share: take the arguments of the given types in turn, nil
  when one is missing or of the wrong type.
\<close>

fun take_arguments :: "u32 list \<Rightarrow> scriptNode option \<Rightarrow> ScriptArgument list \<Rightarrow> ScriptArgument list option outcome" where
  "take_arguments [] np args = Ok (Some args)"
| "take_arguments (ty # tys) None args = Ok None"
| "take_arguments (ty # tys) (Some np) args =
     (case takeArgument ty np args of
        Ok args \<Rightarrow> take_arguments tys (nextArgument np) args
      | Err e \<Rightarrow> Ok None
      | Panic \<Rightarrow> Panic)"

definition operate :: "gostring \<Rightarrow> u32 list \<Rightarrow> scriptNode option \<Rightarrow> Script option outcome" where
  "operate name tys np =
     obind (take_arguments tys np []) (\<lambda>r. case r of
       None \<Rightarrow> Ok None
     | Some args \<Rightarrow> Ok (Some \<lparr> sc_name = name, sc_args = args \<rparr>))"

definition operate0 :: "scriptNode option \<Rightarrow> Script option outcome" where
  "operate0 = operate (lit ''new'') [TOKENID, AMOUNT]"

definition operate1 :: "scriptNode option \<Rightarrow> Script option outcome" where
  "operate1 = operate (lit ''mint'') [TOKENID, AMOUNT]"

definition operate2 :: "scriptNode option \<Rightarrow> Script option outcome" where
  "operate2 = operate (lit ''transfer'') [TOKENID, AMOUNT, ADDRESS]"

definition operate3 :: "scriptNode option \<Rightarrow> Script option outcome" where
  "operate3 = operate (lit ''freeze'') [TOKENID, ADDRESS]"

definition operate4 :: "scriptNode option \<Rightarrow> Script option outcome" where
  "operate4 = operate (lit ''unfreeze'') [TOKENID, ADDRESS]"

definition operate5 :: "scriptNode option \<Rightarrow> Script option outcome" where
  "operate5 = operate (lit ''rate'') [TOKENID, PERCENTAGE]"

definition operate6 :: "scriptNode option \<Rightarrow> Script option outcome" where
  "operate6 = operate (lit ''post'') [TOKENID, ORDER]"

definition operateRegistry :: "gostring \<Rightarrow> (scriptNode option \<Rightarrow> Script option outcome) option" where
  "operateRegistry name =
     (if name = lit ''new'' then Some operate0
      else if name = lit ''mint'' then Some operate1
      else if name = lit ''transfer'' then Some operate2
      else if name = lit ''freeze'' then Some operate3
      else if name = lit ''unfreeze'' then Some operate4
      else None)"

text \<open>
  The entry point. The loop looks at \<open>wp.ns[0]\<close> in every round. A script that does not parse and one
  that names an unknown function both give nil, the empty list here.
\<close>

fun convert_nodes :: "scriptNode list \<Rightarrow> nat \<Rightarrow> Script option list \<Rightarrow> Script option list outcome" where
  "convert_nodes ns 0 xs = Ok xs"
| "convert_nodes ns (Suc j) xs =
     (case n_left (ns ! 0) of
        None \<Rightarrow> Panic
      | Some l \<Rightarrow>
          (case operateRegistry (as_string (n_value l)) of
             None \<Rightarrow> Ok []
           | Some fp \<Rightarrow> obind (fp (n_right (ns ! 0))) (\<lambda>s. convert_nodes ns j (xs @ [s]))))"

definition Parser :: "bytes \<Rightarrow> Script option list outcome" where
  "Parser data =
     (case Parser_loop [] (NewParser data) of
        Ok ns \<Rightarrow> convert_nodes ns (length ns) []
      | Err e \<Rightarrow> Ok []
      | Panic \<Rightarrow> Panic)"

end
