(* ===== verification/ParserSpec.thy ===== *)
theory ParserSpec
  imports Parser
begin

text \<open>
  What the parser makes of the scripts the clients print: the scanner on names, numbers and quoted
  texts, the grammar on calls with one, two or three arguments, and the round trip of the five
  statements.
\<close>

section \<open>The character table\<close>

text \<open>The table by ranges of characters.\<close>

definition char_kind :: "int \<Rightarrow> nat" where
  "char_kind n =
     (if n = 10 \<or> n = 13 then 64
      else if n = 9 \<or> n = 11 \<or> n = 12 \<or> n = 32 then 16
      else if n = 34 then 512 else if n = 35 then 128 else if n = 39 then 256
      else if 48 \<le> n \<and> n \<le> 55 then 7 else if n = 56 \<or> n = 57 then 5
      else if 65 \<le> n \<and> n \<le> 70 \<or> 97 \<le> n \<and> n \<le> 102 then 12
      else if 71 \<le> n \<and> n \<le> 90 \<or> 103 \<le> n \<and> n \<le> 122 \<or> n = 95 then 8
      else if n \<in> {33, 37, 38, 42, 43, 45, 47, 60, 61, 62, 94, 124} then 32 else 0)"

lemma char_table: "charList = map char_kind [0..255]"
  by code_simp

lemma char_kind_and:
  "char_kind n AND k \<noteq> 0 \<longleftrightarrow>
     (if n = 10 \<or> n = 13 then 64 AND k \<noteq> 0
      else if n = 9 \<or> n = 11 \<or> n = 12 \<or> n = 32 then 16 AND k \<noteq> 0
      else if n = 34 then 512 AND k \<noteq> 0 else if n = 35 then 128 AND k \<noteq> 0 else if n = 39 then 256 AND k \<noteq> 0
      else if 48 \<le> n \<and> n \<le> 55 then 7 AND k \<noteq> 0 else if n = 56 \<or> n = 57 then 5 AND k \<noteq> 0
      else if 65 \<le> n \<and> n \<le> 70 \<or> 97 \<le> n \<and> n \<le> 102 then 12 AND k \<noteq> 0
      else if 71 \<le> n \<and> n \<le> 90 \<or> 103 \<le> n \<and> n \<le> 122 \<or> n = 95 then 8 AND k \<noteq> 0
      else if n \<in> {33, 37, 38, 42, 43, 45, 47, 60, 61, 62, 94, 124} then 32 AND k \<noteq> 0 else False)"
  unfolding char_kind_def
  by (simp only: if_distrib [of "\<lambda>x. x AND k \<noteq> 0"] and_zero_eq zero_and_eq simp_thms cong: if_cong)

lemma class_of_int:
  "char_kind n AND 64 \<noteq> 0 \<longleftrightarrow> n = 10 \<or> n = 13"
  "char_kind n AND 1 \<noteq> 0 \<longleftrightarrow> 48 \<le> n \<and> n \<le> 57"
  "char_kind n AND 16 \<noteq> 0 \<longleftrightarrow> n = 9 \<or> n = 11 \<or> n = 12 \<or> n = 32"
  "char_kind n AND 4 \<noteq> 0 \<longleftrightarrow> 48 \<le> n \<and> n \<le> 57 \<or> 65 \<le> n \<and> n \<le> 70 \<or> 97 \<le> n \<and> n \<le> 102"
  "char_kind n AND 8 \<noteq> 0 \<longleftrightarrow> 65 \<le> n \<and> n \<le> 90 \<or> 97 \<le> n \<and> n \<le> 122 \<or> n = 95"
  "char_kind n AND (8 OR 1) \<noteq> 0 \<longleftrightarrow>
    48 \<le> n \<and> n \<le> 57 \<or> 65 \<le> n \<and> n \<le> 90 \<or> 97 \<le> n \<and> n \<le> 122 \<or> n = 95"
  "char_kind n AND 512 \<noteq> 0 \<longleftrightarrow> n = 34"
  unfolding char_kind_and by (simp; presburger)+

lemma class_of_byte:
  "isNewline (uint (b :: byte)) \<longleftrightarrow> b = 10 \<or> b = 13"
  "isDigit (uint b) \<longleftrightarrow> 48 \<le> b \<and> b \<le> 57"
  "isSpace (uint b) \<longleftrightarrow> b = 9 \<or> b = 11 \<or> b = 12 \<or> b = 32"
  "isXdigit (uint b) \<longleftrightarrow> 48 \<le> b \<and> b \<le> 57 \<or> 65 \<le> b \<and> b \<le> 70 \<or> 97 \<le> b \<and> b \<le> 102"
  "isAlpha (uint b) \<longleftrightarrow> 65 \<le> b \<and> b \<le> 90 \<or> 97 \<le> b \<and> b \<le> 122 \<or> b = 95"
  "isAlnum (uint b) \<longleftrightarrow>
    48 \<le> b \<and> b \<le> 57 \<or> 65 \<le> b \<and> b \<le> 90 \<or> 97 \<le> b \<and> b \<le> 122 \<or> b = 95"
  "isDoubleQuotation (uint b) \<longleftrightarrow> b = 34"
proof -
  have b: "uint b < 256" using uint_lt2p [of b] by simp
  then have "charList ! nat (uint b mod 256) = char_kind (uint b)"
  proof -
    have "unat b < length [0..255]" using unsigned_less [of b] by simp
    then show ?thesis using b by (simp add: char_table nth_upto del: upto_rec_numeral)
  qed
  then have row: "charClass (uint b) k \<longleftrightarrow> char_kind (uint b) AND k \<noteq> 0" for k
    by (simp add: charClass_def)
  note defs = isNewline_def isDigit_def isSpace_def isXdigit_def isAlpha_def isAlnum_def
    isDoubleQuotation_def row
  show "isNewline (uint b) \<longleftrightarrow> b = 10 \<or> b = 13"
    "isDigit (uint b) \<longleftrightarrow> 48 \<le> b \<and> b \<le> 57"
    "isSpace (uint b) \<longleftrightarrow> b = 9 \<or> b = 11 \<or> b = 12 \<or> b = 32"
    "isXdigit (uint b) \<longleftrightarrow> 48 \<le> b \<and> b \<le> 57 \<or> 65 \<le> b \<and> b \<le> 70 \<or> 97 \<le> b \<and> b \<le> 102"
    "isAlpha (uint b) \<longleftrightarrow> 65 \<le> b \<and> b \<le> 90 \<or> 97 \<le> b \<and> b \<le> 122 \<or> b = 95"
    "isAlnum (uint b) \<longleftrightarrow>
      48 \<le> b \<and> b \<le> 57 \<or> 65 \<le> b \<and> b \<le> 90 \<or> 97 \<le> b \<and> b \<le> 122 \<or> b = 95"
    "isDoubleQuotation (uint b) \<longleftrightarrow> b = 34"
    by (simp_all only: defs class_of_int) (simp_all add: word_uint_eq_iff word_le_def)
qed

section \<open>The scanner before a given text\<close>

text \<open>\<open>cs\<close> is what the scanner still reads, the first character possibly pushed back.\<close>

definition ready :: "scriptLex \<Rightarrow> bytes \<Rightarrow> bool" where
  "ready wt cs \<longleftrightarrow>
     l_cnt wt = 0 \<and> l_input wt = cs \<or>
     l_cnt wt = 1 \<and> (case cs of [] \<Rightarrow> l_b0 wt = EOF \<and> l_input wt = []
       | c # cs' \<Rightarrow> l_b0 wt = uint c \<and> l_input wt = cs')"

lemma ready_NewLex: "ready (NewLex cs) cs"
  by (simp add: ready_def NewLex_def)

lemma ready_curr [simp]: "ready (wt\<lparr> l_curr := w \<rparr>) cs = ready wt cs"
  by (simp add: ready_def split: list.split)

lemma ready_getc:
  assumes "ready wt (c # cs)"
  obtains wt' where "getc wt = (uint c, wt')" "ready wt' cs" "ready (ungetc wt') (c # cs)"
    "l_curr wt' = l_curr wt" "l_curr (ungetc wt') = l_curr wt"
proof (rule that [of "snd (getc wt)"])
  show "getc wt = (uint c, snd (getc wt))" "ready (snd (getc wt)) cs"
    "ready (ungetc (snd (getc wt))) (c # cs)" "l_curr (snd (getc wt)) = l_curr wt"
    "l_curr (ungetc (snd (getc wt))) = l_curr wt"
    using assms by (auto simp: ready_def getc_pushed getc_read ungetc_def)
qed

lemma ready_getc_end:
  assumes "ready wt []"
  obtains wt' where "getc wt = (EOF, wt')" "ready wt' []" "ready (ungetc wt') []"
    "l_curr wt' = l_curr wt" "l_curr (ungetc wt') = l_curr wt"
proof (rule that [of "snd (getc wt)"])
  show "getc wt = (EOF, snd (getc wt))" "ready (snd (getc wt)) []"
    "ready (ungetc (snd (getc wt))) []" "l_curr (snd (getc wt)) = l_curr wt"
    "l_curr (ungetc (snd (getc wt))) = l_curr wt"
    using assms by (auto simp: ready_def getc_pushed getc_end ungetc_def)
qed

text \<open>The text after a word: the end, or a character outside the word's class.\<close>

definition stops :: "(int \<Rightarrow> bool) \<Rightarrow> bytes \<Rightarrow> bool" where
  "stops P rest \<longleftrightarrow> (case rest of [] \<Rightarrow> True | c # _ \<Rightarrow> \<not> P (uint c))"

lemma ready_stop:
  assumes "ready wt rest" "stops P rest"
  obtains c wt' where "getc wt = (c, wt')" "isEof c \<or> \<not> P c" "ready (ungetc wt') rest"
    "l_curr wt' = l_curr wt" "l_curr (ungetc wt') = l_curr wt"
proof (cases rest)
  case Nil
  with assms obtain wt' where "getc wt = (EOF, wt')" "ready (ungetc wt') []"
    "l_curr wt' = l_curr wt" "l_curr (ungetc wt') = l_curr wt"
    by (auto elim: ready_getc_end)
  with Nil that show ?thesis by (auto simp: isEof_def)
next
  case (Cons c cs)
  with assms obtain wt' where "getc wt = (uint c, wt')" "ready (ungetc wt') (c # cs)"
    "l_curr wt' = l_curr wt" "l_curr (ungetc wt') = l_curr wt"
    by (auto elim: ready_getc)
  with Cons that assms(2) show ?thesis by (auto simp: stops_def)
qed

lemma getWord_ready:
  assumes "ready wt (as @ rest)" "\<forall>c \<in> set as. isAlnum (uint c)" "stops isAlnum rest"
  shows "\<exists>wt'. getWord w wt = (IDENTIFIER, wt') \<and> ready wt' rest \<and>
    w_typ (l_curr wt') = IDENTIFIER \<and> w_name (l_curr wt') = w @ as"
  using assms
proof (induction as arbitrary: w wt)
  case Nil
  then obtain c wt' where "getc wt = (c, wt')" "isEof c \<or> \<not> isAlnum c" "ready (ungetc wt') rest"
    by (auto elim: ready_stop)
  then show ?case by (subst getWord.simps) auto
next
  case (Cons a as)
  then obtain wt' where g: "getc wt = (uint a, wt')" "ready wt' (as @ rest)"
    by (auto elim: ready_getc)
  have "getWord w wt = getWord (w @ [a]) wt'"
    using g Cons.prems(2) by (subst getWord.simps) (simp add: isEof_def)
  with Cons.IH [OF g(2), of "w @ [a]"] Cons.prems(2,3) show ?case by simp
qed

lemma getDigit_loop_ready:
  assumes "ready wt (ds @ rest)" "\<forall>c \<in> set ds. isXdigit (uint c)" "stops isXdigit rest"
  shows "\<exists>wt'. getDigit_loop w wt = (w @ ds, wt') \<and> ready (ungetc wt') rest"
  using assms
proof (induction ds arbitrary: w wt)
  case Nil
  then obtain c wt' where "getc wt = (c, wt')" "isEof c \<or> \<not> isXdigit c" "ready (ungetc wt') rest"
    by (auto elim: ready_stop)
  then show ?case by (subst getDigit_loop.simps) auto
next
  case (Cons a ds)
  then obtain wt' where g: "getc wt = (uint a, wt')" "ready wt' (ds @ rest)"
    by (auto elim: ready_getc)
  have "getDigit_loop w wt = getDigit_loop (w @ [a]) wt'"
    using g Cons.prems(2) by (subst getDigit_loop.simps) (simp add: isEof_def)
  with Cons.IH [OF g(2), of "w @ [a]"] Cons.prems(2,3) show ?case by simp
qed

text \<open>Text that may stand between double quotes.\<close>

definition quotable :: "gostring \<Rightarrow> bool" where
  "quotable s \<longleftrightarrow> (\<forall>c \<in> set s. c \<noteq> 34 \<and> c \<noteq> 96 \<and> c \<noteq> 10 \<and> c \<noteq> 13)"

lemma getLiteral_ready:
  assumes "ready wt (s @ 34 # rest)" "quotable s" "quotable v" "w = 34 # v"
  shows "\<exists>wt'. getLiteral 34 STRING_CONSTANT w wt = (STRING_CONSTANT, wt') \<and> ready wt' rest \<and>
    w_typ (l_curr wt') = STRING_CONSTANT \<and> w_value (l_curr wt') = VString (v @ s)"
  using assms
proof (induction s arbitrary: w v wt)
  case Nil
  then obtain wt' where g: "getc wt = (34, wt')" "ready wt' rest"
    by (auto elim: ready_getc)
  have "filter (\<lambda>b. b \<noteq> 13) v = v"
    using Nil.prems(3) by (intro filter_True) (auto simp: quotable_def)
  then have "Unquote_raw (w @ [34]) = Some (34 # v @ [34])"
    using Nil.prems(3,4) by (auto simp: Unquote_raw_def quotable_def)
  with g show ?case
    using class_of_byte(1) [of 34] by (subst getLiteral.simps) (simp add: isEof_def EOF_def)
next
  case (Cons a s)
  then obtain wt' where g: "getc wt = (uint a, wt')" "ready wt' (s @ 34 # rest)"
    by (auto elim: ready_getc)
  have "uint a \<noteq> 34"
    using Cons.prems(2) by (auto simp: quotable_def word_uint_eq_iff)
  then have "getLiteral 34 STRING_CONSTANT w wt = getLiteral 34 STRING_CONSTANT (w @ [a]) wt'"
    using g Cons.prems(2) class_of_byte(1) [of a]
    by (subst getLiteral.simps) (auto simp: isEof_def quotable_def)
  with Cons.IH [OF g(2), of "v @ [a]" "w @ [a]"] Cons.prems(2-4) show ?case
    by (simp add: quotable_def)
qed

section \<open>Numbers\<close>

lemma ParseUint_dec:
  assumes "n < 2 ^ 64"
  shows "ParseUint (dec n) = Some n"
proof (cases "n = 0")
  case True
  then show ?thesis by (subst dec.simps) (simp add: ParseUint_def)
next
  case False
  obtain b bs where b: "dec n = b # bs" using dec_nonempty [of n] by (cases "dec n") auto
  with False dec_hd [of n] have "b \<noteq> 48" by simp
  then show ?thesis
    using parse_digits_dec [of n "[]"] assms b by (simp add: ParseUint_def)
qed

section \<open>Single words\<close>

lemma stops_weaken: "stops isXdigit rest \<Longrightarrow> stops isDigit rest"
  by (auto simp: stops_def class_of_byte split: list.splits)

lemma getDigit_out_ready:
  assumes "ready (ungetc wt) rest" "n < 2 ^ 64"
  shows "\<exists>wt'. getDigit_out (dec n) wt = (INT_CONSTANT, wt') \<and> ready wt' rest \<and>
    w_typ (l_curr wt') = INT_CONSTANT \<and> w_value (l_curr wt') = VUint (of_nat n)"
  using assms by (simp add: getDigit_out_def Let_def ParseUint_dec)

lemma getDigit_ready:
  assumes "dec n = a # ds" "ready wt (ds @ rest)" "stops isXdigit rest" "n < 2 ^ 64"
    "rest = [] \<or> hd rest \<noteq> 120 \<and> hd rest \<noteq> 88"
  shows "\<exists>wt'. getDigit (uint a) wt = (INT_CONSTANT, wt') \<and> ready wt' rest \<and>
    w_typ (l_curr wt') = INT_CONSTANT \<and> w_value (l_curr wt') = VUint (of_nat n)"
proof (cases "n = 0")
  case True
  with assms(1) have a: "a = 48" "ds = []" by (simp_all add: dec_0)
  have w: "[of_int (uint a)] = dec n" using a True by (simp add: dec_0)
  show ?thesis
  proof (cases rest)
    case Nil
    with assms(2) a obtain wt' where "getc wt = (EOF, wt')" "ready (ungetc wt') []"
      by (auto elim: ready_getc_end)
    with getDigit_out_ready [of wt' "[]" n] Nil a w assms(4) show ?thesis
      by (auto simp: getDigit_def Let_def isEof_def)
  next
    case (Cons c cs)
    with assms(2) a obtain wt' where g: "getc wt = (uint c, wt')" "ready (ungetc wt') (c # cs)"
      by (auto elim: ready_getc)
    have c: "\<not> isDigit (uint c)" "uint c \<noteq> 120" "uint c \<noteq> 88"
      using stops_weaken [OF assms(3)] assms(5) Cons by (auto simp: stops_def word_uint_eq_iff)
    then have "getDigit (uint a) wt = getDigit_out (dec n) wt'"
      using a g w by (simp add: getDigit_def Let_def isEof_def)
    with getDigit_out_ready [OF g(2) assms(4)] Cons show ?thesis by simp
  qed
next
  case False
  with assms(1) dec_hd [of n] have "a \<noteq> 48" by simp
  then have a: "uint a \<noteq> 48" by (simp add: word_uint_eq_iff)
  have "\<forall>c \<in> set ds. isXdigit (uint c)"
    using dec_digits [of n] assms(1) by (simp add: class_of_byte)
  then obtain wt' where "getDigit_loop [a] wt = ([a] @ ds, wt')" "ready (ungetc wt') rest"
    using getDigit_loop_ready [OF assms(2) _ assms(3)] by blast
  with getDigit_out_ready [OF _ assms(4)] assms(1) a show ?thesis
    by (simp add: getDigit_def Let_def)
qed

text \<open>\<open>word wt cs w\<close>: from \<open>wt\<close> the scanner returns the word \<open>w\<close> and stops before \<open>cs\<close>.\<close>

definition scans :: "scriptLex \<Rightarrow> scriptWord \<Rightarrow> bytes \<Rightarrow> bool" where
  "scans wt w cs \<longleftrightarrow> (\<exists>wt'. symbol wt = (w_typ w, wt') \<and> l_curr wt' = w \<and> ready wt' cs)"

lemma symbol_step:
  assumes "ready wt (c # cs)"
  obtains wt' where "getc wt = (uint c, wt')" "ready wt' cs" "\<not> isEof (uint c)"
  using ready_getc [OF assms] by (auto simp: isEof_def)

lemma symbol_space:
  assumes "ready wt (32 # cs)"
  shows "\<exists>wt'. symbol wt = symbol wt' \<and> ready wt' cs"
proof -
  obtain wt' where g: "getc wt = (uint (32 :: byte), wt')" "ready wt' cs" "\<not> isEof (uint (32 :: byte))"
    by (rule symbol_step [OF assms])
  have "isSpace (uint (32 :: byte))" by (simp only: class_of_byte) simp
  with g have "symbol wt = symbol wt'" by (subst symbol.simps) simp
  with g(2) show ?thesis by blast
qed

lemma scans_space: "ready wt (32 # cs) \<Longrightarrow> (\<And>wt'. ready wt' cs \<Longrightarrow> \<exists>w. scans wt' w r \<and> P w) \<Longrightarrow>
    \<exists>w. scans wt w r \<and> P w"
  using symbol_space [of wt cs] by (metis scans_def)

lemma scans_name:
  assumes "ready wt (as @ rest)" "as \<noteq> []" "isAlpha (uint (hd as))"
    "\<forall>c \<in> set (tl as). isAlnum (uint c)" "stops isAlnum rest"
  shows "\<exists>w. scans wt w rest \<and> w_typ w = IDENTIFIER \<and> w_name w = as"
proof -
  obtain a as' where as: "as = a # as'" using assms(2) by (cases as) auto
  obtain wt1 where g: "getc wt = (uint a, wt1)" "ready wt1 (as' @ rest)" "\<not> isEof (uint a)"
    using assms(1) as by (auto elim: symbol_step)
  have cls: "isAlpha (uint a)" "\<not> isSpace (uint a)" "\<not> isNewline (uint a)"
    using assms(3) as by (auto simp: class_of_byte)
  obtain wt2 where w: "getWord [a] wt1 = (IDENTIFIER, wt2)" "ready wt2 rest"
    "w_typ (l_curr wt2) = IDENTIFIER" "w_name (l_curr wt2) = as"
    using getWord_ready [OF g(2) _ assms(5), of "[a]"] assms(4) as by auto
  have "symbol wt = (IDENTIFIER, wt2)"
    using g w(1) cls by (subst symbol.simps) simp
  with w show ?thesis by (auto simp: scans_def)
qed

lemma scans_number:
  assumes "ready wt (dec n @ rest)" "stops isXdigit rest" "n < 2 ^ 64"
    "rest = [] \<or> hd rest \<noteq> 120 \<and> hd rest \<noteq> 88"
  shows "\<exists>w. scans wt w rest \<and> w_typ w = INT_CONSTANT \<and> w_value w = VUint (of_nat n)"
proof -
  obtain a ds where ds: "dec n = a # ds" using dec_nonempty [of n] by (cases "dec n") auto
  have digit: "48 \<le> a" "a \<le> 57" using dec_digits [of n] ds by auto
  obtain wt1 where g: "getc wt = (uint a, wt1)" "ready wt1 (ds @ rest)" "\<not> isEof (uint a)"
    using assms(1) ds by (auto elim: symbol_step)
  have cls: "isDigit (uint a)" "\<not> isSpace (uint a)" "\<not> isNewline (uint a)" "\<not> isAlpha (uint a)"
    using digit by (auto simp: class_of_byte word_le_nat_alt word_unat_eq_iff)
  obtain wt2 where w: "getDigit (uint a) wt1 = (INT_CONSTANT, wt2)" "ready wt2 rest"
    "w_typ (l_curr wt2) = INT_CONSTANT" "w_value (l_curr wt2) = VUint (of_nat n)"
    using getDigit_ready [OF ds g(2) assms(2,3,4)] by blast
  have "symbol wt = (INT_CONSTANT, wt2)"
    using g w(1) cls by (subst symbol.simps) simp
  with w show ?thesis by (auto simp: scans_def)
qed

lemma scans_quoted:
  assumes "ready wt (34 # s @ 34 # rest)" "quotable s"
  shows "\<exists>w. scans wt w rest \<and> w_typ w = STRING_CONSTANT \<and> w_value w = VString s"
proof -
  obtain wt1 where g: "getc wt = (uint (34 :: byte), wt1)" "ready wt1 (s @ 34 # rest)"
    "\<not> isEof (uint (34 :: byte))"
    by (rule symbol_step [OF assms(1)])
  let ?q = "uint (34 :: byte)"
  have cls: "isDoubleQuotation ?q" "\<not> isSpace ?q" "\<not> isNewline ?q" "\<not> isAlpha ?q" "\<not> isDigit ?q"
    by (simp_all only: class_of_byte) simp_all
  obtain wt2 where w: "getLiteral 34 STRING_CONSTANT [34] wt1 = (STRING_CONSTANT, wt2)" "ready wt2 rest"
    "w_typ (l_curr wt2) = STRING_CONSTANT" "w_value (l_curr wt2) = VString s"
    using getLiteral_ready [OF g(2) assms(2), of "[]" "[34]"] by (auto simp: quotable_def)
  have "symbol wt = (STRING_CONSTANT, wt2)"
    using g w(1) cls by (subst symbol.simps) simp
  with w show ?thesis by (auto simp: scans_def)
qed

lemma symbol_end:
  assumes "ready wt []"
  shows "\<exists>wt'. symbol wt = (EOF, wt') \<and> ready wt' []"
proof -
  obtain wt' where "getc wt = (EOF, wt')" "ready wt' []"
    using ready_getc_end [OF assms] by blast
  then show ?thesis by (subst symbol.simps) (simp add: isEof_def)
qed

section \<open>The grammar on words\<close>

text \<open>Before a word: the scanner will return it, or it was pushed back.\<close>

definition fresh :: "scriptParser \<Rightarrow> bytes \<Rightarrow> bool" where
  "fresh wp cs \<longleftrightarrow> p_cnt wp = 0 \<and> ready (p_wt wp) cs"

definition pushed :: "scriptParser \<Rightarrow> scriptWord \<Rightarrow> bytes \<Rightarrow> bool" where
  "pushed wp w cs \<longleftrightarrow> p_cnt wp = 1 \<and> p_w0 wp = Some w \<and> ready (p_wt wp) cs"

definition before :: "scriptParser \<Rightarrow> scriptWord \<Rightarrow> bytes \<Rightarrow> bool" where
  "before wp w cs \<longleftrightarrow> pushed wp w cs \<or> p_cnt wp = 0 \<and> scans (p_wt wp) w cs"

lemma word_types [simp]:
  "IDENTIFIER \<noteq> EOF" "INT_CONSTANT \<noteq> EOF" "STRING_CONSTANT \<noteq> EOF" "IDENTIFIER \<noteq> ERR"
  "INT_CONSTANT \<noteq> ERR" "STRING_CONSTANT \<noteq> ERR" "IDENTIFIER \<noteq> INT_CONSTANT"
  "IDENTIFIER \<noteq> STRING_CONSTANT" "STRING_CONSTANT \<noteq> INT_CONSTANT" "INT_CONSTANT \<noteq> STRING_CONSTANT"
  "INT_CONSTANT \<noteq> IDENTIFIER" "STRING_CONSTANT \<noteq> IDENTIFIER"
  by (simp_all add: IDENTIFIER_def INT_CONSTANT_def STRING_CONSTANT_def EOF_def ERR_def)

lemma peek_before:
  assumes "before wp w cs" "w_typ w \<noteq> EOF" "w_typ w \<noteq> ERR"
  obtains wp' where "peek wp = (w_typ w, wp')" "pushed wp' w cs"
proof (cases "pushed wp w cs")
  case True
  then have "peek wp = (w_typ w, wp\<lparr> p_cnt := 1 \<rparr>)" "pushed (wp\<lparr> p_cnt := 1 \<rparr>) w cs"
    by (simp_all add: pushed_def peek_def getw_def rb_getw_def ungetw_def)
  then show ?thesis by (rule that)
next
  case False
  then obtain wt' where "p_cnt wp = 0" "symbol (p_wt wp) = (w_typ w, wt')" "l_curr wt' = w" "ready wt' cs"
    using assms(1) by (auto simp: before_def scans_def)
  with assms(2,3) show ?thesis
    by (intro that [of "wp\<lparr> p_wt := wt', p_w0 := Some w, p_cnt := 1 \<rparr>"])
       (simp_all add: pushed_def peek_def getw_def rb_getw_def ungetw_def)
qed

lemma getw_pushed:
  assumes "pushed wp w cs"
  obtains wp' where "getw wp = (Some w, wp')" "fresh wp' cs"
proof (rule that [of "wp\<lparr> p_cnt := 0 \<rparr>"])
  show "getw wp = (Some w, wp\<lparr> p_cnt := 0 \<rparr>)" "fresh (wp\<lparr> p_cnt := 0 \<rparr>) cs"
    using assms by (simp_all add: pushed_def getw_def rb_getw_def fresh_def)
qed

lemma pushed_before: "pushed wp w cs \<Longrightarrow> before wp w cs"
  by (simp add: before_def)

lemma peek_end:
  assumes "fresh wp []"
  obtains wp' where "peek wp = (EOF, wp')" "fresh wp' []"
  using assms symbol_end [of "p_wt wp"]
  by (fastforce simp: fresh_def peek_def getw_def rb_getw_def)

lemma getw_end:
  assumes "fresh wp []"
  shows "fresh (snd (getw wp)) []"
  using assms symbol_end [of "p_wt wp"] by (fastforce simp: fresh_def getw_def rb_getw_def)

lemma parser2_int:
  assumes "before wp w cs" "w_typ w = INT_CONSTANT"
  obtains wp' where "parser2 wp = (wp', Ok (Node (O_CONST OR push_bit 8 O_INT) None None (w_value w)))"
    "fresh wp' cs"
proof -
  obtain wp1 where p: "peek wp = (INT_CONSTANT, wp1)" "pushed wp1 w cs"
    using peek_before [OF assms(1)] assms(2) by auto
  obtain wp2 where "getw wp1 = (Some w, wp2)" "fresh wp2 cs"
    by (rule getw_pushed [OF p(2)])
  with p(1) that show ?thesis by (simp add: parser2_def)
qed

lemma parser2_string:
  assumes "before wp w cs" "w_typ w = STRING_CONSTANT"
  obtains wp' where "parser2 wp = (wp', Ok (Node (O_CONST OR push_bit 8 O_STRING) None None (w_value w)))"
    "fresh wp' cs"
proof -
  obtain wp1 where p: "peek wp = (STRING_CONSTANT, wp1)" "pushed wp1 w cs"
    using peek_before [OF assms(1)] assms(2) by auto
  obtain wp2 where q: "peek wp1 = (STRING_CONSTANT, wp2)" "pushed wp2 w cs"
    using peek_before [OF pushed_before [OF p(2)]] assms(2) by auto
  obtain wp3 where "getw wp2 = (Some w, wp3)" "fresh wp3 cs"
    by (rule getw_pushed [OF q(2)])
  with p(1) q(1) that show ?thesis by (simp add: parser2_def)
qed

text \<open>The node a constant word becomes.\<close>

definition const_node :: "scriptWord \<Rightarrow> scriptNode" where
  "const_node w = Node (O_CONST OR push_bit 8 (if w_typ w = INT_CONSTANT then O_INT else O_STRING))
     None None (w_value w)"

lemma parser2_const:
  assumes "before wp w cs" "w_typ w = INT_CONSTANT \<or> w_typ w = STRING_CONSTANT"
  obtains wp' where "parser2 wp = (wp', Ok (const_node w))" "fresh wp' cs"
proof (cases "w_typ w = INT_CONSTANT")
  case True
  obtain wp' where "parser2 wp = (wp', Ok (Node (O_CONST OR push_bit 8 O_INT) None None (w_value w)))"
    "fresh wp' cs"
    by (rule parser2_int [OF assms(1) True])
  with True that show ?thesis by (simp add: const_node_def)
next
  case False
  with assms(2) have t: "w_typ w = STRING_CONSTANT" by simp
  obtain wp' where "parser2 wp = (wp', Ok (Node (O_CONST OR push_bit 8 O_STRING) None None (w_value w)))"
    "fresh wp' cs"
    by (rule parser2_string [OF assms(1) t])
  with False that show ?thesis by (simp add: const_node_def)
qed

lemma parser1_last:
  assumes "before wp w []" "w_typ w = INT_CONSTANT \<or> w_typ w = STRING_CONSTANT"
  shows "\<exists>wp'. parser1 wp = (wp', Ok (const_node w)) \<and> fresh wp' []"
proof -
  obtain wp1 where p2: "parser2 wp = (wp1, Ok (const_node w))" "fresh wp1 []"
    by (rule parser2_const [OF assms])
  obtain wp2 where "peek wp1 = (EOF, wp2)" "fresh wp2 []"
    by (rule peek_end [OF p2(2)])
  then show ?thesis
    using p2(1) getw_end [of wp2] by (subst parser1.simps) simp
qed

lemma detect1_const:
  "w_typ w = INT_CONSTANT \<or> w_typ w = STRING_CONSTANT \<Longrightarrow> detect1 PrimaryExpression (w_typ w)"
  by (auto simp: detect1_def firstList_def PrimaryExpression_def INT_CONSTANT_def STRING_CONSTANT_def EOF_def)

lemma parser1_more:
  assumes "before wp w cs" "w_typ w = INT_CONSTANT \<or> w_typ w = STRING_CONSTANT"
    "\<And>wp'. fresh wp' cs \<Longrightarrow>
      \<exists>w'. before wp' w' cs' \<and> (w_typ w' = INT_CONSTANT \<or> w_typ w' = STRING_CONSTANT) \<and>
        (\<forall>wp'. before wp' w' cs' \<longrightarrow> (\<exists>wp''. parser1 wp' = (wp'', Ok n) \<and> fresh wp'' []))"
  shows "\<exists>wp'. parser1 wp = (wp', Ok (Node O_ELIST (Some (const_node w)) (Some n) VNil)) \<and> fresh wp' []"
proof -
  obtain wp1 where p2: "parser2 wp = (wp1, Ok (const_node w))" "fresh wp1 cs"
    by (rule parser2_const [OF assms(1,2)])
  obtain w' where w': "before wp1 w' cs'" "w_typ w' = INT_CONSTANT \<or> w_typ w' = STRING_CONSTANT"
    and rest: "\<And>wp'. before wp' w' cs' \<Longrightarrow> \<exists>wp''. parser1 wp' = (wp'', Ok n) \<and> fresh wp'' []"
    using assms(3) [OF p2(2)] by blast
  have t: "w_typ w' \<noteq> EOF" "w_typ w' \<noteq> ERR" using w'(2) by auto
  obtain wp2 where k2: "peek wp1 = (w_typ w', wp2)" "pushed wp2 w' cs'"
    by (rule peek_before [OF w'(1) t])
  obtain wp3 where k3: "peek wp2 = (w_typ w', wp3)" "pushed wp3 w' cs'"
    by (rule peek_before [OF pushed_before [OF k2(2)] t])
  obtain wp4 where "parser1 wp3 = (wp4, Ok n)" "fresh wp4 []"
    using rest [OF pushed_before [OF k3(2)]] by blast
  then show ?thesis
    using p2(1) k2(1) k3(1) t detect1_const [OF w'(2)] by (subst parser1.simps) simp
qed

section \<open>Printed calls\<close>

text \<open>
  A call the way the clients print it (\<open>fmt.Sprintf\<close> with a quoted text for \<open>%s\<close> between quotes and
  decimal digits for a number): the name, and each argument after one space.
\<close>

fun print_arg :: "argvalue \<Rightarrow> bytes" where
  "print_arg (VUint n) = dec (unat n)"
| "print_arg (VString s) = 34 # s @ [34]"
| "print_arg VNil = []"

definition print_args :: "argvalue list \<Rightarrow> bytes" where
  "print_args vs = concat (map (\<lambda>v. 32 # print_arg v) vs)"

definition print_call :: "gostring \<Rightarrow> argvalue list \<Rightarrow> bytes" where
  "print_call name vs = name @ print_args vs"

fun printable :: "argvalue \<Rightarrow> bool" where
  "printable (VUint n) = True"
| "printable (VString s) = quotable s"
| "printable VNil = False"

lemma print_args_simps [simp]:
  "print_args [] = []" "print_args (v # vs) = 32 # print_arg v @ print_args vs"
  by (simp_all add: print_args_def)

lemma print_args_next: "print_args vs = [] \<or> hd (print_args vs) = 32"
  by (cases vs) simp_all

text \<open>The word and the node of an argument.\<close>

definition word_of :: "argvalue \<Rightarrow> scriptWord \<Rightarrow> bool" where
  "word_of v w \<longleftrightarrow> w_value w = v \<and>
     w_typ w = (case v of VUint _ \<Rightarrow> INT_CONSTANT | _ \<Rightarrow> STRING_CONSTANT)"

definition arg_node :: "argvalue \<Rightarrow> scriptNode" where
  "arg_node v = Node (O_CONST OR push_bit 8 (case v of VUint _ \<Rightarrow> O_INT | _ \<Rightarrow> O_STRING)) None None v"

fun args_node :: "argvalue list \<Rightarrow> scriptNode" where
  "args_node [] = Node 0 None None VNil"
| "args_node [v] = arg_node v"
| "args_node (v # vs) = Node O_ELIST (Some (arg_node v)) (Some (args_node vs)) VNil"

lemma word_of_const:
  "word_of v w \<Longrightarrow> w_typ w = INT_CONSTANT \<or> w_typ w = STRING_CONSTANT"
  "word_of v w \<Longrightarrow> const_node w = arg_node v"
  by (auto simp: word_of_def const_node_def arg_node_def split: argvalue.splits)

lemma space_stops: "rest = [] \<or> hd rest = 32 \<Longrightarrow> stops isAlnum rest \<and> stops isXdigit rest"
  using class_of_byte(4,6) [of 32] by (cases rest) (auto simp: stops_def)

lemma scans_arg:
  assumes "ready wt (32 # print_arg v @ rest)" "printable v" "rest = [] \<or> hd rest = 32"
  shows "\<exists>w. scans wt w rest \<and> word_of v w"
proof (rule scans_space [OF assms(1)])
  fix wt' assume r: "ready wt' (print_arg v @ rest)"
  show "\<exists>w. scans wt' w rest \<and> word_of v w"
  proof (cases v)
    case (VUint n)
    have "unat n < 2 ^ 64" using unsigned_less [of n] by simp
    moreover have "rest = [] \<or> hd rest \<noteq> 120 \<and> hd rest \<noteq> 88" using assms(3) by auto
    ultimately obtain w where "scans wt' w rest" "w_typ w = INT_CONSTANT"
      "w_value w = VUint (of_nat (unat n))"
      using scans_number [of wt' "unat n" rest] r VUint space_stops [OF assms(3)] by auto
    with VUint show ?thesis by (auto simp: word_of_def)
  next
    case (VString s)
    with scans_quoted [of wt' s rest] r assms(2) show ?thesis by (auto simp: word_of_def)
  next
    case VNil
    with assms(2) show ?thesis by simp
  qed
qed

lemma parser1_args:
  assumes "before wp w (print_args vs)" "word_of v w" "\<forall>v \<in> set vs. printable v"
  shows "\<exists>wp'. parser1 wp = (wp', Ok (args_node (v # vs))) \<and> fresh wp' []"
  using assms
proof (induction vs arbitrary: wp w v)
  case Nil
  then show ?case using parser1_last [of wp w] word_of_const [of v w] by simp
next
  case (Cons u us)
  have "\<exists>wp'. parser1 wp = (wp', Ok (Node O_ELIST (Some (const_node w)) (Some (args_node (u # us))) VNil))
      \<and> fresh wp' []"
  proof (rule parser1_more [OF Cons.prems(1) word_of_const(1) [OF Cons.prems(2)]])
    fix wp' assume "fresh wp' (print_args (u # us))"
    then have z: "p_cnt wp' = 0" "ready (p_wt wp') (32 # print_arg u @ print_args us)"
      by (simp_all add: fresh_def)
    then obtain w' where w': "scans (p_wt wp') w' (print_args us)" "word_of u w'"
      using scans_arg [OF z(2)] Cons.prems(3) print_args_next [of us] by auto
    with z have "before wp' w' (print_args us)" by (simp add: before_def)
    with w' Cons.IH [OF _ w'(2)] Cons.prems(3) word_of_const(1) [OF w'(2)]
    show "\<exists>w'. before wp' w' (print_args us) \<and> (w_typ w' = INT_CONSTANT \<or> w_typ w' = STRING_CONSTANT) \<and>
        (\<forall>wp'. before wp' w' (print_args us) \<longrightarrow>
          (\<exists>wp''. parser1 wp' = (wp'', Ok (args_node (u # us))) \<and> fresh wp'' []))"
      by auto
  qed
  then show ?case using word_of_const(2) [OF Cons.prems(2)] by simp
qed

text \<open>The call: a name and its arguments, then the end of the text.\<close>

definition call_node :: "gostring \<Rightarrow> argvalue list \<Rightarrow> scriptNode" where
  "call_node name vs = Node O_CALL (Some (Node O_NAME None None (VString name))) (Some (args_node vs)) VNil"

lemma parser0_call:
  assumes "before wp w (print_args (v # vs))" "w_typ w = IDENTIFIER" "\<forall>v \<in> set (v # vs). printable v"
  shows "\<exists>wp'. parser0 wp = (wp', Ok (call_node (w_name w) (v # vs))) \<and> fresh wp' []"
proof -
  obtain wp1 where k1: "peek wp = (IDENTIFIER, wp1)" "pushed wp1 w (print_args (v # vs))"
    using peek_before [OF assms(1)] assms(2) by auto
  obtain wp2 where g: "getw wp1 = (Some w, wp2)" "fresh wp2 (print_args (v # vs))"
    by (rule getw_pushed [OF k1(2)])
  then have z: "p_cnt wp2 = 0" "ready (p_wt wp2) (32 # print_arg v @ print_args vs)"
    by (simp_all add: fresh_def)
  obtain x where x: "scans (p_wt wp2) x (print_args vs)" "word_of v x"
    using scans_arg [OF z(2)] assms(3) print_args_next [of vs] by auto
  have t: "w_typ x \<noteq> EOF" "w_typ x \<noteq> ERR" using word_of_const(1) [OF x(2)] by auto
  have "before wp2 x (print_args vs)" using x z by (simp add: before_def)
  then obtain wp3 where k3: "peek wp2 = (w_typ x, wp3)" "pushed wp3 x (print_args vs)"
    using peek_before t by blast
  obtain wp4 where "parser1 wp3 = (wp4, Ok (args_node (v # vs)))" "fresh wp4 []"
    using parser1_args [OF pushed_before [OF k3(2)] x(2)] assms(3) by auto
  then show ?thesis
    using k1(1) g(1) k3(1) t by (simp add: parser0_def Let_def call_node_def)
qed

definition is_name :: "gostring \<Rightarrow> bool" where
  "is_name s \<longleftrightarrow> s \<noteq> [] \<and> isAlpha (uint (hd s)) \<and> (\<forall>c \<in> set (tl s). isAlnum (uint c))"

lemma Parser_loop_call:
  assumes "is_name name" "\<forall>v \<in> set (v # vs). printable v"
  shows "Parser_loop [] (NewParser (print_call name (v # vs))) = Ok [call_node name (v # vs)]"
proof -
  let ?wp = "NewParser (print_call name (v # vs))"
  have stop: "stops isAlnum (print_args (v # vs))" using space_stops [of "print_args (v # vs)"] by simp
  have "ready (p_wt ?wp) (name @ print_args (v # vs))"
    by (simp add: NewParser_def print_call_def ready_NewLex)
  then obtain w where w: "scans (p_wt ?wp) w (print_args (v # vs))" "w_typ w = IDENTIFIER" "w_name w = name"
    using scans_name [OF _ _ _ _ stop] assms(1) unfolding is_name_def by blast
  have "before ?wp w (print_args (v # vs))" using w by (simp add: before_def NewParser_def)
  then obtain wp1 where k1: "peek ?wp = (IDENTIFIER, wp1)" "pushed wp1 w (print_args (v # vs))"
    using peek_before w(2) by (metis word_types(1,4))
  obtain wp2 where p0: "parser0 wp1 = (wp2, Ok (call_node name (v # vs)))" "fresh wp2 []"
    using parser0_call [OF pushed_before [OF k1(2)] w(2) assms(2)] w(3) by auto
  obtain wp3 where k3: "peek wp2 = (EOF, wp3)"
    by (rule peek_end [OF p0(2)])
  have "Parser_loop [call_node name (v # vs)] wp2 = Ok [call_node name (v # vs)]"
    using k3 by (subst Parser_loop.simps) simp
  with k1(1) p0(1) show ?thesis by (subst Parser_loop.simps) simp
qed

section \<open>Statements\<close>

text \<open>The argument types of the five statements, and the script a printed call stands for.\<close>

definition statement_types :: "gostring \<Rightarrow> u32 list option" where
  "statement_types name =
     (if name = lit ''new'' \<or> name = lit ''mint'' then Some [TOKENID, AMOUNT]
      else if name = lit ''transfer'' then Some [TOKENID, AMOUNT, ADDRESS]
      else if name = lit ''freeze'' \<or> name = lit ''unfreeze'' then Some [TOKENID, ADDRESS]
      else None)"

definition fits :: "u32 \<Rightarrow> argvalue \<Rightarrow> bool" where
  "fits ty v \<longleftrightarrow> printable v \<and> typList ! unat ty = (case v of VUint _ \<Rightarrow> O_INT | _ \<Rightarrow> O_STRING)"

definition call_script :: "gostring \<Rightarrow> u32 list \<Rightarrow> argvalue list \<Rightarrow> Script" where
  "call_script name tys vs =
     \<lparr> sc_name = name, sc_args = map2 (\<lambda>ty v. \<lparr> arg_typ = ty, arg_value = v \<rparr>) tys vs \<rparr>"

lemma arg_node_simps [simp]:
  "n_op (arg_node v) AND 255 = 3"
  "drop_bit 8 (n_op (arg_node v)) AND 255 = (case v of VUint _ \<Rightarrow> O_INT | _ \<Rightarrow> O_STRING)"
  "n_value (arg_node v) = v"
  by (simp_all add: arg_node_def O_CONST_def O_INT_def O_STRING_def split: argvalue.split)

lemma args_node_simps:
  "argumentValue (args_node (v # vs)) = Some (arg_node v)"
  "nextArgument (args_node (v # vs)) = (if vs = [] then None else Some (args_node vs))"
  by (cases vs; simp add: argumentValue_def nextArgument_def O_ELIST_def)+

text \<open>Arguments behind those a statement takes are dropped without a word.\<close>

lemma take_arguments_node:
  assumes "list_all2 fits tys vs"
  shows "take_arguments tys (if vs @ us = [] then None else Some (args_node (vs @ us))) acc =
    Ok (Some (acc @ map2 (\<lambda>ty v. \<lparr> arg_typ = ty, arg_value = v \<rparr>) tys vs))"
  using assms
proof (induction arbitrary: acc rule: list_all2_induct)
  case (Cons ty tys v vs)
  have "takeArgument ty (args_node (v # vs @ us)) acc = Ok (acc @ [\<lparr> arg_typ = ty, arg_value = v \<rparr>])"
    using Cons.hyps(1) by (simp add: takeArgument_def args_node_simps fits_def)
  then show ?case using Cons.IH by (simp add: args_node_simps)
qed simp

lemma operate_node:
  assumes "list_all2 fits tys vs" "vs @ us \<noteq> []"
  shows "operate name tys (Some (args_node (vs @ us))) = Ok (Some (call_script name tys vs))"
  using take_arguments_node [OF assms(1), of us "[]"] assms(2)
  by (simp only: if_False) (simp add: operate_def call_script_def)

lemma lower_case_name:
  assumes "s \<noteq> []" "\<forall>c \<in> set s. 97 \<le> c \<and> c \<le> 122"
  shows "is_name s"
  using assms by (cases s) (auto simp: is_name_def class_of_byte)

lemma statement_names:
  "is_name (lit ''new'')" "is_name (lit ''mint'')" "is_name (lit ''transfer'')"
  "is_name (lit ''freeze'')" "is_name (lit ''unfreeze'')"
  by (rule lower_case_name; simp add: lit_def)+

lemma statement_registry:
  "operateRegistry (lit ''new'') = Some (operate (lit ''new'') [TOKENID, AMOUNT])"
  "operateRegistry (lit ''mint'') = Some (operate (lit ''mint'') [TOKENID, AMOUNT])"
  "operateRegistry (lit ''transfer'') = Some (operate (lit ''transfer'') [TOKENID, AMOUNT, ADDRESS])"
  "operateRegistry (lit ''freeze'') = Some (operate (lit ''freeze'') [TOKENID, ADDRESS])"
  "operateRegistry (lit ''unfreeze'') = Some (operate (lit ''unfreeze'') [TOKENID, ADDRESS])"
  by (simp_all add: operateRegistry_def operate0_def operate1_def operate2_def operate3_def
      operate4_def lit_def)

lemma statement_operate:
  assumes "statement_types name = Some tys"
  shows "operateRegistry name = Some (operate name tys)" "is_name name" "tys \<noteq> []"
  using assms statement_registry statement_names
  by (auto simp only: statement_types_def option.inject option.distinct list.distinct split: if_splits)

lemma Parser_surplus:
  assumes "statement_types name = Some tys" "list_all2 fits tys vs" "\<forall>u \<in> set us. printable u"
  shows "Parser (print_call name (vs @ us)) = Ok [Some (call_script name tys vs)]"
proof -
  obtain v ws where vs: "vs @ us = v # ws"
    using statement_operate(3) [OF assms(1)] assms(2) by (cases vs) auto
  have "\<forall>v \<in> set (v # ws). printable v"
    unfolding vs [symmetric] using assms(2,3) by (auto simp: list_all2_conv_all_nth fits_def in_set_conv_nth)
  then have "Parser_loop [] (NewParser (print_call name (v # ws))) = Ok [call_node name (v # ws)]"
    by (rule Parser_loop_call [OF statement_operate(2) [OF assms(1)]])
  moreover have "operate name tys (Some (args_node (v # ws))) = Ok (Some (call_script name tys vs))"
    using operate_node [OF assms(2), of us] by (simp add: vs)
  ultimately show ?thesis
    using statement_operate(1) [OF assms(1)] by (simp add: vs Parser_def call_node_def)
qed

lemma Parser_call:
  "statement_types name = Some tys \<Longrightarrow> list_all2 fits tys vs \<Longrightarrow> Parser (print_call name vs) = Ok [Some (call_script name tys vs)]"
  using Parser_surplus [of name tys vs "[]"] by simp

section \<open>No script makes the parser panic\<close>

text \<open>Never more than one word is pushed back, and a word pushed back was read before.\<close>

definition parser_inv :: "scriptParser \<Rightarrow> bool" where
  "parser_inv wp \<longleftrightarrow> p_cnt wp \<le> 1 \<and> (p_cnt wp = 1 \<longrightarrow> p_w0 wp \<noteq> None)"

lemma getw_inv: "parser_inv wp \<Longrightarrow> getw wp = (r, wp') \<Longrightarrow> parser_inv wp'"
  by (auto simp: parser_inv_def getw_def rb_getw_def split: prod.splits if_splits option.splits)

lemma peek_inv:
  assumes "parser_inv wp" "peek wp = (ty, wp')"
  shows "parser_inv wp'" "ty \<noteq> EOF \<Longrightarrow> fst (getw wp') \<noteq> None"
  using assms
  by (auto simp: parser_inv_def peek_def getw_def rb_getw_def ungetw_def
      split: prod.splits if_splits option.splits)

text \<open>Argument nodes: a constant, or a list node with both its children.\<close>

inductive args_ok :: "scriptNode \<Rightarrow> bool" where
  leaf: "n_op n AND 255 \<noteq> O_ELIST \<Longrightarrow> args_ok n"
| node: "args_ok n2 \<Longrightarrow> args_ok (Node O_ELIST (Some n1) (Some n2) v)"

lemma parser2_inv:
  assumes "parser_inv wp" "parser2 wp = (wp', r)"
  shows "parser_inv wp' \<and> r \<noteq> Panic \<and> (\<forall>n. r = Ok n \<longrightarrow> args_ok n)"
proof -
  obtain t1 w1 where p1: "peek wp = (t1, w1)" by (cases "peek wp")
  obtain t2 w2 where p2: "peek w1 = (t2, w2)" by (cases "peek w1")
  obtain r1 x1 where g1: "getw w1 = (r1, x1)" by (cases "getw w1")
  obtain r2 x2 where g2: "getw w2 = (r2, x2)" by (cases "getw w2")
  note i1 = peek_inv [OF assms(1) p1] and i2 = peek_inv [OF peek_inv(1) [OF assms(1) p1] p2]
  have leaf: "args_ok (Node (O_CONST OR push_bit 8 t) None None v)" if "t = O_INT \<or> t = O_STRING" for t v
    using that by (auto intro!: leaf simp: O_CONST_def O_INT_def O_STRING_def O_ELIST_def)
  show ?thesis
    using assms(2) i1 i2 getw_inv [OF i1(1) g1] getw_inv [OF i2(1) g2] leaf
    by (auto simp: parser2_def p1 p2 g1 g2 split: if_splits option.splits)
qed

lemma parser1_inv:
  "parser_inv wp \<Longrightarrow> parser1 wp = (wp', r) \<Longrightarrow>
    parser_inv wp' \<and> r \<noteq> Panic \<and> (\<forall>n. r = Ok n \<longrightarrow> args_ok n)"
proof (induction wp arbitrary: wp' r rule: parser1.induct)
  case (1 wp)
  obtain wp1 r1 where p2: "parser2 wp = (wp1, r1)" by (cases "parser2 wp")
  note i1 = parser2_inv [OF "1.prems"(1) p2]
  show ?case
  proof (cases r1)
    case (Ok n1)
    obtain t2 wp2 where k2: "peek wp1 = (t2, wp2)" by (cases "peek wp1")
    obtain t3 wp3 where k3: "peek wp2 = (t3, wp3)" by (cases "peek wp2")
    obtain x g where g: "getw wp2 = (x, g)" by (cases "getw wp2")
    note i2 = peek_inv(1) [OF _ k2] and i3 = peek_inv(1) [OF _ k3] and ig = getw_inv [OF _ g]
    show ?thesis
    proof (cases "t2 = EOF \<or> \<not> detect1 PrimaryExpression t3")
      case True
      then show ?thesis
        using "1.prems"(2) i1 i2 i3 ig Ok
        by (auto simp: parser1.simps [of wp] p2 k2 k3 g split: if_splits)
    next
      case False
      obtain wp4 r4 where p1: "parser1 wp3 = (wp4, r4)" by (cases "parser1 wp3")
      have "parser_inv wp4 \<and> r4 \<noteq> Panic \<and> (\<forall>n. r4 = Ok n \<longrightarrow> args_ok n)"
        using "1.IH" [OF p2 [unfolded Ok, symmetric] refl k2 [symmetric] _ k3 [symmetric] _ _ p1]
          False i1 i2 i3 by simp
      then show ?thesis
        using "1.prems"(2) False Ok
        by (cases r4) (auto simp: parser1.simps [of wp] p2 k2 k3 p1 intro: args_ok.node)
    qed
  qed (use "1.prems"(2) i1 in \<open>auto simp: parser1.simps [of wp] p2\<close>)
qed

definition call_ok :: "scriptNode \<Rightarrow> bool" where
  "call_ok n \<longleftrightarrow> n_left n \<noteq> None \<and> (\<forall>m. n_right n = Some m \<longrightarrow> args_ok m)"

lemma parser0_inv:
  assumes "parser_inv wp" "parser0 wp = (wp', r)"
  shows "parser_inv wp' \<and> r \<noteq> Panic \<and> (\<forall>n. r = Ok n \<longrightarrow> call_ok n)"
proof -
  obtain t1 wp1 where k1: "peek wp = (t1, wp1)" by (cases "peek wp")
  obtain x wp2 where g: "getw wp1 = (x, wp2)" by (cases "getw wp1")
  obtain t3 wp3 where k3: "peek wp2 = (t3, wp3)" by (cases "peek wp2")
  obtain x' g' where g': "getw wp3 = (x', g')" by (cases "getw wp3")
  obtain wp4 r4 where p1: "parser1 wp3 = (wp4, r4)" by (cases "parser1 wp3")
  note i1 = peek_inv [OF assms(1) k1]
  note i2 = getw_inv [OF i1(1) g]
  note i3 = peek_inv(1) [OF i2 k3]
  note i4 = parser1_inv [OF i3 p1] getw_inv [OF i3 g']
  show ?thesis
    using assms(2) i1 i2 i3 i4
    by (auto simp: parser0_def k1 g k3 g' p1 Let_def call_ok_def split: if_splits option.splits outcome.splits)
qed

lemma Parser_loop_inv:
  "parser_inv wp \<Longrightarrow> \<forall>n \<in> set ns. call_ok n \<Longrightarrow>
    Parser_loop ns wp \<noteq> Panic \<and> (\<forall>xs. Parser_loop ns wp = Ok xs \<longrightarrow> (\<forall>n \<in> set xs. call_ok n))"
proof (induction ns wp rule: Parser_loop.induct)
  case (1 ns wp)
  obtain ty wp1 where k: "peek wp = (ty, wp1)" by (cases "peek wp")
  obtain wp2 r where p0: "parser0 wp1 = (wp2, r)" by (cases "parser0 wp1")
  note i1 = peek_inv(1) [OF "1.prems"(1) k]
  note i2 = parser0_inv [OF i1 p0]
  show ?case
  proof (cases "ty = IDENTIFIER \<and> (\<exists>n. r = Ok n)")
    case True
    then obtain n where n: "ty = IDENTIFIER" "r = Ok n" by blast
    have "Parser_loop ns wp = Parser_loop (ns @ [n]) wp2"
      using n by (simp add: Parser_loop.simps [of ns wp] k p0)
    then show ?thesis
      using "1.IH" [OF k [symmetric] _ _ p0 [symmetric] n(2)] n i2 "1.prems"(2) by simp
  next
    case False
    then show ?thesis
      using "1.prems"(2) i2 by (cases r) (auto simp: Parser_loop.simps [of ns wp] k p0)
  qed
qed

lemma take_arguments_safe:
  "(\<forall>m. np = Some m \<longrightarrow> args_ok m) \<Longrightarrow> \<exists>r. take_arguments tys np args = Ok r"
proof (induction tys np args rule: take_arguments.induct)
  case (3 ty tys np args)
  from 3(2) have ok: "args_ok np" by simp
  then have "argumentValue np \<noteq> None" "\<forall>m. nextArgument np = Some m \<longrightarrow> args_ok m"
    by (cases; simp add: argumentValue_def nextArgument_def O_ELIST_def)+
  then show ?case
    using 3(1) by (auto simp: takeArgument_def split: if_splits)
qed simp_all

lemma convert_nodes_safe:
  "call_ok (ns ! 0) \<Longrightarrow> \<exists>r. convert_nodes ns j xs = Ok r"
proof (induction ns j xs rule: convert_nodes.induct)
  case (2 ns j xs)
  have "\<exists>s. operate name tys (n_right (ns ! 0)) = Ok s" for name tys
    using take_arguments_safe [of "n_right (ns ! 0)" tys "[]"] "2.prems"
    by (auto simp: operate_def call_ok_def split: option.split)
  then have "\<exists>s. fp (n_right (ns ! 0)) = Ok s" if "operateRegistry name = Some fp" for name fp
    using that
    by (auto simp: operateRegistry_def operate0_def operate1_def operate2_def operate3_def operate4_def
        split: if_splits)
  then have "\<exists>r. obind (fp (n_right (ns ! 0))) (\<lambda>s. convert_nodes ns j (xs @ [s])) = Ok r"
    if "operateRegistry name = Some fp" "name = as_string (n_value l)" "n_left (ns ! 0) = Some l" for name fp l
    using that "2.IH" [of l fp] "2.prems" by fastforce
  with "2.prems" show ?case by (auto simp: call_ok_def split: option.split)
qed simp

text \<open>Every script of a result is the first one.\<close>

lemma convert_nodes_fixed:
  assumes "convert_nodes ns j xs = Ok r" "n_left (ns ! 0) = Some l"
    "operateRegistry (as_string (n_value l)) = Some fp" "fp (n_right (ns ! 0)) = Ok x"
  shows "r = xs @ replicate j x"
  using assms(1)
proof (induction j arbitrary: xs)
  case (Suc j)
  then have "convert_nodes ns j (xs @ [x]) = Ok r" using assms(2-4) by simp
  from Suc.IH [OF this] show ?case by simp
qed simp

lemma convert_nodes_first:
  assumes "convert_nodes ns j xs = Ok r"
  shows "r = [] \<or> (\<exists>x. r = xs @ replicate j x)"
  using assms
proof (induction ns j xs arbitrary: r rule: convert_nodes.induct)
  case (2 ns j xs)
  show ?case
  proof (cases "n_left (ns ! 0)")
    case (Some l)
    show ?thesis
    proof (cases "operateRegistry (as_string (n_value l))")
      case (Some fp)
      with \<open>n_left (ns ! 0) = Some l\<close> "2.prems" obtain x where
        x: "fp (n_right (ns ! 0)) = Ok x" "convert_nodes ns j (xs @ [x]) = Ok r"
        by (cases "fp (n_right (ns ! 0))") auto
      have "r = [] \<or> r = xs @ replicate (Suc j) x"
        using x \<open>n_left (ns ! 0) = Some l\<close> Some
        by (auto dest: convert_nodes_fixed)
      then show ?thesis by blast
    qed (use Some "2.prems" in simp)
  qed (use "2.prems" in simp)
qed simp

section \<open>Properties\<close>

text \<open>C21: A statement printed with quoted texts and decimal numbers parses back to its one script: the
  five statements, each with arguments of its types.\<close>
theorem Parser_print_statement:
  assumes "statement_types name = Some tys" "list_all2 fits tys vs"
  shows "Parser (print_call name vs) = Ok [Some (call_script name tys vs)]"
  by (rule Parser_call [OF assms])

lemma Parser_print_statement_witness:
  "Parser (print_call (lit ''mint'') [VString (lit ''a''), VUint 7]) =
    Ok [Some (call_script (lit ''mint'') [TOKENID, AMOUNT] [VString (lit ''a''), VUint 7])]"
proof (rule Parser_print_statement)
  show "statement_types (lit ''mint'') = Some [TOKENID, AMOUNT]"
    by (simp add: statement_types_def lit_def)
  show "list_all2 fits [TOKENID, AMOUNT] [VString (lit ''a''), VUint 7]"
    by (simp add: fits_def typList_def TOKENID_def AMOUNT_def O_STRING_def O_INT_def quotable_def lit_def)
qed

text \<open>C22: Parsing ends and never panics, whatever the bytes of the script are; a script that does not parse
  gives the empty list.\<close>
theorem Parser_total: "\<exists>xs. Parser data = Ok xs"
proof -
  have i: "parser_inv (NewParser data)" by (simp add: parser_inv_def NewParser_def)
  show ?thesis
  proof (cases "Parser_loop [] (NewParser data)")
    case (Ok ns)
    then have "\<forall>n \<in> set ns. call_ok n" using Parser_loop_inv [OF i, of "[]"] by simp
    then have "\<exists>r. convert_nodes ns (length ns) [] = Ok r"
      by (cases ns) (auto intro: convert_nodes_safe simp del: convert_nodes.simps(2))
    with Ok show ?thesis by (simp add: Parser_def)
  next
    case Panic
    then show ?thesis using Parser_loop_inv [OF i, of "[]"] by simp
  qed (simp add: Parser_def)
qed

definition two_statements :: bytes where
  "two_statements = lit ''freeze '' @ [34, 97, 34, 32, 34, 98, 34] @ lit '';;mint''"

lemma two_statements_nodes:
  "Parser_loop [] (NewParser two_statements) =
    Ok [call_node (lit ''freeze'') [VString [97], VString [98]],
      Node O_CALL (Some (Node O_NAME None None (VString (lit ''mint'')))) None VNil]"
  by code_simp

lemma two_statements_scripts:
  "Parser two_statements =
    Ok (replicate 2 (Some (call_script (lit ''freeze'') [TOKENID, ADDRESS] [VString [97], VString [98]])))"
proof -
  have "operate (lit ''freeze'') [TOKENID, ADDRESS] (Some (args_node [VString [97], VString [98]])) =
      Ok (Some (call_script (lit ''freeze'') [TOKENID, ADDRESS] [VString [97], VString [98]]))"
    by (rule operate_node [of _ _ "[]", simplified])
       (simp_all add: fits_def typList_def TOKENID_def ADDRESS_def O_STRING_def quotable_def)
  then show ?thesis
    by (simp add: Parser_def two_statements_nodes call_node_def statement_registry(4)
        numeral_2_eq_2)
qed

text \<open>However many statements a script has, every entry of the result is the first statement's: the
  conversion reads the first node in every round.\<close>
theorem Parser_repeats_first:
  assumes "Parser data = Ok xs"
  shows "\<exists>x. xs = replicate (length xs) x"
proof (cases "Parser_loop [] (NewParser data)")
  case (Ok ns)
  with assms have "convert_nodes ns (length ns) [] = Ok xs" by (simp add: Parser_def)
  from convert_nodes_first [OF this] show ?thesis by auto
qed (use assms in \<open>simp_all add: Parser_def\<close>)

lemma Parser_repeats_first_witness:
  "\<exists>x. replicate 2 (Some (call_script (lit ''freeze'') [TOKENID, ADDRESS] [VString [97], VString [98]])) =
    replicate (length (replicate 2
      (Some (call_script (lit ''freeze'') [TOKENID, ADDRESS] [VString [97], VString [98]])))) x"
  by (rule Parser_repeats_first [OF two_statements_scripts])

end
