(* ===== verification/Chain.thy ===== *)
theory Chain
  imports Ledger Exec Parser
begin

text \<open>
  The chain (\<open>blockchain/blockchain.go\<close>) and its genesis (\<open>init.go\<close>): appending a block, making one,
  checking a received one, and the look-ups. A \<open>Blockchain\<close> is its two databases, the ledger's and
  the contracts'. Parameters: \<open>json\<close> holds the marshalled form of transactions and blocks and the
  decoding of a text into a struct, \<open>sha256\<close> and \<open>sha3\<close> the digests, \<open>ed\<close> the signatures, \<open>now\<close> the
  clock, and \<open>ord\<close> the order in which \<open>Flush\<close> takes the pairs of the contract's map. The mutex and
  the log are not modelled.
\<close>

section \<open>State and encodings\<close>

record 'd Blockchain =
  bc_db :: 'd
  bc_cdb :: 'd

text \<open>
  \<open>json.Unmarshal\<close> changes its target and may fail half-way, so it is an act on the target. \<open>js_null\<close>
  recognises the text \<open>null\<close>, which sets a pointer target to nil and leaves a struct alone.
\<close>

record json =
  js_tx :: "transaction \<Rightarrow> bytes"
  js_txs :: "transaction list \<Rightarrow> bytes"
  js_Blocks :: "Blocks \<Rightarrow> bytes"
  uj_tx :: "bytes \<Rightarrow> (transaction, unit) act"
  uj_Block :: "bytes \<Rightarrow> (Block, unit) act"
  uj_Blocks :: "bytes \<Rightarrow> (Blocks, unit) act"
  js_null :: "bytes \<Rightarrow> bool"

definition zero_Blocks :: Blocks where
  "zero_Blocks = \<lparr> sHeight = 0, sPrevBlockHash = [], sTxs = [], sRoot = [], sVersion = 0,
     sTimestamp = 0, sHash = [], sMiner = [], sRes = [], sFirstTx = [] \<rparr>"

definition unmarshal :: "(bytes \<Rightarrow> ('a, unit) act) \<Rightarrow> 'a \<Rightarrow> bytes \<Rightarrow> 'a outcome" where
  "unmarshal f z b = snd (abind (f b) (\<lambda>_ x. (x, Ok x)) z)"

section \<open>Appending a block\<close>

definition setTxbyaddr :: "('d, 't) Transaction \<Rightarrow> json \<Rightarrow> bytes \<Rightarrow> transaction \<Rightarrow> ('t, unit) act" where
  "setTxbyaddr T js addr txs = tx_Mset T addr (tHash txs) (js_tx js txs)"

definition setBlockdata ::
  "('d, 't) Transaction \<Rightarrow> bytes \<Rightarrow> bytes \<Rightarrow> bytes \<Rightarrow> bytes \<Rightarrow> ('t, unit) act" where
  "setBlockdata T blockhash txhash txdata h =
     abind (tx_Mset T blockhash txhash txdata) (\<lambda>_.
     abind (tx_Mset T txhash txdata h) (\<lambda>_.
     tx_Set T txhash txdata))"

fun pay_miners :: "('d, 't) Transaction \<Rightarrow> MinerTx list \<Rightarrow> ('t, unit) act" where
  "pay_miners T [] t = (t, Ok ())"
| "pay_miners T (mintx # ms) t =
     abind (setMinerAccount T (mRecAddress mintx) (mAmount mintx)) (\<lambda>_. pay_miners T ms) t"

text \<open>
  The script of a transaction. \<open>exec.New\<close> returns a nil \<open>*exec\<close> with an error, and \<open>e.Flush()\<close> is
  called all the same: it dereferences the nil pointer. A failing flush is noted in \<open>Errmsg\<close>.
\<close>

definition run_contract ::
  "('d, 't) DB \<Rightarrow> ('d, 't) Transaction \<Rightarrow> (writeset \<Rightarrow> (gostring \<times> gostring) list) \<Rightarrow> transaction \<Rightarrow>
    ('d, transaction) act" where
  "run_contract D T ord Tx cd =
     (case obind (Parser (tScript Tx)) (\<lambda>sc. exec_New D cd sc (AddressToByte (tFrom Tx))) of
        Err e \<Rightarrow> (cd, Panic)
      | Panic \<Rightarrow> (cd, Panic)
      | Ok e \<Rightarrow>
          (case exec_Flush D T (ord (e_mp e)) cd of
             (cd, Ok _) \<Rightarrow> (cd, Ok Tx)
           | (cd, Err _) \<Rightarrow> (cd, Ok (Tx\<lparr> tErrmsg := lit ''flush code is failed'' \<rparr>))
           | (cd, Panic) \<Rightarrow> (cd, Panic)))"

text \<open>The rest of the loop body: the miner's fee, the two address indices, the accounts, the data.\<close>

definition record_tx ::
  "('d, 't) Transaction \<Rightarrow> json \<Rightarrow> bytes \<Rightarrow> u64 \<Rightarrow> bytes \<Rightarrow> transaction \<Rightarrow> ('t, unit) act" where
  "record_tx T js bhash h minaddr Tx =
     abind (if tScript Tx \<noteq> [] then setMinerFee T minaddr (tFee Tx) else aret ()) (\<lambda>_.
     abind (setTxbyaddr T js (AddressToByte (tFrom Tx)) Tx) (\<lambda>_.
     abind (setTxbyaddr T js (AddressToByte (tTo Tx)) Tx) (\<lambda>_.
     abind (setAccount T (AddressToByte (tFrom Tx)) (AddressToByte (tTo Tx)) (tAmount Tx) (tNonce Tx) Tx) (\<lambda>_.
     aignore (setBlockdata T bhash (tHash Tx) (js_tx js Tx) (E64func h)) (aret ())))))"

fun add_txs ::
  "('d, 't) DB \<Rightarrow> ('d, 't) Transaction \<Rightarrow> json \<Rightarrow> (writeset \<Rightarrow> (gostring \<times> gostring) list) \<Rightarrow>
    bytes \<Rightarrow> u64 \<Rightarrow> bytes \<Rightarrow> transaction list \<Rightarrow> ('t \<times> 'd, unit) act" where
  "add_txs D T js ord bhash h minaddr [] s = (s, Ok ())"
| "add_txs D T js ord bhash h minaddr (Tx # txs) (t, cd) =
     (case (if tScript Tx \<noteq> [] then run_contract D T ord Tx cd else (cd, Ok Tx)) of
        (cd, Err e) \<Rightarrow> ((t, cd), Err e)
      | (cd, Panic) \<Rightarrow> ((t, cd), Panic)
      | (cd, Ok Tx) \<Rightarrow>
          (case record_tx T js bhash h minaddr Tx t of
             (t, Ok _) \<Rightarrow> add_txs D T js ord bhash h minaddr txs (t, cd)
           | (t, Err e) \<Rightarrow> ((t, cd), Err e)
           | (t, Panic) \<Rightarrow> ((t, cd), Panic)))"

text \<open>The writes before the transactions; \<open>v\<close> is the stored height, \<open>h\<close> the new one.\<close>

definition add_header ::
  "('d, 't) Transaction \<Rightarrow> json \<Rightarrow> Blocks \<Rightarrow> bytes \<Rightarrow> u64 \<Rightarrow> ('t, unit) act" where
  "add_header T js b v h =
     abind (tx_Mset T (E64func h) (lit ''hash'') (sHash b)) (\<lambda>_.
     abind (tx_Set T (sHash b) (js_Blocks js b)) (\<lambda>_.
     abind (tx_Set T v (E64func (h + 1))) (\<lambda>_.
     aignore (tx_Del T (lit ''height''))
       (aignore (tx_Set T (lit ''height'') (E64func h))
         (pay_miners T (sFirstTx b))))))"

definition AddBlock ::
  "('d, 't) DB \<Rightarrow> ('d, 't) Transaction \<Rightarrow> json \<Rightarrow> (writeset \<Rightarrow> (gostring \<times> gostring) list) \<Rightarrow>
    Blocks \<Rightarrow> bytes \<Rightarrow> ('d Blockchain, unit) act" where
  "AddBlock D T js ord b minaddr bc =
     (let tx = db_NewTransaction D (bc_db bc) in
      case tx_Get T tx (lit ''height'') of
        Err e \<Rightarrow> (bc, Err e)
      | Panic \<Rightarrow> (bc, Panic)
      | Ok v \<Rightarrow>
          let h = or_zero 0 (D64func v) + 1 in
          (case add_header T js b v h tx of
             (tx, Err e) \<Rightarrow> (bc, Err e)
           | (tx, Panic) \<Rightarrow> (bc, Panic)
           | (tx, Ok _) \<Rightarrow>
               (case add_txs D T js ord (sHash b) h minaddr (sTxs b) (tx, bc_cdb bc) of
                  ((tx, cd), Err e) \<Rightarrow> (bc\<lparr> bc_cdb := cd \<rparr>, Err e)
                | ((tx, cd), Panic) \<Rightarrow> (bc\<lparr> bc_cdb := cd \<rparr>, Panic)
                | ((tx, cd), Ok _) \<Rightarrow>
                    (case tx_Commit T tx (bc_db bc) of
                       (d, r) \<Rightarrow> (\<lparr> bc_db = d, bc_cdb = cd \<rparr>, r)))))"

section \<open>Looking up\<close>

definition GetBlockByHash :: "('d, 't) DB \<Rightarrow> json \<Rightarrow> 'd \<Rightarrow> bytes \<Rightarrow> Block option outcome" where
  "GetBlockByHash D js d hash =
     obind (db_Get D d hash) (\<lambda>b. Ok (if js_null js b then None else Some (fst (uj_Block js b NewBlock0))))"

definition GetBlockByHeight :: "('d, 't) DB \<Rightarrow> json \<Rightarrow> 'd \<Rightarrow> u64 \<Rightarrow> Block outcome" where
  "GetBlockByHeight D js d h =
     obind (db_Mget D d (E64func h) (lit ''hash'')) (\<lambda>hash.
     obind (db_Get D d hash) (\<lambda>B. unmarshal (uj_Block js) NewBlock0 B))"

definition GetTransaction :: "('d, 't) DB \<Rightarrow> json \<Rightarrow> 'd \<Rightarrow> bytes \<Rightarrow> transaction option outcome" where
  "GetTransaction D js d hash =
     obind (db_Get D d hash) (\<lambda>tx.
       if js_null js tx then Ok None
       else obind (unmarshal (uj_tx js) zero_transaction tx) (\<lambda>tran. Ok (Some tran)))"

definition GetTransactionHeight :: "('d, 't) DB \<Rightarrow> 'd \<Rightarrow> bytes \<Rightarrow> u64 outcome" where
  "GetTransactionHeight D d hash =
     obind (db_Get D d hash) (\<lambda>tx_data. obind (db_Mget D d hash tx_data) D64func)"

fun unmarshal_txs :: "json \<Rightarrow> bytes list \<Rightarrow> transaction list \<Rightarrow> transaction list outcome" where
  "unmarshal_txs js [] ts = Ok ts"
| "unmarshal_txs js (tx # txs) ts =
     obind (unmarshal (uj_tx js) zero_transaction tx) (\<lambda>tran. unmarshal_txs js txs (ts @ [tran]))"

definition GetTransactionByAddr ::
  "('d, 't) DB \<Rightarrow> ('d, 't) Transaction \<Rightarrow> json \<Rightarrow> bytes \<Rightarrow> ('d, transaction list) act" where
  "GetTransactionByAddr D T js addr =
     read_commit D T (\<lambda>tx. obind (tx_Mkvs T tx addr) (\<lambda>(ks, vs). unmarshal_txs js vs []))"

definition GetTransactionByHash ::
  "('d, 't) DB \<Rightarrow> ('d, 't) Transaction \<Rightarrow> json \<Rightarrow> bytes \<Rightarrow> ('d, transaction) act" where
  "GetTransactionByHash D T js hash =
     read_commit D T (\<lambda>tx. obind (tx_Get T tx hash) (unmarshal (uj_tx js) zero_transaction))"

text \<open>
  \<open>for i := lastHeight; i <= currentHeight; i++\<close>. With \<open>currentHeight\<close> the largest 64-bit number the
  loop condition never fails; not returning is \<open>None\<close>.
\<close>

partial_function (option) block_section ::
  "('d, 't) DB \<Rightarrow> json \<Rightarrow> 'd \<Rightarrow> u64 \<Rightarrow> u64 \<Rightarrow> Blocks list \<Rightarrow> Blocks list outcome option" where
  "block_section D js d currentHeight i bs =
     (if \<not> i \<le> currentHeight then Some (Ok bs)
      else Option.bind
        (Some (obind (db_Mget D d (E64func i) (lit ''hash'')) (\<lambda>hash.
          obind (db_Get D d hash) (\<lambda>B. unmarshal (uj_Blocks js) zero_Blocks B))))
        (\<lambda>r. if is_ok r then block_section D js d currentHeight (i + 1) (bs @ [or_zero zero_Blocks r])
             else Some (obind r (\<lambda>_. Ok []))))"

definition GetBlockSection ::
  "('d, 't) DB \<Rightarrow> json \<Rightarrow> 'd \<Rightarrow> u64 \<Rightarrow> u64 \<Rightarrow> Blocks list outcome option" where
  "GetBlockSection D js d currentHeight lastHeight = block_section D js d currentHeight lastHeight []"

definition GetTokenBalance :: "('d, 't) DB \<Rightarrow> 'd \<Rightarrow> bytes \<Rightarrow> bytes \<Rightarrow> u64 outcome" where
  "GetTokenBalance D cd addr tok =
     (case Balance D cd tok addr of
        Ok b \<Rightarrow> Ok b
      | Err e \<Rightarrow> Err (ErrText ''err:please check token symbol'')
      | Panic \<Rightarrow> Panic)"

section \<open>Making a block\<close>

definition NewBlock ::
  "(bytes \<Rightarrow> bytes) \<Rightarrow> (bytes \<Rightarrow> bytes) \<Rightarrow> ed25519 \<Rightarrow> ('d, 't) DB \<Rightarrow> ('d, 't) Transaction \<Rightarrow> json \<Rightarrow>
    i64 \<Rightarrow> transaction list \<Rightarrow> bytes \<Rightarrow> bytes \<Rightarrow> bytes \<Rightarrow> bytes \<Rightarrow> 'd \<Rightarrow> ('d \<times> Block outcome) option" where
  "NewBlock sha256 sha3 ed D T js now tr minaddr Ds Cm QTJ d =
     (case read_commit D T (\<lambda>tx. obind (tx_Get T tx (lit ''height'')) D64func) d of
        (d, Err e) \<Rightarrow> Some (d, Err e)
      | (d, Panic) \<Rightarrow> Some (d, Panic)
      | (d, Ok h_c) \<Rightarrow>
          let tr = map (\<lambda>txc. txc\<lparr> tBlockNumber := h_c + 1 \<rparr>) tr in
          (case merkle_hash sha256 (map (js_tx js) tr) of
             None \<Rightarrow> None
           | Some r \<Rightarrow> Some (d,
               obind r (\<lambda>root.
               let ht = E64func h_c in
               obind (db_Mget D d ht (lit ''hash'')) (\<lambda>bhash.
               obind (D64func ht) (\<lambda>v1.
               let hd1 = v1 + 1 in
               obind (Distr ed tr minaddr Ds Cm QTJ hd1) (\<lambda>mintx.
               Ok (Block_SetHash sha3 (js_txs js)
                 \<lparr> bHeight = hd1, bPrevBlockHash = bhash, bTxs = tr, bRoot = root, bVersion = 1,
                   bTimestamp = now, bHash = [], bMiner = minaddr, bTxres = Map.empty,
                   bFirstTx = mintx \<rparr>))))))))"

section \<open>Checking a received block\<close>

text \<open>
  \<open>Calculationresults\<close> writes into the block's own \<open>Txres\<close>. The fee is subtracted only for a sender
  that already has an entry.
\<close>

definition calc_from ::
  "('d, 't) DB \<Rightarrow> ('d, 't) Transaction \<Rightarrow> transaction \<Rightarrow> (Address \<Rightarrow> u64 option) \<Rightarrow> ('d, Address \<Rightarrow> u64 option) act" where
  "calc_from D T tx res d =
     (case res (tFrom tx) of
        Some bal \<Rightarrow>
          let bal = bal - tAmount tx; bal = (if tScript tx \<noteq> [] then bal - tFee tx else bal)
          in (d, Ok (res(tFrom tx \<mapsto> bal)))
      | None \<Rightarrow>
          (case GetBalance D T (AddressToByte (tFrom tx)) d of (d, r) \<Rightarrow>
           if r = Panic then (d, Panic) else (d, Ok (res(tFrom tx \<mapsto> or_zero 0 r - tAmount tx)))))"

definition calc_to ::
  "('d, 't) DB \<Rightarrow> ('d, 't) Transaction \<Rightarrow> transaction \<Rightarrow> (Address \<Rightarrow> u64 option) \<Rightarrow> ('d, Address \<Rightarrow> u64 option) act" where
  "calc_to D T tx res d =
     (case res (tTo tx) of
        Some bal \<Rightarrow> (d, Ok (res(tTo tx \<mapsto> bal + tAmount tx)))
      | None \<Rightarrow>
          (case GetBalance D T (AddressToByte (tTo tx)) d of (d, r) \<Rightarrow>
           if r = Panic then (d, Panic) else (d, Ok (res(tTo tx \<mapsto> or_zero 0 r + tAmount tx)))))"

fun calc_txs ::
  "('d, 't) DB \<Rightarrow> ('d, 't) Transaction \<Rightarrow> transaction list \<Rightarrow> (Address \<Rightarrow> u64 option) \<Rightarrow>
    ('d, Address \<Rightarrow> u64 option) act" where
  "calc_txs D T [] res d = (d, Ok res)"
| "calc_txs D T (tx # txs) res d =
     abind (calc_from D T tx res) (\<lambda>res. abind (calc_to D T tx res) (\<lambda>res. calc_txs D T txs res)) d"

definition Calculationresults :: "('d, 't) DB \<Rightarrow> ('d, 't) Transaction \<Rightarrow> Block \<Rightarrow> ('d, Block) act" where
  "Calculationresults D T b =
     abind (calc_txs D T (bTxs b) (bTxres b)) (\<lambda>res. aret (b\<lparr> bTxres := res \<rparr>))"

definition txres_at :: "Block \<Rightarrow> Address \<Rightarrow> u64" where
  "txres_at b a = (case bTxres b a of None \<Rightarrow> 0 | Some v \<Rightarrow> v)"

text \<open>The error of \<open>exec.New\<close> is dropped; \<open>e.Root()\<close> on the nil it then returns panics.\<close>

definition script_root ::
  "(bytes \<Rightarrow> bytes) \<Rightarrow> ('d, 't) DB \<Rightarrow> 'd \<Rightarrow> transaction \<Rightarrow> bytes outcome option" where
  "script_root sha3 D cd tx =
     (case obind (Parser (tScript tx)) (\<lambda>sc. exec_New D cd sc (AddressToByte (tFrom tx))) of
        Ok e \<Rightarrow> exec_Root sha3 e
      | Err e \<Rightarrow> Some Panic
      | Panic \<Rightarrow> Some Panic)"

definition check_tx ::
  "(bytes \<Rightarrow> bytes) \<Rightarrow> ('d, 't) DB \<Rightarrow> 'd \<Rightarrow> Block \<Rightarrow> Block \<Rightarrow> transaction \<Rightarrow> bool outcome option" where
  "check_tx sha3 D cd bres brs tx =
     (case (if tScript tx \<noteq> [] then script_root sha3 D cd tx else Some (Ok (tRoot tx))) of
        None \<Rightarrow> None
      | Some r \<Rightarrow> Some (obind r (\<lambda>ert. Ok
          (tRoot tx = ert \<and> bTxres brs (tFrom tx) \<noteq> None \<and> bTxres brs (tTo tx) \<noteq> None \<and>
           txres_at bres (tFrom tx) = txres_at brs (tFrom tx) \<and>
           txres_at bres (tTo tx) = txres_at brs (tTo tx)))))"

fun check_txs ::
  "(bytes \<Rightarrow> bytes) \<Rightarrow> ('d, 't) DB \<Rightarrow> 'd \<Rightarrow> Block \<Rightarrow> Block \<Rightarrow> transaction list \<Rightarrow> bool outcome option" where
  "check_txs sha3 D cd bres brs [] = Some (Ok True)"
| "check_txs sha3 D cd bres brs (tx # txs) =
     (case check_tx sha3 D cd bres brs tx of
        None \<Rightarrow> None
      | Some (Ok ok) \<Rightarrow> if ok then check_txs sha3 D cd bres brs txs else Some (Ok False)
      | Some (Err e) \<Rightarrow> Some (Err e)
      | Some Panic \<Rightarrow> Some Panic)"

fun sum_rewards :: "MinerTx list \<Rightarrow> (bytes \<Rightarrow> u64 option) \<Rightarrow> bytes \<Rightarrow> u64 option" where
  "sum_rewards [] m = m"
| "sum_rewards (mt # mts) m =
     sum_rewards mts (m(mRecAddress mt \<mapsto>
       (case m (mRecAddress mt) of None \<Rightarrow> mAmount mt | Some a \<Rightarrow> a + mAmount mt)))"

text \<open>\<open>for addr := range maptx\<close>: only the addresses of the computed rewards are compared.\<close>

definition rewards_match :: "MinerTx list \<Rightarrow> MinerTx list \<Rightarrow> bool" where
  "rewards_match mtx first =
     (let maptx = sum_rewards mtx Map.empty; oldmaptx = sum_rewards first Map.empty
      in list_all (\<lambda>mt. (case maptx (mRecAddress mt) of None \<Rightarrow> 0 | Some v \<Rightarrow> v) =
          (case oldmaptx (mRecAddress mt) of None \<Rightarrow> 0 | Some v \<Rightarrow> v)) mtx)"

text \<open>
  \<open>bres := Bc.Calculationresults(brs)\<close> is the pointer \<open>brs\<close> itself, so both names are the block with
  the new results. The loops at the end only empty local maps.
\<close>

definition Checkresults ::
  "(bytes \<Rightarrow> bytes) \<Rightarrow> ed25519 \<Rightarrow> ('d, 't) DB \<Rightarrow> ('d, 't) Transaction \<Rightarrow> Blocks \<Rightarrow> bytes \<Rightarrow> bytes \<Rightarrow> bytes \<Rightarrow>
    'd Blockchain \<Rightarrow> ('d Blockchain \<times> bool outcome) option" where
  "Checkresults sha3 ed D T rbl Ds Cm qtj bc =
     (case Calculationresults D T (blocks_change rbl) (bc_db bc) of
        (d, Err e) \<Rightarrow> Some (bc\<lparr> bc_db := d \<rparr>, Err e)
      | (d, Panic) \<Rightarrow> Some (bc\<lparr> bc_db := d \<rparr>, Panic)
      | (d, Ok bres) \<Rightarrow>
          let brs = bres in
          (case check_txs sha3 D (bc_cdb bc) bres brs (bTxs brs) of
             None \<Rightarrow> None
           | Some r \<Rightarrow> Some (bc\<lparr> bc_db := d \<rparr>,
               obind r (\<lambda>ok. if \<not> ok then Ok False
                 else obind (Distr ed (sTxs rbl) (sMiner rbl) Ds Cm qtj (sHeight rbl)) (\<lambda>mtx.
                   Ok (rewards_match mtx (sFirstTx rbl)))))))"

section \<open>The genesis block\<close>

definition genesis_miner :: gostring where
  "genesis_miner = lit ''KtoHe5H9jvViYgysX7ma8RW6LKLxks2GTdDpat5mGLnZxdV''"

definition genesis_block :: "(bytes \<Rightarrow> bytes) \<Rightarrow> (bytes \<Rightarrow> bytes) \<Rightarrow> json \<Rightarrow> Blocks outcome option" where
  "genesis_block sha256 sha3 js =
     (case merkle_hash sha256 [] of
        None \<Rightarrow> None
      | Some r \<Rightarrow> Some (obind r (\<lambda>root. Ok (Blocks_SetHash sha3 (js_txs js)
          \<lparr> sHeight = 1, sPrevBlockHash = [], sTxs = [], sRoot = root, sVersion = 1,
            sTimestamp = 1577256099, sHash = [], sMiner = genesis_miner, sRes = [], sFirstTx = [] \<rparr>))))"

definition genesis_AddBlock :: "('d, 't) DB \<Rightarrow> ('d, 't) Transaction \<Rightarrow> json \<Rightarrow> Blocks \<Rightarrow> ('d, unit) act" where
  "genesis_AddBlock D T js b d =
     (case abind (tx_Mset T (E64func 1) (lit ''hash'') (sHash b)) (\<lambda>_.
        abind (tx_Set T (sHash b) (js_Blocks js b)) (\<lambda>_.
        abind (tx_Set T (E64func 1) (E64func 2)) (\<lambda>_.
        aignore (tx_Del T (lit ''height''))
          (aignore (tx_Set T (lit ''height'') (E64func 1))
            (MinerAccount T (AddressToByte (BytesToAddress (sMiner b))) 1000000000000000000)))))
        (db_NewTransaction D d) of
        (tx, Ok _) \<Rightarrow> tx_Commit T tx d
      | (tx, Err e) \<Rightarrow> (d, Err e)
      | (tx, Panic) \<Rightarrow> (d, Panic))"

end
