(* ===== verification/ChainEffects.thy ===== *)
theory ChainEffects
  imports Chain
begin

text \<open>
  What appending a block does to the stored content, as functions on the content, and the proof that
  \<open>AddBlock\<close> does that through any store that keeps the laws of \<open>store_tx\<close>.
\<close>

section \<open>Effects on the content\<close>

type_synonym content = "bytes \<Rightarrow> bytes option"

definition credit :: "bytes \<Rightarrow> u64 \<Rightarrow> content \<Rightarrow> content" where
  "credit a amount c = c(a \<mapsto> E64func (num_at c a + amount))"

definition credit_all :: "MinerTx list \<Rightarrow> content \<Rightarrow> content" where
  "credit_all ms c = foldl (\<lambda>c m. credit (mRecAddress m) (mAmount m) c) c ms"

definition move :: "bytes \<Rightarrow> bytes \<Rightarrow> u64 \<Rightarrow> u64 \<Rightarrow> u64 \<Rightarrow> content \<Rightarrow> content" where
  "move from to amount fee nonce c =
     c(from \<mapsto> E64func (num_at c from - amount - fee), to \<mapsto> E64func (num_at c to + amount),
       nonce_key from \<mapsto> E64func (nonce + 1))"

definition tx_effect :: "json \<Rightarrow> bytes \<Rightarrow> u64 \<Rightarrow> bytes \<Rightarrow> transaction \<Rightarrow> content \<Rightarrow> content" where
  "tx_effect js bhash h minaddr Tx c =
     (let c = (if tScript Tx \<noteq> [] then credit minaddr (tFee Tx) c else c);
          c = c(eMapKey (tFrom Tx) (tHash Tx) \<mapsto> js_tx js Tx, eMapKey (tTo Tx) (tHash Tx) \<mapsto> js_tx js Tx);
          c = move (tFrom Tx) (tTo Tx) (tAmount Tx) (tFee Tx) (tNonce Tx) c
      in c(eMapKey bhash (tHash Tx) \<mapsto> js_tx js Tx, eMapKey (tHash Tx) (js_tx js Tx) \<mapsto> E64func h,
           tHash Tx \<mapsto> js_tx js Tx))"

definition header_effect :: "json \<Rightarrow> Blocks \<Rightarrow> u64 \<Rightarrow> content \<Rightarrow> content" where
  "header_effect js b h c =
     credit_all (sFirstTx b)
       (c(eMapKey (E64func h) (lit ''hash'') \<mapsto> sHash b, sHash b \<mapsto> js_Blocks js b,
          E64func (h - 1) \<mapsto> E64func (h + 1), lit ''height'' \<mapsto> E64func h))"

definition block_effect ::
  "json \<Rightarrow> Blocks \<Rightarrow> bytes \<Rightarrow> u64 \<Rightarrow> transaction list \<Rightarrow> content \<Rightarrow> content" where
  "block_effect js b minaddr h txs c =
     foldl (\<lambda>c Tx. tx_effect js (sHash b) h minaddr Tx c) (header_effect js b h c) txs"

text \<open>The transactions as they are stored: unchanged, or with the note of a failed flush.\<close>

definition noted :: "transaction \<Rightarrow> transaction \<Rightarrow> bool" where
  "noted Tx Tx' \<longleftrightarrow> Tx' = Tx \<or> Tx' = Tx\<lparr> tErrmsg := lit ''flush code is failed'' \<rparr>"

text \<open>The sizes the program keeps: addresses of 47 bytes, hashes of 32.\<close>

definition tx_shape :: "transaction \<Rightarrow> bool" where
  "tx_shape Tx \<longleftrightarrow> length (tFrom Tx) = 47 \<and> length (tTo Tx) = 47 \<and> length (tHash Tx) = 32"

definition block_shape :: "Blocks \<Rightarrow> bytes \<Rightarrow> bool" where
  "block_shape b minaddr \<longleftrightarrow> length (sHash b) = 32 \<and> length minaddr = 47 \<and>
     (\<forall>m \<in> set (sFirstTx b). length (mRecAddress m) = 47) \<and>
     (\<forall>Tx \<in> set (sTxs b). tx_shape Tx)"

text \<open>All that storing a block needs is that no key is empty.\<close>

definition tx_keys :: "transaction \<Rightarrow> bool" where
  "tx_keys Tx \<longleftrightarrow> tFrom Tx \<noteq> [] \<and> tTo Tx \<noteq> [] \<and> tHash Tx \<noteq> []"

definition block_keys :: "Blocks \<Rightarrow> bytes \<Rightarrow> bool" where
  "block_keys b minaddr \<longleftrightarrow> sHash b \<noteq> [] \<and> minaddr \<noteq> [] \<and> (\<forall>m \<in> set (sFirstTx b). mRecAddress m \<noteq> []) \<and>
     (\<forall>Tx \<in> set (sTxs b). tx_keys Tx)"

lemma shape_keys: "tx_shape Tx \<Longrightarrow> tx_keys Tx" "block_shape b minaddr \<Longrightarrow> block_keys b minaddr"
  by (auto simp: tx_shape_def tx_keys_def block_shape_def block_keys_def)

lemma noted_keys: "noted Tx Tx' \<Longrightarrow> tx_keys Tx \<Longrightarrow> tx_keys Tx'"
  by (auto simp: noted_def tx_keys_def)

lemma noted_shape: "noted Tx Tx' \<Longrightarrow> tx_shape Tx \<Longrightarrow> tx_shape Tx'"
  by (auto simp: noted_def tx_shape_def)

lemma noted_fields:
  "noted Tx Tx' \<Longrightarrow> tFrom Tx' = tFrom Tx \<and> tTo Tx' = tTo Tx \<and> tHash Tx' = tHash Tx \<and>
    tFee Tx' = tFee Tx \<and> tScript Tx' = tScript Tx \<and> tAmount Tx' = tAmount Tx \<and> tNonce Tx' = tNonce Tx"
  by (auto simp: noted_def)

section \<open>The operations have these effects\<close>

context store_tx begin

text \<open>
  \<open>does m f\<close>: the act succeeds, changes what the transaction sees by \<open>f\<close>, and keeps the transaction in
  step with the content it was opened on, so that a commit stores what it sees.
\<close>

definition in_step :: "'t \<Rightarrow> content \<Rightarrow> bool" where
  "in_step t c \<longleftrightarrow> seen t = overlay (pending t) c"

definition does :: "('t, 'x) act \<Rightarrow> (content \<Rightarrow> content) \<Rightarrow> bool" where
  "does m f \<longleftrightarrow> (\<forall>t. is_ok (snd (m t)) \<and> seen (fst (m t)) = f (seen t) \<and>
     (\<forall>c. in_step t c \<longrightarrow> in_step (fst (m t)) c))"

lemma doesI:
  "(\<And>t. \<exists>t' x. m t = (t', Ok x) \<and> seen t' = f (seen t) \<and> (\<forall>c. in_step t c \<longrightarrow> in_step t' c)) \<Longrightarrow> does m f"
  unfolding does_def by (metis fst_conv snd_conv is_ok.simps(1))

lemma doesD:
  "does m f \<Longrightarrow> \<exists>t' x. m t = (t', Ok x) \<and> seen t' = f (seen t) \<and> (\<forall>c. in_step t c \<longrightarrow> in_step t' c)"
  unfolding does_def by (metis is_ok_iff prod.collapse)

lemma does_abind:
  assumes "does m f" "\<And>x. does (k x) g"
  shows "does (abind m k) (\<lambda>c. g (f c))"
proof (rule doesI)
  fix t
  obtain t' x where m: "m t = (t', Ok x)" "seen t' = f (seen t)" "\<forall>c. in_step t c \<longrightarrow> in_step t' c"
    using doesD [OF assms(1)] by blast
  obtain t'' y where k: "k x t' = (t'', Ok y)" "seen t'' = g (seen t')" "\<forall>c. in_step t' c \<longrightarrow> in_step t'' c"
    using doesD [OF assms(2)] by blast
  show "\<exists>t' x. abind m k t = (t', Ok x) \<and> seen t' = g (f (seen t)) \<and> (\<forall>c. in_step t c \<longrightarrow> in_step t' c)"
    using m k by (simp add: abind_def)
qed

lemma does_aignore:
  assumes "does m f" "does k g"
  shows "does (aignore m k) (\<lambda>c. g (f c))"
proof -
  have "aignore m k t = abind m (\<lambda>_. k) t" for t
    using doesD [OF assms(1), of t] by (auto simp: aignore_def abind_def)
  then have "aignore m k = abind m (\<lambda>_. k)" by (rule ext)
  with does_abind [OF assms] show ?thesis by simp
qed

lemma does_aret: "does (aret x) (\<lambda>c. c)"
  by (rule doesI) simp

lemma does_eq: "does m f \<Longrightarrow> f = g \<Longrightarrow> does m g"
  by simp

lemma does_writes:
  "k \<noteq> [] \<Longrightarrow> does (tx_Set T k v) (\<lambda>c. c(k \<mapsto> v))"
  "k \<noteq> [] \<Longrightarrow> does (tx_Del T k) (\<lambda>c. c(k := None))"
  "does (tx_Mset T m k v) (\<lambda>c. c(eMapKey m k \<mapsto> v))"
  "does (tx_Mdel T m k) (\<lambda>c. c(eMapKey m k := None))"
  by (simp_all add: does_def in_step_def writes_ok writes_seen writes_pending)

lemma does_set_balance: "a \<noteq> [] \<Longrightarrow> does (set_balance T a v) (\<lambda>c. c(a \<mapsto> v))"
  unfolding set_balance_def
  by (rule does_eq [OF does_aignore [OF does_writes(2) does_writes(1)]]) (simp_all add: fun_eq_iff)

text \<open>A read that may create the account, followed by writes that do not depend on which it was.\<close>

lemma does_get_or_create:
  assumes "a \<noteq> []" "\<And>v. does (k v) (g (or_zero 0 (D64func v)))"
    "\<And>n c. g n (c(a \<mapsto> E64func 0)) = g n c"
  shows "does (abind (get_or_create T a) k) (\<lambda>c. g (num_at c a) c)"
proof (rule doesI)
  fix t
  let ?r = "abind (get_or_create T a) k t"
  show "\<exists>t' x. ?r = (t', Ok x) \<and> seen t' = g (num_at (seen t) a) (seen t) \<and>
     (\<forall>c. in_step t c \<longrightarrow> in_step t' c)"
  proof (cases "seen t a")
    case None
    obtain t' where b: "set_balance T a (E64func 0) t = (t', Ok ())" "seen t' = (seen t)(a \<mapsto> E64func 0)"
      "\<forall>c. in_step t c \<longrightarrow> in_step t' c"
      using doesD [OF does_set_balance [OF assms(1)], of "E64func 0" t] by auto
    obtain t'' y where d: "k (E64func 0) t' = (t'', Ok y)" "seen t'' = g 0 (seen t')"
      "\<forall>c. in_step t' c \<longrightarrow> in_step t'' c"
      using doesD [OF assms(2) [of "E64func 0"], of t'] by auto
    have "?r = (t'', Ok y)"
      using None assms(1) b(1) d(1) by (simp add: abind_def get_or_create_def get_seen aignore_def)
    moreover have "num_at (seen t) a = 0" using None by (simp add: num_at_def)
    ultimately show ?thesis using d b assms(3) by simp
  next
    case (Some v)
    obtain t'' y where d: "k v t = (t'', Ok y)" "seen t'' = g (or_zero 0 (D64func v)) (seen t)"
      "\<forall>c. in_step t c \<longrightarrow> in_step t'' c"
      using doesD [OF assms(2) [of v], of t] by auto
    have "?r = (t'', Ok y)"
      using Some assms(1) d(1) by (simp add: abind_def get_or_create_def get_seen)
    then show ?thesis using d Some by (simp add: num_at_def)
  qed
qed

lemma does_credit:
  assumes "a \<noteq> []"
  shows "does (setMinerAccount T a amount) (credit a amount)"
    "does (setMinerFee T a amount) (credit a amount)"
    "does (MinerAccount T a amount) (credit a amount)"
proof -
  have "does (aignore (set_balance T a (E64func (or_zero 0 (D64func v) + amount))) (aret ()))
      (\<lambda>c. c(a \<mapsto> E64func (or_zero 0 (D64func v) + amount)))" for v
    by (rule does_eq [OF does_aignore [OF does_set_balance [OF assms] does_aret]]) simp
  from does_get_or_create [where g = "\<lambda>n c. c(a \<mapsto> E64func (n + amount))", OF assms this]
  have "does (abind (get_or_create T a) (\<lambda>v. aignore (set_balance T a (E64func (or_zero 0 (D64func v) + amount))) (aret ())))
      (credit a amount)"
    by (simp add: credit_def [abs_def])
  then show "does (setMinerAccount T a amount) (credit a amount)"
    "does (setMinerFee T a amount) (credit a amount)"
    "does (MinerAccount T a amount) (credit a amount)"
    by (simp_all add: setMinerAccount_def setMinerFee_def MinerAccount_def Let_def)
qed

lemma read_balance: "a \<noteq> [] \<Longrightarrow> or_zero 0 (D64func (or_zero [] (tx_Get T t a))) = num_at (seen t) a"
  by (cases "seen t a") (simp_all add: get_seen num_at_def D64func_def)

lemma does_setAccount:
  assumes "from \<noteq> []" "to \<noteq> []"
  shows "does (setAccount T from to amount nonce Tx) (move from to amount (tFee Tx) nonce)"
proof -
  define out where "out X Y = aignore (set_balance T from (E64func X))
       (aignore (set_balance T to (E64func Y))
       (aignore (tx_Mdel T (lit ''nonce'') from)
       (aignore (set_nonce T from (E64func (nonce + 1))) (aret ()))))" for X Y
  have out: "does (out X Y) (\<lambda>c. c(from \<mapsto> E64func X, to \<mapsto> E64func Y, nonce_key from \<mapsto> E64func (nonce + 1)))"
    for X Y
    unfolding out_def set_nonce_def
    by (rule does_eq [OF does_aignore [OF does_set_balance [OF assms(1)] does_aignore [OF does_set_balance [OF assms(2)]
        does_aignore [OF does_writes(4) does_aignore [OF does_writes(3) does_aret]]]]])
      (simp add: nonce_key_def fun_eq_iff)
  define g where "g n c = c(from \<mapsto> E64func (num_at c from - amount - tFee Tx),
      to \<mapsto> E64func (n + amount), nonce_key from \<mapsto> E64func (nonce + 1))" for n c
  define k where "k v t = out (num_at (seen t) from - amount - tFee Tx) (or_zero 0 (D64func v) + amount) t" for v t
  have "does (k v) (g (or_zero 0 (D64func v)))" for v
  proof (rule doesI)
    fix t
    show "\<exists>t' x. k v t = (t', Ok x) \<and> seen t' = g (or_zero 0 (D64func v)) (seen t) \<and>
        (\<forall>c. in_step t c \<longrightarrow> in_step t' c)"
      using doesD [OF out, of "num_at (seen t) from - amount - tFee Tx" "or_zero 0 (D64func v) + amount" t]
      by (simp add: k_def g_def)
  qed
  moreover have "g n (c(to \<mapsto> E64func 0)) = g n c" for n c
    by (simp add: g_def fun_eq_iff)
  ultimately have "does (abind (get_or_create T to) k) (\<lambda>c. g (num_at c to) c)"
    by (rule does_get_or_create [OF assms(2)])
  moreover have "setAccount T from to amount nonce Tx = abind (get_or_create T to) k"
    unfolding setAccount_def Let_def
    by (rule arg_cong [where f = "abind (get_or_create T to)"])
       (simp add: k_def [abs_def] out_def fun_eq_iff read_balance [OF assms(1)])
  ultimately show ?thesis
    by (simp add: g_def move_def [abs_def])
qed

lemma does_pay_miners:
  "\<forall>m \<in> set ms. mRecAddress m \<noteq> [] \<Longrightarrow> does (pay_miners T ms) (credit_all ms)"
proof (induction ms)
  case Nil
  show ?case by (rule doesI) (simp add: credit_all_def)
next
  case (Cons m ms)
  then have "mRecAddress m \<noteq> []" "does (pay_miners T ms) (credit_all ms)" by auto
  from does_abind [OF does_credit(1) [OF this(1)] this(2)]
  have "does (abind (setMinerAccount T (mRecAddress m) (mAmount m)) (\<lambda>_. pay_miners T ms)) (credit_all (m # ms))"
    by (rule does_eq) (simp add: credit_all_def fun_eq_iff)
  moreover have "pay_miners T (m # ms) = abind (setMinerAccount T (mRecAddress m) (mAmount m)) (\<lambda>_. pay_miners T ms)"
    by (rule ext) simp
  ultimately show ?case by simp
qed

lemma does_record_tx:
  assumes "tx_keys Tx" "minaddr \<noteq> []"
  shows "does (record_tx T js bhash h minaddr Tx) (tx_effect js bhash h minaddr Tx)"
proof -
  have ne: "tFrom Tx \<noteq> []" "tTo Tx \<noteq> []" "tHash Tx \<noteq> []" using assms(1) by (simp_all add: tx_keys_def)
  have fee: "does (if tScript Tx \<noteq> [] then setMinerFee T minaddr (tFee Tx) else aret ())
      (\<lambda>c. if tScript Tx \<noteq> [] then credit minaddr (tFee Tx) c else c)"
    by (simp add: does_credit(2) [OF assms(2)] does_aret)
  have data: "does (setBlockdata T bhash (tHash Tx) (js_tx js Tx) (E64func h))
     (\<lambda>c. c(eMapKey bhash (tHash Tx) \<mapsto> js_tx js Tx, eMapKey (tHash Tx) (js_tx js Tx) \<mapsto> E64func h,
           tHash Tx \<mapsto> js_tx js Tx))"
    unfolding setBlockdata_def
    by (rule does_abind [OF does_writes(3) does_abind [OF does_writes(3) does_writes(1) [OF ne(3)]]])
  show ?thesis
    unfolding record_tx_def setTxbyaddr_def AddressToByte_def
    by (rule does_eq [OF does_abind [OF fee does_abind [OF does_writes(3) does_abind [OF does_writes(3)
          does_abind [OF does_setAccount [OF ne(1,2)] does_aignore [OF data does_aret]]]]]])
      (simp add: tx_effect_def Let_def fun_eq_iff)
qed

lemma does_header:
  assumes "sHash b \<noteq> []" "\<forall>m \<in> set (sFirstTx b). mRecAddress m \<noteq> []" "v = E64func (h - 1)"
  shows "does (add_header T js b v h) (header_effect js b h)"
proof -
  have ne: "sHash b \<noteq> []" "lit ''height'' \<noteq> []" "v \<noteq> []"
    using assms(1,3) by (auto simp: E64func_def lit_def simp flip: length_greater_0_conv)
  show ?thesis
    unfolding add_header_def
    by (rule does_eq [OF does_abind [OF does_writes(3) does_abind [OF does_writes(1) [OF ne(1)]
          does_abind [OF does_writes(1) [OF ne(3)] does_aignore [OF does_writes(2) [OF ne(2)]
          does_aignore [OF does_writes(1) [OF ne(2)] does_pay_miners [OF assms(2)]]]]]]])
      (simp add: header_effect_def assms(3) fun_eq_iff)
qed

end

end
