(* ===== verification/ChainKeys.thy ===== *)
theory ChainKeys
  imports ChainEffects
begin

text \<open>
  \<open>AddBlock\<close> as a whole: when it returns nil it stores \<open>block_effect\<close>, and without scripts it does.
  Then which keys that function writes, what is found under the others, and how the
  balance of each account, and what a set of accounts holds together, changes.
\<close>

section \<open>AddBlock as a function on the stored content\<close>

context store_tx begin

lemma add_txs_done:
  assumes "snd (add_txs D T js ord bhash h minaddr txs (t, cd)) = Ok ()" "\<forall>Tx \<in> set txs. tx_keys Tx"
    "minaddr \<noteq> []" "in_step t c"
  obtains t' cd' txs' where "add_txs D T js ord bhash h minaddr txs (t, cd) = ((t', cd'), Ok ())"
    "list_all2 noted txs txs'" "in_step t' c"
    "seen t' = foldl (\<lambda>c Tx. tx_effect js bhash h minaddr Tx c) (seen t) txs'"
  using assms
proof (induction txs arbitrary: t cd thesis)
  case Nil
  then show ?case by (auto intro: Nil.prems(1) [of t cd "[]"])
next
  case (Cons Tx txs)
  let ?run = "if tScript Tx \<noteq> [] then run_contract D T ord Tx cd else (cd, Ok Tx)"
  obtain cd1 r where run: "?run = (cd1, r)" by (cases ?run)
  obtain Tx' where r: "r = Ok Tx'"
    using Cons.prems(2) run by (cases r) auto
  have noted: "noted Tx Tx'"
    using run r
    by (auto simp: run_contract_def noted_def split: if_splits outcome.splits prod.splits)
  have shape: "tx_keys Tx'" using noted_keys [OF noted] Cons.prems(3) by simp
  obtain t1 x where rec: "record_tx T js bhash h minaddr Tx' t = (t1, Ok x)"
    "seen t1 = tx_effect js bhash h minaddr Tx' (seen t)" "in_step t1 c"
    using doesD [OF does_record_tx [OF shape Cons.prems(4), of js bhash h], of t] Cons.prems(5) by blast
  have step: "add_txs D T js ord bhash h minaddr (Tx # txs) (t, cd) =
      add_txs D T js ord bhash h minaddr txs (t1, cd1)"
    using run r rec(1) by simp
  obtain t' cd' txs' where IH: "add_txs D T js ord bhash h minaddr txs (t1, cd1) = ((t', cd'), Ok ())"
    "list_all2 noted txs txs'" "in_step t' c"
    "seen t' = foldl (\<lambda>c Tx. tx_effect js bhash h minaddr Tx c) (seen t1) txs'"
    using Cons.IH [of t1 cd1] Cons.prems(2-4) step rec(3) by auto
  show ?case
    using Cons.prems(1) [of t' cd' "Tx' # txs'"] IH step noted rec(2) by simp
qed

lemma AddBlock_effect:
  assumes "snd (AddBlock D T js ord b minaddr bc) = Ok ()" "block_keys b minaddr"
    "stored (bc_db bc) (lit ''height'') = Some (E64func h)"
  obtains txs' where "list_all2 noted (sTxs b) txs'"
    "stored (bc_db (fst (AddBlock D T js ord b minaddr bc))) =
      block_effect js b minaddr (h + 1) txs' (stored (bc_db bc))"
proof -
  let ?t = "db_NewTransaction D (bc_db bc)"
  have ne: "lit ''height'' \<noteq> []" by (simp add: lit_def)
  have get: "tx_Get T ?t (lit ''height'') = Ok (E64func h)"
    using assms(3) by (simp add: get_seen [OF ne] seen_new)
  have shape: "sHash b \<noteq> []" "\<forall>m \<in> set (sFirstTx b). mRecAddress m \<noteq> []"
    "\<forall>Tx \<in> set (sTxs b). tx_keys Tx" "minaddr \<noteq> []"
    using assms(2) by (auto simp: block_keys_def)
  have "in_step ?t (stored (bc_db bc))" by (simp add: in_step_def in_step_new)
  moreover have "E64func h = E64func (h + 1 - 1)" by simp
  ultimately obtain t1 x where hd: "add_header T js b (E64func h) (h + 1) ?t = (t1, Ok x)"
    "seen t1 = header_effect js b (h + 1) (stored (bc_db bc))" "in_step t1 (stored (bc_db bc))"
    using doesD [OF does_header [OF shape(1,2)], of "E64func h" "h + 1" js ?t] unfolding seen_new by blast
  have "snd (add_txs D T js ord (sHash b) (h + 1) minaddr (sTxs b) (t1, bc_cdb bc)) = Ok ()"
  proof -
    obtain t2 cd2 r where "add_txs D T js ord (sHash b) (h + 1) minaddr (sTxs b) (t1, bc_cdb bc) = ((t2, cd2), r)"
      by (cases "add_txs D T js ord (sHash b) (h + 1) minaddr (sTxs b) (t1, bc_cdb bc)") auto
    then show ?thesis
      using assms(1) get hd(1) by (cases r) (simp_all add: AddBlock_def Let_def)
  qed
  then obtain t2 cd2 txs' where tx: "add_txs D T js ord (sHash b) (h + 1) minaddr (sTxs b) (t1, bc_cdb bc) = ((t2, cd2), Ok ())"
    "list_all2 noted (sTxs b) txs'" "in_step t2 (stored (bc_db bc))"
    "seen t2 = foldl (\<lambda>c Tx. tx_effect js (sHash b) (h + 1) minaddr Tx c) (seen t1) txs'"
    by (rule add_txs_done [OF _ shape(3,4) hd(3)])
  have "stored (bc_db (fst (AddBlock D T js ord b minaddr bc))) = stored (fst (tx_Commit T t2 (bc_db bc)))"
    using get hd(1) tx(1) by (simp add: AddBlock_def Let_def split: prod.split)
  also have "\<dots> = seen t2"
    using tx(3) by (simp add: in_step_def commit_in_step)
  finally show ?thesis
    using that tx(2,4) hd(2) by (simp add: block_effect_def)
qed

lemmas AddBlock_done = AddBlock_effect [OF _ shape_keys(2)]

text \<open>A block without scripts is always added.\<close>

lemma add_txs_no_scripts:
  assumes "\<forall>Tx \<in> set txs. tx_keys Tx \<and> tScript Tx = []" "minaddr \<noteq> []"
  shows "\<exists>t'. add_txs D T js ord bhash h minaddr txs (t, cd) = ((t', cd), Ok ())"
  using assms(1)
proof (induction txs arbitrary: t)
  case (Cons Tx txs)
  then obtain t1 x where "record_tx T js bhash h minaddr Tx t = (t1, Ok x)"
    using doesD [OF does_record_tx [OF _ assms(2), of Tx js bhash h], of t] by fastforce
  with Cons show ?case by simp
qed simp

lemma AddBlock_runs:
  assumes "block_keys b minaddr" "\<forall>Tx \<in> set (sTxs b). tScript Tx = []"
    "stored (bc_db bc) (lit ''height'') = Some (E64func h)"
  shows "snd (AddBlock D T js ord b minaddr bc) = Ok ()"
proof -
  let ?t = "db_NewTransaction D (bc_db bc)"
  have ne: "lit ''height'' \<noteq> []" by (simp add: lit_def)
  have get: "tx_Get T ?t (lit ''height'') = Ok (E64func h)"
    using assms(3) by (simp add: get_seen [OF ne] seen_new)
  have shape: "sHash b \<noteq> []" "\<forall>m \<in> set (sFirstTx b). mRecAddress m \<noteq> []"
    "\<forall>Tx \<in> set (sTxs b). tx_keys Tx \<and> tScript Tx = []" "minaddr \<noteq> []"
    using assms(1,2) by (auto simp: block_keys_def)
  have "E64func h = E64func (h + 1 - 1)" by simp
  then obtain t1 x where hd: "add_header T js b (E64func h) (h + 1) ?t = (t1, Ok x)"
    using doesD [OF does_header [OF shape(1,2)], of "E64func h" "h + 1" js ?t] by blast
  obtain t2 where "add_txs D T js ord (sHash b) (h + 1) minaddr (sTxs b) (t1, bc_cdb bc) = ((t2, bc_cdb bc), Ok ())"
    using add_txs_no_scripts [OF shape(3,4)] by blast
  then show ?thesis
    using get hd(1) commit_ok [of t2 "bc_db bc"]
    by (cases "tx_Commit T t2 (bc_db bc)") (simp add: AddBlock_def Let_def)
qed

lemmas AddBlock_no_scripts = AddBlock_runs [OF shape_keys(2)]

end

section \<open>Which keys a block writes\<close>

lemma length_eMapKey [simp]: "length (eMapKey m k) = 6 + length m + length k"
  by (simp add: eMapKey_def)

lemma length_E64func [simp]: "length (E64func v) = 8"
  by (simp add: E64func_def)

lemma credit_other [simp]: "k \<noteq> a \<Longrightarrow> credit a n c k = c k"
  by (simp add: credit_def)

lemma credit_all_Cons [simp]:
  "credit_all [] c = c" "credit_all (m # ms) c = credit_all ms (credit (mRecAddress m) (mAmount m) c)"
  by (simp_all add: credit_all_def)

lemma credit_all_other: "k \<notin> mRecAddress ` set ms \<Longrightarrow> credit_all ms c k = c k"
  by (induction ms arbitrary: c) auto

lemma tx_effect_other:
  "k \<notin> {minaddr, tFrom Tx, tTo Tx, nonce_key (tFrom Tx), eMapKey (tFrom Tx) (tHash Tx),
      eMapKey (tTo Tx) (tHash Tx), eMapKey bhash (tHash Tx), eMapKey (tHash Tx) (js_tx js Tx), tHash Tx} \<Longrightarrow>
    tx_effect js bhash h minaddr Tx c k = c k"
  by (simp add: tx_effect_def move_def Let_def)

lemma tx_effect_keeps:
  assumes "tx_shape Tx" "length minaddr = 47" "length bhash = 32" "length k < 32 \<or> length k = 32 \<and> k \<noteq> tHash Tx"
  shows "tx_effect js bhash h minaddr Tx c k = c k"
proof (rule tx_effect_other)
  have "length k \<noteq> length x" if "x \<in> {minaddr, tFrom Tx, tTo Tx, nonce_key (tFrom Tx), eMapKey (tFrom Tx) (tHash Tx),
      eMapKey (tTo Tx) (tHash Tx), eMapKey bhash (tHash Tx), eMapKey (tHash Tx) (js_tx js Tx)}" for x
    using that assms by (auto simp: tx_shape_def nonce_key_def lit_def)
  moreover have "k \<noteq> tHash Tx" using assms(1,4) by (auto simp: tx_shape_def)
  ultimately show "k \<notin> {minaddr, tFrom Tx, tTo Tx, nonce_key (tFrom Tx), eMapKey (tFrom Tx) (tHash Tx),
      eMapKey (tTo Tx) (tHash Tx), eMapKey bhash (tHash Tx), eMapKey (tHash Tx) (js_tx js Tx), tHash Tx}"
    by (metis insert_iff)
qed

lemma noted_list:
  assumes "list_all2 noted txs txs'" "Tx' \<in> set txs'"
  obtains Tx where "Tx \<in> set txs" "noted Tx Tx'"
  using assms by (metis in_set_conv_nth list_all2_conv_all_nth)

lemma txs_effect_keeps:
  assumes "list_all2 noted txs txs'" "\<forall>Tx \<in> set txs. tx_shape Tx" "length minaddr = 47" "length bhash = 32"
    "length k < 32 \<or> length k = 32 \<and> k \<notin> tHash ` set txs"
  shows "foldl (\<lambda>c Tx. tx_effect js bhash h minaddr Tx c) c txs' k = c k"
  using assms(1,2,5)
proof (induction arbitrary: c rule: list_all2_induct)
  case (Cons Tx txs Tx' txs')
  have "tx_shape Tx'" "tHash Tx' = tHash Tx"
    using Cons.hyps(1) Cons.prems(1) noted_shape noted_fields by auto
  with Cons assms(3,4) show ?case
    by (auto simp: tx_effect_keeps)
qed simp

text \<open>A transaction is stored under the hash it carries, whatever was there.\<close>

lemma tx_effect_hash: "tx_effect js bhash h minaddr Tx c (tHash Tx) = Some (js_tx js Tx)"
  by (simp add: tx_effect_def Let_def)

lemma txs_effect_hash:
  assumes "list_all2 noted txs txs'" "\<forall>Tx \<in> set txs. tx_shape Tx" "length minaddr = 47" "length bhash = 32"
    "k \<in> tHash ` set txs"
  shows "\<exists>Tx \<in> set txs. \<exists>Tx'. noted Tx Tx' \<and> tHash Tx = k \<and>
    foldl (\<lambda>c Tx. tx_effect js bhash h minaddr Tx c) c txs' k = Some (js_tx js Tx')"
  using assms(1,2,5)
proof (induction arbitrary: c rule: list_all2_induct)
  case (Cons Tx txs Tx' txs')
  show ?case
  proof (cases "k \<in> tHash ` set txs")
    case True
    with Cons.IH [of "tx_effect js bhash h minaddr Tx' c"] Cons.prems(1) show ?thesis by auto
  next
    case False
    then have k: "k = tHash Tx" "tHash Tx' = tHash Tx" "length k = 32"
      using Cons.prems noted_fields [OF Cons.hyps(1)] by (auto simp: tx_shape_def)
    have "foldl (\<lambda>c Tx. tx_effect js bhash h minaddr Tx c) (tx_effect js bhash h minaddr Tx' c) txs' k =
        tx_effect js bhash h minaddr Tx' c k"
      by (rule txs_effect_keeps [OF Cons.hyps(2) _ assms(3,4)]) (use Cons.prems(1) False k(3) in auto)
    with k tx_effect_hash [of js bhash h minaddr Tx' c] Cons.hyps(1) show ?thesis by auto
  qed
qed simp

lemma block_effect_hash:
  assumes "block_shape b minaddr" "list_all2 noted (sTxs b) txs'" "k \<in> tHash ` set (sTxs b)"
  shows "\<exists>Tx \<in> set (sTxs b). \<exists>Tx'. noted Tx Tx' \<and> tHash Tx = k \<and> block_effect js b minaddr h txs' c k = Some (js_tx js Tx')"
  unfolding block_effect_def
  by (rule txs_effect_hash [OF assms(2) _ _ _ assms(3)]) (use assms(1) in \<open>auto simp: block_shape_def\<close>)

lemma block_effect_lookup:
  fixes c :: content and js :: json and h :: u64
  assumes "block_shape b minaddr" "list_all2 noted (sTxs b) txs'"
  defines "c' \<equiv> block_effect js b minaddr h txs' c"
  shows "c' (lit ''height'') = Some (E64func h)"
    "c' (eMapKey (E64func h) (lit ''hash'')) = Some (sHash b)"
    "sHash b \<notin> tHash ` set (sTxs b) \<Longrightarrow> c' (sHash b) = Some (js_Blocks js b)"
    "length k < 32 \<Longrightarrow> k \<noteq> lit ''height'' \<Longrightarrow> k \<noteq> eMapKey (E64func h) (lit ''hash'') \<Longrightarrow>
      k \<noteq> E64func (h - 1) \<Longrightarrow> c' k = c k"
    "length k = 32 \<Longrightarrow> k \<notin> tHash ` set (sTxs b) \<Longrightarrow> k \<noteq> sHash b \<Longrightarrow> c' k = c k"
proof -
  have shape: "length (sHash b) = 32" "length minaddr = 47"
    "\<forall>m \<in> set (sFirstTx b). length (mRecAddress m) = 47" "\<forall>Tx \<in> set (sTxs b). tx_shape Tx"
    using assms(1) by (auto simp: block_shape_def)
  have keep: "c' k = header_effect js b h c k"
    if "length k < 32 \<or> length k = 32 \<and> k \<notin> tHash ` set (sTxs b)" for k
    unfolding c'_def block_effect_def by (rule txs_effect_keeps [OF assms(2) shape(4,2,1) that])
  have head: "header_effect js b h c k =
      (c(eMapKey (E64func h) (lit ''hash'') \<mapsto> sHash b, sHash b \<mapsto> js_Blocks js b,
          E64func (h - 1) \<mapsto> E64func (h + 1), lit ''height'' \<mapsto> E64func h)) k"
    if "length k \<noteq> 47" for k
    unfolding header_effect_def using shape(3) that by (intro credit_all_other) auto
  have len: "length (lit ''height'') = 6" "length (eMapKey (E64func h) (lit ''hash'')) = 18"
    by (simp_all add: lit_def)
  have ne: "lit ''height'' \<noteq> eMapKey (E64func h) (lit ''hash'')" "lit ''height'' \<noteq> sHash b"
    "lit ''height'' \<noteq> E64func (h - 1)" "eMapKey (E64func h) (lit ''hash'') \<noteq> sHash b"
    "eMapKey (E64func h) (lit ''hash'') \<noteq> E64func (h - 1)" "sHash b \<noteq> E64func (h - 1)"
    using len shape(1) by (metis length_E64func numeral_eq_iff semiring_norm(83,84,85,87,88,89,90))+
  show "c' (lit ''height'') = Some (E64func h)"
    by (subst keep; (subst head)?) (simp_all add: len)
  show "c' (eMapKey (E64func h) (lit ''hash'')) = Some (sHash b)"
    using ne by (subst keep; (subst head)?) (simp_all add: len del: length_eMapKey)
  show "c' (sHash b) = Some (js_Blocks js b)" if "sHash b \<notin> tHash ` set (sTxs b)"
    using ne that by (subst keep; (subst head)?) (simp_all add: shape)
  show "c' k = c k" if "length k < 32" "k \<noteq> lit ''height''" "k \<noteq> eMapKey (E64func h) (lit ''hash'')"
      "k \<noteq> E64func (h - 1)"
    using that shape(1) by (subst keep; (subst head)?) auto
  show "c' k = c k" if "length k = 32" "k \<notin> tHash ` set (sTxs b)" "k \<noteq> sHash b"
    using that len by (subst keep; (subst head)?) (auto simp del: length_eMapKey)
qed

section \<open>Look-ups on the stored content\<close>

context store_tx begin

lemma GetMaxBlockHeight_stored:
  "GetMaxBlockHeight D d = (case stored d (lit ''height'') of None \<Rightarrow> Err NotExist | Some v \<Rightarrow> D64func v)"
proof -
  have "lit ''height'' \<noteq> []" by (simp add: lit_def)
  then show ?thesis by (simp add: GetMaxBlockHeight_def get_stored split: option.split)
qed

lemma Height_stored:
  "snd (Height D T d) = (case stored d (lit ''height'') of None \<Rightarrow> Err NotExist | Some v \<Rightarrow> D64func v)"
proof -
  have "lit ''height'' \<noteq> []" by (simp add: lit_def)
  then show ?thesis by (simp add: Height_def read_commit_done get_seen seen_new split: option.split)
qed

lemma GetBlockByHeight_stored:
  assumes "stored d (eMapKey (E64func h) (lit ''hash'')) = Some hash" "hash \<noteq> []"
  shows "GetBlockByHeight D js d h =
    (case stored d hash of None \<Rightarrow> Err NotExist | Some v \<Rightarrow> unmarshal (uj_Block js) NewBlock0 v)"
  using assms by (simp add: GetBlockByHeight_def reads split: option.split)

lemma GetBlockByHash_stored:
  assumes "hash \<noteq> []"
  shows "GetBlockByHash D js d hash =
    (case stored d hash of None \<Rightarrow> Err NotExist
     | Some b \<Rightarrow> Ok (if js_null js b then None else Some (fst (uj_Block js b NewBlock0))))"
  using assms by (simp add: GetBlockByHash_def get_stored split: option.split)

end

section \<open>What a block does to a balance\<close>

text \<open>An address as \<open>BytesToAddress\<close> makes it, which is no key of another kind.\<close>

definition account :: "bytes \<Rightarrow> bool" where
  "account a \<longleftrightarrow> length a = 47 \<and> hd a \<noteq> 109"

text \<open>What an account pays in a block, and what it gets, as natural numbers. A transfer to oneself is not paid.\<close>

definition spent :: "bytes \<Rightarrow> transaction list \<Rightarrow> nat" where
  "spent a txs = (\<Sum>Tx \<leftarrow> txs. if tFrom Tx = a \<and> tTo Tx \<noteq> a then unat (tAmount Tx) + unat (tFee Tx) else 0)"

definition earned :: "bytes \<Rightarrow> bytes \<Rightarrow> transaction list \<Rightarrow> nat" where
  "earned minaddr a txs = (\<Sum>Tx \<leftarrow> txs. (if tTo Tx = a then unat (tAmount Tx) else 0) +
     (if minaddr = a \<and> tScript Tx \<noteq> [] then unat (tFee Tx) else 0))"

definition rewarded :: "bytes \<Rightarrow> MinerTx list \<Rightarrow> nat" where
  "rewarded a ms = (\<Sum>m \<leftarrow> ms. if mRecAddress m = a then unat (mAmount m) else 0)"

definition income :: "bytes \<Rightarrow> bytes \<Rightarrow> Blocks \<Rightarrow> nat" where
  "income minaddr a b = rewarded a (sFirstTx b) + earned minaddr a (sTxs b)"

lemma hd_eMapKey [simp]: "hd (eMapKey m k) = 109"
  by (simp add: eMapKey_def lit_def)

lemma spent_Cons [simp]:
  "spent a [] = 0"
  "spent a (Tx # txs) = (if tFrom Tx = a \<and> tTo Tx \<noteq> a then unat (tAmount Tx) + unat (tFee Tx) else 0) + spent a txs"
  by (simp_all add: spent_def)

lemma earned_Cons [simp]:
  "earned minaddr a [] = 0"
  "earned minaddr a (Tx # txs) = (if tTo Tx = a then unat (tAmount Tx) else 0) +
     (if minaddr = a \<and> tScript Tx \<noteq> [] then unat (tFee Tx) else 0) + earned minaddr a txs"
  by (simp_all add: earned_def)

lemma rewarded_Cons [simp]:
  "rewarded a [] = 0"
  "rewarded a (m # ms) = (if mRecAddress m = a then unat (mAmount m) else 0) + rewarded a ms"
  by (simp_all add: rewarded_def)

lemma account_keys:
  assumes "account a"
  shows "eMapKey m k \<noteq> a" "nonce_key x \<noteq> a" "length k' \<noteq> 47 \<Longrightarrow> k' \<noteq> a" "E64func v \<noteq> a"
    "a \<noteq> eMapKey m k" "a \<noteq> nonce_key x" "length k' \<noteq> 47 \<Longrightarrow> a \<noteq> k'" "a \<noteq> E64func v"
  using assms by (auto simp: account_def nonce_key_def)

lemma num_at_other [simp]: "k \<noteq> a \<Longrightarrow> num_at (c(k \<mapsto> v)) a = num_at c a"
  by (simp add: num_at_def)

lemma num_at_credit: "num_at (credit x n c) a = num_at c a + (if x = a then n else 0)"
  by (simp add: credit_def)

lemma num_at_move:
  assumes "account a"
  shows "num_at (move from to amount fee nonce c) a = num_at c a + (if to = a then amount else 0) -
    (if from = a \<and> to \<noteq> a then amount + fee else 0)"
  using account_keys(2) [OF assms, of "from"] by (simp add: move_def algebra_simps)

lemma num_at_tx_effect:
  assumes "account a" "tx_shape Tx"
  shows "num_at (tx_effect js bhash h minaddr Tx c) a =
    num_at c a + of_nat (earned minaddr a [Tx]) - of_nat (spent a [Tx])"
proof -
  have "tHash Tx \<noteq> a" using assms by (intro account_keys(3)) (simp_all add: tx_shape_def)
  then show ?thesis
    using account_keys(1,5) [OF assms(1)]
    by (simp add: tx_effect_def Let_def num_at_move [OF assms(1)] num_at_credit algebra_simps)
qed

lemma num_at_credit_all: "num_at (credit_all ms c) a = num_at c a + of_nat (rewarded a ms)"
  by (induction ms arbitrary: c) (simp_all add: num_at_credit algebra_simps)

lemma num_at_block_effect:
  assumes "account a" "block_shape b minaddr" "list_all2 noted (sTxs b) txs'"
  shows "num_at (block_effect js b minaddr h txs' c) a = num_at c a + of_nat (income minaddr a b) - of_nat (spent a (sTxs b))"
proof -
  have "lit ''height'' \<noteq> a" "sHash b \<noteq> a"
    using assms(2) by (auto intro!: account_keys(3) [OF assms(1)] simp: lit_def block_shape_def)
  then have head: "num_at (header_effect js b h c) a = num_at c a + of_nat (rewarded a (sFirstTx b))"
    using account_keys [OF assms(1)] by (simp add: header_effect_def num_at_credit_all)
  have shapes: "\<forall>Tx \<in> set (sTxs b). tx_shape Tx" using assms(2) by (simp add: block_shape_def)
  have "num_at (foldl (\<lambda>c Tx. tx_effect js (sHash b) h minaddr Tx c) c0 txs') a =
      num_at c0 a + of_nat (earned minaddr a (sTxs b)) - of_nat (spent a (sTxs b))" for c0
    using assms(3) shapes
  proof (induction arbitrary: c0 rule: list_all2_induct)
    case (Cons Tx txs Tx' txs')
    have "tx_shape Tx'" using noted_shape [OF Cons.hyps(1)] Cons.prems by simp
    then show ?case
      using Cons noted_fields [OF Cons.hyps(1)] by (simp add: num_at_tx_effect [OF assms(1)] algebra_simps)
  qed simp
  with head show ?thesis by (simp add: block_effect_def income_def algebra_simps)
qed

context store_tx begin

lemma AddBlock_balance:
  assumes "snd (AddBlock D T js ord b minaddr bc) = Ok ()" "block_shape b minaddr"
    "stored (bc_db bc) (lit ''height'') = Some (E64func h)" "account a"
  shows "num_at (stored (bc_db (fst (AddBlock D T js ord b minaddr bc)))) a =
    num_at (stored (bc_db bc)) a + of_nat (income minaddr a b) - of_nat (spent a (sTxs b))"
proof -
  obtain txs' where "list_all2 noted (sTxs b) txs'"
    "stored (bc_db (fst (AddBlock D T js ord b minaddr bc))) = block_effect js b minaddr (h + 1) txs' (stored (bc_db bc))"
    by (rule AddBlock_done [OF assms(1-3)])
  then show ?thesis using num_at_block_effect [OF assms(4,2)] by simp
qed

end

text \<open>A number below \<open>2 ^ 64\<close> that a word equals up to wrap-around is the word's value.\<close>

lemma exact_change:
  fixes v w :: u64
  assumes "w = v + of_nat p - of_nat q" "q \<le> unat v + p" "unat v + p - q < 2 ^ 64"
  shows "unat w + q = unat v + p"
proof -
  have "w = of_nat (unat v + p - q)" using assms(1,2) by (simp add: of_nat_diff)
  with assms(3) have "unat w = unat v + p - q" by (simp add: unat_of_nat)
  with assms(2) show ?thesis by simp
qed

lemma wrapped_change:
  fixes v w :: u64
  assumes "w = v + of_nat p - of_nat q" "unat v + p < q" "q - (unat v + p) \<le> 2 ^ 64"
  shows "unat w + (q - (unat v + p)) = 2 ^ 64"
proof -
  define m where "m = q - (unat v + p)"
  have m: "0 < m" "m \<le> 2 ^ 64" "q = unat v + p + m" using assms(2,3) by (auto simp: m_def)
  have "(2 :: u64) ^ 64 = 0" by simp
  have "w = - of_nat m" using assms(1) m(3) by simp
  also have "\<dots> = of_nat (2 ^ 64 - m)" using m(2) by (simp add: of_nat_diff)
  finally have w: "w = of_nat (2 ^ 64 - m)" .
  have "(2 ^ 64 - m) mod 2 ^ LENGTH(64) = 2 ^ 64 - m" using m(1) by (intro mod_less) simp
  then have "unat w = 2 ^ 64 - m" unfolding w unat_of_nat .
  then show ?thesis unfolding m_def [symmetric] using m(2) by (simp only: le_add_diff_inverse2)
qed

section \<open>The sum of the balances\<close>

definition funds :: "bytes set \<Rightarrow> content \<Rightarrow> nat" where
  "funds A c = (\<Sum>a \<in> A. unat (num_at c a))"

lemma sum_over_accounts:
  "finite A \<Longrightarrow> g ` set xs \<subseteq> A \<Longrightarrow> (\<Sum>a \<in> A. \<Sum>x \<leftarrow> xs. if g x = a then f x else 0) = (\<Sum>x \<leftarrow> xs. f x :: nat)"
  by (induction xs) (simp_all add: sum.distrib sum.delta)

lemma funds_change:
  assumes "finite A" "minaddr \<in> A" "mRecAddress ` set (sFirstTx b) \<subseteq> A" "\<forall>Tx \<in> set (sTxs b). tFrom Tx \<in> A \<and> tTo Tx \<in> A"
    "\<And>a. a \<in> A \<Longrightarrow> unat (num_at c' a) + spent a (sTxs b) = unat (num_at c a) + income minaddr a b"
  shows "funds A c' + (\<Sum>Tx \<leftarrow> sTxs b. if tFrom Tx \<noteq> tTo Tx then unat (tFee Tx) else 0) =
    funds A c + (\<Sum>m \<leftarrow> sFirstTx b. unat (mAmount m)) + (\<Sum>Tx \<leftarrow> sTxs b. if tScript Tx \<noteq> [] then unat (tFee Tx) else 0) +
      (\<Sum>Tx \<leftarrow> sTxs b. if tFrom Tx = tTo Tx then unat (tAmount Tx) else 0)"
proof -
  have r: "(\<Sum>a \<in> A. rewarded a ms) = (\<Sum>m \<leftarrow> ms. unat (mAmount m))" if "mRecAddress ` set ms \<subseteq> A" for ms
    unfolding rewarded_def by (rule sum_over_accounts [OF assms(1) that])
  have "(\<Sum>a \<in> A. earned minaddr a txs) + (\<Sum>Tx \<leftarrow> txs. if tFrom Tx \<noteq> tTo Tx then unat (tFee Tx) else 0) =
      (\<Sum>a \<in> A. spent a txs) + (\<Sum>Tx \<leftarrow> txs. if tScript Tx \<noteq> [] then unat (tFee Tx) else 0) +
      (\<Sum>Tx \<leftarrow> txs. if tFrom Tx = tTo Tx then unat (tAmount Tx) else 0)"
    if "\<forall>Tx \<in> set txs. tFrom Tx \<in> A \<and> tTo Tx \<in> A" for txs
    using that
  proof (induction txs)
    case (Cons Tx txs)
    have to: "(\<Sum>a \<in> A. if tTo Tx = a then unat (tAmount Tx) else 0) = unat (tAmount Tx)"
      "(\<Sum>a \<in> A. if minaddr = a \<and> tScript Tx \<noteq> [] then unat (tFee Tx) else 0) = (if tScript Tx \<noteq> [] then unat (tFee Tx) else 0)"
      using Cons.prems assms(1,2) by (simp_all add: sum.delta)
    have "(\<Sum>a \<in> A. if tFrom Tx = a \<and> tTo Tx \<noteq> a then unat (tAmount Tx) + unat (tFee Tx) else 0) =
        (\<Sum>a \<in> A. if tFrom Tx = a then (if tFrom Tx \<noteq> tTo Tx then unat (tAmount Tx) + unat (tFee Tx) else 0) else 0)"
      by (intro sum.cong) auto
    also have "\<dots> = (if tFrom Tx \<noteq> tTo Tx then unat (tAmount Tx) + unat (tFee Tx) else 0)"
      using Cons.prems assms(1) by (simp add: sum.delta)
    finally show ?case using Cons by (simp add: sum.distrib to)
  qed simp
  note e = this [OF assms(4)]
  have "funds A c' + (\<Sum>a \<in> A. spent a (sTxs b)) = funds A c + (\<Sum>a \<in> A. income minaddr a b)"
    using assms(5) unfolding funds_def by (simp flip: sum.distrib)
  then show ?thesis using e r [OF assms(3)] by (simp add: income_def sum.distrib)
qed

end
