(* ===== verification/ChainSpec.thy ===== *)
theory ChainSpec
  imports ChainKeys LedgerSpec ParserSpec
begin

text \<open>
  Properties of the chain: what \<open>AddBlock\<close> stores and keeps, when it succeeds and when it panics, what
  it does to the balances as natural numbers, what \<open>Checkresults\<close> does not check, and the look-ups.
\<close>

section \<open>A small chain for the witnesses\<close>

definition demo_json :: json where
  "demo_json = \<lparr> js_tx = (\<lambda>_. [2]), js_txs = (\<lambda>_. [3]), js_Blocks = (\<lambda>_. [1]),
     uj_tx = (\<lambda>_ x. (x, Ok ())), uj_Block = (\<lambda>_ x. (x, Ok ())), uj_Blocks = (\<lambda>_ x. (x, Ok ())),
     js_null = (\<lambda>_. False) \<rparr>"

definition demo_ed :: ed25519 where
  "demo_ed = \<lparr> ed_sign = (\<lambda>k m. m), ed_verify = (\<lambda>k m s. s = m) \<rparr>"

definition demo_tx :: transaction where
  "demo_tx = zero_transaction\<lparr> tFrom := addr_a, tTo := addr_b, tAmount := 30, tFee := 5, tNonce := 1,
     tHash := replicate 32 9 \<rparr>"

definition demo_block :: Blocks where
  "demo_block = zero_Blocks\<lparr> sHeight := 2, sHash := replicate 32 7, sTxs := [demo_tx],
     sFirstTx := [\<lparr> mAmount = 50, mRecAddress = addr_b \<rparr>] \<rparr>"

definition demo_db :: mdb where
  "demo_db = fmupd addr_a (E64func 100) (fmupd (lit ''height'') (E64func 1) fmempty)"

abbreviation demo_add :: "Blocks \<Rightarrow> mdb Blockchain \<times> unit outcome" where
  "demo_add b \<equiv> AddBlock (bgStore map_badger) (bgTransaction map_badger) demo_json (\<lambda>_. []) b addr_a
     \<lparr> bc_db = demo_db, bc_cdb = fmempty \<rparr>"

lemma demo_shape: "block_shape demo_block addr_a"
  by (simp add: block_shape_def demo_block_def demo_tx_def zero_Blocks_def tx_shape_def addr_ab)

lemma demo_height: "fmlookup demo_db (lit ''height'') = Some (E64func 1)"
proof -
  have "length (lit ''height'') \<noteq> length addr_a" by (simp add: addr_ab lit_def)
  then have "lit ''height'' \<noteq> addr_a" by metis
  then show ?thesis by (simp add: demo_db_def)
qed

lemma demo_scripts: "\<forall>Tx \<in> set (sTxs demo_block). tScript Tx = []"
  by (simp add: demo_block_def demo_tx_def zero_transaction_def)

lemma AddBlock_no_scripts_demo:
  "fmlookup (bc_db bc) (lit ''height'') = Some (E64func h) \<Longrightarrow>
    snd (AddBlock (bgStore map_badger) (bgTransaction map_badger) demo_json (\<lambda>_. []) demo_block addr_a bc) = Ok ()"
  by (rule ms.AddBlock_no_scripts [OF demo_shape demo_scripts])

lemma demo_added: "snd (demo_add demo_block) = Ok ()"
  by (rule AddBlock_no_scripts_demo) (simp add: demo_height)

section \<open>Appending a block\<close>

text \<open>C39: A block whose transactions carry no scripts is always appended: \<open>AddBlock\<close> returns nil.\<close>

theorem AddBlock_succeeds:
  assumes "roomy_badger B view writes contents" "block_shape b minaddr"
    "\<forall>Tx \<in> set (sTxs b). tScript Tx = []" "contents (bc_db bc) (lit ''height'') = Some (E64func h)"
  shows "snd (AddBlock (bgStore B) (bgTransaction B) js ord b minaddr bc) = Ok ()"
  by (rule store_tx.AddBlock_no_scripts [OF bg_store_tx [OF assms(1)] assms(2-4)])

theorem AddBlock_succeeds_witness: "snd (demo_add demo_block) = Ok ()"
  by (rule AddBlock_succeeds [OF map_badger_roomy demo_shape demo_scripts]) (simp add: demo_height)

text \<open>C5: When \<open>AddBlock\<close> returns nil, the height has gone up by one, and the block is found under its
  new height and under its hash, as what decoding its stored text gives.\<close>

theorem AddBlock_retrievable:
  assumes "roomy_badger B view writes contents" "block_shape b minaddr"
    "contents (bc_db bc) (lit ''height'') = Some (E64func h)" "sHash b \<notin> tHash ` set (sTxs b)"
    "snd (AddBlock (bgStore B) (bgTransaction B) js ord b minaddr bc) = Ok ()"
    "uj_Block js (js_Blocks js b) NewBlock0 = (blk, Ok ())" "\<not> js_null js (js_Blocks js b)"
  defines "d \<equiv> bc_db (fst (AddBlock (bgStore B) (bgTransaction B) js ord b minaddr bc))"
  shows "GetMaxBlockHeight (bgStore B) d = Ok (h + 1) \<and>
    snd (Height (bgStore B) (bgTransaction B) d) = Ok (h + 1) \<and>
    GetBlockByHeight (bgStore B) js d (h + 1) = Ok blk \<and>
    GetBlockByHash (bgStore B) js d (sHash b) = Ok (Some blk)"
proof -
  note tx = bg_store_tx [OF assms(1)]
  obtain txs' where txs': "list_all2 noted (sTxs b) txs'"
    "contents d = block_effect js b minaddr (h + 1) txs' (contents (bc_db bc))"
    unfolding d_def by (rule store_tx.AddBlock_done [OF tx assms(5,2,3)])
  note look = block_effect_lookup [OF assms(2) txs'(1), where js = js and h = "h + 1" and c = "contents (bc_db bc)", folded txs'(2)]
  have ne: "sHash b \<noteq> []" using assms(2) by (auto simp: block_shape_def)
  have "GetBlockByHeight (bgStore B) js d (h + 1) = Ok blk"
    unfolding store_tx.GetBlockByHeight_stored [OF tx look(2) ne] look(3) [OF assms(4)]
    using assms(6) by (simp add: unmarshal_def abind_def)
  moreover have "GetBlockByHash (bgStore B) js d (sHash b) = Ok (Some blk)"
    unfolding store_tx.GetBlockByHash_stored [OF tx ne] look(3) [OF assms(4)]
    using assms(6,7) by simp
  ultimately show ?thesis
    unfolding store_tx.GetMaxBlockHeight_stored [OF tx] store_tx.Height_stored [OF tx] look(1) by simp
qed

theorem AddBlock_retrievable_witness:
  "GetBlockByHeight (bgStore map_badger) demo_json (bc_db (fst (demo_add demo_block))) 2 = Ok NewBlock0"
  using AddBlock_retrievable [OF map_badger_roomy demo_shape _ _ demo_added, of 1 NewBlock0]
  by (simp add: demo_height) (simp add: demo_json_def demo_block_def demo_tx_def)

text \<open>C6: What \<open>AddBlock\<close> does to a block that is stored at another height under a hash that is not the new
  block's. If no transaction of the new block carries that hash, the look-up at that height answers as
  before. If one does, the block is lost: its entry is the text of such a transaction, and that is what the
  look-up decodes. A transaction's hash is whatever its sender wrote, so the second case can be brought about.\<close>

theorem AddBlock_keeps_blocks:
  assumes "roomy_badger B view writes contents" "block_shape b minaddr"
    "contents (bc_db bc) (lit ''height'') = Some (E64func h)"
    "snd (AddBlock (bgStore B) (bgTransaction B) js ord b minaddr bc) = Ok ()" "i \<noteq> h + 1"
    "contents (bc_db bc) (eMapKey (E64func i) (lit ''hash'')) = Some old" "length old = 32" "old \<noteq> sHash b"
  defines "d \<equiv> bc_db (fst (AddBlock (bgStore B) (bgTransaction B) js ord b minaddr bc))"
  shows "(old \<notin> tHash ` set (sTxs b) \<longrightarrow> GetBlockByHeight (bgStore B) js d i = GetBlockByHeight (bgStore B) js (bc_db bc) i) \<and>
    (old \<in> tHash ` set (sTxs b) \<longrightarrow> (\<exists>Tx \<in> set (sTxs b). \<exists>Tx'. noted Tx Tx' \<and> tHash Tx = old \<and>
      GetBlockByHeight (bgStore B) js d i = unmarshal (uj_Block js) NewBlock0 (js_tx js Tx')))"
proof -
  note tx = bg_store_tx [OF assms(1)]
  obtain txs' where txs': "list_all2 noted (sTxs b) txs'"
    "contents d = block_effect js b minaddr (h + 1) txs' (contents (bc_db bc))"
    unfolding d_def by (rule store_tx.AddBlock_done [OF tx assms(4,2,3)])
  note look = block_effect_lookup [OF assms(2) txs'(1),
      where js = js and h = "h + 1" and c = "contents (bc_db bc)", folded txs'(2)]
  let ?k = "eMapKey (E64func i) (lit ''hash'')"
  have len: "length ?k = 18" "length (lit ''height'') = 6" by (simp_all add: lit_def)
  then have "?k \<noteq> lit ''height''" "?k \<noteq> E64func (h + 1 - 1)"
    by (metis length_E64func numeral_eq_iff semiring_norm(83,84,85,87,88,89,90))+
  moreover have "?k \<noteq> eMapKey (E64func (h + 1)) (lit ''hash'')"
    using assms(5) by (simp add: eMapKey_inject)
  ultimately have k: "contents d ?k = Some old" using look(4) [of ?k] len assms(6) by simp
  have ne: "old \<noteq> []" using assms(7) by auto
  note found = store_tx.GetBlockByHeight_stored [OF tx k ne, of js] store_tx.GetBlockByHeight_stored [OF tx assms(6) ne, of js]
  show ?thesis
  proof (intro conjI impI)
    assume "old \<notin> tHash ` set (sTxs b)"
    from look(5) [OF assms(7) this assms(8)] show "GetBlockByHeight (bgStore B) js d i = GetBlockByHeight (bgStore B) js (bc_db bc) i"
      by (simp add: found)
  next
    assume "old \<in> tHash ` set (sTxs b)"
    from block_effect_hash [OF assms(2) txs'(1) this, of js "h + 1" "contents (bc_db bc)"]
    obtain Tx Tx' where "Tx \<in> set (sTxs b)" "noted Tx Tx'" "tHash Tx = old" "contents d old = Some (js_tx js Tx')"
      unfolding txs'(2) by blast
    then show "\<exists>Tx \<in> set (sTxs b). \<exists>Tx'. noted Tx Tx' \<and> tHash Tx = old \<and>
      GetBlockByHeight (bgStore B) js d i = unmarshal (uj_Block js) NewBlock0 (js_tx js Tx')"
      by (intro bexI [of _ Tx] exI [of _ Tx']) (simp_all add: found)
  qed
qed

theorem AddBlock_keeps_blocks_witness:
  "GetBlockByHeight (bgStore map_badger) demo_json
    (bc_db (fst (AddBlock (bgStore map_badger) (bgTransaction map_badger) demo_json (\<lambda>_. []) demo_block addr_a
      \<lparr> bc_db = fmupd (eMapKey (E64func 1) (lit ''hash'')) (replicate 32 1) demo_db, bc_cdb = fmempty \<rparr>))) 1 =
   GetBlockByHeight (bgStore map_badger) demo_json
     (fmupd (eMapKey (E64func 1) (lit ''hash'')) (replicate 32 1) demo_db) 1"
proof -
  let ?bc = "\<lparr> bc_db = fmupd (eMapKey (E64func 1) (lit ''hash'')) (replicate 32 1) demo_db, bc_cdb = fmempty \<rparr>"
  have "length (eMapKey (E64func 1) (lit ''hash'')) \<noteq> length (lit ''height'')" by (simp add: lit_def)
  then have h: "fmlookup (bc_db ?bc) (lit ''height'') = Some (E64func 1)"
    using demo_height by (auto simp del: length_eMapKey)
  have ok: "snd (AddBlock (bgStore map_badger) (bgTransaction map_badger) demo_json (\<lambda>_. []) demo_block addr_a ?bc) = Ok ()"
    by (rule AddBlock_no_scripts_demo [OF h])
  have ne: "replicate 32 1 \<noteq> replicate 32 (7 :: byte)" "replicate 32 1 \<noteq> replicate 32 (9 :: byte)" by simp_all
  show ?thesis
    using AddBlock_keeps_blocks [OF map_badger_roomy demo_shape h ok, of 1 "replicate 32 1"] ne
    by (simp add: demo_block_def demo_tx_def)
qed

text \<open>C1: What a block does to the balances, as natural numbers. Over a finite set of accounts that holds every
  party of the block, if no account of the set pays more in the block than it has and gets, and what remains
  fits 64 bits, then every balance after the block is exactly the balance before, plus the rewards, amounts
  and (for the miner) fees of scripted transactions it gets, less the amounts and fees it pays. Together the
  accounts hold what they held before, with the rewards added and the fees of unscripted transactions gone;
  a transfer to oneself costs nothing and creates its amount.\<close>

theorem AddBlock_funds:
  assumes "roomy_badger B view writes contents" "block_shape b minaddr"
    "contents (bc_db bc) (lit ''height'') = Some (E64func h)"
    "snd (AddBlock (bgStore B) (bgTransaction B) js ord b minaddr bc) = Ok ()"
    "finite A" "\<forall>a \<in> A. account a" "minaddr \<in> A" "mRecAddress ` set (sFirstTx b) \<subseteq> A"
    "\<forall>Tx \<in> set (sTxs b). tFrom Tx \<in> A \<and> tTo Tx \<in> A"
  defines "c \<equiv> contents (bc_db bc)"
    and "c' \<equiv> contents (bc_db (fst (AddBlock (bgStore B) (bgTransaction B) js ord b minaddr bc)))"
  assumes "\<forall>a \<in> A. spent a (sTxs b) \<le> unat (num_at c a) + income minaddr a b"
    "\<forall>a \<in> A. unat (num_at c a) + income minaddr a b - spent a (sTxs b) < 2 ^ 64"
  shows "(\<forall>a \<in> A. unat (num_at c' a) + spent a (sTxs b) = unat (num_at c a) + income minaddr a b) \<and>
    funds A c' + (\<Sum>Tx \<leftarrow> sTxs b. if tFrom Tx \<noteq> tTo Tx then unat (tFee Tx) else 0) =
      funds A c + (\<Sum>m \<leftarrow> sFirstTx b. unat (mAmount m)) + (\<Sum>Tx \<leftarrow> sTxs b. if tScript Tx \<noteq> [] then unat (tFee Tx) else 0) +
        (\<Sum>Tx \<leftarrow> sTxs b. if tFrom Tx = tTo Tx then unat (tAmount Tx) else 0)"
proof -
  have exact: "unat (num_at c' a) + spent a (sTxs b) = unat (num_at c a) + income minaddr a b" if "a \<in> A" for a
    by (rule exact_change) (use store_tx.AddBlock_balance [OF bg_store_tx [OF assms(1)] assms(4,2,3)] assms(6) that
        assms(12,13) in \<open>auto simp: c_def c'_def\<close>)
  then show ?thesis using funds_change [OF assms(5,7,8,9), of c' c] by blast
qed

theorem AddBlock_funds_witness:
  "unat (num_at (fmlookup (bc_db (fst (demo_add demo_block)))) addr_a) = 65 \<and>
    funds {addr_a, addr_b} (fmlookup (bc_db (fst (demo_add demo_block)))) = 145"
proof -
  have acc: "\<forall>a \<in> {addr_a, addr_b}. account a"
    by (simp add: account_def addr_ab) (simp add: addr_a_def addr_b_def BytesToAddress_def lit_def Lenthaddr_def)
  have bal: "num_at (fmlookup demo_db) addr_a = 100" "num_at (fmlookup demo_db) addr_b = 0"
    using addr_ab account_keys(7) [of addr_b "lit ''height''"] acc
    by (auto simp: demo_db_def num_at_def lit_def)
  have flows: "spent addr_a (sTxs demo_block) = 35" "spent addr_b (sTxs demo_block) = 0"
    "income addr_a addr_a demo_block = 0" "income addr_a addr_b demo_block = 80"
    using addr_ab by (auto simp: demo_block_def demo_tx_def income_def zero_transaction_def)
  show ?thesis
    using AddBlock_funds [OF map_badger_roomy demo_shape _ demo_added, of 1 "{addr_a, addr_b}"] acc bal flows addr_ab
    by (simp add: demo_height funds_def)
      (simp add: demo_block_def demo_tx_def zero_transaction_def)
qed

text \<open>C40: When the contract of the first transaction cannot run, because its script names an unknown
  token, lacks funds or is refused for any other reason, \<open>AddBlock\<close> does not report an error: it calls
  \<open>Flush\<close> on the nil result and panics.\<close>

theorem AddBlock_refused_script_panics:
  assumes "roomy_badger B view writes contents" "block_shape b minaddr"
    "contents (bc_db bc) (lit ''height'') = Some (E64func h)" "sTxs b = Tx # txs" "tScript Tx \<noteq> []"
    "Parser (tScript Tx) = Ok sc" "exec_New (bgStore B) (bc_cdb bc) sc (tFrom Tx) = Err e"
  shows "snd (AddBlock (bgStore B) (bgTransaction B) js ord b minaddr bc) = Panic"
proof -
  note tx = bg_store_tx [OF assms(1)]
  let ?t = "db_NewTransaction (bgStore B) (bc_db bc)"
  have get: "tx_Get (bgTransaction B) ?t (lit ''height'') = Ok (E64func h)"
    using assms(3) by (subst store_tx.get_seen [OF tx]) (simp_all only: store_tx.seen_new [OF tx], simp_all add: lit_def)
  have shape: "sHash b \<noteq> []" "\<forall>m \<in> set (sFirstTx b). mRecAddress m \<noteq> []"
    using assms(2) by (auto simp: block_shape_def)
  have "E64func h = E64func (h + 1 - 1)" by simp
  then obtain t1 x where "add_header (bgTransaction B) js b (E64func h) (h + 1) ?t = (t1, Ok x)"
    using store_tx.doesD [OF tx store_tx.does_header [OF tx shape], of "E64func h" "h + 1" js ?t] by blast
  with get assms(4-7) show ?thesis
    by (simp add: AddBlock_def Let_def run_contract_def AddressToByte_def del: bg_fields)
qed

definition refused_tx :: transaction where
  "refused_tx = demo_tx\<lparr> tScript := print_call (lit ''freeze'') [VString [97], VString [98]] \<rparr>"

lemma refused_script:
  "Parser (tScript refused_tx) = Ok [Some (call_script (lit ''freeze'') [TOKENID, ADDRESS] [VString [97], VString [98]])]"
  unfolding refused_tx_def
  by (simp, rule Parser_call)
     (simp_all add: statement_types_def fits_def quotable_def typList_def TOKENID_def ADDRESS_def
        O_STRING_def lit_def)

lemma refused_run:
  "\<exists>e. exec_New (bgStore map_badger) fmempty
    [Some (call_script (lit ''freeze'') [TOKENID, ADDRESS] [VString [97], VString [98]])] a = Err e"
  by (simp add: exec_New_def call_script_def deal3_def argument_def check_owner_def
      aKey_def ms.get_stored Let_def del: bg_fields)

theorem AddBlock_refused_script_panics_witness:
  "snd (demo_add (demo_block\<lparr> sTxs := [refused_tx] \<rparr>)) = Panic"
proof -
  obtain e where "exec_New (bgStore map_badger) fmempty
    [Some (call_script (lit ''freeze'') [TOKENID, ADDRESS] [VString [97], VString [98]])] (tFrom refused_tx) = Err e"
    using refused_run by blast
  moreover have "block_shape (demo_block\<lparr> sTxs := [refused_tx] \<rparr>) addr_a"
    using demo_shape by (simp add: block_shape_def tx_shape_def refused_tx_def demo_block_def)
  moreover have "tScript refused_tx \<noteq> []" by (simp add: refused_tx_def print_call_def)
  ultimately show ?thesis
    using AddBlock_refused_script_panics [OF map_badger_roomy, of "demo_block\<lparr> sTxs := [refused_tx] \<rparr>" addr_a
        "\<lparr> bc_db = demo_db, bc_cdb = fmempty \<rparr>" 1 refused_tx "[]", OF _ _ _ _ refused_script]
    by (simp add: demo_height)
qed

section \<open>Checking a received block\<close>

context store_tx begin

lemma calc_step_done:
  assumes "tx_shape tx"
  shows "\<exists>d' res'. calc_from D T tx res d = (d', Ok res') \<and> dom res' = insert (tFrom tx) (dom res)"
    "\<exists>d' res'. calc_to D T tx res d = (d', Ok res') \<and> dom res' = insert (tTo tx) (dom res)"
proof -
  have ne: "tFrom tx \<noteq> []" "tTo tx \<noteq> []" using assms by (auto simp: tx_shape_def)
  obtain d1 r1 where g1: "GetBalance D T (tFrom tx) d = (d1, r1)" by (cases "GetBalance D T (tFrom tx) d")
  obtain d2 r2 where g2: "GetBalance D T (tTo tx) d = (d2, r2)" by (cases "GetBalance D T (tTo tx) d")
  have r: "r1 \<noteq> Panic" "r2 \<noteq> Panic"
    using GetBalance_no_panic [OF ne(1), of d] GetBalance_no_panic [OF ne(2), of d] g1 g2 by simp_all
  show "\<exists>d' res'. calc_from D T tx res d = (d', Ok res') \<and> dom res' = insert (tFrom tx) (dom res)"
    using g1 r by (cases "res (tFrom tx)") (simp_all add: calc_from_def AddressToByte_def Let_def)
  show "\<exists>d' res'. calc_to D T tx res d = (d', Ok res') \<and> dom res' = insert (tTo tx) (dom res)"
    using g2 r by (cases "res (tTo tx)") (simp_all add: calc_to_def AddressToByte_def)
qed

lemma calc_txs_done:
  assumes "\<forall>tx \<in> set txs. tx_shape tx"
  shows "\<exists>d' res'. calc_txs D T txs res d = (d', Ok res') \<and>
    dom res' = dom res \<union> tFrom ` set txs \<union> tTo ` set txs"
  using assms
proof (induction txs arbitrary: res d)
  case (Cons tx txs)
  then have s: "tx_shape tx" "\<forall>tx \<in> set txs. tx_shape tx" by simp_all
  obtain d1 res1 where f: "calc_from D T tx res d = (d1, Ok res1)" "dom res1 = insert (tFrom tx) (dom res)"
    using calc_step_done(1) [OF s(1)] by blast
  obtain d2 res2 where t: "calc_to D T tx res1 d1 = (d2, Ok res2)" "dom res2 = insert (tTo tx) (dom res1)"
    using calc_step_done(2) [OF s(1)] by blast
  obtain d3 res3 where r: "calc_txs D T txs res2 d2 = (d3, Ok res3)"
    "dom res3 = dom res2 \<union> tFrom ` set txs \<union> tTo ` set txs"
    using Cons.IH [OF s(2)] by blast
  show ?case using f t r by (auto simp: abind_def)
qed simp

end

lemma check_txs_same:
  "\<forall>tx \<in> set txs. tFrom tx \<in> dom (bTxres b) \<and> tTo tx \<in> dom (bTxres b) \<Longrightarrow>
    \<forall>tx \<in> set txs. tFrom tx \<in> dom (bTxres b') \<and> tTo tx \<in> dom (bTxres b') \<Longrightarrow>
    check_txs sha3 D cd b b txs = check_txs sha3 D cd b' b' txs"
proof (induction txs)
  case (Cons tx txs)
  then have "check_tx sha3 D cd b b tx = check_tx sha3 D cd b' b' tx"
    by (auto simp: check_tx_def split: option.split)
  with Cons show ?case by (simp split: option.split outcome.split)
qed simp

text \<open>\<open>Checkresults\<close> never looks at the balances a block claims: replacing the list \<open>Res\<close> by any
  other gives the same verdict, because the recomputed results are compared with themselves.\<close>

theorem Checkresults_ignores_balances:
  assumes "roomy_badger B view writes contents" "\<forall>Tx \<in> set (sTxs b). tx_shape Tx"
  shows "map_option snd (Checkresults sha3 ed (bgStore B) (bgTransaction B) (b\<lparr> sRes := claimed \<rparr>) Ds Cm qtj bc) =
    map_option snd (Checkresults sha3 ed (bgStore B) (bgTransaction B) b Ds Cm qtj bc)"
proof -
  let ?D = "bgStore B" and ?T = "bgTransaction B"
  let ?b0 = "blocks_change b" and ?b1 = "blocks_change (b\<lparr> sRes := claimed \<rparr>)"
  have txs: "bTxs ?b0 = sTxs b" "bTxs ?b1 = sTxs b" by (simp_all add: blocks_change_def)
  obtain d0 r0 where c0: "calc_txs ?D ?T (sTxs b) (bTxres ?b0) (bc_db bc) = (d0, Ok r0)"
    "dom r0 = dom (bTxres ?b0) \<union> tFrom ` set (sTxs b) \<union> tTo ` set (sTxs b)"
    using store_tx.calc_txs_done [OF bg_store_tx [OF assms(1)] assms(2)] by blast
  obtain d1 r1 where c1: "calc_txs ?D ?T (sTxs b) (bTxres ?b1) (bc_db bc) = (d1, Ok r1)"
    "dom r1 = dom (bTxres ?b1) \<union> tFrom ` set (sTxs b) \<union> tTo ` set (sTxs b)"
    using store_tx.calc_txs_done [OF bg_store_tx [OF assms(1)] assms(2)] by blast
  have "check_txs sha3 ?D (bc_cdb bc) (?b0\<lparr> bTxres := r0 \<rparr>) (?b0\<lparr> bTxres := r0 \<rparr>) (sTxs b) =
      check_txs sha3 ?D (bc_cdb bc) (?b1\<lparr> bTxres := r1 \<rparr>) (?b1\<lparr> bTxres := r1 \<rparr>) (sTxs b)"
    using c0(2) c1(2) by (intro check_txs_same) auto
  then show ?thesis
    using c0(1) c1(1)
    by (simp add: Checkresults_def Calculationresults_def abind_def txs split: option.split cong: if_cong)
qed

theorem Checkresults_ignores_balances_witness:
  "map_option snd (Checkresults id demo_ed (bgStore map_badger) (bgTransaction map_badger)
      (demo_block\<lparr> sRes := [\<lparr> brAddress = addr_a, brBalance = 1000000 \<rparr>] \<rparr>) [7] [8] (lit ''Kto'')
      \<lparr> bc_db = demo_db, bc_cdb = fmempty \<rparr>) =
    map_option snd (Checkresults id demo_ed (bgStore map_badger) (bgTransaction map_badger) demo_block [7] [8] (lit ''Kto'')
      \<lparr> bc_db = demo_db, bc_cdb = fmempty \<rparr>)"
  using demo_shape by (intro Checkresults_ignores_balances [OF map_badger_roomy]) (simp add: block_shape_def)

text \<open>The rewards of a block are compared only at the addresses of the computed rewards: an extra
  entry of \<open>FirstTx\<close> for any other address and of any amount leaves the verdict as it is, and \<open>AddBlock\<close>
  pays it.\<close>

theorem Checkresults_accepts_extra_reward:
  assumes "Distr ed (sTxs b) (sMiner b) Ds Cm qtj (sHeight b) = Ok mtx" "mRecAddress x \<notin> mRecAddress ` set mtx"
  shows "Checkresults sha3 ed D T (b\<lparr> sFirstTx := sFirstTx b @ [x] \<rparr>) Ds Cm qtj bc =
    Checkresults sha3 ed D T b Ds Cm qtj bc"
proof -
  have other: "sum_rewards (ms @ [x]) m a = sum_rewards ms m a" if "a \<noteq> mRecAddress x" for ms m a
    using that by (induction ms arbitrary: m) simp_all
  have match: "rewards_match mtx (sFirstTx b @ [x]) = rewards_match mtx (sFirstTx b)"
    using assms(2) other by (auto simp: rewards_match_def Let_def list_all_iff image_iff)
  have bl: "blocks_change (b\<lparr> sFirstTx := sFirstTx b @ [x] \<rparr>) =
      (blocks_change b)\<lparr> bFirstTx := sFirstTx b @ [x] \<rparr>"
    by (simp add: blocks_change_def)
  have chk: "check_txs sha3 D cd (c\<lparr> bFirstTx := f, bTxres := r \<rparr>) (c\<lparr> bFirstTx := f, bTxres := r \<rparr>) txs =
      check_txs sha3 D cd (c\<lparr> bTxres := r \<rparr>) (c\<lparr> bTxres := r \<rparr>) txs" for cd c r f txs
    by (induction txs) (simp_all add: check_tx_def txres_at_def split: option.split outcome.split)
  show ?thesis
    unfolding Checkresults_def Calculationresults_def bl
    by (simp add: abind_def match assms(1) chk split: prod.split outcome.split option.split cong: if_cong)
qed

theorem Checkresults_accepts_extra_reward_witness:
  "Checkresults id demo_ed (bgStore map_badger) (bgTransaction map_badger)
      (zero_Blocks\<lparr> sFirstTx := sFirstTx zero_Blocks @ [\<lparr> mAmount = 1000000, mRecAddress = [9] \<rparr>] \<rparr>) [7] [8] (lit ''Kto'')
      \<lparr> bc_db = demo_db, bc_cdb = fmempty \<rparr> =
    Checkresults id demo_ed (bgStore map_badger) (bgTransaction map_badger) zero_Blocks [7] [8] (lit ''Kto'')
      \<lparr> bc_db = demo_db, bc_cdb = fmempty \<rparr>"
proof (rule Checkresults_accepts_extra_reward)
  show "Distr demo_ed (sTxs zero_Blocks) (sMiner zero_Blocks) [7] [8] (lit ''Kto'') (sHeight zero_Blocks) =
      Ok [\<lparr> mAmount = block_reward 0 * 2 div 10, mRecAddress = [7] \<rparr>,
        \<lparr> mAmount = block_reward 0 * 4 div 10, mRecAddress = [] \<rparr>,
        \<lparr> mAmount = block_reward 0 * 4 div 10, mRecAddress = [8] \<rparr>]"
    by (simp add: Distr_def zero_Blocks_def AddrTopub_def lit_def slice_from_def Let_def)
qed simp

text \<open>For a sender's first transaction, when it carries a script, \<open>Calculationresults\<close> forgets the
  fee that the ledger takes: the recomputed balance is the amount lower, the recorded one amount and
  fee.\<close>

theorem Calculationresults_misses_fee:
  assumes "roomy_badger B view writes contents" "tx_shape Tx" "tFrom Tx \<noteq> tTo Tx" "tScript Tx \<noteq> []"
    "length minaddr = 47" "minaddr \<noteq> tFrom Tx" "hd (tFrom Tx) \<noteq> 109" "length bhash = 32"
  shows "(\<exists>res. snd (Calculationresults (bgStore B) (bgTransaction B) (NewBlock0\<lparr> bTxs := [Tx] \<rparr>) d) = Ok res \<and>
      bTxres res (tFrom Tx) = Some (num_at (contents d) (tFrom Tx) - tAmount Tx)) \<and>
    num_at (view (fst (record_tx (bgTransaction B) js bhash h minaddr Tx (NewTransaction B d True)))) (tFrom Tx) =
      num_at (contents d) (tFrom Tx) - tAmount Tx - tFee Tx"
proof (rule conjI)
  note tx = bg_store_tx [OF assms(1)]
  have ne: "tFrom Tx \<noteq> []" "tTo Tx \<noteq> []" "minaddr \<noteq> []" using assms(2,5) by (auto simp: tx_shape_def)
  obtain d1 r1 where g: "GetBalance (bgStore B) (bgTransaction B) (tFrom Tx) d = (d1, r1)"
    "r1 \<noteq> Panic" "or_zero 0 r1 = num_at (contents d) (tFrom Tx)"
    using store_tx.GetBalance_done(3) [OF tx ne(1), of d] store_tx.GetBalance_no_panic [OF tx ne(1), of d]
    by (cases "GetBalance (bgStore B) (bgTransaction B) (tFrom Tx) d") auto
  obtain d2 r2 where g2: "GetBalance (bgStore B) (bgTransaction B) (tTo Tx) d1 = (d2, r2)" "r2 \<noteq> Panic"
    using store_tx.GetBalance_no_panic [OF tx ne(2), of d1]
    by (cases "GetBalance (bgStore B) (bgTransaction B) (tTo Tx) d1") auto
  show "\<exists>res. snd (Calculationresults (bgStore B) (bgTransaction B) (NewBlock0\<lparr> bTxs := [Tx] \<rparr>) d) = Ok res \<and>
      bTxres res (tFrom Tx) = Some (num_at (contents d) (tFrom Tx) - tAmount Tx)"
    using g g2 assms(3)
    by (simp add: Calculationresults_def NewBlock0_def calc_from_def calc_to_def AddressToByte_def abind_def)
  have keys: "tFrom Tx \<noteq> eMapKey m k" "tFrom Tx \<noteq> nonce_key a" "tFrom Tx \<noteq> tHash Tx" for m k a
    using assms(2,7) by (auto simp: nonce_key_def tx_shape_def)
  have "view (fst (record_tx (bgTransaction B) js bhash h minaddr Tx (NewTransaction B d True))) =
      tx_effect js bhash h minaddr Tx (contents d)"
    using store_tx.doesD [OF tx store_tx.does_record_tx [OF tx shape_keys(1) [OF assms(2)] ne(3)], of js bhash h "NewTransaction B d True"]
      store_tx.seen_new [OF tx, of d] by auto
  then show "num_at (view (fst (record_tx (bgTransaction B) js bhash h minaddr Tx (NewTransaction B d True)))) (tFrom Tx) =
      num_at (contents d) (tFrom Tx) - tAmount Tx - tFee Tx"
    using assms(3,4,6) keys
    by (simp add: tx_effect_def Let_def move_def credit_def num_at_def [of _ "tFrom Tx"])
qed

theorem Calculationresults_misses_fee_witness:
  "num_at (mview (fst (record_tx (bgTransaction map_badger) demo_json (replicate 32 7) 2 (addr_a[0 := 1])
      (demo_tx\<lparr> tScript := [120] \<rparr>) (demo_db, fmempty)))) addr_a = 65"
proof -
  have l: "length addr_a = 47" "hd addr_a = 75" "hd addr_b = 75" "hd (addr_a[0 := 1]) = 1"
    by (simp_all add: addr_ab addr_a_def addr_b_def BytesToAddress_def lit_def Lenthaddr_def)
  then have "hd (addr_a[0 := 1]) \<noteq> hd addr_a" by simp
  then have "addr_a[0 := 1] \<noteq> addr_a" by metis
  moreover have "num_at (fmlookup demo_db) addr_a = 100" by (simp add: demo_db_def num_at_def)
  ultimately show ?thesis
    using Calculationresults_misses_fee [OF map_badger_roomy, of "demo_tx\<lparr> tScript := [120] \<rparr>" "addr_a[0 := 1]"
        "replicate 32 7" demo_db demo_json 2] l addr_ab
    by (simp add: tx_shape_def demo_tx_def)
qed

section \<open>Reading a range of blocks\<close>

context store_tx begin

lemma block_section_stored:
  assumes "unat i + n = Suc (unat cur)" "cur \<noteq> - 1"
    "\<And>k. i \<le> k \<Longrightarrow> k \<le> cur \<Longrightarrow> stored d (eMapKey (E64func k) (lit ''hash'')) = Some (hash k) \<and> hash k \<noteq> [] \<and>
      (\<exists>v. stored d (hash k) = Some v \<and> uj_Blocks js v zero_Blocks = (blk k, Ok ()))"
  shows "block_section D js d cur i bs = Some (Ok (bs @ map (\<lambda>j. blk (i + of_nat j)) [0..<n]))"
  using assms(1,3)
proof (induction n arbitrary: i bs)
  case 0
  then have "\<not> i \<le> cur" by (simp add: word_le_nat_alt)
  then show ?case by (subst block_section.simps) simp
next
  case (Suc n)
  then have le: "i \<le> cur" by (simp add: word_le_nat_alt)
  have "unat cur \<noteq> unat (- 1 :: u64)" using assms(2) by (simp add: word_unat_eq_iff)
  moreover have "unat cur < 2 ^ 64" by (rule order_less_le_trans [OF unsigned_less]) simp
  ultimately have "unat i + 1 < 2 ^ 64" using Suc.prems(1) by (simp add: unsigned_minus_1_eq_mask mask_eq_exp_minus_1)
  then have nxt: "unat (i + 1) = unat i + 1" by (simp add: unat_plus_if')
  obtain v where v: "stored d (eMapKey (E64func i) (lit ''hash'')) = Some (hash i)" "hash i \<noteq> []"
    "stored d (hash i) = Some v" "uj_Blocks js v zero_Blocks = (blk i, Ok ())"
    using Suc.prems(2) [of i] le by auto
  have "block_section D js d cur i bs = block_section D js d cur (i + 1) (bs @ [blk i])"
    using le v by (subst block_section.simps) (simp add: reads unmarshal_def abind_def)
  also have "\<dots> = Some (Ok ((bs @ [blk i]) @ map (\<lambda>j. blk (i + 1 + of_nat j)) [0..<n]))"
    using Suc.prems nxt by (intro Suc.IH) (auto simp: word_le_nat_alt)
  also have "map (\<lambda>j. blk (i + 1 + of_nat j)) [0..<n] = map (\<lambda>j. blk (i + of_nat j)) [Suc 0..<Suc n]"
    by (simp only: map_Suc_upt [symmetric] map_map) (simp add: ac_simps)
  finally show ?case by (simp add: upt_conv_Cons del: upt_Suc)
qed

end

text \<open>C37: \<open>GetBlockSection\<close> returns the blocks of a range of heights below the largest 64-bit number in
  ascending order, one for each height; it always returns there.\<close>

theorem GetBlockSection_ascending:
  assumes "roomy_badger B view writes contents" "first \<le> current" "current \<noteq> - 1"
    "\<And>k. first \<le> k \<Longrightarrow> k \<le> current \<Longrightarrow>
      contents d (eMapKey (E64func k) (lit ''hash'')) = Some (hash k) \<and> hash k \<noteq> [] \<and>
      (\<exists>v. contents d (hash k) = Some v \<and> uj_Blocks js v zero_Blocks = (blk k, Ok ()))"
  shows "GetBlockSection (bgStore B) js d current first =
    Some (Ok (map (\<lambda>j. blk (first + of_nat j)) [0..<Suc (unat current - unat first)]))"
  using store_tx.block_section_stored [OF bg_store_tx [OF assms(1)], of first "Suc (unat current - unat first)" current d hash js blk "[]"]
    assms(2-4)
  by (simp add: GetBlockSection_def word_le_nat_alt del: upt_Suc)

theorem GetBlockSection_ascending_witness:
  "GetBlockSection (bgStore map_badger) demo_json
    (fmupd [5] [1] (fmupd (eMapKey (E64func 3) (lit ''hash'')) [5] fmempty)) 3 3 = Some (Ok [zero_Blocks])"
proof -
  have "length (eMapKey (E64func 3) (lit ''hash'')) \<noteq> length [5 :: byte]" by simp
  then have "eMapKey (E64func 3) (lit ''hash'') \<noteq> [5]" by metis
  then show ?thesis
    using GetBlockSection_ascending [OF map_badger_roomy, of 3 3
        "fmupd [5] [1] (fmupd (eMapKey (E64func 3) (lit ''hash'')) [5] fmempty)" "\<lambda>_. [5]" demo_json "\<lambda>_. zero_Blocks"]
    by (simp add: demo_json_def)
qed

section \<open>Genesis and new blocks\<close>

lemma genesis_address: "BytesToAddress genesis_miner = genesis_miner" "length genesis_miner = 47"
  by (simp_all add: BytesToAddress_def genesis_miner_def lit_def Lenthaddr_def)

context store_tx begin

lemma genesis_AddBlock_done:
  assumes "length (sHash b) = 32"
  shows "snd (genesis_AddBlock D T js b d) = Ok ()"
    "stored (fst (genesis_AddBlock D T js b d)) =
      credit (BytesToAddress (sMiner b)) 1000000000000000000
        ((stored d)(eMapKey (E64func 1) (lit ''hash'') \<mapsto> sHash b, sHash b \<mapsto> js_Blocks js b,
          E64func 1 \<mapsto> E64func 2, lit ''height'' \<mapsto> E64func 1))"
proof -
  have len: "length (E64func 1) = 8" "length (BytesToAddress (sMiner b)) = 47" by simp_all
  have ne: "sHash b \<noteq> []" "lit ''height'' \<noteq> []" "E64func 1 \<noteq> []" "BytesToAddress (sMiner b) \<noteq> []"
    using assms by (auto simp: lit_def simp flip: length_greater_0_conv)
  let ?m = "abind (tx_Mset T (E64func 1) (lit ''hash'') (sHash b)) (\<lambda>_.
        abind (tx_Set T (sHash b) (js_Blocks js b)) (\<lambda>_.
        abind (tx_Set T (E64func 1) (E64func 2)) (\<lambda>_.
        aignore (tx_Del T (lit ''height''))
          (aignore (tx_Set T (lit ''height'') (E64func 1))
            (MinerAccount T (AddressToByte (BytesToAddress (sMiner b))) 1000000000000000000)))))"
  let ?f = "\<lambda>c. credit (BytesToAddress (sMiner b)) 1000000000000000000
        (c(eMapKey (E64func 1) (lit ''hash'') \<mapsto> sHash b, sHash b \<mapsto> js_Blocks js b,
          E64func 1 \<mapsto> E64func 2, lit ''height'' \<mapsto> E64func 1))"
  have "does ?m ?f"
    unfolding AddressToByte_def
    by (rule does_eq [OF does_abind [OF does_writes(3) does_abind [OF does_writes(1) [OF ne(1)]
          does_abind [OF does_writes(1) [OF ne(3)] does_aignore [OF does_writes(2) [OF ne(2)]
          does_aignore [OF does_writes(1) [OF ne(2)] does_credit(3) [OF ne(4)]]]]]]])
      (simp add: fun_eq_iff credit_def num_at_def)
  from doesD [OF this, of "db_NewTransaction D d"]
  obtain t x where m: "?m (db_NewTransaction D d) = (t, Ok x)" "seen t = ?f (stored d)" "in_step t (stored d)"
    unfolding seen_new by (auto simp: in_step_def in_step_new)
  have "genesis_AddBlock D T js b d = tx_Commit T t d"
    unfolding genesis_AddBlock_def m(1) by simp
  then show "snd (genesis_AddBlock D T js b d) = Ok ()"
    "stored (fst (genesis_AddBlock D T js b d)) = ?f (stored d)"
    using m(2,3) commit_in_step [of t d] commit_ok [of t d] by (simp_all add: in_step_def)
qed

end

text \<open>The genesis program makes a chain of height 1 out of an empty database: its block is found at
  height 1, and the first miner owns the initial amount.\<close>

theorem genesis_chain:
  assumes "roomy_badger B view writes contents" "\<And>x. length (sha3 x) = 32"
    "genesis_block sha256 sha3 js = Some (Ok b)" "contents d = Map.empty"
    "uj_Block js (js_Blocks js b) NewBlock0 = (blk, Ok ())"
  shows "snd (genesis_AddBlock (bgStore B) (bgTransaction B) js b d) = Ok () \<and>
    (let d' = fst (genesis_AddBlock (bgStore B) (bgTransaction B) js b d) in
      GetMaxBlockHeight (bgStore B) d' = Ok 1 \<and> GetBlockByHeight (bgStore B) js d' 1 = Ok blk \<and>
      num_at (contents d') genesis_miner = 1000000000000000000)"
proof -
  note tx = bg_store_tx [OF assms(1)]
  have b: "length (sHash b) = 32" "sMiner b = genesis_miner"
    using assms(2,3) by (auto simp: genesis_block_def merkle_hash_Nil Blocks_SetHash_def)
  let ?d = "fst (genesis_AddBlock (bgStore B) (bgTransaction B) js b d)"
  note gen = store_tx.genesis_AddBlock_done [OF tx b(1), of js d]
  have len: "length (lit ''height'') = 6" "length (eMapKey (E64func 1) (lit ''hash'')) = 18" by (simp_all add: lit_def)
  have ne: "lit ''height'' \<noteq> genesis_miner" "eMapKey (E64func 1) (lit ''hash'') \<noteq> genesis_miner"
    "sHash b \<noteq> genesis_miner" "E64func 1 \<noteq> genesis_miner"
    using len b(1) genesis_address(2) length_E64func [of 1] by (metis numeral_eq_iff semiring_norm(83,84,85,87,88,89,90))+
  have ne': "lit ''height'' \<noteq> eMapKey (E64func 1) (lit ''hash'')" "lit ''height'' \<noteq> sHash b"
    "eMapKey (E64func 1) (lit ''hash'') \<noteq> sHash b" "eMapKey (E64func 1) (lit ''hash'') \<noteq> E64func 1"
    "sHash b \<noteq> E64func 1"
    using len b(1) length_E64func [of 1] by (metis numeral_eq_iff semiring_norm(83,84,85,87,88,89,90))+
  have c: "contents ?d (lit ''height'') = Some (E64func 1)"
    "contents ?d (eMapKey (E64func 1) (lit ''hash'')) = Some (sHash b)"
    "contents ?d (sHash b) = Some (js_Blocks js b)"
    "num_at (contents ?d) genesis_miner = 1000000000000000000"
    using ne ne' by (simp_all add: gen(2) b(2) genesis_address(1) credit_def num_at_def assms(4))
  have "sHash b \<noteq> []" using b(1) by auto
  then show ?thesis
    using store_tx.GetMaxBlockHeight_stored [OF tx] store_tx.GetBlockByHeight_stored [OF tx c(2)] c gen(1) assms(5)
    by (simp add: Let_def unmarshal_def abind_def)
qed

theorem genesis_chain_witness:
  "GetMaxBlockHeight (bgStore map_badger) (fst (genesis_AddBlock (bgStore map_badger) (bgTransaction map_badger)
    demo_json (Blocks_SetHash (\<lambda>_. replicate 32 7) (js_txs demo_json)
      \<lparr> sHeight = 1, sPrevBlockHash = [], sTxs = [], sRoot = [], sVersion = 1, sTimestamp = 1577256099,
        sHash = [], sMiner = genesis_miner, sRes = [], sFirstTx = [] \<rparr>) fmempty)) = Ok 1"
  using genesis_chain [OF map_badger_roomy, of "\<lambda>_. replicate 32 7" id demo_json _ fmempty NewBlock0]
  by (simp add: fun_eq_iff genesis_block_def merkle_hash_Nil demo_json_def Let_def)

lemma orders_counted:
  assumes "length q = 32"
  shows "\<exists>n. count_orders ed q txs k = Ok n" "\<exists>ms. pay_orders ed q f txs acc = Ok ms"
  using assms
  by (induction txs arbitrary: k acc) (simp_all add: order_counts_def Verify_def)

lemma Distr_returns:
  assumes "AddrTopub QTJ = Ok q" "length q = 32"
  shows "\<exists>ms. Distr ed txs minaddr Ds Cm QTJ height = Ok ms"
proof -
  obtain n where "count_orders ed q txs 0 = Ok n" using orders_counted(1) [OF assms(2)] by blast
  moreover obtain ms where "pay_orders ed q (block_reward height div 10 div n) txs [] = Ok ms"
    using orders_counted(2) [OF assms(2)] by blast
  ultimately show ?thesis using assms(1) by (simp add: Distr_def Let_def)
qed

text \<open>C38: \<open>NewBlock\<close> on a chain of height h makes a block of height h + 1 that points to the stored hash
  of height h, carries the given transactions numbered h + 1, and has their Merkle root; the database is
  unchanged.\<close>

theorem NewBlock_links:
  assumes "roomy_badger B view writes contents" "contents d (lit ''height'') = Some (E64func h)"
    "contents d (eMapKey (E64func h) (lit ''hash'')) = Some prev" "AddrTopub QTJ = Ok q" "length q = 32"
    "tr \<noteq> []" "\<And>tx. js_tx js tx \<noteq> []"
  defines "tr' \<equiv> map (\<lambda>tx. tx\<lparr> tBlockNumber := h + 1 \<rparr>) tr"
  shows "\<exists>d' b. NewBlock sha256 sha3 ed (bgStore B) (bgTransaction B) js now tr minaddr Ds Cm QTJ d = Some (d', Ok b) \<and>
    contents d' = contents d \<and> bHeight b = h + 1 \<and> bPrevBlockHash b = prev \<and> bTxs b = tr' \<and>
    bRoot b = merkle_levels sha256 (map sha256 (map (js_tx js) tr')) \<and> bTimestamp b = now \<and> bMiner b = minaddr"
proof -
  note tx = bg_store_tx [OF assms(1)]
  let ?f = "\<lambda>tx. obind (tx_Get (bgTransaction B) tx (lit ''height'')) D64func"
  have "lit ''height'' \<noteq> []" by (simp add: lit_def)
  then have "?f (db_NewTransaction (bgStore B) d) = Ok h"
    using assms(2) by (simp add: store_tx.get_seen [OF tx] store_tx.seen_new [OF tx] del: bg_fields)
  then obtain d' where rd: "read_commit (bgStore B) (bgTransaction B) ?f d = (d', Ok h)" "contents d' = contents d"
    using store_tx.read_commit_done [OF tx, of ?f d]
    by (cases "read_commit (bgStore B) (bgTransaction B) ?f d") auto
  have root: "merkle_hash sha256 (map (js_tx js) tr') = Some (Ok (merkle_levels sha256 (map sha256 (map (js_tx js) tr'))))"
    using assms(6,7) by (intro merkle_hash_reference) (auto simp: tr'_def image_iff, metis)
  have hash: "db_Mget (bgStore B) d' (E64func h) (lit ''hash'') = Ok prev"
    using assms(3) rd(2) by (simp add: store_tx.mget_stored [OF tx] del: bg_fields)
  obtain ms where ms: "Distr ed tr' minaddr Ds Cm QTJ (h + 1) = Ok ms"
    using Distr_returns [OF assms(4,5)] by blast
  have "NewBlock sha256 sha3 ed (bgStore B) (bgTransaction B) js now tr minaddr Ds Cm QTJ d = Some (d',
      Ok (Block_SetHash sha3 (js_txs js)
        \<lparr> bHeight = h + 1, bPrevBlockHash = prev, bTxs = tr',
          bRoot = merkle_levels sha256 (map sha256 (map (js_tx js) tr')), bVersion = 1, bTimestamp = now,
          bHash = [], bMiner = minaddr, bTxres = Map.empty, bFirstTx = ms \<rparr>))"
    unfolding NewBlock_def rd(1) prod.case outcome.case Let_def tr'_def [symmetric] root option.case
    by (simp only: obind_simps hash D64func_E64func ms)
  then show ?thesis
    using rd(2) by (simp add: Block_SetHash_def)
qed

theorem NewBlock_links_witness:
  "\<exists>d' b. NewBlock id id demo_ed (bgStore map_badger)
      (bgTransaction map_badger) demo_json 5 [demo_tx] addr_a [1] [2] (lit ''Kto'' @ Encode (replicate 32 1))
      (fmupd (eMapKey (E64func 1) (lit ''hash'')) [4] demo_db) = Some (d', Ok b) \<and>
    fmlookup d' = fmlookup (fmupd (eMapKey (E64func 1) (lit ''hash'')) [4] demo_db) \<and>
    bHeight b = 1 + 1 \<and> bPrevBlockHash b = [4] \<and> bTxs b = map (\<lambda>tx. tx\<lparr> tBlockNumber := 1 + 1 \<rparr>) [demo_tx] \<and>
    bRoot b = merkle_levels id (map id (map (js_tx demo_json) (map (\<lambda>tx. tx\<lparr> tBlockNumber := 1 + 1 \<rparr>) [demo_tx]))) \<and>
    bTimestamp b = 5 \<and> bMiner b = addr_a"
proof (rule NewBlock_links [OF map_badger_roomy])
  have "length (eMapKey (E64func 1) (lit ''hash'')) \<noteq> length (lit ''height'')" by (simp add: lit_def)
  then show "fmlookup (fmupd (eMapKey (E64func 1) (lit ''hash'')) [4] demo_db) (lit ''height'') = Some (E64func 1)"
    using demo_height by (auto simp del: length_eMapKey)
  show "AddrTopub (lit ''Kto'' @ Encode (replicate 32 1)) = Ok (replicate 32 1)"
    by (simp add: AddrTopub_def length_lit_Kto Decode_Encode)
qed (simp_all add: demo_json_def)

end
