(* ===== verification/MerkleProof.thy ===== *)
theory MerkleProof
  imports Merkle
begin

text \<open>
  Proof paths of \<open>until/merkle\<close>: \<open>constructPath\<close>, \<open>validate\<close> and \<open>VerifyNode\<close>. A path is a Go slice,
  and \<open>constructPath\<close> appends to the slice it was given twice, so backing arrays matter: \<open>arrays\<close> is
  the list of arrays allocated so far, each as long as its capacity, and a slice names its array, its
  length and its capacity.
\<close>

section \<open>Slices with their arrays\<close>

record ProofElem =
  pe_isLeft :: bool
  pe_nodeRoot :: bytes
  pe_siblingRoot :: bytes

type_synonym arrays = "ProofElem list list"

record slice =
  sl_arr :: nat
  sl_len :: nat
  sl_cap :: nat

definition empty_slice :: slice where
  "empty_slice = \<lparr> sl_arr = 0, sl_len = 0, sl_cap = 0 \<rparr>"

definition slice_list :: "arrays \<Rightarrow> slice \<Rightarrow> ProofElem list" where
  "slice_list st s = (if sl_len s = 0 then [] else take (sl_len s) (st ! sl_arr s))"

definition zero_elem :: ProofElem where
  "zero_elem = \<lparr> pe_isLeft = False, pe_nodeRoot = [], pe_siblingRoot = [] \<rparr>"

text \<open>
  \<open>append(s, es...)\<close>. With room the elements are written behind the slice in its own array, which other
  slices may share. Without room a new array is allocated; the run time doubles the capacity of a
  short slice, or takes the needed length when that is more.
\<close>

definition grow :: "nat \<Rightarrow> nat \<Rightarrow> nat" where
  "grow cp needed = (if 2 * cp < needed then needed else 2 * cp)"

definition overwrite :: "'a list \<Rightarrow> nat \<Rightarrow> 'a list \<Rightarrow> 'a list" where
  "overwrite xs i ys = take i xs @ ys @ drop (i + length ys) xs"

definition append_go :: "slice \<Rightarrow> ProofElem list \<Rightarrow> arrays \<Rightarrow> slice \<times> arrays" where
  "append_go s es st =
     (let n = sl_len s + length es in
      if es = [] then (s, st)
      else if n \<le> sl_cap s
      then (s\<lparr> sl_len := n \<rparr>, st[sl_arr s := overwrite (st ! sl_arr s) (sl_len s) es])
      else (let c = grow (sl_cap s) n in
        (\<lparr> sl_arr = length st, sl_len = n, sl_cap = c \<rparr>,
         st @ [slice_list st s @ es @ replicate (c - n) zero_elem])))"

section \<open>Paths\<close>

text \<open>
  A nil node to look for is dereferenced when the first leaf is reached; a nil child is dereferenced
  at once.
\<close>

fun constructPath ::
  "slice \<Rightarrow> MerkleNode \<Rightarrow> MerkleNode option \<Rightarrow> arrays \<Rightarrow> (slice \<times> arrays) outcome" where
  "constructPath pth (MerkleNode True d r lo ro) node st =
     (case node of
        None \<Rightarrow> Panic
      | Some nd \<Rightarrow> Ok (if r = node_root nd then pth else empty_slice, st))"
| "constructPath pth (MerkleNode False d r (Some ln) (Some rn)) node st =
     (let le = \<lparr> pe_isLeft = True, pe_nodeRoot = node_root ln, pe_siblingRoot = node_root rn \<rparr>;
          re = \<lparr> pe_isLeft = False, pe_nodeRoot = node_root rn, pe_siblingRoot = node_root ln \<rparr>;
          (pl, st) = append_go pth [le] st
      in obind (constructPath pl ln node st) (\<lambda>(lpath, st).
           let (pr, st) = append_go pth [re] st
           in obind (constructPath pr rn node st) (\<lambda>(rpath, st).
                Ok (append_go lpath (slice_list st rpath) st))))"
| "constructPath pth (MerkleNode False d r lo ro) node st = Panic"

definition merkleProof :: "MerkleTree option \<Rightarrow> MerkleNode option \<Rightarrow> ProofElem list outcome" where
  "merkleProof t node =
     (case GetMtRoot t of
        None \<Rightarrow> Panic
      | Some root \<Rightarrow> obind (constructPath empty_slice root node []) (\<lambda>(s, st). Ok (slice_list st s)))"

function validate :: "(bytes \<Rightarrow> bytes) \<Rightarrow> ProofElem list \<Rightarrow> bytes \<Rightarrow> bytes \<Rightarrow> bool" where
  "validate h pth root leaf =
     (if pth = [] then leaf = root
      else let e = last pth in
        if pe_nodeRoot e \<noteq> leaf then False
        else validate h (butlast pth) root
          (if pe_isLeft e then mkRootHash h (pe_nodeRoot e) (pe_siblingRoot e)
           else mkRootHash h (pe_siblingRoot e) (pe_nodeRoot e)))"
  by pat_completeness auto
termination
  by (relation "measure (\<lambda>(h, pth, root, leaf). length pth)") simp_all

declare validate.simps [simp del]

definition VerifyNode :: "(bytes \<Rightarrow> bytes) \<Rightarrow> MerkleTree option \<Rightarrow> bytes \<Rightarrow> bool outcome" where
  "VerifyNode h t data =
     (let node = mkLeaf h data in
      obind (merkleProof t node) (\<lambda>pth.
      case (node, GetMtRoot t) of
        (Some nd, Some root) \<Rightarrow> Ok (validate h pth (node_root root) (node_root nd))
      | _ \<Rightarrow> Panic))"

lemma constructPath_branch:
  assumes "append_go pth [\<lparr> pe_isLeft = True, pe_nodeRoot = node_root ln, pe_siblingRoot = node_root rn \<rparr>] st = (pl, st1)"
    "constructPath pl ln node st1 = Ok (lp, st2)"
    "append_go pth [\<lparr> pe_isLeft = False, pe_nodeRoot = node_root rn, pe_siblingRoot = node_root ln \<rparr>] st2 = (pr, st3)"
    "constructPath pr rn node st3 = Ok (rp, st4)"
  shows "constructPath pth (MerkleNode False d r (Some ln) (Some rn)) node st =
    Ok (append_go lp (slice_list st4 rp) st4)"
  by (simp add: assms Let_def)

section \<open>Digests that are not in the tree\<close>

text \<open>Appending writes the slice's own array or a fresh one.\<close>

lemma append_go_frame:
  assumes "append_go s es st = (s', st')" "i < length st" "i \<noteq> sl_arr s"
  shows "st' ! i = st ! i" "i < length st'" "i \<noteq> sl_arr s'"
  using assms by (auto simp: append_go_def Let_def nth_append split: if_splits)

lemma append_go_empty: "append_go empty_slice [] st = (empty_slice, st)" "slice_list st empty_slice = []"
  by (simp_all add: append_go_def slice_list_def empty_slice_def)

lemma constructPath_absent:
  assumes "full_tree t" "node_root nd \<notin> leaf_roots t"
  shows "\<exists>st'. constructPath pth t (Some nd) st = Ok (empty_slice, st') \<and>
    (\<forall>i < length st. i \<noteq> sl_arr pth \<longrightarrow> i < length st' \<and> st' ! i = st ! i)"
  using assms
proof (induction arbitrary: pth st)
  case (branch l rt d r)
  obtain pl st1 where a1: "append_go pth [\<lparr> pe_isLeft = True, pe_nodeRoot = node_root l, pe_siblingRoot = node_root rt \<rparr>] st = (pl, st1)"
    by (rule prod.exhaust)
  have nl: "node_root nd \<notin> leaf_roots l" and nr: "node_root nd \<notin> leaf_roots rt"
    using branch.prems by simp_all
  from branch.IH(1) [OF nl] obtain st2 where c1: "constructPath pl l (Some nd) st1 = Ok (empty_slice, st2)"
    and f1: "\<forall>i < length st1. i \<noteq> sl_arr pl \<longrightarrow> i < length st2 \<and> st2 ! i = st1 ! i"
    by blast
  obtain pr st3 where a2: "append_go pth [\<lparr> pe_isLeft = False, pe_nodeRoot = node_root rt, pe_siblingRoot = node_root l \<rparr>] st2 = (pr, st3)"
    by (rule prod.exhaust)
  from branch.IH(2) [OF nr] obtain st4 where c2: "constructPath pr rt (Some nd) st3 = Ok (empty_slice, st4)"
    and f2: "\<forall>i < length st3. i \<noteq> sl_arr pr \<longrightarrow> i < length st4 \<and> st4 ! i = st3 ! i"
    by blast
  have "i < length st4 \<and> st4 ! i = st ! i" if "i < length st" "i \<noteq> sl_arr pth" for i
    using append_go_frame [OF a1 that] f1 append_go_frame [OF a2, of i] f2 that by metis
  then show ?case
    using constructPath_branch [OF a1 c1 a2 c2] by (simp add: append_go_empty)
qed auto

lemma VerifyNode_absent:
  assumes "GetMtRoot t = Some root" "full_tree root" "data \<noteq> []" "h data \<notin> leaf_roots root"
  shows "VerifyNode h t data = Ok (h data = node_root root)"
proof -
  have leaf: "mkLeaf h data = Some (MerkleNode True data (h data) None None)"
    using assms(3) by (simp add: mkLeaf_def mkLeafRootHash_def GenHash_def)
  obtain st where "constructPath empty_slice root (Some (MerkleNode True data (h data) None None)) [] = Ok (empty_slice, st)"
    using constructPath_absent [OF assms(2), of "MerkleNode True data (h data) None None" empty_slice "[]"] assms(4)
    by (auto simp del: constructPath.simps)
  then show ?thesis
    using assms(1) leaf
    by (simp add: VerifyNode_def merkleProof_def slice_list_def empty_slice_def validate.simps)
qed

lemma VerifyNode_empty:
  assumes "GetMtRoot t = Some root" "full_tree root"
  shows "VerifyNode h t [] = Panic"
proof -
  have "constructPath pth root None st = Panic" for pth st
    using assms(2)
    by (induction arbitrary: pth st) (auto split: prod.split)
  then show ?thesis using assms(1) by (simp add: VerifyNode_def merkleProof_def mkLeaf_def)
qed

section \<open>Verification over a built tree\<close>

text \<open>What a caller gets that builds a tree over items and asks for one datum.\<close>

definition verify_in :: "(bytes \<Rightarrow> bytes) \<Rightarrow> bytes list \<Rightarrow> bytes \<Rightarrow> bool outcome option" where
  "verify_in h items data =
     (case merkle_New h items of None \<Rightarrow> None | Some r \<Rightarrow> Some (obind r (\<lambda>t. VerifyNode h t data)))"

lemma verify_in_absent:
  assumes "items \<noteq> []" "[] \<notin> set items" "data \<noteq> []" "h data \<notin> h ` set items"
  shows "verify_in h items data = Some (Ok (h data = merkle_levels h (map h items)))"
proof -
  obtain node where "mkMerkleTreeRoot h (length items) items = Some (Ok (Some node))"
    "node_root node = merkle_levels h (map h items)" "full_tree node" "leaf_roots node = h ` set items"
    using mkMerkleTreeRoot_reference [of items "length items" h] assms(1,2) by auto
  then show ?thesis
    using assms VerifyNode_absent [of "Some \<lparr> mt_tree = Some node \<rparr>" node data h]
    by (simp add: verify_in_def merkle_New_def GetMtRoot_def)
qed

lemma verify_in_empty:
  assumes "items \<noteq> []" "[] \<notin> set items"
  shows "verify_in h items [] = Some Panic"
proof -
  obtain node where "mkMerkleTreeRoot h (length items) items = Some (Ok (Some node))" "full_tree node"
    using mkMerkleTreeRoot_reference [of items "length items" h] assms by auto
  then show ?thesis
    using assms VerifyNode_empty [of "Some \<lparr> mt_tree = Some node \<rparr>" node h]
    by (simp add: verify_in_def merkle_New_def GetMtRoot_def)
qed

section \<open>What verification promises\<close>

text \<open>C18: What \<open>VerifyNode\<close> answers, over a tree of non-empty items, for a non-empty datum that has
  the digest of no item: it returns, and it accepts the datum exactly when the datum's digest is the tree's root. Every
  other outsider is refused.\<close>

theorem VerifyNode_outsiders:
  assumes "items \<noteq> []" "[] \<notin> set items" "data \<noteq> []" "h data \<notin> h ` set items"
  shows "verify_in h items data = Some (Ok (h data = merkle_levels h (map h items)))"
  by (rule verify_in_absent [OF assms])

theorem VerifyNode_outsiders_witness:
  "verify_in (\<lambda>x. 0 # x) [[1], [2], [3]] [4] = Some (Ok False)"
  using VerifyNode_outsiders [of "[[1], [2], [3]]" "[4]" "\<lambda>x. 0 # x"] by simp

text \<open>There are such outsiders, since leaves and branches are hashed alike: over two items the proof of the
  string that joins their digests is accepted, without any collision.\<close>

theorem VerifyNode_accepts_children:
  assumes "x \<noteq> []" "y \<noteq> []" "h x @ h y \<noteq> []" "h (h x @ h y) \<notin> {h x, h y}"
  shows "verify_in h [x, y] (h x @ h y) = Some (Ok True)"
  using verify_in_absent [of "[x, y]" "h x @ h y" h] assms by simp

theorem VerifyNode_accepts_children_witness:
  "verify_in (\<lambda>x. 0 # x) [[1], [2]] [0, 1, 0, 2] = Some (Ok True)"
  using VerifyNode_accepts_children [of "[1]" "[2]" "\<lambda>x. 0 # x"] by simp

lemma mkMerkleTreeRoot_branch:
  assumes "powerOfTwo n = k" "n \<noteq> 1" "k \<le> length data"
    "mkMerkleTreeRoot h k (take k data) = Some (Ok l)"
    "mkMerkleTreeRoot h (n - k) (drop k data) = Some (Ok r)"
  shows "mkMerkleTreeRoot h n data = Some (Ok (mkBranch h l r))"
  using assms by (subst mkMerkleTreeRoot.simps) simp

lemma tree2: "mkMerkleTreeRoot h 2 [a, b] = Some (Ok (mkBranch h (mkLeaf h a) (mkLeaf h b)))"
  by (rule mkMerkleTreeRoot_branch [of _ 1]) (simp_all add: powerOfTwo_def mkMerkleTreeRoot_1 [simplified])

lemma tree4: "mkMerkleTreeRoot h 4 [a, b, c, d] = Some (Ok (mkBranch h
    (mkBranch h (mkLeaf h a) (mkLeaf h b)) (mkBranch h (mkLeaf h c) (mkLeaf h d))))"
  by (rule mkMerkleTreeRoot_branch [of _ 2]) (simp_all add: powerOfTwo_def tree2)

lemma tree8: "mkMerkleTreeRoot h 8 [a, b, c, d, a', b', c', d'] = Some (Ok (mkBranch h
    (mkBranch h (mkBranch h (mkLeaf h a) (mkLeaf h b)) (mkBranch h (mkLeaf h c) (mkLeaf h d)))
    (mkBranch h (mkBranch h (mkLeaf h a') (mkLeaf h b')) (mkBranch h (mkLeaf h c') (mkLeaf h d')))))"
  by (rule mkMerkleTreeRoot_branch [of _ 4]) (simp_all add: powerOfTwo_def tree4)

lemma merkle_New_tree:
  assumes "length data = n" "n \<noteq> 0" "mkMerkleTreeRoot h n data = Some (Ok node)"
  shows "merkle_New h data = Some (Ok (Some \<lparr> mt_tree = node \<rparr>))"
  using assms by (simp add: merkle_New_def)

lemma tree9: "mkMerkleTreeRoot h 9 [a, b, c, d, a', b', c', d', e] = Some (Ok (mkBranch h (mkBranch h
    (mkBranch h (mkBranch h (mkLeaf h a) (mkLeaf h b)) (mkBranch h (mkLeaf h c) (mkLeaf h d)))
    (mkBranch h (mkBranch h (mkLeaf h a') (mkLeaf h b')) (mkBranch h (mkLeaf h c') (mkLeaf h d'))))
    (mkLeaf h e)))"
  by (rule mkMerkleTreeRoot_branch [of _ 8]) (simp_all add: powerOfTwo_def powerOfTwo0.simps [of 9] powerOfTwo0.simps [of 8]
      tree8 mkMerkleTreeRoot_1 [simplified])

text \<open>Once the left child's path has its own array, the right child without the leaf leaves it alone.\<close>

lemma constructPath_up:
  assumes "append_go pth [\<lparr> pe_isLeft = True, pe_nodeRoot = node_root ln, pe_siblingRoot = node_root rn \<rparr>] st = (pl, st1)"
    "constructPath pl ln (Some nd) st1 = Ok (lp, st2)"
    "full_tree rn" "node_root nd \<notin> leaf_roots rn" "sl_arr lp < length st2" "sl_arr lp \<noteq> sl_arr pth"
  shows "\<exists>st'. constructPath pth (MerkleNode False d r (Some ln) (Some rn)) (Some nd) st = Ok (lp, st') \<and>
    sl_arr lp < length st' \<and> st' ! sl_arr lp = st2 ! sl_arr lp"
proof -
  obtain pr st3 where a2: "append_go pth [\<lparr> pe_isLeft = False, pe_nodeRoot = node_root rn, pe_siblingRoot = node_root ln \<rparr>] st2 = (pr, st3)"
    by (rule prod.exhaust)
  obtain st4 where c2: "constructPath pr rn (Some nd) st3 = Ok (empty_slice, st4)"
    and f: "\<forall>i < length st3. i \<noteq> sl_arr pr \<longrightarrow> i < length st4 \<and> st4 ! i = st3 ! i"
    using constructPath_absent [OF assms(3,4)] by blast
  have "append_go lp [] st4 = (lp, st4)" by (simp add: append_go_def Let_def)
  then have "constructPath pth (MerkleNode False d r (Some ln) (Some rn)) (Some nd) st = Ok (lp, st4)"
    using constructPath_branch [OF assms(1,2) a2 c2] by (simp add: append_go_empty)
  then show ?thesis
    using append_go_frame [OF a2 assms(5,6)] f by auto
qed

text \<open>At depth four the two children of a node extend the same path of length three, whose array has room
  for one more element: the right child's element replaces the left child's.\<close>

lemma constructPath_overwritten:
  assumes "full_tree x" "full_tree y" "full_tree z"
    "node_root a \<notin> {node_root b} \<union> leaf_roots x \<union> leaf_roots y \<union> leaf_roots z"
    "isLeaf a" "isLeaf b"
  shows "\<exists>s st es. constructPath empty_slice (MerkleNode False d1 r1 (Some (MerkleNode False d2 r2
      (Some (MerkleNode False d3 r3 (Some (MerkleNode False d4 r4 (Some a) (Some b))) (Some x))) (Some y))) (Some z))
      (Some a) [] = Ok (s, st) \<and> slice_list st s = es @
        [\<lparr> pe_isLeft = False, pe_nodeRoot = node_root b, pe_siblingRoot = node_root a \<rparr>]"
proof -
  let ?l = "\<lambda>n m. \<lparr> pe_isLeft = True, pe_nodeRoot = node_root n, pe_siblingRoot = node_root m \<rparr>"
  let ?t4 = "MerkleNode False d4 r4 (Some a) (Some b)"
  let ?t3 = "MerkleNode False d3 r3 (Some ?t4) (Some x)"
  let ?t2 = "MerkleNode False d2 r2 (Some ?t3) (Some y)"
  let ?s = "\<lambda>i n c. \<lparr> sl_arr = i, sl_len = n, sl_cap = c \<rparr>"
  let ?f = "\<lparr> pe_isLeft = False, pe_nodeRoot = node_root b, pe_siblingRoot = node_root a \<rparr>"
  let ?e1 = "?l ?t2 z" and ?e2 = "?l ?t3 y" and ?e3 = "?l ?t4 x" and ?e4 = "?l a b"
  let ?st = "\<lambda>e. [[?e1], [?e1, ?e2], [?e1, ?e2, ?e3, e]]"
  note ap = append_go_def slice_list_def grow_def overwrite_def empty_slice_def
  have leaf: "constructPath p t (Some a) st' = Ok (if node_root t = node_root a then p else empty_slice, st')"
    if "isLeaf t" for p t st'
    using that by (cases t) auto
  have p1: "append_go empty_slice [?e1] [] = (?s 0 1 1, [[?e1]])" by (simp add: ap)
  have p2: "append_go (?s 0 1 1) [?e2] [[?e1]] = (?s 1 2 2, [[?e1], [?e1, ?e2]])" by (simp add: ap)
  have p3: "append_go (?s 1 2 2) [?e3] [[?e1], [?e1, ?e2]] = (?s 2 3 4, ?st zero_elem)" by (simp add: ap)
  have p4: "append_go (?s 2 3 4) [?e4] (?st zero_elem) = (?s 2 4 4, ?st ?e4)"
    and q4: "append_go (?s 2 3 4) [?f] (?st ?e4) = (?s 2 4 4, ?st ?f)"
    by (simp_all add: ap numeral_eq_Suc)
  have "constructPath (?s 2 3 4) ?t4 (Some a) (?st zero_elem) = Ok (append_go (?s 2 4 4) (slice_list (?st ?f) empty_slice) (?st ?f))"
    by (rule constructPath_branch [OF p4 _ q4]) (use assms(4-6) in \<open>auto simp: leaf\<close>)
  then have c4: "constructPath (?s 2 3 4) ?t4 (Some a) (?st zero_elem) = Ok (?s 2 4 4, ?st ?f)"
    by (simp add: append_go_empty) (simp add: append_go_def Let_def)
  obtain st3 where c3: "constructPath (?s 1 2 2) ?t3 (Some a) [[?e1], [?e1, ?e2]] = Ok (?s 2 4 4, st3)"
    "2 < length st3" "st3 ! 2 = ?st ?f ! 2"
    using constructPath_up [OF p3 c4 assms(1)] assms(4) by (auto simp: numeral_2_eq_2)
  obtain st2 where c2: "constructPath (?s 0 1 1) ?t2 (Some a) [[?e1]] = Ok (?s 2 4 4, st2)"
    "2 < length st2" "st2 ! 2 = st3 ! 2"
    using constructPath_up [OF p2 c3(1) assms(2)] assms(4) c3(2) by auto
  obtain st1 where "constructPath empty_slice (MerkleNode False d1 r1 (Some ?t2) (Some z)) (Some a) [] = Ok (?s 2 4 4, st1)"
    "2 < length st1" "st1 ! 2 = st2 ! 2"
    using constructPath_up [OF p1 c2(1) assms(3)] assms(4) c2(2) by (auto simp: empty_slice_def)
  then show ?thesis
    using c2(3) c3(3) by (intro exI [of _ "[?e1, ?e2, ?e3]"] exI conjI) (auto simp: slice_list_def)
qed

lemma validate_wrong_end:
  "pe_nodeRoot e \<noteq> leaf \<Longrightarrow> \<not> validate h (es @ [e]) root leaf"
  by (subst validate.simps) (simp add: Let_def)

text \<open>With nine items the proof of the first one fails: the two paths that \<open>constructPath\<close> extends from the
  same path of length three share an array of capacity four, so the right child's element overwrites
  the left child's.\<close>

theorem VerifyNode_misses_member:
  assumes "[] \<notin> {a, b, c, d, a', b', c', d', e}" "h a \<notin> h ` {b, c, d, a', b', c', d', e}"
  shows "verify_in h [a, b, c, d, a', b', c', d', e] a = Some (Ok False)"
proof -
  let ?leaf = "\<lambda>x. MerkleNode True x (h x) None None"
  have leaves: "mkLeaf h x = Some (?leaf x)" if "x \<in> {a, b, c, d, a', b', c', d', e}" for x
    using that assms(1) by (auto simp: mkLeaf_def mkLeafRootHash_def GenHash_def)
  let ?br = "\<lambda>l r. MerkleNode False [] (h (node_root l @ node_root r)) (Some l) (Some r)"
  let ?x = "?br (?leaf c) (?leaf d)" and ?y = "?br (?br (?leaf a') (?leaf b')) (?br (?leaf c') (?leaf d'))"
  let ?t = "?br (?br (?br (?br (?leaf a) (?leaf b)) ?x) ?y) (?leaf e)"
  have tree: "merkle_New h [a, b, c, d, a', b', c', d', e] = Some (Ok (Some \<lparr> mt_tree = Some ?t \<rparr>))"
    using merkle_New_tree [OF _ _ tree9, of a b c d a' b' c' d' e h]
    by (simp add: leaves mkBranch_def mkRootHash_def GenHash_def)
  have full: "full_tree ?x" "full_tree ?y" "full_tree (?leaf e)"
    by (simp_all add: full_tree.intros)
  have "node_root (?leaf a) \<notin> {node_root (?leaf b)} \<union> leaf_roots ?x \<union> leaf_roots ?y \<union> leaf_roots (?leaf e)"
    using assms(2) by auto
  from constructPath_overwritten [OF full this]
  obtain s st es where "constructPath empty_slice ?t (Some (?leaf a)) [] = Ok (s, st)"
    "slice_list st s = es @ [\<lparr> pe_isLeft = False, pe_nodeRoot = node_root (?leaf b), pe_siblingRoot = node_root (?leaf a) \<rparr>]"
    by (simp only: MerkleNode.sel) blast
  moreover have "h b \<noteq> h a" using assms(2) by auto
  ultimately show ?thesis
    using tree leaves [OF insertI1]
    by (simp add: verify_in_def VerifyNode_def merkleProof_def GetMtRoot_def validate_wrong_end
        del: constructPath.simps)
qed

theorem VerifyNode_misses_member_witness:
  "verify_in (\<lambda>b. b) [[1], [2], [3], [4], [5], [6], [7], [8], [9]] [1] = Some (Ok False)"
  using VerifyNode_misses_member [of "[1]" "[2]" "[3]" "[4]" "[5]" "[6]" "[7]" "[8]" "[9]" "\<lambda>b. b"] by simp

end
