(* ===== verification/GoHeap.thy ===== *)
theory GoHeap
  imports Prelude "HOL-Library.Multiset"
begin

text \<open>
  The standard library's \<open>container/heap\<close> over a Go slice, as \<open>txpool\<close> uses it for its transactions and
  nonces: \<open>up\<close>, \<open>down\<close>, \<open>Push\<close>, \<open>Pop\<close>, \<open>Remove\<close> and \<open>Init\<close> for any \<open>Less\<close>. Whatever \<open>Less\<close> is, the elements
  are kept; the heap order holds and \<open>Pop\<close> yields a least element when \<open>Less\<close> is a strict weak order
  on the elements (\<open>heap_order\<close>).
\<close>

section \<open>Operations\<close>

definition swap :: "'a list \<Rightarrow> nat \<Rightarrow> nat \<Rightarrow> 'a list" where
  "swap h a b = h[a := h ! b, b := h ! a]"

function up :: "('a \<Rightarrow> 'a \<Rightarrow> bool) \<Rightarrow> 'a list \<Rightarrow> nat \<Rightarrow> 'a list" where
  "up lt xs j =
     (let i = (j - 1) div 2 in
      if i = j \<or> \<not> lt (xs ! j) (xs ! i) then xs else up lt (swap xs i j) i)"
  by pat_completeness auto
termination
  by (relation "measure (\<lambda>(lt, xs, j). j)") auto

declare up.simps [simp del]

text \<open>\<open>down\<close> also returns where the element ended; the Go function returns whether that is elsewhere.\<close>

function down :: "('a \<Rightarrow> 'a \<Rightarrow> bool) \<Rightarrow> 'a list \<Rightarrow> nat \<Rightarrow> nat \<Rightarrow> 'a list \<times> nat" where
  "down lt xs i n =
     (let j1 = 2 * i + 1; j2 = j1 + 1 in
      if n \<le> j1 then (xs, i)
      else let j = (if j2 < n \<and> lt (xs ! j2) (xs ! j1) then j2 else j1) in
        if \<not> lt (xs ! j) (xs ! i) then (xs, i) else down lt (swap xs i j) j n)"
  by pat_completeness auto
termination
  by (relation "measure (\<lambda>(lt, xs, i, n). n - i)") (auto simp: Let_def split: if_splits)

declare down.simps [simp del]

definition heap_Push :: "('a \<Rightarrow> 'a \<Rightarrow> bool) \<Rightarrow> 'a list \<Rightarrow> 'a \<Rightarrow> 'a list" where
  "heap_Push lt xs x = (let ys = xs @ [x] in up lt ys (length ys - 1))"

text \<open>\<open>Pop\<close> and \<open>Remove\<close> swap the element to the end, which panics for an index out of range.\<close>

definition heap_Pop :: "('a \<Rightarrow> 'a \<Rightarrow> bool) \<Rightarrow> 'a list \<Rightarrow> ('a \<times> 'a list) outcome" where
  "heap_Pop lt xs =
     (if xs = [] then Panic
      else let n = length xs - 1; ys = fst (down lt (swap xs 0 n) 0 n)
        in Ok (last ys, butlast ys))"

definition heap_Remove :: "('a \<Rightarrow> 'a \<Rightarrow> bool) \<Rightarrow> 'a list \<Rightarrow> nat \<Rightarrow> ('a \<times> 'a list) outcome" where
  "heap_Remove lt xs i =
     (if length xs \<le> i then Panic
      else let n = length xs - 1;
        ys = (if n = i then xs
              else let (zs, k) = down lt (swap xs i n) i n in if i < k then zs else up lt zs i)
        in Ok (last ys, butlast ys))"

definition heap_Init :: "('a \<Rightarrow> 'a \<Rightarrow> bool) \<Rightarrow> 'a list \<Rightarrow> 'a list" where
  "heap_Init lt xs = fold (\<lambda>i ys. fst (down lt ys i (length xs))) (rev [0..<length xs div 2]) xs"

section \<open>The steps of the two loops\<close>

definition parent :: "nat \<Rightarrow> nat" where
  "parent j = (j - 1) div 2"

definition child :: "('a \<Rightarrow> 'a \<Rightarrow> bool) \<Rightarrow> 'a list \<Rightarrow> nat \<Rightarrow> nat \<Rightarrow> nat" where
  "child lt xs i n = (if 2 * i + 2 < n \<and> lt (xs ! (2 * i + 2)) (xs ! (2 * i + 1)) then 2 * i + 2 else 2 * i + 1)"

lemma up_stop: "parent j = j \<or> \<not> lt (xs ! j) (xs ! parent j) \<Longrightarrow> up lt xs j = xs"
  by (subst up.simps) (simp add: parent_def)

lemma up_step: "parent j \<noteq> j \<Longrightarrow> lt (xs ! j) (xs ! parent j) \<Longrightarrow> up lt xs j = up lt (swap xs (parent j) j) (parent j)"
  by (subst up.simps) (simp only: Let_def parent_def simp_thms if_False)

lemma down_stop: "n \<le> 2 * i + 1 \<or> \<not> lt (xs ! child lt xs i n) (xs ! i) \<Longrightarrow> down lt xs i n = (xs, i)"
  by (subst down.simps) (auto simp: Let_def child_def)

lemma down_step:
  "2 * i + 1 < n \<Longrightarrow> lt (xs ! child lt xs i n) (xs ! i) \<Longrightarrow>
    down lt xs i n = down lt (swap xs i (child lt xs i n)) (child lt xs i n) n"
  by (subst down.simps) (auto simp: Let_def child_def)

lemma parent_le: "parent j \<le> j" and parent_less: "j < n \<Longrightarrow> parent j < n" and parent_lt: "parent j \<noteq> j \<Longrightarrow> parent j < j"
  and parent_0 [simp]: "parent 0 = 0" and parent_self: "parent j = j \<longleftrightarrow> j = 0"
  and parent_children: "parent k = i \<and> k \<noteq> 0 \<longleftrightarrow> k = 2 * i + 1 \<or> k = 2 * i + 2"
  unfolding parent_def by linarith+

lemma parent_pos: "0 < i \<Longrightarrow> parent i < i"
  using parent_lt [of i] parent_self [of i] by simp

lemma child_bounds: "2 * i + 1 < n \<Longrightarrow> i < child lt xs i n \<and> child lt xs i n < n"
  by (simp add: child_def)

lemma up_induct [case_names stop step]:
  assumes "\<And>xs j. j = 0 \<or> \<not> lt (xs ! j) (xs ! parent j) \<Longrightarrow> P xs j"
    "\<And>xs j. j \<noteq> 0 \<Longrightarrow> lt (xs ! j) (xs ! parent j) \<Longrightarrow> P (swap xs (parent j) j) (parent j) \<Longrightarrow> P xs j"
  shows "P xs j"
proof (induction j arbitrary: xs rule: less_induct)
  case (less j)
  then show ?case
    using assms(1) [of j xs] assms(2) [of j xs] parent_lt [of j] parent_self [of j] by blast
qed

lemma down_induct [case_names stop step]:
  assumes "\<And>xs i. n \<le> 2 * i + 1 \<or> \<not> lt (xs ! child lt xs i n) (xs ! i) \<Longrightarrow> P xs i"
    "\<And>xs i. 2 * i + 1 < n \<Longrightarrow> lt (xs ! child lt xs i n) (xs ! i) \<Longrightarrow>
      P (swap xs i (child lt xs i n)) (child lt xs i n) \<Longrightarrow> P xs i"
  shows "P xs i"
proof (induction "n - i" arbitrary: xs i rule: less_induct)
  case less
  have "P (swap xs i (child lt xs i n)) (child lt xs i n)" if "2 * i + 1 < n"
    using less child_bounds [OF that, of lt xs] by (simp add: diff_less_mono2)
  then show ?case
    using assms(1) [of i xs] assms(2) [of i xs] by (meson not_le)
qed

section \<open>The elements are kept\<close>

lemma swap_places_length [simp]: "length (swap h a b) = length h"
  by (simp add: swap_def)

lemma mset_swap_places: "a < length h \<Longrightarrow> b < length h \<Longrightarrow> mset (swap h a b) = mset h"
  by (simp add: swap_def mset_swap)

lemma set_swap: "i < length xs \<Longrightarrow> j < length xs \<Longrightarrow> set (swap xs i j) = set xs"
  using mset_swap_places [of i xs j] by (metis set_mset_mset)

lemma swap_places_nth:
  "a < length h \<Longrightarrow> b < length h \<Longrightarrow>
    swap h a b ! k = h ! (if k = a then b else if k = b then a else k)"
  by (auto simp: swap_def nth_list_update)

lemma up_keeps:
  "j < length xs \<Longrightarrow> mset (up lt xs j) = mset xs \<and> length (up lt xs j) = length xs"
  by (induction xs j rule: up_induct [of lt])
    (auto simp: up_stop up_step parent_self mset_swap_places parent_less)

text \<open>\<open>down\<close> works on the first \<open>n\<close> places only.\<close>

lemma down_keeps:
  "i < n \<Longrightarrow> n \<le> length xs \<Longrightarrow>
    mset (fst (down lt xs i n)) = mset xs \<and> length (fst (down lt xs i n)) = length xs \<and>
    i \<le> snd (down lt xs i n) \<and> drop n (fst (down lt xs i n)) = drop n xs"
proof (induction xs i rule: down_induct [of n lt])
  case (step xs i)
  then show ?case
    using child_bounds [OF step(1), of lt xs]
    by (simp add: down_step mset_swap_places) (simp add: swap_def)
qed (simp add: down_stop)

lemma heap_Push_keeps: "mset (heap_Push lt xs x) = add_mset x (mset xs)"
  using up_keeps [of "length xs" "xs @ [x]" lt] by (simp add: heap_Push_def)

lemma mset_last_butlast: "ys \<noteq> [] \<Longrightarrow> add_mset (last ys) (mset (butlast ys)) = mset ys"
  by (induction ys rule: rev_induct) simp_all

lemma heap_Pop_keeps: "heap_Pop lt xs = Ok (x, ys) \<Longrightarrow> add_mset x (mset ys) = mset xs"
proof -
  assume pop: "heap_Pop lt xs = Ok (x, ys)"
  let ?zs = "fst (down lt (swap xs 0 (length xs - 1)) 0 (length xs - 1))"
  have ne: "xs \<noteq> []" and x: "x = last ?zs" "ys = butlast ?zs"
    using pop by (auto simp: heap_Pop_def Let_def split: if_splits)
  have "mset ?zs = mset xs"
  proof (cases "length xs = 1")
    case True
    then show ?thesis by (simp add: down_stop mset_swap_places)
  next
    case False
    with ne have "0 < length xs - 1" by (cases xs) auto
    then show ?thesis
      using down_keeps [of 0 "length xs - 1" "swap xs 0 (length xs - 1)" lt] ne
        mset_swap_places [of 0 xs "length xs - 1"] by simp
  qed
  moreover from this ne have "?zs \<noteq> []" by (metis mset_zero_iff)
  ultimately show ?thesis
    using mset_last_butlast [of ?zs] unfolding x by metis
qed

lemma up_above:
  "j < k \<Longrightarrow> k < length xs \<Longrightarrow> up lt xs j ! k = xs ! k"
proof (induction xs j rule: up_induct [of lt])
  case (step xs j)
  then have p: "parent j < j" by (simp add: parent_pos)
  have "swap xs (parent j) j ! k = xs ! k"
    using p step.prems swap_places_nth [of "parent j" xs j k] by simp
  with step p show ?case by (simp add: up_step)
qed (auto simp: up_stop)

text \<open>What \<open>Remove\<close> has before it cuts the last element off.\<close>

lemma heap_Remove_before:
  assumes "heap_Remove lt xs i = Ok (x, ys)"
  obtains zs where "x = last zs" "ys = butlast zs" "mset zs = mset xs" "length zs = length xs" "last zs = xs ! i"
    "i < length xs"
    "zs = (if length xs - 1 = i then xs
           else let (zs, k) = down lt (swap xs i (length xs - 1)) i (length xs - 1) in if i < k then zs else up lt zs i)"
proof -
  let ?n = "length xs - 1"
  let ?sw = "swap xs i ?n"
  let ?zs = "if ?n = i then xs else let (zs, k) = down lt ?sw i ?n in if i < k then zs else up lt zs i"
  have i: "i < length xs" and x: "x = last ?zs" "ys = butlast ?zs"
    using assms by (auto simp: heap_Remove_def Let_def split: if_splits)
  have "mset ?zs = mset xs \<and> length ?zs = length xs \<and> last ?zs = xs ! i"
  proof (cases "?n = i")
    case True
    with i show ?thesis by (auto simp: last_conv_nth simp flip: length_greater_0_conv)
  next
    case False
    obtain ws k where d: "down lt ?sw i ?n = (ws, k)" by (rule prod.exhaust)
    have n: "i < ?n" "?n < length xs" using i False by auto
    have w: "mset ws = mset xs" "length ws = length xs" "drop ?n ws = drop ?n ?sw"
      using down_keeps [of i ?n ?sw lt] n d mset_swap_places [of i xs ?n] by auto
    have "ws ! ?n = ?sw ! ?n"
      using w(2,3) n by (metis (no_types, lifting) Cons_nth_drop_Suc swap_places_length list.inject)
    also have "\<dots> = xs ! i" using swap_places_nth [of i xs ?n ?n] n by simp
    finally have ws: "ws ! ?n = xs ! i" .
    have "last ws = xs ! i"
      using ws w(2) n last_conv_nth [of ws] by (cases "ws = []") auto
    moreover have "last (up lt ws i) = xs ! i"
      using ws w(2) n up_above [of i ?n ws lt] up_keeps [of i ws lt] last_conv_nth [of "up lt ws i"]
      by (cases "up lt ws i = []") auto
    ultimately show ?thesis
      using False d w up_keeps [of i ws lt] i by simp
  qed
  with that [OF x] i show ?thesis by blast
qed

lemma heap_Remove_keeps:
  assumes "heap_Remove lt xs i = Ok (x, ys)"
  shows "x = xs ! i" "add_mset x (mset ys) = mset xs"
proof -
  obtain zs where zs: "x = last zs" "ys = butlast zs" "mset zs = mset xs" "length zs = length xs"
    "last zs = xs ! i" "i < length xs"
    using heap_Remove_before [OF assms] by metis
  have "zs \<noteq> []" using zs(4,6) by auto
  with zs show "x = xs ! i" "add_mset x (mset ys) = mset xs"
    using mset_last_butlast [of zs] by simp_all
qed

lemma heap_Pop_total: "xs \<noteq> [] \<Longrightarrow> \<exists>x ys. heap_Pop lt xs = Ok (x, ys)"
  by (simp add: heap_Pop_def Let_def)

lemma heap_Pop_length: "heap_Pop lt xs = Ok (x, ys) \<Longrightarrow> length xs = Suc (length ys)"
  using heap_Pop_keeps [of lt xs x ys] by (metis size_add_mset size_mset)

lemma heap_Push_length: "length (heap_Push lt xs x) = Suc (length xs)"
  using heap_Push_keeps [of lt xs x] by (metis size_add_mset size_mset)

section \<open>The heap order\<close>

definition is_heap :: "('a \<Rightarrow> 'a \<Rightarrow> bool) \<Rightarrow> nat \<Rightarrow> 'a list \<Rightarrow> bool" where
  "is_heap lt n xs = (\<forall>i < n. 0 < i \<longrightarrow> \<not> lt (xs ! i) (xs ! parent i))"

text \<open>Broken at \<open>j\<close> only, and mendable from there: towards the root, or towards the leaves.\<close>

definition up_inv :: "('a \<Rightarrow> 'a \<Rightarrow> bool) \<Rightarrow> nat \<Rightarrow> 'a list \<Rightarrow> nat \<Rightarrow> bool" where
  "up_inv lt n xs j =
     (\<forall>i < n. 0 < i \<longrightarrow>
       (i \<noteq> j \<longrightarrow> \<not> lt (xs ! i) (xs ! parent i)) \<and>
       (parent i = j \<longrightarrow> 0 < j \<longrightarrow> \<not> lt (xs ! i) (xs ! parent j)))"

definition down_inv :: "('a \<Rightarrow> 'a \<Rightarrow> bool) \<Rightarrow> nat \<Rightarrow> 'a list \<Rightarrow> nat \<Rightarrow> bool" where
  "down_inv lt n xs j =
     (\<forall>i < n. 0 < i \<longrightarrow>
       (parent i \<noteq> j \<longrightarrow> \<not> lt (xs ! i) (xs ! parent i)) \<and>
       (parent i = j \<longrightarrow> 0 < j \<longrightarrow> \<not> lt (xs ! i) (xs ! parent j)))"

locale heap_order =
  fixes lt :: "'a \<Rightarrow> 'a \<Rightarrow> bool" and S :: "'a set"
  assumes asym: "a \<in> S \<Longrightarrow> b \<in> S \<Longrightarrow> lt a b \<Longrightarrow> \<not> lt b a"
    and ntrans: "a \<in> S \<Longrightarrow> b \<in> S \<Longrightarrow> c \<in> S \<Longrightarrow> \<not> lt b a \<Longrightarrow> \<not> lt c b \<Longrightarrow> \<not> lt c a"
begin

lemma refl_le: "a \<in> S \<Longrightarrow> \<not> lt a a"
  using asym by blast

lemma up_inv_step:
  assumes "up_inv lt n xs j" "set xs \<subseteq> S" "n \<le> length xs" "j < n" "j \<noteq> 0" "lt (xs ! j) (xs ! parent j)"
  shows "up_inv lt n (swap xs (parent j) j) (parent j)"
proof -
  let ?p = "parent j"
  have p: "?p < j" "?p < n" using parent_lt [of j] parent_self [of j] assms(4,5) by auto
  have S: "xs ! i \<in> S" if "i < n" for i using that assms(2,3) by (auto intro: nth_mem)
  have pj: "\<not> lt (xs ! ?p) (xs ! j)" using asym [OF S S assms(6)] p assms(4) by blast
  note sw = swap_places_nth [of ?p xs j]
  have ok: "\<not> lt (xs ! i) (xs ! parent i)" if "i < n" "0 < i" "i \<noteq> j" for i
    using assms(1) that by (simp add: up_inv_def)
  have below: "\<not> lt (xs ! i) (xs ! ?p)" if "i < n" "0 < i" "parent i = j" for i
    using assms(1,5) that by (simp add: up_inv_def)
  have pi: "parent i < i" if "0 < i" for i using parent_lt [of i] parent_self [of i] that by auto
  have first: "\<not> lt (swap xs ?p j ! i) (swap xs ?p j ! parent i)" if i: "i < n" "0 < i" "i \<noteq> ?p" for i
  proof -
    have "parent i < n" using pi [OF i(2)] i(1) by simp
    consider "i = j" | "i \<noteq> j" "parent i = j" | "i \<noteq> j" "parent i = ?p" | "i \<noteq> j" "parent i \<noteq> j" "parent i \<noteq> ?p"
      by blast
    then show ?thesis
    proof cases
      case 3
      then have "\<not> lt (xs ! i) (xs ! j)"
        using ntrans [OF S [OF assms(4)] S [OF p(2)] S [OF i(1)] pj] ok [OF i(1,2)] by simp
      with 3 i p assms(3,4) show ?thesis by (simp add: sw)
    qed (use i p pj ok below assms(3,4) in \<open>auto simp: sw\<close>)
  qed
  have second: "\<not> lt (swap xs ?p j ! i) (swap xs ?p j ! parent ?p)"
    if i: "i < n" "0 < i" "parent i = ?p" "0 < ?p" for i
  proof -
    have pp: "parent ?p < ?p" using pi [OF i(4)] .
    have okp: "\<not> lt (xs ! ?p) (xs ! parent ?p)" using ok [OF p(2) i(4)] p(1) by simp
    show ?thesis
    proof (cases "i = j")
      case True
      with okp pp p assms(3,4) show ?thesis by (simp add: sw)
    next
      case False
      have "\<not> lt (xs ! i) (xs ! parent ?p)"
        by (rule ntrans [OF S S S okp]) (use ok [OF i(1,2) False] i p pp in auto)
      with False i pi [OF i(2)] pp p assms(3,4) show ?thesis by (simp add: sw)
    qed
  qed
  show ?thesis using first second by (simp add: up_inv_def)
qed

lemma up_heap:
  assumes "up_inv lt n xs j" "set xs \<subseteq> S" "n \<le> length xs" "j < n"
  shows "is_heap lt n (up lt xs j)"
  using assms
proof (induction xs j rule: up_induct [of lt])
  case (stop xs j)
  then show ?case by (auto simp: up_stop parent_self up_inv_def is_heap_def)
next
  case (step xs j)
  have "set (swap xs (parent j) j) = set xs"
    using step.prems parent_less [of j n] by (simp add: set_swap)
  then show ?case
    using step up_inv_step [of n xs j] parent_less [of j n] by (simp add: up_step parent_self)
qed

lemma child_least:
  assumes "set xs \<subseteq> S" "n \<le> length xs" "k < n" "0 < k" "parent k = i"
  shows "\<not> lt (xs ! k) (xs ! child lt xs i n)"
proof -
  have S: "xs ! i \<in> S" if "i < n" for i using that assms(1,2) by (auto intro: nth_mem)
  have "k = 2 * i + 1 \<or> k = 2 * i + 2" using parent_children [of k i] assms(4,5) by simp
  then show ?thesis
  proof
    assume k: "k = 2 * i + 1"
    show ?thesis
    proof (cases "2 * i + 2 < n \<and> lt (xs ! (2 * i + 2)) (xs ! (2 * i + 1))")
      case True
      then show ?thesis using asym [OF S S, of "2 * i + 2" "2 * i + 1"] by (simp add: child_def k)
    next
      case False
      with k show ?thesis using refl_le [OF S [OF assms(3)]] by (simp only: child_def if_False not_False_eq_True)
    qed
  next
    assume k: "k = 2 * i + 2"
    then show ?thesis using refl_le [OF S [OF assms(3)]] assms(3) by (auto simp: child_def)
  qed
qed

lemma down_inv_stop:
  assumes "down_inv lt n xs i" "set xs \<subseteq> S" "n \<le> length xs" "i < n"
    "n \<le> 2 * i + 1 \<or> \<not> lt (xs ! child lt xs i n) (xs ! i)"
  shows "is_heap lt n xs"
proof -
  have S: "xs ! i \<in> S" if "i < n" for i using that assms(2,3) by (auto intro: nth_mem)
  have "\<not> lt (xs ! k) (xs ! i)" if k: "k < n" "0 < k" "parent k = i" for k
  proof -
    from k parent_children [of k i] have b: "2 * i + 1 < n" by auto
    then have c: "\<not> lt (xs ! child lt xs i n) (xs ! i)" "child lt xs i n < n"
      using assms(5) child_bounds [OF b, of lt xs] by auto
    show ?thesis
      by (rule ntrans [OF S S S c(1) child_least [OF assms(2,3) k]]) (use assms(4) c k in auto)
  qed
  then show ?thesis using assms(1) by (auto simp: is_heap_def down_inv_def)
qed

lemma down_inv_step:
  assumes "down_inv lt n xs i" "set xs \<subseteq> S" "n \<le> length xs" "2 * i + 1 < n" "lt (xs ! child lt xs i n) (xs ! i)"
  shows "down_inv lt n (swap xs i (child lt xs i n)) (child lt xs i n)"
proof -
  let ?c = "child lt xs i n"
  have c: "i < ?c" "?c < n" using child_bounds [OF assms(4), of lt xs] by auto
  have pc: "parent ?c = i" using parent_children [of ?c i] by (auto simp: child_def)
  have S: "xs ! k \<in> S" if "k < n" for k using that assms(2,3) by (auto intro: nth_mem)
  have ic: "\<not> lt (xs ! i) (xs ! ?c)" using asym [OF S S assms(5)] c by simp
  note sw = swap_places_nth [of i xs ?c]
  have ok: "\<not> lt (xs ! k) (xs ! parent k)" if "k < n" "0 < k" "parent k \<noteq> i" for k
    using assms(1) that by (simp add: down_inv_def)
  have up: "\<not> lt (xs ! ?c) (xs ! parent i)" if "0 < i"
    using assms(1) that c pc by (simp add: down_inv_def)
  have pi: "parent k < k" if "0 < k" for k using parent_lt [of k] parent_self [of k] that by auto
  have first: "\<not> lt (swap xs i ?c ! k) (swap xs i ?c ! parent k)" if k: "k < n" "0 < k" "parent k \<noteq> ?c" for k
  proof -
    consider "k = ?c" | "k \<noteq> ?c" "parent k = i" | "parent k \<noteq> i" "k = i" | "parent k \<noteq> i" "k \<noteq> i" "k \<noteq> ?c" by blast
    then show ?thesis
    proof cases
      case 2
      then have "\<not> lt (xs ! k) (xs ! ?c)" using child_least [OF assms(2,3) k(1,2)] by simp
      with 2 k c pi [OF k(2)] assms(3) show ?thesis by (simp add: sw)
    next
      case 3
      with up k(2) have "\<not> lt (xs ! ?c) (xs ! parent i)" by simp
      with 3 k c pi [OF k(2)] assms(3) show ?thesis by (simp add: sw)
    next
      case 4
      with ok [OF k(1,2)] k c assms(3) show ?thesis by (simp add: sw)
    qed (use c pc ic assms(3) in \<open>simp add: sw\<close>)
  qed
  have second: "\<not> lt (swap xs i ?c ! k) (swap xs i ?c ! parent ?c)" if k: "k < n" "0 < k" "parent k = ?c" for k
  proof -
    have "\<not> lt (xs ! k) (xs ! ?c)" using ok [OF k(1,2)] k(3) c by simp
    moreover have "k \<noteq> i" "k \<noteq> ?c" using pi [OF k(2)] k(3) c by auto
    ultimately show ?thesis using k(1) c assms(3) by (simp add: sw pc)
  qed
  show ?thesis using first second by (simp add: down_inv_def)
qed

lemma down_heap:
  assumes "down_inv lt n xs i" "set xs \<subseteq> S" "n \<le> length xs" "i < n"
  shows "is_heap lt n (fst (down lt xs i n))"
  using assms
proof (induction xs i rule: down_induct [of n lt])
  case (stop xs i)
  then show ?case by (simp add: down_stop down_inv_stop)
next
  case (step xs i)
  have "set (swap xs i (child lt xs i n)) = set xs"
    using step.prems step.hyps child_bounds [OF step.hyps(1), of lt xs] by (simp add: set_swap)
  then show ?case
    using step down_inv_step [of n xs i] child_bounds [OF step.hyps(1), of lt xs] by (simp add: down_step)
qed

text \<open>The root of a heap is least.\<close>

lemma heap_least:
  assumes "is_heap lt n xs" "set xs \<subseteq> S" "n \<le> length xs" "i < n"
  shows "\<not> lt (xs ! i) (xs ! 0)"
  using assms(4)
proof (induction i rule: less_induct)
  case (less i)
  have S: "xs ! k \<in> S" if "k < n" for k using that assms(2,3) by (auto intro: nth_mem)
  show ?case
  proof (cases "i = 0")
    case True
    then show ?thesis using S less.prems refl_le by simp
  next
    case False
    with parent_lt [of i] parent_self [of i] have p: "parent i < i" by simp
    show ?thesis
      by (rule ntrans [OF S S S less.IH [OF p]]) (use p less.prems False assms(1) in \<open>auto simp: is_heap_def\<close>)
  qed
qed

lemma Push_heap:
  assumes "is_heap lt (length xs) xs" "set xs \<subseteq> S" "x \<in> S"
  shows "is_heap lt (length (heap_Push lt xs x)) (heap_Push lt xs x)"
proof -
  have "up_inv lt (Suc (length xs)) (xs @ [x]) (length xs)"
  proof -
    have "\<not> lt ((xs @ [x]) ! i) ((xs @ [x]) ! parent i)" if "i < length xs" "0 < i" for i
      using assms(1) that parent_pos [of i] by (simp add: is_heap_def nth_append)
    moreover have "parent i \<noteq> length xs" if "i < Suc (length xs)" "0 < i" for i
      using parent_pos [of i] that by simp
    ultimately show ?thesis by (auto simp: up_inv_def less_Suc_eq)
  qed
  from up_heap [OF this] assms show ?thesis
    by (simp add: heap_Push_length) (simp add: heap_Push_def)
qed

lemma Pop_heap:
  assumes "is_heap lt (length xs) xs" "set xs \<subseteq> S" "heap_Pop lt xs = Ok (x, ys)"
  shows "x = xs ! 0" "is_heap lt (length ys) ys"
proof -
  let ?n = "length xs - 1"
  let ?sw = "swap xs 0 ?n"
  let ?zs = "fst (down lt ?sw 0 ?n)"
  have ne: "xs \<noteq> []" and x: "x = last ?zs" and ys: "ys = butlast ?zs"
    using assms(3) by (auto simp: heap_Pop_def Let_def split: if_splits)
  have nth: "?sw ! k = (if k = 0 then xs ! ?n else if k = ?n then xs ! 0 else xs ! k)" for k
    using ne by (subst swap_places_nth) simp_all
  have "x = xs ! 0 \<and> is_heap lt (length ys) ys"
  proof (cases "?n = 0")
    case True
    then have "?zs = ?sw" by (simp add: down_stop)
    moreover from True ne obtain a where "xs = [a]" by (cases xs) auto
    ultimately show ?thesis by (simp add: x ys is_heap_def swap_def)
  next
    case False
    have inv: "down_inv lt ?n ?sw 0"
    proof -
      have "\<not> lt (?sw ! i) (?sw ! parent i)" if "i < ?n" "0 < i" "parent i \<noteq> 0" for i
        using assms(1) that parent_pos [of i] by (simp only: nth is_heap_def) simp
      then show ?thesis by (simp add: down_inv_def)
    qed
    have len: "length ?zs = length xs" and rest: "drop ?n ?zs = drop ?n ?sw"
      using down_keeps [of 0 ?n ?sw lt] False by auto
    have set: "set ?sw \<subseteq> S"
      using ne assms(2) by (simp add: set_swap)
    have "is_heap lt ?n ?zs"
      using down_heap [OF inv set] False by simp
    moreover have "ys ! k = ?zs ! k" "ys ! parent k = ?zs ! parent k" if "k < ?n" for k
      using that len parent_less [OF that] by (simp_all add: ys nth_butlast)
    ultimately have "is_heap lt (length ys) ys"
      using len by (simp add: is_heap_def ys)
    moreover have "x = xs ! 0"
    proof -
      have "x = last (drop ?n ?zs)" using ne len by (simp add: x)
      also have "\<dots> = last (drop ?n ?sw)" by (simp only: rest)
      also have "\<dots> = ?sw ! ?n"
        using ne last_conv_nth [of ?sw] by (simp flip: length_greater_0_conv)
      also have "\<dots> = xs ! 0" using False by (simp only: nth) simp
      finally show ?thesis .
    qed
    ultimately show ?thesis by simp
  qed
  then show "x = xs ! 0" "is_heap lt (length ys) ys" by simp_all
qed

lemma Pop_least:
  assumes "is_heap lt (length xs) xs" "set xs \<subseteq> S" "heap_Pop lt xs = Ok (x, ys)" "y \<in> set xs"
  shows "\<not> lt y x"
  using heap_least [OF assms(1,2)] Pop_heap(1) [OF assms(1-3)] assms(4) by (auto simp: in_set_conv_nth)

text \<open>\<open>Remove\<close> first sinks the element it moved, and lifts it when it did not sink.\<close>

lemma down_unmoved: "snd (down lt xs i n) = i \<Longrightarrow> i < n \<Longrightarrow> n \<le> length xs \<Longrightarrow>
    down lt xs i n = (xs, i) \<and> (n \<le> 2 * i + 1 \<or> \<not> lt (xs ! child lt xs i n) (xs ! i))"
proof -
  assume d: "snd (down lt xs i n) = i" "i < n" "n \<le> length xs"
  have "n \<le> 2 * i + 1 \<or> \<not> lt (xs ! child lt xs i n) (xs ! i)"
  proof (rule ccontr)
    assume "\<not> ?thesis"
    then have s: "2 * i + 1 < n" "lt (xs ! child lt xs i n) (xs ! i)" by auto
    then show False
      using d child_bounds [OF s(1), of lt xs]
        down_keeps [of "child lt xs i n" n "swap xs i (child lt xs i n)" lt]
      by (simp add: down_step)
  qed
  then show ?thesis by (simp add: down_stop)
qed

text \<open>Any element may be put at \<open>i\<close>: one of the two loops mends the heap.\<close>

lemma mend_heap:
  assumes set: "set ws \<subseteq> S" and n: "i < n" "n \<le> length ws"
    and grand: "\<And>k. k < n \<Longrightarrow> 0 < k \<Longrightarrow> parent k = i \<Longrightarrow> 0 < i \<Longrightarrow> \<not> lt (ws ! k) (ws ! parent i)"
    and other: "\<And>k. k < n \<Longrightarrow> 0 < k \<Longrightarrow> k \<noteq> i \<Longrightarrow> parent k \<noteq> i \<Longrightarrow> \<not> lt (ws ! k) (ws ! parent k)"
  shows "is_heap lt n (let (zs, k) = down lt ws i n in if i < k then zs else up lt zs i)"
proof -
  have S: "ws ! k \<in> S" if "k < n" for k using that n(2) set by (meson less_le_trans nth_mem subsetD)
  let ?c = "child lt ws i n"
  show ?thesis
  proof (cases "snd (down lt ws i n) = i")
    case True
    with down_unmoved [OF True n] have d: "down lt ws i n = (ws, i)"
      and st: "n \<le> 2 * i + 1 \<or> \<not> lt (ws ! ?c) (ws ! i)" by auto
    have "\<not> lt (ws ! k) (ws ! i)" if k: "k < n" "0 < k" "parent k = i" for k
    proof -
      from k parent_children [of k i] have b: "2 * i + 1 < n" by auto
      then have c: "\<not> lt (ws ! ?c) (ws ! i)" "?c < n"
        using st child_bounds [OF b, of lt ws] by auto
      show ?thesis
        by (rule ntrans [OF S S S c(1) child_least [OF set n(2) k]]) (use n c k in auto)
    qed
    then have "up_inv lt n ws i"
      unfolding up_inv_def using grand other by metis
    from up_heap [OF this set n(2,1)] show ?thesis by (simp add: d)
  next
    case moved: False
    obtain zs k where d: "down lt ws i n = (zs, k)" by (rule prod.exhaust)
    from moved have b: "2 * i + 1 < n" and l: "lt (ws ! ?c) (ws ! i)"
      using down_stop [of n i lt ws] by (metis not_le snd_conv)+
    have c: "?c < n" "0 < ?c" "parent ?c = i"
      using child_bounds [OF b, of lt ws] parent_children [of ?c i] by (auto simp: child_def)
    have "\<not> lt (ws ! i) (ws ! parent i)" if i: "0 < i"
    proof
      assume "lt (ws ! i) (ws ! parent i)"
      moreover have p: "parent i < n" using parent_pos [OF i] n by simp
      moreover have "\<not> lt (ws ! i) (ws ! ?c)" using asym [OF S S l] c n by simp
      ultimately show False
        using ntrans [OF S [OF p] S [OF c(1)] S [OF n(1)] grand [OF c i]] by simp
    qed
    then have "down_inv lt n ws i"
      using grand other by (auto simp: down_inv_def)
    from down_heap [OF this set n(2,1)] show ?thesis
      using moved down_keeps [OF n, of lt] d by simp
  qed
qed

lemma Remove_heap:
  assumes "is_heap lt (length xs) xs" "set xs \<subseteq> S" "heap_Remove lt xs i = Ok (x, ys)"
  shows "is_heap lt (length ys) ys"
proof -
  let ?n = "length xs - 1"
  let ?sw = "swap xs i ?n"
  obtain zs where zs: "x = last zs" "ys = butlast zs" "mset zs = mset xs" "length zs = length xs"
    "last zs = xs ! i" "i < length xs"
    "zs = (if ?n = i then xs else let (zs, k) = down lt ?sw i ?n in if i < k then zs else up lt zs i)"
    by (rule heap_Remove_before [OF assms(3)])
  have "is_heap lt ?n zs"
  proof (cases "?n = i")
    case True
    with zs(7) assms(1) show ?thesis by (simp add: is_heap_def)
  next
    case False
    have n: "i < ?n" "?n \<le> length ?sw" using zs(6) False by auto
    have set: "set ?sw \<subseteq> S" using set_swap [of i xs ?n] assms(2) zs(6) n by simp
    have S: "xs ! k \<in> S" if "k < length xs" for k using that assms(2) by (auto intro: nth_mem)
    have nth: "?sw ! k = (if k = i then xs ! ?n else xs ! k)" if "k < ?n" for k
      using that n swap_places_nth [of i xs ?n k] zs(6) by simp
    have ok: "\<not> lt (xs ! k) (xs ! parent k)" if "k < length xs" "0 < k" for k
      using assms(1) that by (simp add: is_heap_def)
    have grand: "\<not> lt (?sw ! k) (?sw ! parent i)" if k: "k < ?n" "0 < k" "parent k = i" "0 < i" for k
    proof -
      have "parent i < i" "i < k" using parent_pos k by auto
      moreover have "\<not> lt (xs ! k) (xs ! parent i)"
        by (rule ntrans [OF S S S ok]) (use ok [of k] k \<open>parent i < i\<close> zs(6) in auto)
      ultimately show ?thesis using nth [OF k(1)] nth [of "parent i"] k n by simp
    qed
    have other: "\<not> lt (?sw ! k) (?sw ! parent k)" if k: "k < ?n" "0 < k" "k \<noteq> i" "parent k \<noteq> i" for k
      using k ok [of k] parent_pos [of k] nth [OF k(1)] nth [of "parent k"] by simp
    show ?thesis
      unfolding zs(7) if_not_P [OF False] by (rule mend_heap [OF set n grand other])
  qed
  moreover have "ys ! k = zs ! k" "ys ! parent k = zs ! parent k" if "k < ?n" for k
    using that zs(2,4) parent_less [OF that] by (simp_all add: nth_butlast)
  ultimately show ?thesis using zs(2,4) by (simp add: is_heap_def)
qed

end

end
