(* ===== verification/TxPool.thy ===== *)
theory TxPool
  imports GoHeap Chain MerkleProof
begin

text \<open>
  The pool of waiting transactions (\<open>txpool/\<close>): the two heaps, the list of nonces, admission with
  \<open>verify\<close>, the selection of a block's transactions (\<open>Pendings\<close>) and the clean-up after a block
  (\<open>Filter\<close>). The pool holds pointers to transactions that nobody else changes; here it holds the
  transactions. \<open>qtj\<close> is the key \<open>readinfo\<close> reads from the configuration, \<open>now\<close> the clock, as a function
  of the round where a loop reads it repeatedly. The mutex and the log are not modelled.
\<close>

section \<open>The heaps\<close>

definition GetTime :: "transaction \<Rightarrow> i64" where
  "GetTime tx = tTime tx"

text \<open>\<open>int64(tx.Nonce)\<close>: the same bits, compared as signed numbers below.\<close>

definition tx_GetNonce :: "transaction \<Rightarrow> i64" where
  "tx_GetNonce tx = tNonce tx"

definition TxHeap_Less :: "transaction \<Rightarrow> transaction \<Rightarrow> bool" where
  "TxHeap_Less a b =
     (if tFrom a = tFrom b
      then if tx_GetNonce a = tx_GetNonce b then GetTime a <s GetTime b
           else tx_GetNonce a <s tx_GetNonce b
      else GetTime a <s GetTime b)"

definition TxHeap_Get :: "transaction list \<Rightarrow> nat \<Rightarrow> transaction outcome" where
  "TxHeap_Get h i = (if 1 \<le> i \<and> i \<le> length h then Ok (h ! (length h - i)) else Panic)"

fun check_loop :: "transaction list \<Rightarrow> Address \<Rightarrow> u64 \<Rightarrow> nat \<Rightarrow> bool" where
  "check_loop [] fromAddr nonce cnt = (\<not> 50 \<le> cnt)"
| "check_loop (tx # h) fromAddr nonce cnt =
     (if fromAddr = tFrom tx
      then if nonce = tNonce tx then False else check_loop h fromAddr nonce (cnt + 1)
      else check_loop h fromAddr nonce cnt)"

definition TxHeap_check :: "transaction list \<Rightarrow> Address \<Rightarrow> u64 \<Rightarrow> bool" where
  "TxHeap_check h fromAddr nonce = check_loop h fromAddr nonce 0"

record Txpool =
  p_List :: "transaction list"
  p_queue :: "transaction list"
  p_Pending :: "transaction list"
  p_item :: "Address \<Rightarrow> u64 option"
  p_balance :: "Address \<Rightarrow> i64 option"

definition Txpool_New :: Txpool where
  "Txpool_New = \<lparr> p_List = heap_Init TxHeap_Less [], p_queue = heap_Init TxHeap_Less [], p_Pending = [],
     p_item = Map.empty, p_balance = Map.empty \<rparr>"

definition SetTxpollToNil :: "Txpool \<Rightarrow> Txpool" where
  "SetTxpollToNil p = p\<lparr> p_List := [] \<rparr>"

text \<open>\<open>readinfo\<close> after the configuration is read: \<open>cfg\<close> is the text under \<open>qtj\<close>.\<close>

definition readinfo :: "gostring \<Rightarrow> bytes outcome" where
  "readinfo cfg = obind (AddrTopub cfg) (\<lambda>pub. Ok (if length pub \<noteq> 32 then [] else pub))"

section \<open>Admission\<close>

text \<open>The checks of \<open>verify\<close> that read no database: the form of the addresses and the signature.\<close>

definition verify_signed :: "ed25519 \<Rightarrow> transaction \<Rightarrow> bool outcome" where
  "verify_signed ed tx =
     (if take 3 (AddressToByte (tFrom tx)) \<noteq> lit ''Kto'' then Ok False
      else let pub = AddrToPub (tFrom tx) in
        if length pub \<noteq> 32 then Ok False
        else if take 3 (AddressToByte (tTo tx)) \<noteq> lit ''Kto'' then Ok False
        else if length (AddrToPub (tTo tx)) \<noteq> 32 then Ok False
        else Verify ed pub (tHash tx) (tSignature tx))"

text \<open>The checks after the reads: \<open>bal\<close> is the balance, \<open>lb\<close> the locked amount.\<close>

definition verify_amounts :: "ed25519 \<Rightarrow> gostring \<Rightarrow> transaction \<Rightarrow> u64 \<Rightarrow> u64 \<Rightarrow> bool outcome" where
  "verify_amounts ed cfg tx bal lb =
     (let ulb = bal - lb in
      if ulb < tAmount tx then Ok False
      else if tScript tx \<noteq> [] \<and> (tFee tx < 500000 \<or> ulb < tFee tx) then Ok False
      else if tAmount tx < 500000 \<or> bal < tAmount tx then Ok False
      else if oSignature (tOrd tx) \<noteq> []
      then obind (readinfo cfg) (\<lambda>pb. Verify ed pb (oHash (tOrd tx)) (oSignature (tOrd tx)))
      else Ok True)"

definition verify ::
  "ed25519 \<Rightarrow> ('d, 't) DB \<Rightarrow> ('d, 't) Transaction \<Rightarrow> gostring \<Rightarrow> transaction \<Rightarrow> 'd \<Rightarrow> 'd \<times> bool outcome" where
  "verify ed D T cfg tx d =
     (let addr = AddressToByte (tFrom tx) in
      case verify_signed ed tx of
        Err e \<Rightarrow> (d, Err e)
      | Panic \<Rightarrow> (d, Panic)
      | Ok False \<Rightarrow> (d, Ok False)
      | Ok True \<Rightarrow>
        (case (case GetNonce D T addr d of
                 (d, Ok n) \<Rightarrow> (d, Ok n)
               | (d, Panic) \<Rightarrow> (d, Panic)
               | (d, Err e) \<Rightarrow> abind (SetNonce D T addr 1) (\<lambda>_. aret 1) d) of
           (d, Panic) \<Rightarrow> (d, Panic)
         | (d, Err e) \<Rightarrow> (d, Ok False)
         | (d, Ok nonce) \<Rightarrow>
           if tNonce tx < nonce then (d, Ok False)
           else (case GetBalance D T addr d of
               (d, Panic) \<Rightarrow> (d, Panic)
             | (d, Err e) \<Rightarrow> (d, Ok False)
             | (d, Ok bal) \<Rightarrow>
               (case GetLockBalance D T addr d of (d, rl) \<Rightarrow>
                if rl = Panic then (d, Panic)
                else (d, verify_amounts ed cfg tx bal (or_zero 0 rl))))))"

definition errtx :: goerror where
  "errtx = ErrText ''tx is error''"

definition errtomuch :: goerror where
  "errtomuch = ErrText ''recv tx to much,so refused''"

definition errtxoutrange :: goerror where
  "errtxoutrange = ErrText ''txpoll tx out of range,so refused''"

definition pool_Add ::
  "ed25519 \<Rightarrow> ('d, 't) DB \<Rightarrow> ('d, 't) Transaction \<Rightarrow> gostring \<Rightarrow> i64 \<Rightarrow> transaction \<Rightarrow>
    (Txpool \<times> 'd, unit) act" where
  "pool_Add ed D T cfg now tx s =
     (let (p, d) = s in
      if 1500 < length (p_List p) then ((p, d), Err errtxoutrange)
      else (case verify ed D T cfg tx d of
          (d, Panic) \<Rightarrow> ((p, d), Panic)
        | (d, Err e) \<Rightarrow> ((p, d), Err e)
        | (d, Ok ok) \<Rightarrow>
            if \<not> ok then ((p, d), Err errtx)
            else if \<not> TxHeap_check (p_List p) (tFrom tx) (tNonce tx) then ((p, d), Err errtomuch)
            else ((p\<lparr> p_List := heap_Push TxHeap_Less (p_List p) (tx\<lparr> tTime := now \<rparr>) \<rparr>, d), Ok ())))"

section \<open>Choosing a block's transactions\<close>

text \<open>
  The root of a script's effects. An error of \<open>exec.New\<close> drops the transaction.
\<close>

definition pend_root ::
  "(bytes \<Rightarrow> bytes) \<Rightarrow> ('d, 't) DB \<Rightarrow> 'd \<Rightarrow> transaction \<Rightarrow> bytes outcome option" where
  "pend_root sha3 D cd tx =
     (case Parser (tScript tx) of
        Ok sc \<Rightarrow>
          (case exec_New D cd sc (AddressToByte (tFrom tx)) of
             Ok e \<Rightarrow> exec_Root sha3 e
           | Err e \<Rightarrow> Some (Err e)
           | Panic \<Rightarrow> Some Panic)
      | _ \<Rightarrow> Some Panic)"

definition bal_at :: "(Address \<Rightarrow> i64 option) \<Rightarrow> Address \<Rightarrow> i64" where
  "bal_at m a = (case m a of None \<Rightarrow> 0 | Some b \<Rightarrow> b)"

text \<open>The block both branches repeat: the balance covers the amount, as signed numbers.\<close>

definition pend_accept ::
  "(bytes \<Rightarrow> bytes) \<Rightarrow> ('d, 't) DB \<Rightarrow> 'd \<Rightarrow> transaction \<Rightarrow> Txpool \<Rightarrow> Txpool outcome option" where
  "pend_accept sha3 D cd tx p =
     (let a = tFrom tx in
      if tAmount tx \<le>s bal_at (p_balance p) a
      then let p = p\<lparr> p_item := (p_item p)(a \<mapsto> tNonce tx) \<rparr> in
        (case (if tScript tx \<noteq> []
               then (case pend_root sha3 D cd tx of
                   None \<Rightarrow> None
                 | Some r \<Rightarrow> Some (obind r (\<lambda>root.
                     Ok (tx\<lparr> tRoot := root \<rparr>, (p_balance p)(a \<mapsto> bal_at (p_balance p) a - tFee tx)))))
               else Some (Ok (tx, p_balance p))) of
           None \<Rightarrow> None
         | Some (Err e) \<Rightarrow> Some (Ok p)
         | Some Panic \<Rightarrow> Some Panic
         | Some (Ok (tx, b)) \<Rightarrow>
             Some (Ok (p\<lparr> p_Pending := p_Pending p @ [tx], p_balance := b(a \<mapsto> bal_at b a - tAmount tx) \<rparr>)))
      else Some (Ok p))"

text \<open>
  The available balance is read once per sender and call; without funds for the amount the
  transaction is dropped (\<open>None\<close>).
\<close>

definition pend_balance ::
  "('d, 't) DB \<Rightarrow> ('d, 't) Transaction \<Rightarrow> transaction \<Rightarrow> (Txpool \<times> 'd, Txpool option) act" where
  "pend_balance D T tx s =
     (let (p, d) = s; a = tFrom tx in
      if p_balance p a \<noteq> None then ((p, d), Ok (Some p))
      else (case GetBalance D T (AddressToByte a) d of (d, rb) \<Rightarrow>
        (case GetLockBalance D T (AddressToByte a) d of (d, rl) \<Rightarrow>
          let fromba = or_zero 0 rb - or_zero 0 rl in
          if rb = Panic \<or> rl = Panic then ((p, d), Panic)
          else if fromba \<le> 0 then ((p, d), Ok None)
          else if fromba < tAmount tx then ((p, d), Ok None)
          else ((p, d), Ok (Some (p\<lparr> p_balance := (p_balance p)(a \<mapsto> fromba) \<rparr>))))))"

definition pend_one ::
  "(bytes \<Rightarrow> bytes) \<Rightarrow> ('d, 't) DB \<Rightarrow> ('d, 't) Transaction \<Rightarrow> 'd \<Rightarrow> transaction \<Rightarrow> Txpool \<times> 'd \<Rightarrow>
    ((Txpool \<times> 'd) outcome) option" where
  "pend_one sha3 D T cd tx s =
     (let (p, d) = s; a = tFrom tx in
      case GetNonce D T (AddressToByte a) d of (d, rn) \<Rightarrow>
        let n = or_zero 0 rn in
        if rn = Panic then Some Panic
        else if tNonce tx < n then Some (Ok (p, d))
        else (case pend_balance D T tx (p, d) of
            (_, Err e) \<Rightarrow> Some (Err e)
          | (_, Panic) \<Rightarrow> Some Panic
          | ((_, d), Ok None) \<Rightarrow> Some (Ok (p, d))
          | ((_, d), Ok (Some p)) \<Rightarrow>
              let accept = (case pend_accept sha3 D cd tx p of
                    None \<Rightarrow> None
                  | Some r \<Rightarrow> Some (obind r (\<lambda>p. Ok (p, d))));
                  push = p\<lparr> p_queue := heap_Push TxHeap_Less (p_queue p) tx \<rparr>
              in if tNonce tx = n
                 then (case p_item p a of None \<Rightarrow> accept | Some _ \<Rightarrow> Some (Ok (p, d)))
                 else (case p_item p a of
                     None \<Rightarrow> Some (Ok (push\<lparr> p_item := (p_item p)(a \<mapsto> n) \<rparr>, d))
                   | Some m \<Rightarrow> if tNonce tx = m + 1 then accept else Some (Ok (push, d)))))"

text \<open>The loop pops the heap \<open>l\<close>, which nothing in its body reads, until it is empty or 500 are chosen.\<close>

function pend_loop ::
  "(bytes \<Rightarrow> bytes) \<Rightarrow> ('d, 't) DB \<Rightarrow> ('d, 't) Transaction \<Rightarrow> 'd \<Rightarrow> transaction list \<Rightarrow> Txpool \<times> 'd \<Rightarrow>
    ((transaction list \<times> Txpool \<times> 'd) outcome) option" where
  "pend_loop sha3 D T cd l s =
     (if 500 \<le> length (p_Pending (fst s)) then Some (Ok (l, s))
      else (case heap_Pop TxHeap_Less l of
          Ok (tx, l') \<Rightarrow>
            (case pend_one sha3 D T cd tx s of
               None \<Rightarrow> None
             | Some (Ok s') \<Rightarrow> pend_loop sha3 D T cd l' s'
             | Some (Err e) \<Rightarrow> Some (Err e)
             | Some Panic \<Rightarrow> Some Panic)
        | _ \<Rightarrow> Some (Ok (l, s))))"
  by pat_completeness auto
termination
  by (relation "measure (\<lambda>(sha3, D, T, cd, l, s). length l)") (auto dest: heap_Pop_length)

declare pend_loop.simps [simp del]

text \<open>\<open>for i := 0; i < h.Len(); i++\<close> with a \<open>Pop\<close> in the body: the length shrinks while \<open>i\<close> grows.\<close>

function pop_half :: "transaction list \<Rightarrow> nat \<Rightarrow> transaction list \<Rightarrow> transaction list \<times> transaction list" where
  "pop_half l i txs =
     (if i < length l
      then (case heap_Pop TxHeap_Less l of
          Ok (tx, l') \<Rightarrow> pop_half l' (i + 1) (txs @ [tx])
        | _ \<Rightarrow> (l, txs))
      else (l, txs))"
  by pat_completeness auto
termination
  by (relation "measure (\<lambda>(l, i, txs). length l)") (auto dest: heap_Pop_length)

declare pop_half.simps [simp del]

text \<open>\<open>clock j\<close> is the time read in round \<open>j\<close>; an entry of ten seconds or more is dropped.\<close>

fun push_young :: "(nat \<Rightarrow> i64) \<Rightarrow> nat \<Rightarrow> transaction list \<Rightarrow> transaction list \<Rightarrow> transaction list" where
  "push_young clock j [] l = l"
| "push_young clock j (tx # txs) l =
     push_young clock (j + 1) txs (if clock j - tTime tx <s 10 then heap_Push TxHeap_Less l tx else l)"

definition Pendings ::
  "(bytes \<Rightarrow> bytes) \<Rightarrow> ('d, 't) DB \<Rightarrow> ('d, 't) Transaction \<Rightarrow> (nat \<Rightarrow> i64) \<Rightarrow> Txpool \<times> 'd Blockchain \<Rightarrow>
    ((Txpool \<times> 'd Blockchain) outcome) option" where
  "Pendings sha3 D T clock s =
     (let (p, bc) = s in
      case pend_loop sha3 D T (bc_cdb bc) (p_List p) (p, bc_db bc) of
        None \<Rightarrow> None
      | Some r \<Rightarrow> Some (obind r (\<lambda>(l, p, d).
          let (q, txs) = pop_half (p_queue p) 0 []
          in Ok (p\<lparr> p_List := push_young clock 0 txs l, p_queue := q, p_item := Map.empty,
                 p_balance := Map.empty \<rparr>, bc\<lparr> bc_db := d \<rparr>))))"

definition GetPending :: "Txpool \<Rightarrow> transaction list" where
  "GetPending p = p_Pending p"

definition GetPendingLen :: "Txpool \<Rightarrow> nat" where
  "GetPendingLen p = length (p_Pending p)"

section \<open>Received blocks\<close>

fun verify_all ::
  "ed25519 \<Rightarrow> ('d, 't) DB \<Rightarrow> ('d, 't) Transaction \<Rightarrow> gostring \<Rightarrow> transaction list \<Rightarrow> 'd \<Rightarrow> 'd \<times> bool outcome" where
  "verify_all ed D T cfg [] d = (d, Ok True)"
| "verify_all ed D T cfg (tx # txs) d =
     (case verify ed D T cfg tx d of
        (d, Ok ok) \<Rightarrow> if ok then verify_all ed D T cfg txs d else (d, Ok False)
      | (d, Err e) \<Rightarrow> (d, Err e)
      | (d, Panic) \<Rightarrow> (d, Panic))"

definition VerifyBlcok ::
  "(bytes \<Rightarrow> bytes) \<Rightarrow> ed25519 \<Rightarrow> ('d, 't) DB \<Rightarrow> ('d, 't) Transaction \<Rightarrow> json \<Rightarrow> gostring \<Rightarrow> Blocks \<Rightarrow> 'd \<Rightarrow>
    ('d \<times> bool outcome) option" where
  "VerifyBlcok sha256 ed D T js cfg b d =
     (if sTxs b = [] then Some (d, Ok True)
      else (case verify_in sha256 (map (js_tx js) (sTxs b)) (sRoot b) of
          None \<Rightarrow> None
        | Some (Err e) \<Rightarrow> Some (d, Err e)
        | Some Panic \<Rightarrow> Some (d, Panic)
        | Some (Ok True) \<Rightarrow> Some (d, Ok False)
        | Some (Ok False) \<Rightarrow> Some (verify_all ed D T cfg (sTxs b) d)))"

text \<open>
  The inner loop of \<open>Filter\<close> cuts every entry with the sender and nonce of the block's transaction out
  of the slice.
\<close>

definition same_slot :: "transaction \<Rightarrow> transaction \<Rightarrow> bool" where
  "same_slot tx e = (tFrom tx = tFrom e \<and> tNonce tx = tNonce e)"

function cut_slots :: "transaction \<Rightarrow> transaction list \<Rightarrow> nat \<Rightarrow> transaction list" where
  "cut_slots tx txlist index =
     (if index < length txlist
      then if same_slot tx (txlist ! index)
        then cut_slots tx (take index txlist @ drop (index + 1) txlist) index
        else cut_slots tx txlist (index + 1)
      else txlist)"
  by pat_completeness auto
termination
  by (relation "measure (\<lambda>(tx, txlist, index). length txlist - index)") auto

declare cut_slots.simps [simp del]

definition pool_Filter :: "(nat \<Rightarrow> i64) \<Rightarrow> Blocks \<Rightarrow> Txpool \<Rightarrow> Txpool" where
  "pool_Filter clock b p =
     (let txlist = fold (\<lambda>tx l. cut_slots tx l 0) (sTxs b) (p_List p);
          (l, txs) = pop_half txlist 0 []
      in p\<lparr> p_List := push_young clock 0 txs l \<rparr>)"

end
