(* ===== verification/TxList.thy ===== *)
theory TxList
  imports TxPool
begin

text \<open>
  \<open>txpool/txlist.go\<close>: transactions of one sender by nonce, with a heap of the nonces; and the two
  heaps of the package as instances of the heap order.
\<close>

section \<open>The list of nonces\<close>

definition nonceHeap_Less :: "u64 \<Rightarrow> u64 \<Rightarrow> bool" where
  "nonceHeap_Less a b = (a < b)"

record txlist =
  tl_index :: "u64 list"
  tl_items :: "u64 \<Rightarrow> transaction option"

definition NewList :: txlist where
  "NewList = \<lparr> tl_index = heap_Init nonceHeap_Less [], tl_items = Map.empty \<rparr>"

definition txlist_Put :: "txlist \<Rightarrow> transaction \<Rightarrow> txlist" where
  "txlist_Put m tx =
     (let nonce = tNonce tx in
      case tl_items m nonce of
        None \<Rightarrow> m\<lparr> tl_index := heap_Push nonceHeap_Less (tl_index m) nonce, tl_items := (tl_items m)(nonce \<mapsto> tx) \<rparr>
      | Some old \<Rightarrow> if tTime old <s tTime tx then m else m\<lparr> tl_items := (tl_items m)(nonce \<mapsto> tx) \<rparr>)"

definition txlist_Get :: "txlist \<Rightarrow> u64 \<Rightarrow> transaction option" where
  "txlist_Get m nonce = tl_items m nonce"

fun remove_index :: "u64 list \<Rightarrow> u64 \<Rightarrow> u64 list \<Rightarrow> nat \<Rightarrow> u64 list" where
  "remove_index index nonce [] i = index"
| "remove_index index nonce (x # xs) i =
     (if x = nonce then (case heap_Remove nonceHeap_Less index i of Ok (_, ys) \<Rightarrow> ys | _ \<Rightarrow> index)
      else remove_index index nonce xs (i + 1))"

definition txlist_Remove :: "txlist \<Rightarrow> u64 \<Rightarrow> txlist \<times> bool" where
  "txlist_Remove m nonce =
     (case tl_items m nonce of
        None \<Rightarrow> (m, False)
      | Some _ \<Rightarrow> (m\<lparr> tl_index := remove_index (tl_index m) nonce (tl_index m) 0,
          tl_items := (tl_items m)(nonce := None) \<rparr>, True))"

section \<open>The heap orders\<close>

interpretation nonces: heap_order nonceHeap_Less UNIV
  by unfold_locales (auto simp: nonceHeap_Less_def)

text \<open>\<open>TxHeap\<close> is ordered as long as its transactions have one sender.\<close>

interpretation sender: heap_order TxHeap_Less "{tx. tFrom tx = a}" for a
  by unfold_locales
    (auto simp: TxHeap_Less_def tx_GetNonce_def GetTime_def word_sless_alt split: if_splits
      simp flip: signed_word_eqI)

section \<open>The nonces are the keys\<close>

definition txlist_ok :: "txlist \<Rightarrow> bool" where
  "txlist_ok m = (distinct (tl_index m) \<and> set (tl_index m) = dom (tl_items m) \<and>
     is_heap nonceHeap_Less (length (tl_index m)) (tl_index m) \<and>
     (\<forall>n tx. tl_items m n = Some tx \<longrightarrow> tNonce tx = n))"

lemma distinct_mset: "mset xs = mset ys \<Longrightarrow> distinct xs = distinct ys"
  by (metis mset_eq_imp_distinct_iff)

lemma Push_set: "set (heap_Push lt xs x) = insert x (set xs)"
  using heap_Push_keeps [of lt xs x] by (metis set_mset_add_mset_insert set_mset_mset)

lemma Push_distinct: "distinct (heap_Push lt xs x) \<longleftrightarrow> x \<notin> set xs \<and> distinct xs"
  using distinct_mset [of "heap_Push lt xs x" "x # xs"] heap_Push_keeps [of lt xs x] by simp

lemma remove_index_found:
  "nonce \<in> set xs \<Longrightarrow> index = pre @ xs \<Longrightarrow> i = length pre \<Longrightarrow>
    \<exists>k ys. k < length index \<and> index ! k = nonce \<and> heap_Remove nonceHeap_Less index k = Ok (nonce, ys) \<and>
      remove_index index nonce xs i = ys"
proof (induction xs arbitrary: pre i)
  case (Cons x xs)
  show ?case
  proof (cases "x = nonce")
    case True
    with Cons.prems have k: "i < length index" "index ! i = nonce" by auto
    then obtain y ys where "heap_Remove nonceHeap_Less index i = Ok (y, ys)"
      by (simp add: heap_Remove_def Let_def)
    with heap_Remove_keeps(1) [OF this] True k show ?thesis by (intro exI [of _ i] exI [of _ ys]) simp
  next
    case False
    with Cons.prems Cons.IH [of "pre @ [x]" "i + 1"] show ?thesis by auto
  qed
qed simp

lemma txlist_New_ok: "txlist_ok NewList"
  by (simp add: txlist_ok_def NewList_def heap_Init_def is_heap_def)

lemma txlist_Put_ok: "txlist_ok m \<Longrightarrow> txlist_ok (txlist_Put m tx)"
  using nonces.Push_heap [of "tl_index m" "tNonce tx"]
  by (auto simp: txlist_ok_def txlist_Put_def Let_def Push_set Push_distinct split: option.split)

lemma txlist_Remove_ok:
  assumes "txlist_ok m"
  shows "txlist_ok (fst (txlist_Remove m nonce))"
proof (cases "tl_items m nonce")
  case None
  with assms show ?thesis by (simp add: txlist_Remove_def)
next
  case (Some tx)
  with assms have "nonce \<in> set (tl_index m)" by (auto simp: txlist_ok_def)
  from remove_index_found [OF this, of "tl_index m" "[]" 0] obtain k ys where
    r: "heap_Remove nonceHeap_Less (tl_index m) k = Ok (nonce, ys)" "remove_index (tl_index m) nonce (tl_index m) 0 = ys"
    by auto
  have m: "mset (tl_index m) = mset (nonce # ys)"
    using heap_Remove_keeps(2) [OF r(1)] by simp
  have "distinct (nonce # ys)" "set (nonce # ys) = dom (tl_items m)"
    using distinct_mset [OF m] mset_eq_setD [OF m] assms by (simp_all add: txlist_ok_def)
  moreover have "is_heap nonceHeap_Less (length ys) ys"
    using nonces.Remove_heap [OF _ _ r(1)] assms by (simp add: txlist_ok_def)
  ultimately show ?thesis
    using assms r(2) Some by (auto simp: txlist_ok_def txlist_Remove_def)
qed

end
