(* ===== verification/TxPoolSpec.thy ===== *)
theory TxPoolSpec
  imports TxList LedgerSpec CodecSpec
begin

text \<open>
  What the pool promises: admission keeps it well-formed and admits only what \<open>verify\<close> passed;
  \<open>Pendings\<close> ends, chooses at most 500 transactions of the pool, no sender's nonce twice and, but for
  the fee of the last one, no more than each sender has available; \<open>Filter\<close> leaves no transaction of the block; and what the checks of
  received transactions and blocks do not cover.
\<close>

section \<open>Well-formed pools\<close>

text \<open>What \<open>check\<close> and the bound of \<open>Add\<close> are for.\<close>

definition slots :: "transaction list \<Rightarrow> (Address \<times> u64) list" where
  "slots l = map (\<lambda>t. (tFrom t, tNonce t)) l"

definition pool_ok :: "transaction list \<Rightarrow> bool" where
  "pool_ok l = (length l \<le> 1501 \<and> distinct (slots l) \<and> (\<forall>a. length (filter (\<lambda>t. tFrom t = a) l) \<le> 50))"

lemma check_loop_iff:
  "check_loop h a n k \<longleftrightarrow> (a, n) \<notin> set (slots h) \<and> k + length (filter (\<lambda>t. tFrom t = a) h) < 50"
  by (induction h a n k rule: check_loop.induct) (auto simp: slots_def)

lemma slots_mset: "mset l = mset l' \<Longrightarrow> mset (slots l) = mset (slots l')"
  by (simp add: slots_def)

lemma pool_ok_mset: "mset l = mset l' \<Longrightarrow> pool_ok l = pool_ok l'"
  using slots_mset [of l l', THEN distinct_mset]
  by (simp add: pool_ok_def) (metis mset_filter size_mset)

lemma pool_ok_Cons:
  "pool_ok l \<Longrightarrow> length l \<le> 1500 \<Longrightarrow> TxHeap_check l (tFrom tx) (tNonce tx) \<Longrightarrow> pool_ok (tx # l)"
  by (auto simp: pool_ok_def TxHeap_check_def check_loop_iff slots_def)

lemma Push_pool_ok:
  assumes "pool_ok l" "length l \<le> 1500" "TxHeap_check l (tFrom tx) (tNonce tx)"
  shows "pool_ok (heap_Push TxHeap_Less l tx)"
  using pool_ok_Cons [OF assms] pool_ok_mset [of "heap_Push TxHeap_Less l tx" "tx # l"]
  by (simp add: heap_Push_keeps)

lemma pool_Add_Ok:
  assumes "pool_Add ed D T cfg now tx (p, d) = (s', Ok ())"
  shows "length (p_List p) \<le> 1500" "TxHeap_check (p_List p) (tFrom tx) (tNonce tx)"
    "snd (verify ed D T cfg tx d) = Ok True"
    "fst s' = p\<lparr> p_List := heap_Push TxHeap_Less (p_List p) (tx\<lparr> tTime := now \<rparr>) \<rparr>"
  using assms
  by (auto simp: pool_Add_def split: if_splits outcome.splits prod.splits)

lemma pool_Add_refused:
  "snd (pool_Add ed D T cfg now tx (p, d)) \<noteq> Ok () \<Longrightarrow> fst (fst (pool_Add ed D T cfg now tx (p, d))) = p"
  by (auto simp: pool_Add_def split: if_splits outcome.splits prod.splits)

text \<open>C9: Admission keeps the pool well-formed: at most 1501 entries, at most 50 of a sender, no sender's
  nonce twice, whatever the transaction and the answer.\<close>

theorem pool_Add_keeps_pool_ok:
  assumes "pool_ok (p_List p)"
  shows "pool_ok (p_List (fst (fst (pool_Add ed D T cfg now tx (p, d)))))"
proof (cases "snd (pool_Add ed D T cfg now tx (p, d)) = Ok ()")
  case True
  then obtain s' where "pool_Add ed D T cfg now tx (p, d) = (s', Ok ())" by (metis prod.collapse)
  with pool_Add_Ok [OF this] show ?thesis
    using Push_pool_ok [of "p_List p" "tx\<lparr> tTime := now \<rparr>"] assms by simp
qed (use assms in \<open>simp add: pool_Add_refused\<close>)

theorem pool_Add_keeps_pool_ok_witness:
  "pool_ok (p_List (fst (fst (pool_Add \<lparr> ed_sign = \<lambda>_ _. [], ed_verify = \<lambda>_ _ _. True \<rparr>
      (bgStore map_badger) (bgTransaction map_badger) [] 7 zero_transaction (Txpool_New, fmempty)))))"
  by (rule pool_Add_keeps_pool_ok) (simp add: pool_ok_def Txpool_New_def heap_Init_def slots_def)

section \<open>What verify demands\<close>

lemma verify_amounts_True:
  assumes "verify_amounts ed cfg tx bal lb = Ok True"
  shows "500000 \<le> tAmount tx" "tAmount tx \<le> bal" "tAmount tx \<le> bal - lb"
    "tScript tx \<noteq> [] \<Longrightarrow> 500000 \<le> tFee tx \<and> tFee tx \<le> bal - lb"
  using assms by (auto simp: verify_amounts_def Let_def not_less split: if_splits)

lemma verify_signed_True:
  assumes "verify_signed ed tx = Ok True"
  shows "ed_verify ed (AddrToPub (tFrom tx)) (tHash tx) (tSignature tx)" "tFrom tx \<noteq> []"
  using assms
  by (auto simp: verify_signed_def Verify_def Let_def AddressToByte_def lit_def split: if_splits)

context store_tx begin

lemma nonce_key_lock_key: "nonce_key a \<noteq> lock_key b"
  by (simp add: nonce_key_def lock_key_def eMapKey_def lit_def)

text \<open>The nonce \<open>verify\<close> compares with, and what reading it changes.\<close>

lemma nonce_read:
  assumes "(case GetNonce D T a d of
      (d, Ok n) \<Rightarrow> (d, Ok n)
    | (d, Panic) \<Rightarrow> (d, Panic)
    | (d, Err e) \<Rightarrow> abind (SetNonce D T a 1) (\<lambda>_. aret 1) d) = (d1, Ok n)"
  shows "num_at (stored d) (nonce_key a) \<le> n" "\<And>k. k \<noteq> nonce_key a \<Longrightarrow> stored d1 k = stored d k"
proof -
  obtain d0 r where g: "GetNonce D T a d = (d0, r)" by (rule prod.exhaust)
  have d0: "stored d0 k = stored d k" if "k \<noteq> nonce_key a" for k
    using GetNonce_done(2) [of a d] g that by (auto split: if_splits)
  have r: "num_at (stored d) (nonce_key a) \<le> or_zero 0 r"
    using GetNonce_done(1) [of a d] g by (auto simp: num_at_def split: option.splits)
  have "num_at (stored d) (nonce_key a) \<le> n \<and> (\<forall>k. k \<noteq> nonce_key a \<longrightarrow> stored d1 k = stored d k)"
  proof (cases r)
    case (Ok m)
    with assms g d0 r show ?thesis by simp
  next
    case (Err e)
    obtain dx rx where sn: "SetNonce D T a 1 d0 = (dx, rx)" by (rule prod.exhaust)
    with Err assms g d0 r SetNonce_done [of a 1 d0] show ?thesis
      by (auto simp: abind_def aret_def)
  qed (use assms g in simp)
  then show "num_at (stored d) (nonce_key a) \<le> n" "\<And>k. k \<noteq> nonce_key a \<Longrightarrow> stored d1 k = stored d k" by simp_all
qed

lemma verify_accepted:
  assumes "snd (verify ed D T cfg tx d) = Ok True"
  shows "verify_signed ed tx = Ok True" "num_at (stored d) (nonce_key (tFrom tx)) \<le> tNonce tx"
    "verify_amounts ed cfg tx (num_at (stored d) (tFrom tx)) (num_at (stored d) (lock_key (tFrom tx))) = Ok True"
proof -
  let ?a = "tFrom tx"
  let ?r = "case GetNonce D T ?a d of (d, Ok n) \<Rightarrow> (d, Ok n) | (d, Panic) \<Rightarrow> (d, Panic)
    | (d, Err e) \<Rightarrow> abind (SetNonce D T ?a 1) (\<lambda>_. aret 1) d"
  show v: "verify_signed ed tx = Ok True"
    using assms by (auto simp: verify_def Let_def split: outcome.splits bool.splits)
  then have ne: "?a \<noteq> []" by (rule verify_signed_True)
  obtain d1 r1 where r: "?r = (d1, r1)" by (rule prod.exhaust)
  have eq: "verify ed D T cfg tx d = (case r1 of
      Panic \<Rightarrow> (d1, Panic)
    | Err e \<Rightarrow> (d1, Ok False)
    | Ok nonce \<Rightarrow> if tNonce tx < nonce then (d1, Ok False)
        else (case GetBalance D T ?a d1 of
            (d, Panic) \<Rightarrow> (d, Panic)
          | (d, Err e) \<Rightarrow> (d, Ok False)
          | (d, Ok bal) \<Rightarrow>
            (case GetLockBalance D T ?a d of (d, rl) \<Rightarrow>
             if rl = Panic then (d, Panic) else (d, verify_amounts ed cfg tx bal (or_zero 0 rl)))))"
    unfolding verify_def Let_def AddressToByte_def v outcome.case bool.case r prod.case
    by (cases r1) simp_all
  with assms obtain n where n: "r1 = Ok n" "n \<le> tNonce tx"
    by (cases r1) (auto split: if_splits)
  note read = nonce_read [OF r [unfolded n(1)]]
  show "num_at (stored d) (nonce_key ?a) \<le> tNonce tx" using read(1) n(2) by simp
  obtain d2 rb where b: "GetBalance D T ?a d1 = (d2, rb)" by (rule prod.exhaust)
  obtain d3 rl where l: "GetLockBalance D T ?a d2 = (d3, rl)" by (rule prod.exhaust)
  have "stored d1 ?a = stored d ?a" "stored d1 (lock_key ?a) = stored d (lock_key ?a)"
    using read(2) nonce_key_length [of ?a ?a] nonce_key_lock_key [of ?a ?a] by metis+
  then have "or_zero 0 rb = num_at (stored d) ?a" "or_zero 0 rl = num_at (stored d) (lock_key ?a)"
    using GetBalance_done [OF ne, of d1] GetLockBalance_done [of ?a d2] b l by (simp_all add: num_at_def)
  moreover from assms obtain bal where "rb = Ok bal" "verify_amounts ed cfg tx bal (or_zero 0 rl) = Ok True"
    using n eq b l by (cases rb) (auto split: if_splits)
  ultimately show "verify_amounts ed cfg tx (num_at (stored d) ?a) (num_at (stored d) (lock_key ?a)) = Ok True"
    by simp
qed

end

section \<open>A small pool for the witnesses\<close>

definition pool_addr :: Address where
  "pool_addr = BytesToAddress (PubtoAddr (replicate 32 255))"

definition pool_ed :: ed25519 where
  "pool_ed = \<lparr> ed_sign = (\<lambda>k m. m), ed_verify = (\<lambda>k m s. s = m) \<rparr>"

definition pool_tx :: transaction where
  "pool_tx = zero_transaction\<lparr> tFrom := pool_addr, tTo := pool_addr, tAmount := 600000, tNonce := 1, tTime := 5 \<rparr>"

definition pool_db :: mdb where
  "pool_db = fmupd pool_addr (E64func 1000000) fmempty"

definition pool_demo :: Txpool where
  "pool_demo = Txpool_New\<lparr> p_List := [pool_tx] \<rparr>"

definition pool_bc :: "mdb Blockchain" where
  "pool_bc = \<lparr> bc_db = pool_db, bc_cdb = fmempty \<rparr>"

lemma pool_addr_facts: "length pool_addr = 47" "take 3 pool_addr = lit ''Kto''" "AddrToPub pool_addr = replicate 32 255"
  "pool_addr \<noteq> []" "pool_addr \<noteq> nonce_key pool_addr" "pool_addr \<noteq> lock_key pool_addr"
proof -
  have len: "length (PubtoAddr (replicate 32 255)) = 47"
    using length_Encode_255 by (simp add: PubtoAddr_def PublicKeyToAddress_def)
  show l: "length pool_addr = 47" by (simp add: pool_addr_def)
  then show "pool_addr \<noteq> []" by auto
  show "take 3 pool_addr = lit ''Kto''"
    unfolding pool_addr_def BytesToAddress_def Lenthaddr_def len
    by (simp add: PubtoAddr_def length_lit_Kto)
  show "AddrToPub pool_addr = replicate 32 255"
    unfolding pool_addr_def by (simp add: AddrToPub_PubtoAddr len)
  show "pool_addr \<noteq> nonce_key pool_addr" "pool_addr \<noteq> lock_key pool_addr"
    using nonce_key_length [of pool_addr pool_addr] lock_key_length [of pool_addr pool_addr] by auto
qed

lemma pool_signed: "verify_signed pool_ed pool_tx = Ok True"
  by (simp add: verify_signed_def pool_tx_def pool_addr_facts AddressToByte_def Verify_def pool_ed_def zero_transaction_def)

lemma pool_amounts: "verify_amounts pool_ed cfg pool_tx 1000000 0 = Ok True"
  by (simp add: verify_amounts_def pool_tx_def zero_transaction_def zero_order_def)


section \<open>What the signature does not bind\<close>

text \<open>\<open>verify\<close> checks the signature over the hash the transaction carries and never recomputes it, so
  the same signature passes with a smaller amount and any later nonce: a payment can be replayed.\<close>

theorem verify_replayed:
  assumes "verify ed D T cfg tx d = (d', Ok True)"
    "500000 \<le> amount" "amount \<le> tAmount tx" "tNonce tx \<le> nonce"
  shows "verify ed D T cfg (tx\<lparr> tAmount := amount, tNonce := nonce \<rparr>) d = (d', Ok True)"
proof -
  have same: "verify_signed ed (tx\<lparr> tAmount := amount, tNonce := nonce \<rparr>) = verify_signed ed tx"
    by (simp add: verify_signed_def Let_def)
  have amounts: "verify_amounts ed cfg (tx\<lparr> tAmount := amount, tNonce := nonce \<rparr>) bal lb = Ok True"
    if "verify_amounts ed cfg tx bal lb = Ok True" for bal lb
    using that assms(2,3) by (auto simp: verify_amounts_def Let_def not_less split: if_splits)
  have nonce: "\<not> nonce < n" if "\<not> tNonce tx < n" for n
    using that assms(4) by simp
  show ?thesis
    using assms(1) unfolding verify_def Let_def same
    by (auto simp: nonce amounts split: outcome.splits bool.splits prod.splits if_splits)
qed

section \<open>Choosing transactions\<close>

lemma pend_accept_cases:
  assumes "pend_accept sha3 D cd tx p = Some (Ok p')"
  shows "p_queue p' = p_queue p"
    "(p_Pending p' = p_Pending p \<and> p_balance p' = p_balance p \<and>
        (p_item p' = p_item p \<or> p_item p' = (p_item p)(tFrom tx \<mapsto> tNonce tx))) \<or>
     (tAmount tx \<le>s bal_at (p_balance p) (tFrom tx) \<and> p_item p' = (p_item p)(tFrom tx \<mapsto> tNonce tx) \<and>
      p_balance p' = (p_balance p)(tFrom tx \<mapsto>
        (bal_at (p_balance p) (tFrom tx) - (if tScript tx \<noteq> [] then tFee tx else 0)) - tAmount tx) \<and>
      (\<exists>r. p_Pending p' = p_Pending p @ [tx\<lparr> tRoot := r \<rparr>]))"
proof -
  let ?a = "tFrom tx"
  have keep: "tx = tx\<lparr> tRoot := tRoot tx \<rparr>" by simp
  have "p_queue p' = p_queue p \<and>
    ((p_Pending p' = p_Pending p \<and> p_balance p' = p_balance p \<and>
        (p_item p' = p_item p \<or> p_item p' = (p_item p)(?a \<mapsto> tNonce tx))) \<or>
     (tAmount tx \<le>s bal_at (p_balance p) ?a \<and> p_item p' = (p_item p)(?a \<mapsto> tNonce tx) \<and>
      p_balance p' = (p_balance p)(?a \<mapsto>
        (bal_at (p_balance p) ?a - (if tScript tx \<noteq> [] then tFee tx else 0)) - tAmount tx) \<and>
      (\<exists>r. p_Pending p' = p_Pending p @ [tx\<lparr> tRoot := r \<rparr>])))"
  proof (cases "tAmount tx \<le>s bal_at (p_balance p) ?a")
    case le: True
    show ?thesis
    proof (cases "tScript tx = []")
      case True
      with le assms keep show ?thesis by (auto simp: pend_accept_def Let_def intro!: exI [of _ "tRoot tx"])
    next
      case False
      with le assms obtain r where r: "pend_root sha3 D cd tx = Some r"
        by (auto simp: pend_accept_def Let_def split: option.splits)
      with le False assms show ?thesis
        by (cases r) (auto simp: pend_accept_def Let_def bal_at_def)
    qed
  qed (use assms in \<open>simp add: pend_accept_def Let_def\<close>)
  then show "p_queue p' = p_queue p"
    "(p_Pending p' = p_Pending p \<and> p_balance p' = p_balance p \<and>
        (p_item p' = p_item p \<or> p_item p' = (p_item p)(?a \<mapsto> tNonce tx))) \<or>
     (tAmount tx \<le>s bal_at (p_balance p) ?a \<and> p_item p' = (p_item p)(?a \<mapsto> tNonce tx) \<and>
      p_balance p' = (p_balance p)(?a \<mapsto>
        (bal_at (p_balance p) ?a - (if tScript tx \<noteq> [] then tFee tx else 0)) - tAmount tx) \<and>
      (\<exists>r. p_Pending p' = p_Pending p @ [tx\<lparr> tRoot := r \<rparr>]))"
    by simp_all
qed

lemma pend_balance_cases:
  assumes "pend_balance D T tx (p, d) = (s, Ok (Some p'))"
  shows "p' = p \<and> p_balance p (tFrom tx) \<noteq> None \<and> snd s = d \<or>
    (\<exists>d1 rb rl. GetBalance D T (tFrom tx) d = (d1, rb) \<and> GetLockBalance D T (tFrom tx) d1 = (snd s, rl) \<and>
      p_balance p (tFrom tx) = None \<and>
      p' = p\<lparr> p_balance := (p_balance p)(tFrom tx \<mapsto> or_zero 0 rb - or_zero 0 rl) \<rparr>)"
  using assms
  by (auto simp: pend_balance_def AddressToByte_def Let_def split: if_splits prod.splits)

text \<open>One round: the transaction is dropped, queued or chosen.\<close>

lemma pend_one_cases:
  assumes "pend_one sha3 D T cd tx (p, d) = Some (Ok (p', d'))"
  obtains (low) rn where "GetNonce D T (tFrom tx) d = (d', rn)" "p' = p"
  | (poor) d1 rn s where "GetNonce D T (tFrom tx) d = (d1, rn)" "pend_balance D T tx (p, d1) = (s, Ok None)"
      "d' = snd s" "p' = p"
  | (kept) d1 rn s pb where "GetNonce D T (tFrom tx) d = (d1, rn)" "or_zero 0 rn \<le> tNonce tx"
      "pend_balance D T tx (p, d1) = (s, Ok (Some pb))" "d' = snd s"
      "p_Pending p' = p_Pending pb" "p_balance p' = p_balance pb"
      "p_item p' = p_item pb \<or> p_item pb (tFrom tx) = None \<and> p_item p' = (p_item pb)(tFrom tx \<mapsto> or_zero 0 rn)"
      "p_queue p' = p_queue pb \<or> p_queue p' = heap_Push TxHeap_Less (p_queue pb) tx"
  | (accept) d1 rn s pb where "GetNonce D T (tFrom tx) d = (d1, rn)" "or_zero 0 rn \<le> tNonce tx"
      "pend_balance D T tx (p, d1) = (s, Ok (Some pb))" "d' = snd s"
      "pend_accept sha3 D cd tx pb = Some (Ok p')"
      "p_item pb (tFrom tx) = None \<and> tNonce tx = or_zero 0 rn \<or>
       (\<exists>m. p_item pb (tFrom tx) = Some m \<and> tNonce tx = m + 1 \<and> tNonce tx \<noteq> or_zero 0 rn)"
proof -
  let ?a = "tFrom tx"
  obtain d1 rn where g: "GetNonce D T ?a d = (d1, rn)" by (rule prod.exhaust)
  obtain s r where b: "pend_balance D T tx (p, d1) = (s, r)" by (rule prod.exhaust)
  let ?n = "or_zero 0 rn"
  from assms have nP: "rn \<noteq> Panic" by (auto simp: pend_one_def AddressToByte_def g Let_def)
  show thesis
  proof (cases "tNonce tx < ?n")
    case True
    with assms nP g show ?thesis by (intro low) (auto simp: pend_one_def AddressToByte_def Let_def)
  next
    case ge: False
    obtain p1 d2 where s: "s = (p1, d2)" by (rule prod.exhaust)
    show ?thesis
    proof (cases r)
      case (Ok po)
      show ?thesis
      proof (cases po)
        case None
        with assms nP ge b Ok g s show ?thesis
          by (intro poor) (auto simp: pend_one_def AddressToByte_def Let_def)
      next
        case (Some pb)
        have eq: "(let accept = (case pend_accept sha3 D cd tx pb of None \<Rightarrow> None | Some r \<Rightarrow> Some (obind r (\<lambda>p. Ok (p, d2))));
             push = pb\<lparr> p_queue := heap_Push TxHeap_Less (p_queue pb) tx \<rparr>
          in if tNonce tx = ?n then (case p_item pb ?a of None \<Rightarrow> accept | Some _ \<Rightarrow> Some (Ok (pb, d2)))
             else (case p_item pb ?a of
                 None \<Rightarrow> Some (Ok (push\<lparr> p_item := (p_item pb)(?a \<mapsto> ?n) \<rparr>, d2))
               | Some m \<Rightarrow> if tNonce tx = m + 1 then accept else Some (Ok (push, d2)))) = Some (Ok (p', d'))"
          using assms nP ge b Ok Some g s by (simp add: pend_one_def AddressToByte_def Let_def)
        note case_facts = g _ b [unfolded Ok Some]
        show ?thesis
        proof (cases "pend_accept sha3 D cd tx pb = Some (Ok p') \<and> d' = d2 \<and>
            (p_item pb ?a = None \<and> tNonce tx = ?n \<or>
             (\<exists>m. p_item pb ?a = Some m \<and> tNonce tx = m + 1 \<and> tNonce tx \<noteq> ?n))")
          case True
          then show ?thesis using ge s by (intro accept [OF case_facts]) auto
        next
          case False
          then show ?thesis
            using ge s eq
            by (intro kept [OF case_facts])
              (auto simp: Let_def obind_def split: if_splits option.splits outcome.splits)
        qed
      qed
    qed (use assms nP ge b g s in \<open>auto simp: pend_one_def AddressToByte_def Let_def\<close>)
  qed
qed

lemma pend_loop_stop: "500 \<le> length (p_Pending (fst s)) \<or> l = [] \<Longrightarrow> pend_loop sha3 D T cd l s = Some (Ok (l, s))"
  by (subst pend_loop.simps) (auto simp: heap_Pop_def)

lemma pend_loop_step:
  "length (p_Pending (fst s)) < 500 \<Longrightarrow> heap_Pop TxHeap_Less l = Ok (tx, l') \<Longrightarrow>
    pend_loop sha3 D T cd l s =
      (case pend_one sha3 D T cd tx s of
         None \<Rightarrow> None
       | Some (Ok s') \<Rightarrow> pend_loop sha3 D T cd l' s'
       | Some (Err e) \<Rightarrow> Some (Err e)
       | Some Panic \<Rightarrow> Some Panic)"
  by (subst pend_loop.simps) simp

lemma pend_loop_invariant:
  assumes "pend_loop sha3 D T cd l s = Some (Ok (l', s'))" "Inv s"
    "\<And>tx s s'. tx \<in> set l \<Longrightarrow> Inv s \<Longrightarrow> length (p_Pending (fst s)) < 500 \<Longrightarrow>
      pend_one sha3 D T cd tx s = Some (Ok s') \<Longrightarrow> Inv s'"
  shows "Inv s' \<and> mset l' \<subseteq># mset l"
  using assms
proof (induction sha3 D T cd l s rule: pend_loop.induct)
  case (1 sha3 D T cd l s)
  show ?case
  proof (cases "500 \<le> length (p_Pending (fst s)) \<or> l = []")
    case True
    with "1.prems" show ?thesis by (simp add: pend_loop_stop)
  next
    case False
    then obtain tx l1 where pop: "heap_Pop TxHeap_Less l = Ok (tx, l1)"
      using heap_Pop_total by blast
    with False "1.prems"(1) obtain s1 where one: "pend_one sha3 D T cd tx s = Some (Ok s1)"
      and rest: "pend_loop sha3 D T cd l1 s1 = Some (Ok (l', s'))"
      using pend_loop_step [OF _ pop, of s sha3 D T cd] by (auto split: option.splits outcome.splits)
    have m: "mset l = add_mset tx (mset l1)" using heap_Pop_keeps [OF pop] by simp
    then have sub: "tx \<in> set l" "set l1 \<subseteq> set l"
      by (metis union_single_eq_member set_mset_mset, metis set_mset_add_mset_insert set_mset_mset subset_insertI)
    have "Inv s' \<and> mset l' \<subseteq># mset l1"
    proof (rule "1.IH" [OF _ pop refl one refl rest])
      show "\<not> 500 \<le> length (p_Pending (fst s))" using False by simp
      show "Inv s1" using "1.prems"(3) [OF sub(1) "1.prems"(2) _ one] False by simp
      show "Inv s3" if "tx' \<in> set l1" "Inv s2" "length (p_Pending (fst s2)) < 500"
        "pend_one sha3 D T cd tx' s2 = Some (Ok s3)" for tx' s2 s3
        using "1.prems"(3) that sub(2) by blast
    qed
    then show ?thesis
      using m by (metis add_mset_add_single mset_subset_eq_add_left subset_mset.order_trans)
  qed
qed

text \<open>What a round does to the chosen transactions.\<close>

lemma pend_one_Pending:
  assumes "pend_one sha3 D T cd tx (p, d) = Some (Ok (p', d'))"
  shows "p_Pending p' = p_Pending p \<or> (\<exists>r. p_Pending p' = p_Pending p @ [tx\<lparr> tRoot := r \<rparr>])"
  using assms
proof (cases rule: pend_one_cases)
  case (kept d1 rn s pb)
  then show ?thesis using pend_balance_cases [OF kept(3)] by auto
next
  case (accept d1 rn s pb)
  then show ?thesis using pend_balance_cases [OF accept(3)] pend_accept_cases(2) [OF accept(5)] by auto
qed auto

lemma Pendings_loop:
  assumes "Pendings sha3 D T clock (p, bc) = Some (Ok (p', bc'))"
  obtains l p1 where "pend_loop sha3 D T (bc_cdb bc) (p_List p) (p, bc_db bc) = Some (Ok (l, p1, bc_db bc'))"
    "p_Pending p' = p_Pending p1"
  using assms
  by (auto simp: Pendings_def obind_def split: option.splits outcome.splits prod.splits)

text \<open>\<open>Pendings\<close> chooses at most 500 transactions, and only ones that were waiting in the pool, changing
  nothing in them but the root of their script's effects.\<close>

theorem Pendings_chooses:
  assumes "Pendings sha3 D T clock (p, bc) = Some (Ok (p', bc'))" "p_Pending p = []"
  shows "length (p_Pending p') \<le> 500 \<and> (\<forall>t \<in> set (p_Pending p'). \<exists>u \<in> set (p_List p). \<exists>r. t = u\<lparr> tRoot := r \<rparr>)"
proof -
  obtain l p1 where loop: "pend_loop sha3 D T (bc_cdb bc) (p_List p) (p, bc_db bc) = Some (Ok (l, p1, bc_db bc'))"
    and eq: "p_Pending p' = p_Pending p1"
    by (rule Pendings_loop [OF assms(1)])
  let ?Inv = "\<lambda>s. length (p_Pending (fst s)) \<le> 500 \<and>
    (\<forall>t \<in> set (p_Pending (fst s)). \<exists>u \<in> set (p_List p). \<exists>r. t = u\<lparr> tRoot := r \<rparr>)"
  have "?Inv (p1, bc_db bc') \<and> mset l \<subseteq># mset (p_List p)"
  proof (rule pend_loop_invariant [OF loop])
    fix tx s s'
    assume a: "tx \<in> set (p_List p)" "?Inv s" "length (p_Pending (fst s)) < 500"
      "pend_one sha3 D T (bc_cdb bc) tx s = Some (Ok s')"
    then have "p_Pending (fst s') = p_Pending (fst s) \<or> (\<exists>r. p_Pending (fst s') = p_Pending (fst s) @ [tx\<lparr> tRoot := r \<rparr>])"
      by (intro pend_one_Pending [of sha3 D T "bc_cdb bc" tx "fst s" "snd s" "fst s'" "snd s'"]) simp
    with a show "?Inv s'" by (auto; blast)
  qed (simp add: assms(2))
  then show ?thesis by (simp add: eq)
qed

section \<open>No nonce twice\<close>

definition slot_inv :: "Txpool \<Rightarrow> bool" where
  "slot_inv p = (distinct (slots (p_Pending p)) \<and>
     (\<forall>t \<in> set (p_Pending p). \<exists>m. p_item p (tFrom t) = Some m \<and> tNonce t \<le> m))"

lemma slot_inv_append:
  assumes "slot_inv p" "p_Pending p' = p_Pending p @ [tx\<lparr> tRoot := r \<rparr>]" "p_item p' = (p_item p)(tFrom tx \<mapsto> tNonce tx)"
    "\<And>m. p_item p (tFrom tx) = Some m \<Longrightarrow> m < tNonce tx"
  shows "slot_inv p'"
proof -
  have less: "tNonce t < tNonce tx" if "t \<in> set (p_Pending p)" "tFrom t = tFrom tx" for t
    using assms(1,4) that unfolding slot_inv_def by (metis le_less_trans)
  then have "(tFrom tx, tNonce tx) \<notin> set (slots (p_Pending p))"
    unfolding slots_def by (auto dest: less)
  moreover have "\<exists>m. p_item p' (tFrom t) = Some m \<and> tNonce t \<le> m" if "t \<in> set (p_Pending p)" for t
    using assms(1,3) that less [OF that] by (cases "tFrom t = tFrom tx") (auto simp: slot_inv_def)
  ultimately show ?thesis
    using assms by (auto simp: slot_inv_def slots_def)
qed

lemma slot_inv_keep:
  assumes "slot_inv p" "p_Pending p' = p_Pending p" 
    "p_item p' = p_item p \<or> p_item p' = (p_item p)(a \<mapsto> m) \<and> (\<forall>k. p_item p a = Some k \<longrightarrow> k \<le> m)"
  shows "slot_inv p'"
proof -
  have "\<exists>k. p_item p' (tFrom t) = Some k \<and> tNonce t \<le> k" if "t \<in> set (p_Pending p)" for t
    using assms that by (cases "tFrom t = a") (fastforce simp: slot_inv_def)+
  with assms show ?thesis by (simp add: slot_inv_def)
qed

lemma pend_balance_same:
  "pend_balance D T tx (p, d) = (s, Ok (Some p')) \<Longrightarrow> p_Pending p' = p_Pending p \<and> p_item p' = p_item p"
  by (auto dest: pend_balance_cases)

lemma slot_inv_step:
  assumes "pend_one sha3 D T cd tx (p, d) = Some (Ok (p', d'))" "slot_inv p"
  shows "slot_inv p'"
  using assms(1)
proof (cases rule: pend_one_cases)
  case (kept d1 rn s pb)
  with pend_balance_same [OF kept(3)] show ?thesis
    by (intro slot_inv_keep [OF assms(2), of p' "tFrom tx" "or_zero 0 rn"]) auto
next
  case (accept d1 rn s pb)
  note same = pend_balance_same [OF accept(3)]
  have grow: "m < tNonce tx" if "p_item p (tFrom tx) = Some m" for m
  proof -
    from that accept(6) same have "tNonce tx = m + 1" "tNonce tx \<noteq> or_zero 0 rn" by auto
    with accept(2) have "0 < m + 1" by (metis word_gt_0 word_le_0_iff)
    then have "m \<noteq> - 1" by auto
    then have "m < - 1" by (simp add: word_order.not_eq_extremum)
    with \<open>tNonce tx = m + 1\<close> show ?thesis using succ_between [of m "- 1"] by simp
  qed
  from pend_accept_cases(2) [OF accept(5)] show ?thesis
  proof
    assume "p_Pending p' = p_Pending pb \<and> p_balance p' = p_balance pb \<and>
      (p_item p' = p_item pb \<or> p_item p' = (p_item pb)(tFrom tx \<mapsto> tNonce tx))"
    with same grow show ?thesis
      by (intro slot_inv_keep [OF assms(2), of p' "tFrom tx" "tNonce tx"]) (auto intro: less_imp_le)
  next
    assume "tAmount tx \<le>s bal_at (p_balance pb) (tFrom tx) \<and> p_item p' = (p_item pb)(tFrom tx \<mapsto> tNonce tx) \<and>
      p_balance p' = (p_balance pb)(tFrom tx \<mapsto>
        (bal_at (p_balance pb) (tFrom tx) - (if tScript tx \<noteq> [] then tFee tx else 0)) - tAmount tx) \<and>
      (\<exists>r. p_Pending p' = p_Pending pb @ [tx\<lparr> tRoot := r \<rparr>])"
    then obtain r where "p_item p' = (p_item p)(tFrom tx \<mapsto> tNonce tx)" "p_Pending p' = p_Pending p @ [tx\<lparr> tRoot := r \<rparr>]"
      using same by auto
    with slot_inv_append [OF assms(2)] grow show ?thesis by blast
  qed
qed (use assms(2) in simp_all)

text \<open>C7: No sender's nonce is chosen twice.\<close>

theorem Pendings_distinct_nonces:
  assumes "Pendings sha3 D T clock (p, bc) = Some (Ok (p', bc'))" "p_Pending p = []"
  shows "distinct (slots (p_Pending p'))"
proof -
  obtain l p1 where loop: "pend_loop sha3 D T (bc_cdb bc) (p_List p) (p, bc_db bc) = Some (Ok (l, p1, bc_db bc'))"
    and eq: "p_Pending p' = p_Pending p1"
    by (rule Pendings_loop [OF assms(1)])
  have "slot_inv (fst (p1, bc_db bc')) \<and> mset l \<subseteq># mset (p_List p)"
  proof (rule pend_loop_invariant [OF loop])
    show "slot_inv (fst s')" if "slot_inv (fst s)" "pend_one sha3 D T (bc_cdb bc) tx s = Some (Ok s')" for tx s s'
      using slot_inv_step [of sha3 D T "bc_cdb bc" tx "fst s" "snd s" "fst s'" "snd s'"] that by simp
  qed (simp add: assms(2) slot_inv_def slots_def)
  then show ?thesis by (simp add: eq slot_inv_def)
qed

section \<open>No more than a sender has\<close>

text \<open>
  What \<open>Pendings\<close> takes for available. What a transaction costs by its account: the amount and, with a
  script, the fee. What the chosen transactions of a sender cost together, and the same with the fee of the
  last one left out.
\<close>

definition available :: "(bytes \<Rightarrow> bytes option) \<Rightarrow> Address \<Rightarrow> u64" where
  "available c a = num_at c a - num_at c (lock_key a)"

definition cost :: "transaction \<Rightarrow> int" where
  "cost t = uint (tAmount t) + (if tScript t \<noteq> [] then uint (tFee t) else 0)"

definition paid :: "Address \<Rightarrow> transaction list \<Rightarrow> int" where
  "paid a txs = (\<Sum>t \<leftarrow> filter (\<lambda>t. tFrom t = a) txs. cost t)"

definition paid_but_last_fee :: "Address \<Rightarrow> transaction list \<Rightarrow> int" where
  "paid_but_last_fee a txs =
     (let ts = filter (\<lambda>t. tFrom t = a) txs
      in if ts = [] then 0 else (\<Sum>t \<leftarrow> butlast ts. cost t) + uint (tAmount (last ts)))"

lemma paid_append: "paid a (xs @ ys) = paid a xs + paid a ys"
  by (simp add: paid_def)

lemma paid_one: "paid a [tx\<lparr> tRoot := r \<rparr>] = (if tFrom tx = a then cost tx else 0)"
  by (simp add: paid_def cost_def)

lemma paid_but_last_fee_append: "paid_but_last_fee a (xs @ [tx\<lparr> tRoot := r \<rparr>]) =
    (if tFrom tx = a then paid a xs + uint (tAmount tx) else paid_but_last_fee a xs)"
  by (simp add: paid_but_last_fee_def paid_def)

definition funds_inv :: "(bytes \<Rightarrow> bytes option) \<Rightarrow> Txpool \<Rightarrow> bool" where
  "funds_inv c p = (\<forall>a. paid_but_last_fee a (p_Pending p) \<le> uint (available c a) \<and>
     (p_balance p a = None \<longrightarrow> paid a (p_Pending p) = 0) \<and>
     (\<forall>b. p_balance p a = Some b \<longrightarrow> sint b \<le> uint (available c a) - paid a (p_Pending p)))"

lemma sint_word_of_int: "- (2 ^ 63) \<le> x \<Longrightarrow> x < 2 ^ 63 \<Longrightarrow> sint (word_of_int x :: 64 word) = x"
  by (simp add: sint_sbintrunc' signed_take_bit_int_eq_self)

lemma sint_uint_small: "uint (w :: 64 word) < 2 ^ 63 \<Longrightarrow> sint w = uint w"
  using sint_word_of_int [of "uint w"] uint_ge_0 [of w] by simp

lemma sint_le_uint: "sint (w :: 64 word) \<le> uint w"
  using sint_uint_small [of w] sint_lt [of w] by (cases "uint w < 2 ^ 63") simp_all

text \<open>The signed comparison and subtractions of an amount and a fee below half the range.\<close>

lemma spend_signed:
  fixes b am fee :: "64 word"
  assumes "uint am < 2 ^ 63" "uint fee < 2 ^ 63" "am \<le>s b"
  shows "uint am \<le> sint b" "sint ((b - fee) - am) = sint b - uint fee - uint am"
proof -
  show le: "uint am \<le> sint b"
    using assms(1,3) sint_uint_small [of am] by (simp add: word_sle_eq)
  have eq: "(b - fee) - am = word_of_int (sint b - uint fee - uint am)" by simp
  have lt: "sint b < 2 ^ 63" using sint_lt [of b] by simp
  have ge: "0 \<le> uint am" "0 \<le> uint fee" by simp_all
  have "sint b - uint fee - uint am < 2 ^ 63" "- (2 ^ 63) \<le> sint b - uint fee - uint am"
    using le assms(2) lt ge by linarith+
  then show "sint ((b - fee) - am) = sint b - uint fee - uint am"
    unfolding eq by (intro sint_word_of_int)
qed

lemma funds_inv_accept:
  assumes "funds_inv c p" "p_balance p (tFrom tx) = Some b" "tAmount tx \<le>s b"
    "uint (tAmount tx) < 2 ^ 63" "uint (tFee tx) < 2 ^ 63"
    "p_Pending p' = p_Pending p @ [tx\<lparr> tRoot := r \<rparr>]"
    "p_balance p' = (p_balance p)(tFrom tx \<mapsto> (b - (if tScript tx \<noteq> [] then tFee tx else 0)) - tAmount tx)"
  shows "funds_inv c p'"
proof -
  let ?a = "tFrom tx" and ?fee = "if tScript tx \<noteq> [] then tFee tx else 0"
  have fee: "uint ?fee < 2 ^ 63" using assms(5) by simp
  note sp = spend_signed [OF assms(4) fee assms(3)]
  have "sint b \<le> uint (available c ?a) - paid ?a (p_Pending p)"
    using assms(1,2) by (auto simp: funds_inv_def dest: spec [of _ ?a])
  moreover have "cost tx = uint (tAmount tx) + uint ?fee" by (simp add: cost_def)
  ultimately have "paid ?a (p_Pending p) + uint (tAmount tx) \<le> uint (available c ?a)"
    "sint ((b - ?fee) - tAmount tx) \<le> uint (available c ?a) - (paid ?a (p_Pending p) + cost tx)"
    using sp by linarith+
  with assms(1) show ?thesis
    by (auto simp: funds_inv_def assms(6,7) paid_append paid_one paid_but_last_fee_append simp del: diff_diff_eq)
qed

definition same_funds :: "(bytes \<Rightarrow> bytes option) \<Rightarrow> (bytes \<Rightarrow> bytes option) \<Rightarrow> bool" where
  "same_funds c c' = (\<forall>a. length a = 47 \<longrightarrow> num_at c' a = num_at c a \<and>
     num_at c' (lock_key a) = num_at c (lock_key a))"

context store_tx begin

lemma same_funds_GetNonce:
  assumes "same_funds c (stored d)" "length a = 47"
  shows "same_funds c (stored (fst (GetNonce D T a d)))"
proof -
  have "stored (fst (GetNonce D T a d)) k = stored d k" if "k \<noteq> nonce_key a" for k
    using that by (simp add: GetNonce_done)
  moreover have "b \<noteq> nonce_key a" "lock_key b \<noteq> nonce_key a" if "length b = 47" for b
    using nonce_key_length [of a b] nonce_key_lock_key [of a b] that assms(2) by auto
  ultimately show ?thesis
    using assms(1) by (simp add: same_funds_def num_at_def)
qed

lemma pend_balance_funds:
  assumes "pend_balance D T tx (p, d) = (s, Ok (Some pb))" "same_funds c (stored d)" "funds_inv c p" "length (tFrom tx) = 47"
  shows "same_funds c (stored (snd s)) \<and> funds_inv c pb \<and> p_balance pb (tFrom tx) \<noteq> None"
  using pend_balance_cases [OF assms(1)]
proof
  assume "\<exists>d1 rb rl. GetBalance D T (tFrom tx) d = (d1, rb) \<and> GetLockBalance D T (tFrom tx) d1 = (snd s, rl) \<and>
      p_balance p (tFrom tx) = None \<and>
      pb = p\<lparr> p_balance := (p_balance p)(tFrom tx \<mapsto> or_zero 0 rb - or_zero 0 rl) \<rparr>"
  then obtain d1 rb rl where b: "GetBalance D T (tFrom tx) d = (d1, rb)" "GetLockBalance D T (tFrom tx) d1 = (snd s, rl)"
    and none: "p_balance p (tFrom tx) = None"
    and pb: "pb = p\<lparr> p_balance := (p_balance p)(tFrom tx \<mapsto> or_zero 0 rb - or_zero 0 rl) \<rparr>" by blast
  have ne: "tFrom tx \<noteq> []" using assms(4) by auto
  have s: "stored d1 = stored d" "stored (snd s) = stored d" "or_zero 0 rb = num_at (stored d) (tFrom tx)"
    "or_zero 0 rl = num_at (stored d) (lock_key (tFrom tx))"
    using GetBalance_done [OF ne, of d] GetLockBalance_done [of "tFrom tx" d1] b by auto
  then have "or_zero 0 rb - or_zero 0 rl = available c (tFrom tx)"
    using assms(2,4) by (simp add: same_funds_def available_def)
  moreover have "paid (tFrom tx) (p_Pending p) = 0"
    using assms(3) none by (auto simp: funds_inv_def dest: spec [of _ "tFrom tx"])
  ultimately show ?thesis
    using assms(2,3) s pb sint_le_uint [of "available c (tFrom tx)"] by (auto simp: funds_inv_def same_funds_def)
qed (use assms in auto)

lemma pend_balance_poor:
  assumes "pend_balance D T tx (p, d) = (s, Ok None)" "same_funds c (stored d)" "length (tFrom tx) = 47"
  shows "same_funds c (stored (snd s))"
proof -
  have ne: "tFrom tx \<noteq> []" using assms(3) by auto
  obtain d1 rb where b: "GetBalance D T (tFrom tx) d = (d1, rb)" by (rule prod.exhaust)
  obtain d2 rl where l: "GetLockBalance D T (tFrom tx) d1 = (d2, rl)" by (rule prod.exhaust)
  have "stored d2 = stored d"
    using GetBalance_done(1) [OF ne, of d] GetLockBalance_done(1) [of "tFrom tx" d1] b l by simp
  moreover have "snd s = d2"
    using assms(1) b l by (auto simp: pend_balance_def AddressToByte_def Let_def split: if_splits)
  ultimately show ?thesis using assms(2) by (simp add: same_funds_def)
qed

lemma pend_one_funds:
  assumes "pend_one sha3 D T cd tx (p, d) = Some (Ok (p', d'))" "funds_inv c p" "same_funds c (stored d)"
    "length (tFrom tx) = 47" "uint (tAmount tx) < 2 ^ 63" "uint (tFee tx) < 2 ^ 63"
  shows "funds_inv c p' \<and> same_funds c (stored d')"
  using assms(1)
proof (cases rule: pend_one_cases)
  case (low rn)
  then show ?thesis using same_funds_GetNonce [OF assms(3,4)] assms(2) by simp
next
  case (poor d1 rn s)
  then show ?thesis
    using same_funds_GetNonce [OF assms(3,4)] assms(2) pend_balance_poor [OF poor(2) _ assms(4)] by simp
next
  case (kept d1 rn s pb)
  then show ?thesis
    using same_funds_GetNonce [OF assms(3,4)] pend_balance_funds [OF kept(3) _ assms(2,4)]
    by (simp add: funds_inv_def)
next
  case (accept d1 rn s pb)
  then have pb: "same_funds c (stored (snd s))" "funds_inv c pb" "p_balance pb (tFrom tx) \<noteq> None"
    using same_funds_GetNonce [OF assms(3,4)] pend_balance_funds [OF accept(3) _ assms(2,4)] by auto
  then obtain b where b: "p_balance pb (tFrom tx) = Some b" by auto
  from pend_accept_cases(2) [OF accept(5)] have "funds_inv c p'"
  proof
    assume "tAmount tx \<le>s bal_at (p_balance pb) (tFrom tx) \<and> p_item p' = (p_item pb)(tFrom tx \<mapsto> tNonce tx) \<and>
      p_balance p' = (p_balance pb)(tFrom tx \<mapsto>
        (bal_at (p_balance pb) (tFrom tx) - (if tScript tx \<noteq> [] then tFee tx else 0)) - tAmount tx) \<and>
      (\<exists>r. p_Pending p' = p_Pending pb @ [tx\<lparr> tRoot := r \<rparr>])"
    then show ?thesis
      using funds_inv_accept [OF pb(2) b _ assms(5,6)] b by (auto simp: bal_at_def)
  qed (use pb(2) in \<open>simp add: funds_inv_def\<close>)
  with pb(1) accept(4) show ?thesis by simp
qed

lemma Pendings_affordable_lemma:
  assumes "Pendings sha3 D T clock (p, bc) = Some (Ok (p', bc'))" "p_Pending p = []" "p_balance p = Map.empty"
    "\<And>t. t \<in> set (p_List p) \<Longrightarrow> length (tFrom t) = 47 \<and> uint (tAmount t) < 2 ^ 63 \<and> uint (tFee t) < 2 ^ 63"
  shows "paid_but_last_fee a (p_Pending p') \<le> uint (available (stored (bc_db bc)) a)"
proof -
  obtain l p1 where loop: "pend_loop sha3 D T (bc_cdb bc) (p_List p) (p, bc_db bc) = Some (Ok (l, p1, bc_db bc'))"
    and eq: "p_Pending p' = p_Pending p1"
    by (rule Pendings_loop [OF assms(1)])
  let ?c = "stored (bc_db bc)"
  let ?Inv = "\<lambda>s. funds_inv ?c (fst s) \<and> same_funds ?c (stored (snd s))"
  have "?Inv (p1, bc_db bc') \<and> mset l \<subseteq># mset (p_List p)"
  proof (rule pend_loop_invariant [OF loop])
    show "?Inv s'" if "tx \<in> set (p_List p)" "?Inv s" "pend_one sha3 D T (bc_cdb bc) tx s = Some (Ok s')" for tx s s'
      using pend_one_funds [of sha3 "bc_cdb bc" tx "fst s" "snd s" "fst s'" "snd s'" ?c] assms(4) [OF that(1)] that by simp
  qed (simp add: assms(2,3) funds_inv_def paid_def paid_but_last_fee_def same_funds_def)
  then show ?thesis by (simp add: eq funds_inv_def)
qed

end

text \<open>C2: What \<open>Pendings\<close> chooses from one sender fits the balance: the amounts and the fees of scripted
  transactions, but for the fee of the last one chosen, and the locked amount are together at most the
  sender's balance, as numbers, whatever the order of the pool and whatever the scripts do. The last fee is
  left out because the code compares the balance with the amount alone. This is for pools whose amounts and
  fees are below 2^63 (they are compared as signed numbers), whose senders are full addresses, and a sender
  who has not locked more than the balance.\<close>

theorem Pendings_affordable:
  assumes "roomy_badger B view writes contents"
    "Pendings sha3 (bgStore B) (bgTransaction B) clock (p, bc) = Some (Ok (p', bc'))"
    "p_Pending p = []" "p_balance p = Map.empty"
    "\<And>t. t \<in> set (p_List p) \<Longrightarrow> length (tFrom t) = 47 \<and> uint (tAmount t) < 2 ^ 63 \<and> uint (tFee t) < 2 ^ 63"
    "num_at (contents (bc_db bc)) (lock_key a) \<le> num_at (contents (bc_db bc)) a"
  shows "paid_but_last_fee a (p_Pending p') + uint (num_at (contents (bc_db bc)) (lock_key a)) \<le>
    uint (num_at (contents (bc_db bc)) a)"
proof -
  have "paid_but_last_fee a (p_Pending p') \<le> uint (available (contents (bc_db bc)) a)"
    by (rule store_tx.Pendings_affordable_lemma [OF bg_store_tx [OF assms(1)] assms(2-5)])
  moreover have "uint (x - y) = uint x - uint y" if "y \<le> x" for x y :: u64
  proof -
    have "int (unat (x - y)) = int (unat x) - int (unat y)"
      using that by (simp only: unat_sub word_le_nat_alt of_nat_diff)
    then show ?thesis by simp
  qed
  from this [OF assms(6)] have "uint (available (contents (bc_db bc)) a) =
      uint (num_at (contents (bc_db bc)) a) - uint (num_at (contents (bc_db bc)) (lock_key a))"
    unfolding available_def .
  ultimately show ?thesis by linarith
qed

section \<open>Pendings ends\<close>

lemma mkMerkleTreeRoot_total: "length data = n \<Longrightarrow> 0 < n \<Longrightarrow> mkMerkleTreeRoot h n data \<noteq> None"
proof (induction n arbitrary: data rule: less_induct)
  case (less n)
  show ?case
  proof (cases "n = 1")
    case True
    then show ?thesis by (subst mkMerkleTreeRoot.simps) simp
  next
    case False
    with less.prems have "2 \<le> n" by simp
    then obtain i where i: "2 ^ i < n" "n \<le> 2 ^ Suc i" by (rule log_split)
    have p: "powerOfTwo n = 2 ^ i" by (rule powerOfTwo_split [OF i])
    obtain l where l: "mkMerkleTreeRoot h (2 ^ i) (take (2 ^ i) data) = Some l"
      using less.IH [OF i(1), of "take (2 ^ i) data"] less.prems i by auto
    obtain r where r: "mkMerkleTreeRoot h (n - 2 ^ i) (drop (2 ^ i) data) = Some r"
      using less.IH [of "n - 2 ^ i" "drop (2 ^ i) data"] less.prems i by auto
    show ?thesis
      using False i less.prems by (subst mkMerkleTreeRoot.simps) (simp add: p l r)
  qed
qed

lemma merkle_hash_total: "merkle_hash h data \<noteq> None"
  using mkMerkleTreeRoot_total [of data "length data" h]
  by (auto simp: merkle_hash_def merkle_New_def)

lemma pend_root_total: "(pend_root sha3 D cd tx = None) = False"
  using merkle_hash_total by (auto simp: pend_root_def exec_Root_def Let_def split: outcome.split)

lemma pend_accept_total: "(pend_accept sha3 D cd tx p = None) = False"
  by (auto simp: pend_accept_def Let_def pend_root_total split: option.split outcome.split prod.split)

lemma pend_one_total: "(pend_one sha3 D T cd tx s = None) = False"
  by (auto simp: pend_one_def Let_def pend_accept_total split: option.split outcome.split prod.split)

lemma pend_loop_total: "(pend_loop sha3 D T cd l s = None) = False"
proof (induction sha3 D T cd l s rule: pend_loop.induct)
  case (1 sha3 D T cd l s)
  show ?case
  proof (cases "500 \<le> length (p_Pending (fst s)) \<or> l = []")
    case False
    then obtain tx l1 where pop: "heap_Pop TxHeap_Less l = Ok (tx, l1)"
      using heap_Pop_total by blast
    with False "1.IH" [OF _ pop refl] show ?thesis
      using pend_one_total [of sha3 D T cd tx s] pend_loop_step [OF _ pop, of s sha3 D T cd]
      by (auto split: option.splits outcome.splits)
  qed (simp add: pend_loop_stop)
qed

text \<open>\<open>Pendings\<close> always ends, and each of its loops does: the number of waiting transactions bounds the
  rounds.\<close>

theorem Pendings_ends: "Pendings sha3 D T clock s \<noteq> None"
  by (auto simp: Pendings_def pend_loop_total split: option.split prod.split)

section \<open>Order\<close>

text \<open>Among the transactions of one sender the pool's heap yields a least nonce first.\<close>

theorem heap_Pop_least_nonce:
  assumes "is_heap TxHeap_Less (length l) l" "tFrom ` set l = {a}" "heap_Pop TxHeap_Less l = Ok (tx, l')" "t \<in> set l"
  shows "\<not> tNonce t <s tNonce tx"
proof -
  have one: "set l \<subseteq> {tx. tFrom tx = a}" using assms(2) by auto
  have "tx \<in> set l"
    using heap_Pop_keeps [OF assms(3)] by (metis set_mset_mset union_single_eq_member)
  with one assms(4) have "tFrom tx = a" "tFrom t = a" by auto
  with sender.Pop_least [OF assms(1) one assms(3,4)] show ?thesis
    by (auto simp: TxHeap_Less_def tx_GetNonce_def word_sless_alt split: if_splits)
qed

text \<open>Across senders \<open>Less\<close> is no order: an earlier nonce that came later, and another sender's
  transaction in between, form a cycle.\<close>

definition cycle_tx :: "Address \<Rightarrow> u64 \<Rightarrow> i64 \<Rightarrow> transaction" where
  "cycle_tx a n t = zero_transaction\<lparr> tFrom := a, tNonce := n, tTime := t \<rparr>"

theorem TxHeap_Less_cycle:
  assumes "a \<noteq> b"
  shows "TxHeap_Less (cycle_tx a 2 10) (cycle_tx b 1 20) \<and> TxHeap_Less (cycle_tx b 1 20) (cycle_tx a 1 30) \<and>
    TxHeap_Less (cycle_tx a 1 30) (cycle_tx a 2 10)"
  using assms by (simp add: TxHeap_Less_def cycle_tx_def tx_GetNonce_def GetTime_def word_sless_alt)

section \<open>After a block\<close>

lemma cut_slots_filter:
  "cut_slots tx l i = take i l @ filter (\<lambda>e. \<not> same_slot tx e) (drop i l)"
proof (induction tx l i rule: cut_slots.induct)
  case (1 tx l i)
  show ?case
  proof (cases "i < length l")
    case True
    then have d: "drop i l = l ! i # drop (Suc i) l" by (simp add: Cons_nth_drop_Suc)
    show ?thesis
    proof (cases "same_slot tx (l ! i)")
      case same: True
      have "cut_slots tx l i = cut_slots tx (take i l @ drop (i + 1) l) i"
        using True same by (subst cut_slots.simps) simp
      with "1.IH"(1) [OF True same] True same d show ?thesis by simp
    next
      case False
      have "cut_slots tx l i = cut_slots tx l (i + 1)"
        using True False by (subst cut_slots.simps) simp
      with "1.IH"(2) [OF True False] True False d show ?thesis by (simp add: take_Suc_conv_app_nth)
    qed
  qed (subst cut_slots.simps, simp)
qed

lemma fold_cut_slots:
  "fold (\<lambda>tx l. cut_slots tx l 0) txs l = filter (\<lambda>e. \<not> list_ex (\<lambda>tx. same_slot tx e) txs) l"
  by (induction txs arbitrary: l) (simp_all add: cut_slots_filter conj_commute)

lemma pop_half_keeps: "pop_half l i txs = (l', txs') \<Longrightarrow> mset l' + mset txs' = mset l + mset txs"
proof (induction l i txs rule: pop_half.induct)
  case (1 l i txs)
  show ?case
  proof (cases "i < length l")
    case True
    then obtain tx l1 where pop: "heap_Pop TxHeap_Less l = Ok (tx, l1)"
      using heap_Pop_total [of l TxHeap_Less] by (cases l) auto
    have "pop_half l i txs = pop_half l1 (i + 1) (txs @ [tx])"
      using True pop by (subst pop_half.simps) simp
    with "1.IH" [OF True pop refl] "1.prems" heap_Pop_keeps [OF pop] show ?thesis
      by (metis add_mset_add_single mset.simps(1,2) mset_append union_mset_add_mset_left union_mset_add_mset_right)
  next
    case False
    with "1.prems" show ?thesis by (subst (asm) pop_half.simps) simp
  qed
qed

lemma push_young_keeps: "mset (push_young clock j txs l) \<subseteq># mset l + mset txs"
proof (induction txs arbitrary: j l)
  case (Cons tx txs)
  let ?l = "if clock j - tTime tx <s 10 then heap_Push TxHeap_Less l tx else l"
  have "mset ?l \<subseteq># add_mset tx (mset l)" by (simp add: heap_Push_keeps)
  then have "mset ?l + mset txs \<subseteq># mset l + mset (tx # txs)"
    by (metis mset.simps(2) subset_mset.add_right_mono union_mset_add_mset_left union_mset_add_mset_right)
  with Cons [of "j + 1" ?l] show ?case
    by (simp only: push_young.simps)
qed simp

text \<open>\<open>Filter\<close> leaves nothing in the pool that takes a slot of the block's transactions, and adds nothing.\<close>

theorem pool_Filter_leaves:
  "mset (p_List (pool_Filter clock b p)) \<subseteq>#
    mset (filter (\<lambda>e. \<not> list_ex (\<lambda>tx. same_slot tx e) (sTxs b)) (p_List p))"
proof -
  let ?l = "filter (\<lambda>e. \<not> list_ex (\<lambda>tx. same_slot tx e) (sTxs b)) (p_List p)"
  obtain l txs where h: "pop_half ?l 0 [] = (l, txs)" by (rule prod.exhaust)
  have "mset (push_young clock 0 txs l) \<subseteq># mset l + mset txs" by (rule push_young_keeps)
  with pop_half_keeps [OF h] show ?thesis
    by (simp add: pool_Filter_def fold_cut_slots h)
qed

section \<open>What a received block is not checked for\<close>

text \<open>\<open>VerifyBlcok\<close> looks its root up among the leaves, and takes finding it for an error: whatever
  root a block carries, right or wrong, the answer is that of the transactions alone (a root that is
  itself a preimage of a leaf or of the tree's root aside).\<close>

theorem VerifyBlcok_ignores_root:
  assumes "sTxs b \<noteq> []" "[] \<notin> js_tx js ` set (sTxs b)" "sRoot b \<noteq> []"
    "sha256 (sRoot b) \<notin> sha256 ` js_tx js ` set (sTxs b)"
    "sha256 (sRoot b) \<noteq> merkle_levels sha256 (map (\<lambda>tx. sha256 (js_tx js tx)) (sTxs b))"
  shows "VerifyBlcok sha256 ed D T js cfg b d = Some (verify_all ed D T cfg (sTxs b) d)"
proof -
  have "verify_in sha256 (map (js_tx js) (sTxs b)) (sRoot b) = Some (Ok False)"
    using verify_in_absent [of "map (js_tx js) (sTxs b)" "sRoot b" sha256] assms by (simp add: comp_def)
  with assms(1) show ?thesis by (simp add: VerifyBlcok_def)
qed

text \<open>A block without a root is not refused either: the look-up panics.\<close>

theorem VerifyBlcok_empty_root_panics:
  assumes "sTxs b \<noteq> []" "[] \<notin> js_tx js ` set (sTxs b)" "sRoot b = []"
  shows "VerifyBlcok sha256 ed D T js cfg b d = Some (d, Panic)"
  using verify_in_empty [of "map (js_tx js) (sTxs b)" sha256] assms by (simp add: VerifyBlcok_def)

section \<open>Witnesses\<close>

context store_tx begin

text \<open>A sender without a stored nonce whose transaction passes the checks.\<close>

lemma first_read:
  assumes "stored d (nonce_key a) = None" "length a = 47"
  obtains d1 where "GetNonce D T a d = (d1, Ok 1)" "stored d1 a = stored d a"
    "stored d1 (lock_key a) = stored d (lock_key a)"
proof -
  obtain d1 r where g: "GetNonce D T a d = (d1, r)" by (rule prod.exhaust)
  show thesis
    using GetNonce_done [of a d] assms(1) g nonce_key_length [of a a] nonce_key_lock_key [of a a]
    by (intro that [of d1]) auto
qed

lemma balances_read:
  assumes "stored d a = Some (E64func bal)" "stored d (lock_key a) = None" "length a = 47"
  obtains d1 d2 rl where "GetBalance D T a d = (d1, Ok bal)" "GetLockBalance D T a d1 = (d2, rl)" "or_zero 0 rl = 0" "rl \<noteq> Panic"
proof -
  have ne: "a \<noteq> []" using assms(3) by auto
  obtain d1 rb where b: "GetBalance D T a d = (d1, rb)" by (rule prod.exhaust)
  obtain d2 rl where l: "GetLockBalance D T a d1 = (d2, rl)" by (rule prod.exhaust)
  show thesis
    using GetBalance_done [OF ne, of d] GetLockBalance_done [of a d1] assms(1,2) b l
    by (intro that [of d1 d2 rl]) (auto simp: num_at_def)
qed

lemma verify_first:
  assumes "verify_signed ed tx = Ok True" "stored d (nonce_key (tFrom tx)) = None" "tNonce tx \<noteq> 0"
    "stored d (tFrom tx) = Some (E64func bal)" "stored d (lock_key (tFrom tx)) = None" "length (tFrom tx) = 47"
    "verify_amounts ed cfg tx bal 0 = Ok True"
  shows "snd (verify ed D T cfg tx d) = Ok True"
proof -
  obtain d1 where d1: "GetNonce D T (tFrom tx) d = (d1, Ok 1)" "stored d1 (tFrom tx) = stored d (tFrom tx)"
    "stored d1 (lock_key (tFrom tx)) = stored d (lock_key (tFrom tx))"
    by (rule first_read [OF assms(2,6)])
  obtain d2 d3 rl where "GetBalance D T (tFrom tx) d1 = (d2, Ok bal)" "GetLockBalance D T (tFrom tx) d2 = (d3, rl)"
    "or_zero 0 rl = 0" "rl \<noteq> Panic"
    by (rule balances_read [of d1 "tFrom tx" bal]) (use d1 assms in auto)
  then show ?thesis
    using assms(1,3,7) d1(1) by (simp add: verify_def AddressToByte_def Let_def)
qed

lemma Pendings_first:
  assumes "p_List p = [tx]" "p_queue p = []" "p_Pending p = []" "p_item p = Map.empty" "p_balance p = Map.empty"
    "stored (bc_db bc) (nonce_key (tFrom tx)) = None" "tNonce tx = 1" "tScript tx = []"
    "stored (bc_db bc) (tFrom tx) = Some (E64func bal)" "stored (bc_db bc) (lock_key (tFrom tx)) = None"
    "length (tFrom tx) = 47" "\<not> bal \<le> 0" "\<not> bal < tAmount tx" "tAmount tx \<le>s bal"
  shows "\<exists>p' bc'. Pendings sha3 D T clock (p, bc) = Some (Ok (p', bc')) \<and> p_Pending p' = [tx]"
proof -
  obtain d1 where d1: "GetNonce D T (tFrom tx) (bc_db bc) = (d1, Ok 1)" "stored d1 (tFrom tx) = stored (bc_db bc) (tFrom tx)"
    "stored d1 (lock_key (tFrom tx)) = stored (bc_db bc) (lock_key (tFrom tx))"
    by (rule first_read [OF assms(6,11)])
  obtain d2 d3 rl where b: "GetBalance D T (tFrom tx) d1 = (d2, Ok bal)" "GetLockBalance D T (tFrom tx) d2 = (d3, rl)"
    "or_zero 0 rl = 0" "rl \<noteq> Panic"
    by (rule balances_read [of d1 "tFrom tx" bal]) (use d1 assms in auto)
  have "pend_balance D T tx (p, d1) = ((p, d3), Ok (Some (p\<lparr> p_balance := [tFrom tx \<mapsto> bal] \<rparr>)))"
    using b assms(5,12,13) by (simp add: pend_balance_def AddressToByte_def Let_def)
  then obtain p' where one: "pend_one sha3 D T (bc_cdb bc) tx (p, bc_db bc) = Some (Ok (p', d3))" "p_Pending p' = [tx]" "p_queue p' = []"
    using d1(1) assms by (simp add: pend_one_def AddressToByte_def pend_accept_def bal_at_def Let_def)
  have pop: "heap_Pop TxHeap_Less [tx] = Ok (tx, [])"
    by (simp add: heap_Pop_def down_stop swap_def)
  have "pend_loop sha3 D T (bc_cdb bc) [tx] (p, bc_db bc) = Some (Ok ([], p', d3))"
    using one assms(3) by (subst pend_loop_step [OF _ pop]) (simp_all add: pend_loop_stop)
  then show ?thesis
    using assms(1) one by (simp add: Pendings_def pop_half.simps [of "[]"])
qed

end

lemma pool_pended:
  "\<exists>p' bc'. Pendings sha3 (bgStore map_badger) (bgTransaction map_badger) clock (pool_demo, pool_bc) = Some (Ok (p', bc')) \<and>
    p_Pending p' = [pool_tx]"
  by (rule ms.Pendings_first [where bal = 1000000])
    (simp_all add: pool_demo_def Txpool_New_def heap_Init_def pool_bc_def pool_db_def pool_tx_def pool_addr_facts
      zero_transaction_def word_sle_eq)

lemma pool_verified: "snd (verify pool_ed (bgStore map_badger) (bgTransaction map_badger) [] pool_tx pool_db) = Ok True"
  by (rule ms.verify_first [where bal = 1000000])
    (use pool_signed pool_amounts in \<open>simp_all add: pool_db_def pool_tx_def pool_addr_facts\<close>)


theorem verify_replayed_witness:
  "\<exists>d'. verify pool_ed (bgStore map_badger) (bgTransaction map_badger) []
    (pool_tx\<lparr> tAmount := 550000, tNonce := 9 \<rparr>) pool_db = (d', Ok True)"
proof -
  obtain d' where v: "verify pool_ed (bgStore map_badger) (bgTransaction map_badger) [] pool_tx pool_db = (d', Ok True)"
    using pool_verified by (metis prod.collapse)
  show ?thesis
    by (rule exI [of _ d'], rule verify_replayed [OF v]) (simp_all add: pool_tx_def)
qed

theorem Pendings_chooses_witness:
  "\<exists>p' bc'. Pendings (\<lambda>x. x) (bgStore map_badger) (bgTransaction map_badger) (\<lambda>_. 0) (pool_demo, pool_bc) = Some (Ok (p', bc')) \<and>
    p_Pending p' = [pool_tx] \<and> length (p_Pending p') \<le> 500"
proof -
  obtain p' bc' where run: "Pendings (\<lambda>x. x) (bgStore map_badger) (bgTransaction map_badger) (\<lambda>_. 0) (pool_demo, pool_bc) = Some (Ok (p', bc'))"
    "p_Pending p' = [pool_tx]"
    using pool_pended by blast
  show ?thesis
    using Pendings_chooses [OF run(1)] run by (auto simp: pool_demo_def Txpool_New_def)
qed

theorem Pendings_distinct_nonces_witness:
  "\<exists>p' bc'. Pendings (\<lambda>x. x) (bgStore map_badger) (bgTransaction map_badger) (\<lambda>_. 0) (pool_demo, pool_bc) = Some (Ok (p', bc')) \<and>
    p_Pending p' = [pool_tx] \<and> distinct (slots (p_Pending p'))"
proof -
  obtain p' bc' where run: "Pendings (\<lambda>x. x) (bgStore map_badger) (bgTransaction map_badger) (\<lambda>_. 0) (pool_demo, pool_bc) = Some (Ok (p', bc'))"
    "p_Pending p' = [pool_tx]"
    using pool_pended by blast
  show ?thesis
    using Pendings_distinct_nonces [OF run(1)] run by (auto simp: pool_demo_def Txpool_New_def)
qed

theorem Pendings_affordable_witness:
  "\<exists>p' bc'. Pendings (\<lambda>x. x) (bgStore map_badger) (bgTransaction map_badger) (\<lambda>_. 0) (pool_demo, pool_bc) = Some (Ok (p', bc')) \<and>
    p_Pending p' = [pool_tx] \<and> paid_but_last_fee pool_addr (p_Pending p') \<le> 1000000"
proof -
  obtain p' bc' where run: "Pendings (\<lambda>x. x) (bgStore map_badger) (bgTransaction map_badger) (\<lambda>_. 0) (pool_demo, pool_bc) = Some (Ok (p', bc'))"
    "p_Pending p' = [pool_tx]"
    using pool_pended by blast
  have c: "num_at (fmlookup (bc_db pool_bc)) pool_addr = 1000000" "num_at (fmlookup (bc_db pool_bc)) (lock_key pool_addr) = 0"
    using pool_addr_facts(6) by (auto simp: pool_bc_def pool_db_def num_at_def)
  have "paid_but_last_fee pool_addr (p_Pending p') + uint (num_at (fmlookup (bc_db pool_bc)) (lock_key pool_addr)) \<le>
      uint (num_at (fmlookup (bc_db pool_bc)) pool_addr)"
    by (rule Pendings_affordable [OF map_badger_roomy run(1)])
      (auto simp: pool_demo_def Txpool_New_def pool_tx_def pool_addr_facts zero_transaction_def c)
  with run show ?thesis by (auto simp: c)
qed

theorem heap_Pop_least_nonce_witness:
  "\<not> tNonce (cycle_tx [] 2 1) <s tNonce (cycle_tx [] 1 2)"
proof (rule heap_Pop_least_nonce [of "[cycle_tx [] 1 2, cycle_tx [] 2 1]" "[]"])
  show "heap_Pop TxHeap_Less [cycle_tx [] 1 2, cycle_tx [] 2 1] = Ok (cycle_tx [] 1 2, [cycle_tx [] 2 1])"
    by (simp add: heap_Pop_def down_stop swap_def)
  show "is_heap TxHeap_Less (length [cycle_tx [] 1 2, cycle_tx [] 2 1]) [cycle_tx [] 1 2, cycle_tx [] 2 1]"
    by (simp add: is_heap_def less_Suc_eq parent_def TxHeap_Less_def cycle_tx_def tx_GetNonce_def word_sless_alt)
qed (simp_all add: cycle_tx_def)

theorem TxHeap_Less_cycle_witness:
  "TxHeap_Less (cycle_tx [1] 2 10) (cycle_tx [] 1 20)"
  using TxHeap_Less_cycle [of "[1]" "[]"] by simp

theorem VerifyBlcok_ignores_root_witness:
  "VerifyBlcok (\<lambda>x. x) pool_ed (bgStore map_badger) (bgTransaction map_badger)
      \<lparr> js_tx = \<lambda>_. [2], js_txs = \<lambda>_. [3], js_Blocks = \<lambda>_. [1], uj_tx = \<lambda>_ x. (x, Ok ()),
        uj_Block = \<lambda>_ x. (x, Ok ()), uj_Blocks = \<lambda>_ x. (x, Ok ()), js_null = \<lambda>_. False \<rparr> []
      (zero_Blocks\<lparr> sTxs := [pool_tx], sRoot := [7, 7] \<rparr>) pool_db =
    Some (verify_all pool_ed (bgStore map_badger) (bgTransaction map_badger) [] [pool_tx] pool_db)"
  by (subst VerifyBlcok_ignores_root) simp_all

theorem VerifyBlcok_empty_root_panics_witness:
  "VerifyBlcok (\<lambda>x. x) pool_ed (bgStore map_badger) (bgTransaction map_badger)
      \<lparr> js_tx = \<lambda>_. [2], js_txs = \<lambda>_. [3], js_Blocks = \<lambda>_. [1], uj_tx = \<lambda>_ x. (x, Ok ()),
        uj_Block = \<lambda>_ x. (x, Ok ()), uj_Blocks = \<lambda>_ x. (x, Ok ()), js_null = \<lambda>_. False \<rparr> []
      (zero_Blocks\<lparr> sTxs := [pool_tx] \<rparr>) pool_db = Some (pool_db, Panic)"
  by (rule VerifyBlcok_empty_root_panics) (simp_all add: zero_Blocks_def)

end
