(* ===== verification/RaftNode.thy ===== *)
theory RaftNode
  imports TxPool
begin

text \<open>
  The consensus node (\<open>raftconsensus/\<close>): what it does with the entries raft has committed, the blocks
  it packs as a leader, its snapshots, and its view of the cluster. The raft library of etcd is a
  parameter: its entries and configuration changes appear with the fields the code reads, its storage
  as the record \<open>storage\<close> of operations on a state of its own, and calls on the transport and the raft
  node as a log of actions. The record \<open>env\<close> collects what the node's operations need of other parts.
\<close>

section \<open>Interfaces\<close>

datatype EntryType = EntryNormal | EntryConfChange

record Entry =
  e_Term :: u64
  e_Index :: u64
  e_Type :: EntryType
  e_Data :: bytes

record ConfChange =
  cc_Type :: nat
  cc_NodeID :: u64
  cc_Context :: bytes

record 'c snapshot =
  sn_Index :: u64
  sn_Term :: u64
  sn_Conf :: 'c
  sn_Data :: bytes

datatype action =
    ApplyConfChange ConfChange
  | AddRemote u64 gostring
  | AddPeer u64 gostring
  | RemovePeer u64
  | StopTransport
  | StopNode
  | Propose bytes
  | ProposeConfChange ConfChange

text \<open>\<open>raft.MemoryStorage\<close>, the write-ahead log and the snapshot files.\<close>

record ('s, 'c) storage =
  st_Entries :: "'s \<Rightarrow> u64 \<Rightarrow> u64 \<Rightarrow> Entry list outcome"
  st_CreateSnapshot :: "u64 \<Rightarrow> 'c \<Rightarrow> bytes \<Rightarrow> ('s, 'c snapshot) act"
  st_SaveSnap :: "'c snapshot \<Rightarrow> ('s, unit) act"
  st_Compact :: "u64 \<Rightarrow> ('s, unit) act"
  st_LastIndex :: "'s \<Rightarrow> u64 outcome"
  st_Commit :: "'s \<Rightarrow> u64 outcome"
  st_ApplySnapshot :: "'c snapshot \<Rightarrow> 's \<Rightarrow> 's"
  st_Save :: "u64 option \<Rightarrow> Entry list \<Rightarrow> 's \<Rightarrow> 's"
  st_Append :: "Entry list \<Rightarrow> 's \<Rightarrow> 's"
  st_SetHardState :: "u64 \<Rightarrow> 's \<Rightarrow> 's"

record ('d, 't, 'c, 's) env =
  v_sha256 :: "bytes \<Rightarrow> bytes"
  v_sha3 :: "bytes \<Rightarrow> bytes"
  v_ed :: ed25519
  v_D :: "('d, 't) DB"
  v_T :: "('d, 't) Transaction"
  v_js :: json
  v_ord :: "writeset \<Rightarrow> (gostring \<times> gostring) list"
  v_range :: "(Address \<Rightarrow> u64 option) \<Rightarrow> (Address \<times> u64) list"
  v_cfg :: gostring
  v_uj_cc :: "bytes \<Rightarrow> ConfChange"
  v_apply_cc :: "ConfChange \<Rightarrow> 'c"
  v_st :: "('s, 'c) storage"
  v_js_Entries :: "Entry list \<Rightarrow> bytes outcome"
  v_uj_Entries :: "bytes \<Rightarrow> Entry list outcome"
  v_uj_Snapshot :: "bytes \<Rightarrow> 'c snapshot outcome"
  v_js_string :: "gostring \<Rightarrow> bytes"

record ('d, 'c, 's) raftNode =
  n_clusterid :: u64
  n_id :: u64
  n_addr :: gostring
  n_peers :: "gostring list"
  n_idPeer :: "u64 \<Rightarrow> gostring option"
  n_DS :: bytes
  n_Cm :: bytes
  n_QTJ :: bytes
  n_pool :: Txpool
  n_bc :: "'d Blockchain"
  n_snapshot :: "'c snapshot option"
  n_snapCount :: u64
  n_confState :: 'c
  n_snapshotIndex :: u64
  n_committedIndex :: u64
  n_lastHeight :: u64
  n_storage :: 's
  n_log :: "action list"

definition emit :: "action list \<Rightarrow> ('d, 'c, 's) raftNode \<Rightarrow> ('d, 'c, 's) raftNode" where
  "emit as rn = rn\<lparr> n_log := n_log rn @ as \<rparr>"

section \<open>Slices cut while they are ranged over\<close>

text \<open>
  \<open>for i, x := range s { if P(x) { s = append(s[:i], s[i+1:]...) } }\<close>: the loop runs over the \<open>n\<close>
  places the slice had at first and reads the array, which every cut shifts; \<open>m\<close> is the slice's
  length by now. A cut behind the end panics.
\<close>

function cut_range :: "('a \<Rightarrow> bool) \<Rightarrow> 'a list \<Rightarrow> nat \<Rightarrow> nat \<Rightarrow> nat \<Rightarrow> 'a list outcome" where
  "cut_range P arr n m i =
     (if i < n
      then if P (arr ! i)
        then if m < i + 1 then Panic
          else cut_range P (take i arr @ take (m - (i + 1)) (drop (i + 1) arr) @ drop (m - 1) arr) n (m - 1) (i + 1)
        else cut_range P arr n m (i + 1)
      else Ok (take m arr))"
  by pat_completeness auto
termination
  by (relation "measure (\<lambda>(P, arr, n, m, i). n - i)") auto

declare cut_range.simps [simp del]

definition EntriesToApply :: "Entry list \<Rightarrow> Entry list outcome" where
  "EntriesToApply ents =
     (if length ents \<le> 0 then Ok []
      else cut_range (\<lambda>e. length (e_Data e) \<le> 0) ents (length ents) (length ents) 0)"

section \<open>Which entries are new\<close>

definition committedEntriesToApply :: "u64 \<Rightarrow> Entry list \<Rightarrow> Entry list outcome" where
  "committedEntriesToApply committedIndex ents =
     (if length ents \<le> 0 then Ok []
      else let firstIdx = e_Index (hd ents) in
        if firstIdx > committedIndex then Panic
        else if committedIndex - firstIdx < of_nat (length ents)
        then slice_from ents (unat (committedIndex - firstIdx))
        else Ok [])"

definition snapEntriesToApply :: "u64 \<Rightarrow> Entry list \<Rightarrow> Entry list outcome" where
  "snapEntriesToApply ci ents =
     (if ents = [] then Panic
      else if ci < e_Index (hd ents) then Err (ErrText ''Commited index should >= ents[0].index.'')
      else if ci > e_Index (last ents)
      then Err (ErrText ''Already Commited, index should < ents[len - 1].index.'')
      else slice_from ents (unat (ci - e_Index (hd ents))))"

section \<open>The cluster\<close>

text \<open>Go's \<open>rn.idPeer[id]\<close> is the empty string for an absent key.\<close>

definition peer_at :: "(u64 \<Rightarrow> gostring option) \<Rightarrow> u64 \<Rightarrow> gostring" where
  "peer_at m k = (case m k of None \<Rightarrow> [] | Some p \<Rightarrow> p)"

definition updateClusterInfo ::
  "bool \<Rightarrow> u64 \<Rightarrow> gostring \<Rightarrow> ('d, 'c, 's) raftNode \<Rightarrow> ('d, 'c, 's) raftNode outcome" where
  "updateClusterInfo confchange ident ps rn =
     (if confchange
      then Ok (if ps \<noteq> []
               then rn\<lparr> n_peers := n_peers rn @ [ps],
                        n_idPeer := (if n_idPeer rn ident = None then (n_idPeer rn)(ident \<mapsto> ps) else n_idPeer rn) \<rparr>
               else rn)
      else obind (cut_range (\<lambda>p. p = peer_at (n_idPeer rn) ident) (n_peers rn)
             (length (n_peers rn)) (length (n_peers rn)) 0) (\<lambda>ps.
             Ok (rn\<lparr> n_peers := ps, n_idPeer := (n_idPeer rn)(ident := None) \<rparr>)))"

definition apply_conf ::
  "('d, 't, 'c, 's) env \<Rightarrow> bytes \<Rightarrow> ('d, 'c, 's) raftNode \<Rightarrow> ('d, 'c, 's) raftNode outcome" where
  "apply_conf E data rn =
     (let cc = v_uj_cc E data;
          rn = emit [ApplyConfChange cc] (rn\<lparr> n_confState := v_apply_cc E cc \<rparr>)
      in if cc_Type cc = 0
         then if 0 < length (cc_Context cc)
           then updateClusterInfo True (cc_NodeID cc) (cc_Context cc)
             (emit [AddRemote (cc_NodeID cc) (cc_Context cc), AddPeer (cc_NodeID cc) (cc_Context cc)] rn)
           else Ok rn
         else if cc_Type cc = 1
         then updateClusterInfo False (cc_NodeID cc) []
           (emit (if n_id rn \<noteq> cc_NodeID cc then [RemovePeer (cc_NodeID cc)] else [StopTransport, StopNode]) rn)
         else Ok rn)"

section \<open>Committing\<close>

text \<open>\<open>server.CommitBlock\<close>.\<close>

definition CommitBlock ::
  "('d, 't, 'c, 's) env \<Rightarrow> Blocks \<Rightarrow> bytes \<Rightarrow> ('d Blockchain, unit) act" where
  "CommitBlock E b minaddr = AddBlock (v_D E) (v_T E) (v_js E) (v_ord E) b minaddr"

definition checkBlock ::
  "('d, 't, 'c, 's) env \<Rightarrow> Blocks \<Rightarrow> ('d, 'c, 's) raftNode \<Rightarrow> ('d Blockchain \<times> bool outcome) option" where
  "checkBlock E b rn = Checkresults (v_sha3 E) (v_ed E) (v_D E) (v_T E) b (n_DS rn) (n_Cm rn) (n_QTJ rn) (n_bc rn)"

text \<open>
  A block entry: the pool is filtered first, whatever happens next. An old block only counts its
  index; a block that is not the next one, does not pass the checks or cannot be added panics.
\<close>

definition commit_block ::
  "('d, 't, 'c, 's) env \<Rightarrow> (nat \<Rightarrow> i64) \<Rightarrow> u64 \<Rightarrow> Blocks \<Rightarrow> ('d, 'c, 's) raftNode \<Rightarrow>
    ('d, 'c, 's) raftNode outcome option" where
  "commit_block E clock idx b rn =
     (let rn = rn\<lparr> n_pool := pool_Filter clock b (n_pool rn) \<rparr> in
      if sHeight b \<le> n_lastHeight rn
      then Some (Ok (rn\<lparr> n_committedIndex := n_committedIndex rn + 1 \<rparr>))
      else if sHeight b - n_lastHeight rn \<noteq> 1 then Some Panic
      else (case checkBlock E b rn of
          None \<Rightarrow> None
        | Some (bc, Ok True) \<Rightarrow>
            (case VerifyBlcok (v_sha256 E) (v_ed E) (v_D E) (v_T E) (v_js E) (v_cfg E) b (bc_db bc) of
               None \<Rightarrow> None
             | Some (d, Ok True) \<Rightarrow>
                 (case CommitBlock E b (n_addr rn) (bc\<lparr> bc_db := d \<rparr>) of
                    (bc, Ok _) \<Rightarrow> Some (Ok (rn\<lparr> n_bc := bc, n_lastHeight := sHeight b, n_committedIndex := idx \<rparr>))
                  | (bc, _) \<Rightarrow> Some Panic)
             | Some (d, _) \<Rightarrow> Some Panic)
        | Some (bc, _) \<Rightarrow> Some Panic))"

text \<open>\<open>clock\<close> is the time, read anew for every entry. A block that does not decode is skipped without counting.\<close>

definition commit_entry ::
  "('d, 't, 'c, 's) env \<Rightarrow> (nat \<Rightarrow> i64) \<Rightarrow> Entry \<Rightarrow> ('d, 'c, 's) raftNode \<Rightarrow>
    ('d, 'c, 's) raftNode outcome option" where
  "commit_entry E clock e rn =
     (if e_Index e \<le> n_committedIndex rn then Some (Ok rn)
      else if 0 < length (e_Data e)
      then (case e_Type e of
          EntryNormal \<Rightarrow>
            (case uj_Blocks (v_js E) (e_Data e) zero_Blocks of
               (b, Err x) \<Rightarrow> Some (Ok rn)
             | (b, Panic) \<Rightarrow> Some Panic
             | (b, Ok _) \<Rightarrow> commit_block E clock (e_Index e) b rn)
        | EntryConfChange \<Rightarrow>
            Some (obind (apply_conf E (e_Data e) rn) (\<lambda>rn. Ok (rn\<lparr> n_committedIndex := e_Index e \<rparr>))))
      else Some (Ok (rn\<lparr> n_committedIndex := e_Index e \<rparr>)))"

fun commitEntries ::
  "('d, 't, 'c, 's) env \<Rightarrow> (u64 \<Rightarrow> nat \<Rightarrow> i64) \<Rightarrow> Entry list \<Rightarrow> ('d, 'c, 's) raftNode \<Rightarrow>
    ('d, 'c, 's) raftNode outcome option" where
  "commitEntries E clock [] rn = Some (Ok rn)"
| "commitEntries E clock (e # ents) rn =
     (case commit_entry E (clock (e_Index e)) e rn of
        Some (Ok rn) \<Rightarrow> commitEntries E clock ents rn
      | r \<Rightarrow> r)"

section \<open>Packing\<close>

definition RemovePending :: "Txpool \<Rightarrow> Txpool" where
  "RemovePending p = p\<lparr> p_Pending := [] \<rparr>"

definition PackBlock ::
  "('d, 't, 'c, 's) env \<Rightarrow> (nat \<Rightarrow> i64) \<Rightarrow> i64 \<Rightarrow> bytes \<Rightarrow> bytes \<Rightarrow> bytes \<Rightarrow> bytes \<Rightarrow>
    Txpool \<times> 'd Blockchain \<Rightarrow> ((Txpool \<times> 'd Blockchain) \<times> Block outcome) option" where
  "PackBlock E clock now minaddr Ds Cm QTJ s =
     (case Pendings (v_sha3 E) (v_D E) (v_T E) clock s of
        None \<Rightarrow> None
      | Some (Err e) \<Rightarrow> Some (s, Err e)
      | Some Panic \<Rightarrow> Some (s, Panic)
      | Some (Ok (p, bc)) \<Rightarrow>
          (case NewBlock (v_sha256 E) (v_sha3 E) (v_ed E) (v_D E) (v_T E) (v_js E) now (p_Pending p) minaddr Ds Cm QTJ
                  (bc_db bc) of
             None \<Rightarrow> None
           | Some (d, Ok b) \<Rightarrow> Some ((RemovePending p, bc\<lparr> bc_db := d \<rparr>), Ok b)
           | Some (d, r) \<Rightarrow> Some ((p, bc\<lparr> bc_db := d \<rparr>), r)))"

text \<open>The order in which Go ranges over the map \<open>Txres\<close> is \<open>v_range\<close>'s.\<close>

definition block_change :: "((Address \<Rightarrow> u64 option) \<Rightarrow> (Address \<times> u64) list) \<Rightarrow> Block \<Rightarrow> Blocks" where
  "block_change rng b =
     \<lparr> sHeight = bHeight b, sPrevBlockHash = bPrevBlockHash b, sTxs = bTxs b, sRoot = bRoot b,
       sVersion = bVersion b, sTimestamp = bTimestamp b, sHash = bHash b, sMiner = bMiner b,
       sRes = map (\<lambda>(a, bal). \<lparr> brAddress = a, brBalance = bal \<rparr>) (rng (bTxres b)),
       sFirstTx = bFirstTx b \<rparr>"

text \<open>
  One round of \<open>packBlock\<close>: a leader whose log is committed to the end packs a block, adds the results
  and proposes it, unless the chain has meanwhile reached its height.
\<close>

definition pack_round ::
  "('d, 't, 'c, 's) env \<Rightarrow> bool \<Rightarrow> (nat \<Rightarrow> i64) \<Rightarrow> i64 \<Rightarrow> ('d, 'c, 's) raftNode \<Rightarrow>
    ('d, 'c, 's) raftNode outcome option" where
  "pack_round E leader clock now rn =
     (if \<not> leader then Some (Ok rn)
      else (case (st_LastIndex (v_st E) (n_storage rn), st_Commit (v_st E) (n_storage rn)) of
          (Ok li, Ok commit) \<Rightarrow>
            if li > commit then Some (Ok rn)
            else (case PackBlock E clock now (n_addr rn) (n_DS rn) (n_Cm rn) (n_QTJ rn) (n_pool rn, n_bc rn) of
                None \<Rightarrow> None
              | Some (_, Panic) \<Rightarrow> Some Panic
              | Some ((p, bc), Err e) \<Rightarrow> Some (Ok (rn\<lparr> n_pool := p, n_bc := bc \<rparr>))
              | Some ((p, bc), Ok b) \<Rightarrow>
                  (case Calculationresults (v_D E) (v_T E) (b\<lparr> bMiner := n_addr rn \<rparr>) (bc_db bc) of
                     (d, Panic) \<Rightarrow> Some Panic
                   | (d, Err e) \<Rightarrow> Some (Err e)
                   | (d, Ok b) \<Rightarrow>
                       let bs = block_change (v_range E) b in
                       (case Height (v_D E) (v_T E) d of (d, rh) \<Rightarrow>
                        let rn = rn\<lparr> n_pool := p, n_bc := bc\<lparr> bc_db := d \<rparr> \<rparr> in
                        if rh = Panic then Some Panic
                        else if sHeight bs \<le> or_zero 0 rh then Some (Ok rn)
                        else Some (Ok (emit [Propose (js_Blocks (v_js E) bs)] rn)))))
        | _ \<Rightarrow> Some (Ok rn)))"

end
