(* ===== verification/RaftSnap.thy ===== *)
theory RaftSnap
  imports RaftNode
begin

text \<open>
  Snapshots and the management interface of the consensus node: taking a snapshot, recovering from one
  and from the leader's older ones, the round of the event loop, and the remote calls of
  \<open>noderpc_server.go\<close>. What the leader answers to the \<open>j\<close>-th request is the
  parameter \<open>replies j\<close>.
\<close>

section \<open>Taking a snapshot\<close>

definition getSnapData :: "('d, 't, 'c, 's) env \<Rightarrow> u64 \<Rightarrow> ('d, 'c, 's) raftNode \<Rightarrow> bytes outcome" where
  "getSnapData E hi rn =
     (let lo = n_snapshotIndex rn + 1 in
      obind (st_Entries (v_st E) (n_storage rn) lo hi) (v_js_Entries E))"

definition maybeTriggerSnapshot ::
  "('d, 't, 'c, 's) env \<Rightarrow> u64 \<Rightarrow> (('d, 'c, 's) raftNode, unit) act" where
  "maybeTriggerSnapshot E appIndex rn =
     (case getSnapData E (appIndex + 1) rn of
        Err e \<Rightarrow> (rn, Err e)
      | Panic \<Rightarrow> (rn, Panic)
      | Ok data \<Rightarrow>
          (case abind (st_CreateSnapshot (v_st E) appIndex (n_confState rn) data) (\<lambda>sn.
                abind (st_SaveSnap (v_st E) sn) (\<lambda>_.
                abind (st_Compact (v_st E) appIndex) (\<lambda>_. aret sn))) (n_storage rn) of
             (s, Ok sn) \<Rightarrow>
               (rn\<lparr> n_storage := s, n_snapshotIndex := appIndex, n_snapshot := Some sn \<rparr>, Ok ())
           | (s, Err e) \<Rightarrow> (rn\<lparr> n_storage := s \<rparr>, Err e)
           | (s, Panic) \<Rightarrow> (rn\<lparr> n_storage := s \<rparr>, Panic)))"

section \<open>Recovering from a snapshot\<close>

definition unMarshalSnapData :: "('d, 't, 'c, 's) env \<Rightarrow> bytes \<Rightarrow> Entry list outcome" where
  "unMarshalSnapData E snapData =
     (if length snapData \<le> 0 then Err (ErrText ''snapData error.'')
      else obind (v_uj_Entries E snapData) (\<lambda>ents.
        if length ents \<le> 0 then Err (ErrText ''Snap entries length should > 0, return.'') else Ok ents))"

text \<open>Taking over a snapshot once its entries are committed.\<close>

definition adopt_snapshot :: "'c snapshot \<Rightarrow> ('d, 'c, 's) raftNode \<Rightarrow> ('d, 'c, 's) raftNode" where
  "adopt_snapshot sn rn = rn\<lparr> n_confState := sn_Conf sn, n_snapshotIndex := sn_Index sn,
     n_committedIndex := sn_Index sn, n_snapshot := Some sn \<rparr>"

definition saveSnap ::
  "('d, 't, 'c, 's) env \<Rightarrow> 'c snapshot \<Rightarrow> (('d, 'c, 's) raftNode, unit) act" where
  "saveSnap E sn rn =
     (case st_SaveSnap (v_st E) sn (n_storage rn) of (s, r) \<Rightarrow> (rn\<lparr> n_storage := s \<rparr>, r))"

record ReqSnaprpc =
  rr_MaxTerm :: u64
  rr_Term :: u64
  rr_NextSnapshotIndex :: u64

text \<open>
  What comes of asking the leader: there is none or its address is no good, the call fails, or it
  answers. The code's \<open>term\<close> is at every turn that of the node's snapshot, 1 without one, and its
  \<open>nextReqSnapIndex\<close> is \<open>rn.snapshotIndex + rn.snapCount\<close>.
\<close>

datatype reply = NoLeader | CallFailed | NotDone | Done bytes

definition snap_term :: "('d, 'c, 's) raftNode \<Rightarrow> u64" where
  "snap_term rn = (case n_snapshot rn of None \<Rightarrow> 1 | Some sn \<Rightarrow> sn_Term sn)"

definition snap_request :: "'c snapshot \<Rightarrow> ('d, 'c, 's) raftNode \<Rightarrow> ReqSnaprpc" where
  "snap_request sn rn =
     \<lparr> rr_MaxTerm = sn_Term sn, rr_Term = snap_term rn, rr_NextSnapshotIndex = n_snapshotIndex rn + n_snapCount rn \<rparr>"

text \<open>
  One answer of the leader. The flag says whether the loop goes on; a \<open>break\<close> and the return of a
  panic end it.
\<close>

definition handle_reply ::
  "('d, 't, 'c, 's) env \<Rightarrow> (u64 \<Rightarrow> nat \<Rightarrow> i64) \<Rightarrow> reply \<Rightarrow> ('d, 'c, 's) raftNode \<Rightarrow>
    (bool \<times> ('d, 'c, 's) raftNode \<times> unit outcome) option" where
  "handle_reply E clock reply rn =
     (case reply of
        NoLeader \<Rightarrow> Some (True, rn, Ok ())
      | CallFailed \<Rightarrow> Some (False, rn, Panic)
      | NotDone \<Rightarrow> Some (True, rn, Ok ())
      | Done data \<Rightarrow>
          (case v_uj_Snapshot E data of
             Err e \<Rightarrow> Some (False, rn, Ok ())
           | Panic \<Rightarrow> Some (False, rn, Panic)
           | Ok sn \<Rightarrow>
               if sn_Index sn = 0 then Some (False, rn, Ok ())
               else if length (sn_Data sn) = 0 then Some (True, rn, Ok ())
               else (case obind (unMarshalSnapData E (sn_Data sn)) (snapEntriesToApply (n_committedIndex rn + 1)) of
                   Err e \<Rightarrow> Some (False, rn, Ok ())
                 | Panic \<Rightarrow> Some (False, rn, Panic)
                 | Ok entries \<Rightarrow>
                     if entries = [] then Some (False, rn, Panic)
                     else (case commitEntries E clock entries rn of
                         None \<Rightarrow> None
                       | Some (Err e) \<Rightarrow> Some (False, rn, Err e)
                       | Some Panic \<Rightarrow> Some (False, rn, Panic)
                       | Some (Ok rn) \<Rightarrow>
                           (case saveSnap E sn rn of
                              (rn, Err e) \<Rightarrow> Some (False, rn, Ok ())
                            | (rn, Panic) \<Rightarrow> Some (False, rn, Panic)
                            | (rn, Ok _) \<Rightarrow> Some (True, adopt_snapshot sn rn, Ok ()))))))"

text \<open>
  The loop asks for the snapshots between the node's own and the received one. It goes on asking as long
  as no leader answers, so it may not end.
\<close>

partial_function (option) recover_loop ::
  "('d, 't, 'c, 's) env \<Rightarrow> (u64 \<Rightarrow> nat \<Rightarrow> i64) \<Rightarrow> (nat \<Rightarrow> ReqSnaprpc \<Rightarrow> reply) \<Rightarrow> nat \<Rightarrow> 'c snapshot \<Rightarrow>
    ('d, 'c, 's) raftNode \<Rightarrow> (('d, 'c, 's) raftNode \<times> unit outcome) option" where
  "recover_loop E clock replies j sn rn =
     (if \<not> n_snapshotIndex rn + n_snapCount rn < sn_Index sn then Some (rn, Ok ())
      else if n_snapCount rn = 0 then Some (rn, Panic)
      else if n_snapshotIndex rn mod n_snapCount rn \<noteq> 0 then Some (rn, Ok ())
      else Option.bind (handle_reply E clock (replies j (snap_request sn rn)) rn) (\<lambda>r.
        if fst r then recover_loop E clock replies (j + 1) sn (fst (snd r))
        else Some (snd r)))"

text \<open>The end of \<open>recoverSnapshotData\<close>: the received snapshot is the next one.\<close>

definition recover_newest ::
  "('d, 't, 'c, 's) env \<Rightarrow> (u64 \<Rightarrow> nat \<Rightarrow> i64) \<Rightarrow> 'c snapshot \<Rightarrow> Entry list \<Rightarrow> ('d, 'c, 's) raftNode \<Rightarrow>
    ('d, 'c, 's) raftNode outcome option" where
  "recover_newest E clock sn ents rn =
     (if n_snapshotIndex rn + n_snapCount rn \<noteq> sn_Index sn then Some (Ok rn)
      else if n_snapCount rn = 0 then Some Panic
      else if n_snapshotIndex rn mod n_snapCount rn \<noteq> 0 then Some (Ok rn)
      else (case snapEntriesToApply (n_committedIndex rn + 1) ents of
          Err e \<Rightarrow> Some (Ok rn)
        | Panic \<Rightarrow> Some Panic
        | Ok entries \<Rightarrow>
            (case commitEntries E clock entries rn of
               Some (Ok rn) \<Rightarrow>
                 (case saveSnap E sn rn of
                    (rn, Ok _) \<Rightarrow> Some (Ok (adopt_snapshot sn rn))
                  | (rn, _) \<Rightarrow> Some Panic)
             | r \<Rightarrow> r)))"

definition recoverSnapshotData ::
  "('d, 't, 'c, 's) env \<Rightarrow> (u64 \<Rightarrow> nat \<Rightarrow> i64) \<Rightarrow> (nat \<Rightarrow> ReqSnaprpc \<Rightarrow> reply) \<Rightarrow> 'c snapshot \<Rightarrow> ('d, 'c, 's) raftNode \<Rightarrow>
    ('d, 'c, 's) raftNode outcome option" where
  "recoverSnapshotData E clock replies sn rn =
     (if sn_Index sn = 0 then Some (Ok rn)
      else if sn_Index sn \<le> n_committedIndex rn then Some (Ok rn)
      else (case unMarshalSnapData E (sn_Data sn) of
          Err e \<Rightarrow> Some (Ok rn)
        | Panic \<Rightarrow> Some Panic
        | Ok ents \<Rightarrow>
            if n_snapshotIndex rn \<ge> e_Index (last ents) then Some (Ok rn)
            else (case st_Commit (v_st E) (n_storage rn) of
                Err e \<Rightarrow> Some (Ok rn)
              | Panic \<Rightarrow> Some Panic
              | Ok ci \<Rightarrow>
                  let rn = rn\<lparr> n_committedIndex := ci \<rparr> in
                  if ci < e_Index (hd ents) \<and> n_snapshotIndex rn < e_Index (hd ents)
                  then (case recover_loop E clock replies 0 sn rn of
                      None \<Rightarrow> None
                    | Some (rn, Ok _) \<Rightarrow>
                        if n_snapshotIndex rn + n_snapCount rn \<noteq> sn_Index sn then Some Panic
                        else recover_newest E clock sn ents rn
                    | Some (rn, Err e) \<Rightarrow> Some (Err e)
                    | Some (rn, Panic) \<Rightarrow> Some Panic)
                  else recover_newest E clock sn ents rn)))"

section \<open>The event loop\<close>

record 'c Ready =
  rd_Snapshot :: "'c snapshot option"
  rd_CommittedEntries :: "Entry list"
  rd_Commit :: "u64 option"
  rd_Entries :: "Entry list"

text \<open>
  One \<open>Ready\<close> of raft: recover, commit, save, append, record the hard state with a commit index that
  is not ahead of the node's, and take a snapshot when \<open>snapCount\<close> entries have passed; an error of the
  snapshot or of saving is only logged. Messages are sent by the transport.
\<close>

definition after_commit :: "('d, 't, 'c, 's) env \<Rightarrow> 'c Ready \<Rightarrow> ('d, 'c, 's) raftNode \<Rightarrow> ('d, 'c, 's) raftNode" where
  "after_commit E rd rn =
     (let st = v_st E;
          s = st_Save st (rd_Commit rd) (rd_Entries rd) (n_storage rn);
          s = (if length (rd_Entries rd) \<noteq> 0 then st_Append st (rd_Entries rd) s else s);
          s = (case rd_Commit rd of
                 None \<Rightarrow> s
               | Some c \<Rightarrow> st_SetHardState st (if n_committedIndex rn < c then n_committedIndex rn else c) s)
      in rn\<lparr> n_storage := s \<rparr>)"

definition snapshot_due ::
  "('d, 't, 'c, 's) env \<Rightarrow> ('d, 'c, 's) raftNode \<Rightarrow> ('d, 'c, 's) raftNode outcome" where
  "snapshot_due E rn =
     (if n_committedIndex rn > n_snapshotIndex rn \<and>
         n_committedIndex rn - n_snapshotIndex rn \<ge> n_snapCount rn
      then if n_snapCount rn = 0 then Panic
        else (case maybeTriggerSnapshot E (n_committedIndex rn - n_committedIndex rn mod n_snapCount rn) rn of
            (rn, Panic) \<Rightarrow> Panic
          | (rn, _) \<Rightarrow> Ok rn)
      else Ok rn)"

definition handle_ready ::
  "('d, 't, 'c, 's) env \<Rightarrow> (u64 \<Rightarrow> nat \<Rightarrow> i64) \<Rightarrow> (nat \<Rightarrow> ReqSnaprpc \<Rightarrow> reply) \<Rightarrow> 'c Ready \<Rightarrow> ('d, 'c, 's) raftNode \<Rightarrow>
    ('d, 'c, 's) raftNode outcome option" where
  "handle_ready E clock replies rd rn =
     (case (case rd_Snapshot rd of
              None \<Rightarrow> Some (Ok rn)
            | Some sn \<Rightarrow>
                (case recoverSnapshotData E clock replies sn rn of
                   Some (Ok rn) \<Rightarrow> Some (Ok (rn\<lparr> n_storage := st_ApplySnapshot (v_st E) sn (n_storage rn) \<rparr>))
                 | r \<Rightarrow> r)) of
        Some (Ok rn) \<Rightarrow>
          (case commitEntries E clock (rd_CommittedEntries rd) rn of
             Some (Ok rn) \<Rightarrow> Some (snapshot_due E (after_commit E rd rn))
           | r \<Rightarrow> r)
      | r \<Rightarrow> r)"

section \<open>Managing the cluster\<close>

record Request =
  rq_Type :: nat
  rq_Id :: u64
  rq_Peer :: gostring

record clusterInfo =
  ci_ClusterID :: u64
  ci_Peers :: "gostring list"
  ci_LeaderID :: u64
  ci_LeaderPeer :: gostring
  ci_NodeID :: u64
  ci_NodePeer :: gostring
  ci_TotalNodeNum :: nat
  ci_MaxNodeId :: u64

text \<open>The answer's text, by what it reports.\<close>

datatype answer = NodeExists u64 | PeerExists gostring | NodeMissing u64

text \<open>
  \<open>order\<close> lists the entries of \<open>idPeer\<close> as Go ranges over them. Finding the node or the peer only ends
  that loop: the change is proposed all the same.
\<close>

fun existing :: "Request \<Rightarrow> (u64 \<times> gostring) list \<Rightarrow> answer option" where
  "existing req [] = None"
| "existing req ((k, v) # ks) =
     (if k = rq_Id req then Some (NodeExists (rq_Id req))
      else if v = rq_Peer req then Some (PeerExists (rq_Peer req))
      else existing req ks)"

definition NodeManagement ::
  "('d, 't, 'c, 's) env \<Rightarrow> bool \<Rightarrow> (u64 \<times> gostring) list \<Rightarrow> Request \<Rightarrow> ('d, 'c, 's) raftNode \<Rightarrow>
    ('d, 'c, 's) raftNode \<times> answer option" where
  "NodeManagement E leader order req rn =
     (if \<not> leader then (rn, None)
      else if rq_Type req = 0
      then (emit [ProposeConfChange \<lparr> cc_Type = 0, cc_NodeID = rq_Id req,
              cc_Context = v_js_string E (rq_Peer req) \<rparr>] rn, existing req order)
      else if rq_Type req = 1
      then if n_idPeer rn (rq_Id req) = None then (rn, Some (NodeMissing (rq_Id req)))
        else (emit [ProposeConfChange \<lparr> cc_Type = 1, cc_NodeID = rq_Id req, cc_Context = [] \<rparr>] rn, None)
      else (rn, None))"

definition GetClusterInfo :: "u64 \<Rightarrow> (u64 \<times> gostring) list \<Rightarrow> ('d, 'c, 's) raftNode \<Rightarrow> clusterInfo" where
  "GetClusterInfo lead order rn =
     (let maxid = fold (\<lambda>(k, v) m. if m <s k then k else m) order 1
      in \<lparr> ci_ClusterID = n_clusterid rn, ci_Peers = n_peers rn, ci_LeaderID = lead, ci_LeaderPeer = peer_at (n_idPeer rn) lead,
           ci_NodeID = n_id rn, ci_NodePeer = peer_at (n_idPeer rn) (n_id rn),
           ci_TotalNodeNum = length (n_peers rn), ci_MaxNodeId = maxid \<rparr>)"

text \<open>\<open>HandleNode\<close>: the management request, or the cluster's description.\<close>

definition HandleNode ::
  "('d, 't, 'c, 's) env \<Rightarrow> bool \<Rightarrow> u64 \<Rightarrow> (u64 \<times> gostring) list \<Rightarrow> Request \<Rightarrow> ('d, 'c, 's) raftNode \<Rightarrow>
    ('d, 'c, 's) raftNode \<times> answer option \<times> clusterInfo option" where
  "HandleNode E leader lead order req rn =
     (if rq_Type req \<le> 1
      then (case NodeManagement E leader order req rn of (rn, a) \<Rightarrow> (rn, a, None))
      else if rq_Type req = 2 then (rn, None, Some (GetClusterInfo lead order rn))
      else (rn, None, None))"

record ReSSnaprpc =
  rs_Done :: bool
  rs_Data :: bytes
  rs_Term :: u64
  rs_NextSnapshotIndex :: u64

text \<open>
  \<open>HandleSnap\<close> looks for the snapshot file of the requested index from the first term on. \<open>disk t i\<close> is
  \<open>None\<close> when there is no file of term \<open>t\<close> and index \<open>i\<close>, and else what loading and marshalling it
  gives. \<open>for ; term < req.MaxTerm+1; term++\<close> compares wrapped numbers.
\<close>

function snap_terms ::
  "(u64 \<Rightarrow> u64 \<Rightarrow> bytes outcome option) \<Rightarrow> u64 \<Rightarrow> u64 \<Rightarrow> u64 \<Rightarrow> ReSSnaprpc \<times> unit outcome" where
  "snap_terms disk maxt idx t =
     (if t < maxt + 1
      then (case disk t idx of
          None \<Rightarrow> snap_terms disk maxt idx (t + 1)
        | Some (Err e) \<Rightarrow> (\<lparr> rs_Done = False, rs_Data = [], rs_Term = 0, rs_NextSnapshotIndex = 0 \<rparr>, Err e)
        | Some Panic \<Rightarrow> (\<lparr> rs_Done = False, rs_Data = [], rs_Term = 0, rs_NextSnapshotIndex = 0 \<rparr>, Panic)
        | Some (Ok data) \<Rightarrow>
            if length data = 0
            then (\<lparr> rs_Done = False, rs_Data = [], rs_Term = 0, rs_NextSnapshotIndex = 0 \<rparr>, Err (ErrText ''data is 0''))
            else (\<lparr> rs_Done = True, rs_Data = data, rs_Term = t, rs_NextSnapshotIndex = idx \<rparr>, Ok ()))
      else (\<lparr> rs_Done = False, rs_Data = [], rs_Term = t, rs_NextSnapshotIndex = idx \<rparr>,
        Err (ErrText ''Can not find requested snap disk.'')))"
  by pat_completeness auto
termination
proof (relation "measure (\<lambda>(disk, maxt, idx, t). unat (maxt + 1) - unat t)", goal_cases)
  case (2 disk maxt idx t)
  then have lt: "t < maxt + 1" by simp
  then have "unat (t + 1) = Suc (unat t)" by (rule unat_succ_less)
  with lt show ?case by (simp add: word_less_nat_alt)
qed simp

declare snap_terms.simps [simp del]

definition HandleSnap ::
  "(u64 \<Rightarrow> u64 \<Rightarrow> bytes outcome option) \<Rightarrow> ReqSnaprpc \<Rightarrow> ReSSnaprpc \<times> unit outcome" where
  "HandleSnap disk req = snap_terms disk (rr_MaxTerm req) (rr_NextSnapshotIndex req) (rr_Term req)"

end
