(* ===== verification/RaftSpec.thy ===== *)
theory RaftSpec
  imports RaftSnap TxPoolSpec ChainKeys
begin

text \<open>
  What the consensus node promises: committing is monotone, skips what is committed, appends to the chain
  exactly checked blocks of the next heights, and keeps the node's height and the chain's in step, under any
  interleaving with packing and with arriving transactions.
\<close>

section \<open>A small node for the witnesses\<close>

definition raft_storage :: "(u64, nat) storage" where
  "raft_storage = \<lparr>
     st_Entries = (\<lambda>s lo hi. Ok [\<lparr> e_Term = 1, e_Index = lo, e_Type = EntryNormal, e_Data = [0] \<rparr>]),
     st_CreateSnapshot = (\<lambda>i c d s. (s, Ok \<lparr> sn_Index = i, sn_Term = 1, sn_Conf = c, sn_Data = d \<rparr>)),
     st_SaveSnap = (\<lambda>sn s. (s, Ok ())), st_Compact = (\<lambda>i s. (s, Ok ())),
     st_LastIndex = (\<lambda>s. Ok s), st_Commit = (\<lambda>s. Ok s), st_ApplySnapshot = (\<lambda>sn s. s),
     st_Save = (\<lambda>c es s. s), st_Append = (\<lambda>es s. s), st_SetHardState = (\<lambda>c s. c) \<rparr>"

text \<open>A block decodes from any data; its height is the number of bytes.\<close>

definition raft_json :: json where
  "raft_json = \<lparr> js_tx = (\<lambda>_. [2]), js_txs = (\<lambda>_. [3]), js_Blocks = (\<lambda>_. [1]),
     uj_tx = (\<lambda>_ x. (x, Ok ())), uj_Block = (\<lambda>_ x. (x, Ok ())),
     uj_Blocks = (\<lambda>data x. (x\<lparr> sHeight := of_nat (length data), sHash := replicate 32 7 \<rparr>, Ok ())),
     js_null = (\<lambda>_. False) \<rparr>"

definition raft_env :: "(mdb, mtxn, nat, u64) env" where
  "raft_env = \<lparr> v_sha256 = (\<lambda>x. x), v_sha3 = (\<lambda>x. x), v_ed = pool_ed, v_D = bgStore map_badger,
     v_T = bgTransaction map_badger, v_js = raft_json, v_ord = (\<lambda>_. []), v_range = (\<lambda>_. []), v_cfg = [],
     v_uj_cc = (\<lambda>data. \<lparr> cc_Type = 0, cc_NodeID = 2, cc_Context = data \<rparr>), v_apply_cc = (\<lambda>cc. 1),
     v_st = raft_storage, v_js_Entries = (\<lambda>es. Ok [1]), v_uj_Entries = (\<lambda>data. Err (ErrText ''json'')),
     v_uj_Snapshot = (\<lambda>data. Err (ErrText ''json'')), v_js_string = (\<lambda>x. [34] @ x @ [34]) \<rparr>"

definition raft_demo :: "(mdb, nat, u64) raftNode" where
  "raft_demo = \<lparr> n_clusterid = 4096, n_id = 1, n_addr = pool_addr, n_peers = [[65], [66]], n_idPeer = [1 \<mapsto> [65], 2 \<mapsto> [66]], n_DS = [], n_Cm = [],
     n_QTJ = [], n_pool = pool_demo, n_bc = \<lparr> bc_db = fmupd (lit ''height'') (E64func 1) pool_db, bc_cdb = fmempty \<rparr>,
     n_snapshot = Some \<lparr> sn_Index = 4, sn_Term = 1, sn_Conf = 0, sn_Data = [] \<rparr>, n_snapCount = 2, n_confState = 0, n_snapshotIndex = 4, n_committedIndex = 5, n_lastHeight = 1,
     n_storage = 5, n_log = [AddPeer 2 [66]] \<rparr>"

definition raft_entry :: "u64 \<Rightarrow> bytes \<Rightarrow> Entry" where
  "raft_entry i data = \<lparr> e_Term = 1, e_Index = i, e_Type = EntryNormal, e_Data = data \<rparr>"

lemma raft_old: "n_lastHeight rn = 1 \<Longrightarrow> n_committedIndex rn < i \<Longrightarrow> commit_entry raft_env clock (raft_entry i [0]) rn =
    Some (Ok (rn\<lparr> n_pool := pool_Filter clock (zero_Blocks\<lparr> sHeight := 1, sHash := replicate 32 7 \<rparr>) (n_pool rn),
      n_committedIndex := n_committedIndex rn + 1 \<rparr>))"
  by (simp add: commit_entry_def commit_block_def raft_entry_def raft_env_def raft_json_def Let_def not_le [symmetric])

lemma raft_committed: "\<exists>rn'. commitEntries raft_env clock [raft_entry 6 [0]] raft_demo = Some (Ok rn') \<and>
    n_committedIndex rn' = 6 \<and> n_snapshotIndex rn' = 4 \<and> n_snapCount rn' = 2 \<and> n_storage rn' = 5 \<and> n_log rn' = [AddPeer 2 [66]]"
  by (subst commitEntries.simps, subst raft_old) (simp_all add: raft_demo_def)

section \<open>Indices and heights\<close>

lemma commit_block_result:
  assumes "commit_block E clock idx b rn = Some (Ok rn')"
  shows "n_committedIndex rn' = n_committedIndex rn + 1 \<and> n_lastHeight rn' = n_lastHeight rn \<and> n_bc rn' = n_bc rn \<or>
    n_committedIndex rn' = idx \<and> n_lastHeight rn' = sHeight b \<and> sHeight b = n_lastHeight rn + 1 \<and>
      n_lastHeight rn < sHeight b"
    "n_addr rn' = n_addr rn"
  using assms
  by (auto simp: commit_block_def Let_def algebra_simps not_le
      split: if_splits option.splits outcome.splits prod.splits bool.splits)

lemma emit_fields [simp]:
  "n_committedIndex (emit as rn) = n_committedIndex rn" "n_lastHeight (emit as rn) = n_lastHeight rn"
  "n_bc (emit as rn) = n_bc rn" "n_addr (emit as rn) = n_addr rn" "n_peers (emit as rn) = n_peers rn"
  "n_idPeer (emit as rn) = n_idPeer rn" "n_pool (emit as rn) = n_pool rn"
  by (simp_all add: emit_def)

lemma updateClusterInfo_fields:
  "updateClusterInfo c k ps rn = Ok rn' \<Longrightarrow> n_committedIndex rn' = n_committedIndex rn \<and>
    n_lastHeight rn' = n_lastHeight rn \<and> n_bc rn' = n_bc rn \<and> n_addr rn' = n_addr rn"
  by (auto simp: updateClusterInfo_def obind_Ok_iff split: if_splits)

lemma apply_conf_fields:
  "apply_conf E data rn = Ok rn' \<Longrightarrow> n_lastHeight rn' = n_lastHeight rn \<and> n_bc rn' = n_bc rn \<and> n_addr rn' = n_addr rn"
  by (auto simp: apply_conf_def Let_def dest: updateClusterInfo_fields split: if_splits)

text \<open>One entry moves the committed index forward, never past the entry's.\<close>

lemma commit_entry_result:
  assumes "commit_entry E clock e rn = Some (Ok rn')"
  shows "n_committedIndex rn \<le> n_committedIndex rn'" "n_committedIndex rn' \<le> max (n_committedIndex rn) (e_Index e)"
    "n_lastHeight rn \<le> n_lastHeight rn'" "n_addr rn' = n_addr rn"
proof -
  have inc: "x \<le> x + 1 \<and> x + 1 \<le> y" if "x < y" for x y :: u64
    using succ_between [OF that] by auto
  have "n_committedIndex rn \<le> n_committedIndex rn' \<and> n_committedIndex rn' \<le> max (n_committedIndex rn) (e_Index e) \<and>
      n_lastHeight rn \<le> n_lastHeight rn' \<and> n_addr rn' = n_addr rn"
  proof (cases "n_committedIndex rn < e_Index e \<and> 0 < length (e_Data e)")
    case False
    with assms show ?thesis by (auto simp: commit_entry_def split: if_splits)
  next
    case new: True
    then have True: "\<not> e_Index e \<le> n_committedIndex rn" "0 < length (e_Data e)" by auto
    show ?thesis
    proof (cases "e_Type e")
      case EntryConfChange
      with True assms new show ?thesis
        by (auto simp: commit_entry_def obind_Ok_iff dest: apply_conf_fields split: if_splits)
    next
      case EntryNormal
      obtain b r where u: "uj_Blocks (v_js E) (e_Data e) zero_Blocks = (b, r)" by (rule prod.exhaust)
      show ?thesis
      proof (cases r)
        case (Ok x)
        with True EntryNormal u assms have "commit_block E clock (e_Index e) b rn = Some (Ok rn')"
          by (simp add: commit_entry_def)
        from commit_block_result [OF this] new inc [of "n_committedIndex rn" "e_Index e"]
        show ?thesis by (auto simp: max_def)
      qed (use True EntryNormal u assms in \<open>auto simp: commit_entry_def\<close>)
    qed
  qed
  then show "n_committedIndex rn \<le> n_committedIndex rn'" "n_committedIndex rn' \<le> max (n_committedIndex rn) (e_Index e)"
    "n_lastHeight rn \<le> n_lastHeight rn'" "n_addr rn' = n_addr rn" by simp_all
qed

lemma commitEntries_Cons_Ok:
  "commitEntries E clock (e # ents) rn = Some (Ok rn') \<longleftrightarrow>
    (\<exists>rn1. commit_entry E (clock (e_Index e)) e rn = Some (Ok rn1) \<and> commitEntries E clock ents rn1 = Some (Ok rn'))"
  by (auto split: option.splits outcome.splits)

lemma commitEntries_forward:
  "commitEntries E clock ents rn = Some (Ok rn') \<Longrightarrow>
    n_committedIndex rn \<le> n_committedIndex rn' \<and> n_lastHeight rn \<le> n_lastHeight rn' \<and> n_addr rn' = n_addr rn"
proof (induction ents arbitrary: rn)
  case (Cons e ents)
  then obtain rn1 where one: "commit_entry E (clock (e_Index e)) e rn = Some (Ok rn1)"
    and rest: "commitEntries E clock ents rn1 = Some (Ok rn')"
    unfolding commitEntries_Cons_Ok by blast
  from commit_entry_result [OF one] Cons.IH [OF rest] show ?case by auto
qed simp

text \<open>Committing never moves the committed index or the height back.\<close>

theorem commitEntries_monotone:
  assumes "commitEntries E clock ents rn = Some (Ok rn')"
  shows "n_committedIndex rn \<le> n_committedIndex rn' \<and> n_lastHeight rn \<le> n_lastHeight rn'"
  using commitEntries_forward [OF assms] by simp

theorem commitEntries_monotone_witness:
  "\<exists>rn'. commitEntries raft_env (\<lambda>_ _. 0) [raft_entry 6 [0]] raft_demo = Some (Ok rn') \<and> n_committedIndex rn' = 6 \<and>
    n_committedIndex raft_demo \<le> n_committedIndex rn'"
  using raft_committed [of "\<lambda>_ _. 0"] commitEntries_monotone by blast

section \<open>Replays\<close>

lemma commitEntries_skip_below:
  "c \<le> n_committedIndex rn \<Longrightarrow> commitEntries E clock ents rn = commitEntries E clock (filter (\<lambda>e. c < e_Index e) ents) rn"
proof (induction ents arbitrary: rn)
  case (Cons e ents)
  show ?case
  proof (cases "c < e_Index e")
    case True
    have "commitEntries E clock ents rn1 = commitEntries E clock (filter (\<lambda>e. c < e_Index e) ents) rn1"
      if "commit_entry E (clock (e_Index e)) e rn = Some (Ok rn1)" for rn1
      using Cons commit_entry_result(1) [OF that] by (meson order.trans)
    with True show ?thesis by (auto split: option.split outcome.split)
  next
    case False
    with Cons.prems have "commit_entry E (clock (e_Index e)) e rn = Some (Ok rn)"
      by (simp add: commit_entry_def)
    with False Cons show ?thesis by simp
  qed
qed simp

text \<open>C11: Entries that are already committed are skipped wherever they stand: replaying a log, or receiving
  overlapping batches, has the effect of the new entries alone.\<close>

theorem commitEntries_skips_committed:
  "commitEntries E clock ents rn = commitEntries E clock (filter (\<lambda>e. n_committedIndex rn < e_Index e) ents) rn"
  by (rule commitEntries_skip_below [OF order_refl])

section \<open>What is appended to the chain\<close>

text \<open>The block of an entry, when it is one and decodes.\<close>

definition block_of :: "('d, 't, 'c, 's) env \<Rightarrow> Entry \<Rightarrow> Blocks option" where
  "block_of E e =
     (if e_Type e = EntryNormal \<and> e_Data e \<noteq> []
      then (case uj_Blocks (v_js E) (e_Data e) zero_Blocks of (b, Ok _) \<Rightarrow> Some b | _ \<Rightarrow> None)
      else None)"

definition blocks_of :: "('d, 't, 'c, 's) env \<Rightarrow> Entry list \<Rightarrow> Blocks list" where
  "blocks_of E ents = List.map_filter (block_of E) ents"

lemma blocks_of_Cons:
  "blocks_of E [] = []"
  "blocks_of E (e # ents) = (case block_of E e of None \<Rightarrow> blocks_of E ents | Some b \<Rightarrow> b # blocks_of E ents)"
  by (simp_all add: blocks_of_def List.map_filter_simps split: option.split)

text \<open>
  One block is checked, verified and added; the chain that comes of a list of blocks. The node gives the
  addresses the checks use.
\<close>

definition adds ::
  "('d, 't, 'c, 's) env \<Rightarrow> ('d, 'c, 's) raftNode \<Rightarrow> Blocks \<Rightarrow> 'd Blockchain \<Rightarrow> 'd Blockchain \<Rightarrow> bool" where
  "adds E rn b bc bc' \<longleftrightarrow> (\<exists>bc1 d. checkBlock E b (rn\<lparr> n_bc := bc \<rparr>) = Some (bc1, Ok True) \<and>
     VerifyBlcok (v_sha256 E) (v_ed E) (v_D E) (v_T E) (v_js E) (v_cfg E) b (bc_db bc1) = Some (d, Ok True) \<and>
     CommitBlock E b (n_addr rn) (bc1\<lparr> bc_db := d \<rparr>) = (bc', Ok ()))"

fun appended ::
  "('d, 't, 'c, 's) env \<Rightarrow> ('d, 'c, 's) raftNode \<Rightarrow> Blocks list \<Rightarrow> 'd Blockchain \<Rightarrow> 'd Blockchain \<Rightarrow> bool" where
  "appended E rn [] bc bc' \<longleftrightarrow> bc' = bc"
| "appended E rn (b # bs) bc bc' \<longleftrightarrow> (\<exists>bc1. adds E rn b bc bc1 \<and> appended E rn bs bc1 bc')"

definition same_config :: "('d, 'c, 's) raftNode \<Rightarrow> ('d, 'c, 's) raftNode \<Rightarrow> bool" where
  "same_config rn rn' \<longleftrightarrow> n_addr rn' = n_addr rn \<and> n_DS rn' = n_DS rn \<and> n_Cm rn' = n_Cm rn \<and> n_QTJ rn' = n_QTJ rn"

lemma adds_same_config: "same_config rn rn' \<Longrightarrow> adds E rn' = adds E rn"
  by (simp add: adds_def same_config_def checkBlock_def fun_eq_iff)

lemma appended_same_config: "same_config rn rn' \<Longrightarrow> appended E rn' bs bc bc' = appended E rn bs bc bc'"
  by (induction bs arbitrary: bc) (simp_all add: adds_same_config)

lemma apply_conf_config:
  "apply_conf E data rn = Ok rn' \<Longrightarrow> n_bc rn' = n_bc rn \<and> n_lastHeight rn' = n_lastHeight rn \<and> same_config rn rn'"
  by (auto simp: apply_conf_def Let_def updateClusterInfo_def obind_Ok_iff same_config_def emit_def split: if_splits)

lemma commit_block_adds:
  assumes "commit_block E clock idx b rn = Some (Ok rn')"
  shows "same_config rn rn'" "sHeight b \<le> n_lastHeight rn'"
    "n_bc rn' = n_bc rn \<and> n_lastHeight rn' = n_lastHeight rn \<or>
     adds E rn b (n_bc rn) (n_bc rn') \<and> n_lastHeight rn' = n_lastHeight rn + 1 \<and> sHeight b = n_lastHeight rn + 1"
proof -
  have "same_config rn rn' \<and> sHeight b \<le> n_lastHeight rn' \<and>
    (n_bc rn' = n_bc rn \<and> n_lastHeight rn' = n_lastHeight rn \<or>
     adds E rn b (n_bc rn) (n_bc rn') \<and> n_lastHeight rn' = n_lastHeight rn + 1 \<and> sHeight b = n_lastHeight rn + 1)"
  proof (cases "sHeight b \<le> n_lastHeight rn")
    case True
    with assms show ?thesis by (auto simp: commit_block_def Let_def same_config_def)
  next
    case False
    with assms have nxt: "sHeight b = n_lastHeight rn + 1"
      by (auto simp: commit_block_def Let_def algebra_simps split: if_splits)
    with False assms obtain bc1 d bc2 where
      c: "checkBlock E b rn = Some (bc1, Ok True)"
      "VerifyBlcok (v_sha256 E) (v_ed E) (v_D E) (v_T E) (v_js E) (v_cfg E) b (bc_db bc1) = Some (d, Ok True)"
      "CommitBlock E b (n_addr rn) (bc1\<lparr> bc_db := d \<rparr>) = (bc2, Ok ())"
      and rn': "rn' = rn\<lparr> n_pool := pool_Filter clock b (n_pool rn), n_bc := bc2, n_lastHeight := sHeight b, n_committedIndex := idx \<rparr>"
      by (auto simp: commit_block_def Let_def checkBlock_def split: if_splits option.splits outcome.splits prod.splits bool.splits)
    then have "adds E rn b (n_bc rn) bc2" unfolding adds_def by auto
    with nxt rn' show ?thesis by (simp add: same_config_def)
  qed
  then show "same_config rn rn'" "sHeight b \<le> n_lastHeight rn'"
    "n_bc rn' = n_bc rn \<and> n_lastHeight rn' = n_lastHeight rn \<or>
     adds E rn b (n_bc rn) (n_bc rn') \<and> n_lastHeight rn' = n_lastHeight rn + 1 \<and> sHeight b = n_lastHeight rn + 1" by simp_all
qed

text \<open>One new entry appends its block or nothing.\<close>

lemma commit_entry_adds:
  assumes "commit_entry E clock e rn = Some (Ok rn')" "n_committedIndex rn < e_Index e"
  shows "same_config rn rn' \<and> (\<forall>b. block_of E e = Some b \<longrightarrow> sHeight b \<le> n_lastHeight rn') \<and>
    (n_bc rn' = n_bc rn \<and> n_lastHeight rn' = n_lastHeight rn \<or>
     (\<exists>b. block_of E e = Some b \<and> adds E rn b (n_bc rn) (n_bc rn') \<and> n_lastHeight rn' = n_lastHeight rn + 1 \<and>
       sHeight b = n_lastHeight rn + 1))"
proof (cases "block_of E e")
  case None
  obtain b r where "uj_Blocks (v_js E) (e_Data e) zero_Blocks = (b, r)" by (rule prod.exhaust)
  with None assms show ?thesis
    by (cases r; cases "e_Type e")
      (auto simp: block_of_def commit_entry_def obind_Ok_iff same_config_def dest: apply_conf_config split: if_splits)
next
  case (Some b)
  then have "commit_block E clock (e_Index e) b rn = Some (Ok rn')"
    using assms by (auto simp: block_of_def commit_entry_def split: if_splits prod.splits outcome.splits)
  from commit_block_adds [OF this] Some show ?thesis by auto
qed

text \<open>C10: What committing does to the chain. When entries in the order of their indices are committed without
  a panic, the blocks that were appended are some of the blocks of the new entries, in their order; each had
  the height next to the chain's, passed both checks against the chain as it then was, and was added; nothing
  else changed the chain, and the height went up by their number. No block was passed over: every block of a
  new entry is at most as high as the chain is at the end.\<close>

theorem commitEntries_appends:
  assumes "sorted_wrt (\<lambda>e f. e_Index e < e_Index f) ents" "commitEntries E clock ents rn = Some (Ok rn')"
  defines "new \<equiv> blocks_of E (filter (\<lambda>e. n_committedIndex rn < e_Index e) ents)"
  shows "\<exists>bs. subseq bs new \<and> appended E rn bs (n_bc rn) (n_bc rn') \<and>
    map sHeight bs = map (\<lambda>i. n_lastHeight rn + 1 + of_nat i) [0..<length bs] \<and>
    n_lastHeight rn' = n_lastHeight rn + of_nat (length bs) \<and> (\<forall>b \<in> set new. sHeight b \<le> n_lastHeight rn')"
  using assms(1,2) unfolding new_def
proof (induction ents arbitrary: rn)
  case Nil
  then show ?case by (intro exI [of _ "[]"]) (simp add: blocks_of_Cons)
next
  case (Cons e ents)
  obtain rn1 where one: "commit_entry E (clock (e_Index e)) e rn = Some (Ok rn1)"
    and rest: "commitEntries E clock ents rn1 = Some (Ok rn')"
    using Cons.prems(2) unfolding commitEntries_Cons_Ok by blast
  let ?new = "\<lambda>rn. filter (\<lambda>e. n_committedIndex rn < e_Index e) ents"
  have later: "n_lastHeight rn1 \<le> n_lastHeight rn'" using commitEntries_forward [OF rest] by simp
  have sorted: "sorted_wrt (\<lambda>e f. e_Index e < e_Index f) ents" using Cons.prems(1) by simp
  obtain bs where bs: "subseq bs (blocks_of E (?new rn1))" "appended E rn1 bs (n_bc rn1) (n_bc rn')"
    "map sHeight bs = map (\<lambda>i. n_lastHeight rn1 + 1 + of_nat i) [0..<length bs]"
    "n_lastHeight rn' = n_lastHeight rn1 + of_nat (length bs)"
    "\<forall>b \<in> set (blocks_of E (?new rn1)). sHeight b \<le> n_lastHeight rn'"
    using Cons.IH [OF sorted rest] by blast
  show ?case
  proof (cases "n_committedIndex rn < e_Index e")
    case False
    then have "rn1 = rn" using one by (simp add: commit_entry_def not_less)
    with False bs show ?thesis by auto
  next
    case True
    have same: "?new rn1 = ?new rn"
    proof (rule filter_cong [OF refl])
      fix f assume "f \<in> set ents"
      then have "e_Index e < e_Index f" using Cons.prems(1) by simp
      with True commit_entry_result(2) [OF one] show "n_committedIndex rn1 < e_Index f \<longleftrightarrow> n_committedIndex rn < e_Index f"
        by (auto simp: max_def split: if_splits)
    qed
    note step = commit_entry_adds [OF one True]
    then have cfg: "appended E rn1 bs = appended E rn bs" by (simp add: appended_same_config fun_eq_iff)
    from step show ?thesis
    proof (elim conjE disjE exE)
      assume keep: "n_bc rn1 = n_bc rn" "n_lastHeight rn1 = n_lastHeight rn"
        and old: "\<forall>b. block_of E e = Some b \<longrightarrow> sHeight b \<le> n_lastHeight rn1"
      show ?thesis
        using bs old later keep True unfolding same cfg
        by (intro exI [of _ bs]) (auto simp: blocks_of_Cons split: option.split)
    next
      fix b assume b: "block_of E e = Some b" "adds E rn b (n_bc rn) (n_bc rn1)"
        "n_lastHeight rn1 = n_lastHeight rn + 1" "sHeight b = n_lastHeight rn + 1"
      have "map sHeight (b # bs) = map (\<lambda>i. n_lastHeight rn + 1 + of_nat i) [0..<length (b # bs)]"
        using bs(3) b(3,4) unfolding length_Cons
        by (simp only: list.map upt_conv_Cons zero_less_Suc map_Suc_upt [symmetric] map_map) (simp add: algebra_simps)
      with bs b later True show ?thesis
        unfolding same cfg
        by (intro exI [of _ "b # bs"]) (auto simp: blocks_of_Cons algebra_simps)
    qed
  qed
qed

text \<open>A block of the next height with the rewards that are due, and a node that commits it.\<close>

definition next_block :: Blocks where
  "next_block = zero_Blocks\<lparr> sHeight := 2, sHash := replicate 32 7, sMiner := [3], sFirstTx :=
     [\<lparr> mAmount = block_reward 2 * 2 div 10, mRecAddress = [1] \<rparr>, \<lparr> mAmount = block_reward 2 * 4 div 10, mRecAddress = [3] \<rparr>,
      \<lparr> mAmount = block_reward 2 * 4 div 10, mRecAddress = [2] \<rparr>] \<rparr>"

definition next_env :: "(mdb, mtxn, nat, u64) env" where
  "next_env = raft_env\<lparr> v_js := raft_json\<lparr> uj_Blocks := \<lambda>_ _. (next_block, Ok ()) \<rparr> \<rparr>"

definition next_demo :: "(mdb, nat, u64) raftNode" where
  "next_demo = raft_demo\<lparr> n_DS := [1], n_Cm := [2], n_QTJ := lit ''Kto'' \<rparr>"

lemma next_block_checked: "checkBlock next_env next_block (next_demo\<lparr> n_pool := p \<rparr>) = Some (n_bc next_demo, Ok True)"
proof -
  have "Distr ed [] [3] [1] [2] (lit ''Kto'') 2 = Ok (sFirstTx next_block)" for ed
    by (simp add: Distr_def AddrTopub_def lit_def slice_from_def Let_def next_block_def)
  moreover have "sTxs next_block = []" "sMiner next_block = [3]" "sHeight next_block = 2"
    by (simp_all add: next_block_def zero_Blocks_def)
  ultimately show ?thesis
    by (simp add: checkBlock_def Checkresults_def Calculationresults_def blocks_change_def Let_def rewards_match_def
        list_all_iff next_demo_def aret_def abind_def)
qed

lemma next_committed: "\<exists>rn'. commitEntries next_env clock [raft_entry 6 [0]] next_demo = Some (Ok rn') \<and> n_lastHeight rn' = 2"
proof -
  have "sTxs next_block = []" "block_keys next_block pool_addr"
    using pool_addr_facts(4) by (auto simp: next_block_def zero_Blocks_def block_keys_def)
  moreover have "fmlookup (bc_db (n_bc next_demo)) (lit ''height'') = Some (E64func 1)"
    by (simp add: next_demo_def raft_demo_def)
  ultimately have add: "snd (AddBlock (bgStore map_badger) (bgTransaction map_badger) (v_js next_env) ord next_block pool_addr (n_bc next_demo)) = Ok ()"
    for ord by (intro ms.AddBlock_runs [where h = 1]) simp_all
  obtain bc r where bc: "CommitBlock next_env next_block pool_addr (n_bc next_demo) = (bc, r)" by (rule prod.exhaust)
  then have "r = Ok ()" using add [of "v_ord next_env"] by (simp add: CommitBlock_def next_env_def raft_env_def)
  moreover have "VerifyBlcok sha ed D T js cfg next_block d = Some (d, Ok True)" for sha ed js cfg d and D :: "(mdb, mtxn) DB" and T
    using \<open>sTxs next_block = []\<close> by (simp add: VerifyBlcok_def)
  moreover have "sHeight next_block = 2" "n_lastHeight next_demo = 1" "n_addr next_demo = pool_addr" "n_committedIndex next_demo = 5"
    by (simp_all add: next_block_def next_demo_def raft_demo_def)
  ultimately show ?thesis
    using bc next_block_checked
    by (simp add: commit_entry_def commit_block_def raft_entry_def Let_def next_env_def) (simp add: word_le_nat_alt)
qed

theorem commitEntries_appends_witness:
  "\<exists>rn'. commitEntries next_env (\<lambda>_ _. 0) [raft_entry 6 [0]] next_demo = Some (Ok rn') \<and>
    appended next_env next_demo [next_block] (n_bc next_demo) (n_bc rn')"
proof -
  obtain rn' where c: "commitEntries next_env (\<lambda>_ _. 0) [raft_entry 6 [0]] next_demo = Some (Ok rn')" "n_lastHeight rn' = 2"
    using next_committed by blast
  have new: "blocks_of next_env (filter (\<lambda>e. n_committedIndex next_demo < e_Index e) [raft_entry 6 [0]]) = [next_block]"
    by (simp add: blocks_of_Cons block_of_def raft_entry_def next_demo_def raft_demo_def next_env_def)
  obtain bs where "subseq bs [next_block]" "appended next_env next_demo bs (n_bc next_demo) (n_bc rn')"
    "n_lastHeight rn' = n_lastHeight next_demo + of_nat (length bs)"
    using commitEntries_appends [OF _ c(1)] unfolding new by auto
  moreover have "n_lastHeight next_demo = 1" by (simp add: next_demo_def raft_demo_def)
  ultimately have "bs = [next_block]" using c(2) by (cases bs) (auto split: if_splits)
  with c \<open>appended next_env next_demo bs (n_bc next_demo) (n_bc rn')\<close> show ?thesis by blast
qed

section \<open>A gap in the heights\<close>

text \<open>A decoded block that is further ahead than the next height stops the node.\<close>

theorem commit_gap_panics:
  assumes "n_committedIndex rn < e_Index e" "e_Type e = EntryNormal" "e_Data e \<noteq> []"
    "uj_Blocks (v_js E) (e_Data e) zero_Blocks = (b, Ok ())" "n_lastHeight rn < sHeight b" "sHeight b \<noteq> n_lastHeight rn + 1"
  shows "commitEntries E clock (e # ents) rn = Some Panic"
proof -
  have "\<not> e_Index e \<le> n_committedIndex rn" "\<not> sHeight b \<le> n_lastHeight rn" "sHeight b - n_lastHeight rn \<noteq> 1"
    using assms by (auto simp: algebra_simps)
  with assms show ?thesis by (simp add: commit_entry_def commit_block_def Let_def)
qed

theorem commit_gap_panics_witness:
  "commitEntries raft_env (\<lambda>_ _. 0) [raft_entry 6 [0, 0, 0]] raft_demo = Some Panic"
  by (rule commit_gap_panics [where b = "zero_Blocks\<lparr> sHeight := 3, sHash := replicate 32 7 \<rparr>"])
    (simp_all add: raft_demo_def raft_entry_def raft_env_def raft_json_def)

section \<open>The chain's height and the node's\<close>

text \<open>Reading changes no key but those of the senders' nonces.\<close>

definition only_nonces :: "(bytes \<Rightarrow> bytes option) \<Rightarrow> (bytes \<Rightarrow> bytes option) \<Rightarrow> bool" where
  "only_nonces c c' = (\<forall>k. (\<forall>a. k \<noteq> nonce_key a) \<longrightarrow> c' k = c k)"

lemma only_nonces_refl [simp]: "only_nonces c c"
  by (simp add: only_nonces_def)

lemma only_nonces_trans [trans]: "only_nonces c c' \<Longrightarrow> only_nonces c' c'' \<Longrightarrow> only_nonces c c''"
  by (simp add: only_nonces_def)

lemma only_nonces_height: "only_nonces c c' \<Longrightarrow> c' (lit ''height'') = c (lit ''height'')"
proof -
  have "lit ''height'' \<noteq> nonce_key a" for a
    by (simp add: nonce_key_def eMapKey_def lit_def)
  then show "only_nonces c c' \<Longrightarrow> c' (lit ''height'') = c (lit ''height'')"
    by (simp add: only_nonces_def)
qed

text \<open>The node's height is the chain's.\<close>

definition in_step_with_chain :: "('d \<Rightarrow> bytes \<Rightarrow> bytes option) \<Rightarrow> ('d, 'c, 's) raftNode \<Rightarrow> bool" where
  "in_step_with_chain st rn \<longleftrightarrow> st (bc_db (n_bc rn)) (lit ''height'') = Some (E64func (n_lastHeight rn))"

text \<open>The blocks the entries decode to have hashes and addresses of their proper lengths.\<close>

definition shaped_entries :: "('d, 't, 'c, 's) env \<Rightarrow> gostring \<Rightarrow> Entry list \<Rightarrow> bool" where
  "shaped_entries E addr ents \<longleftrightarrow> (\<forall>e \<in> set ents. \<forall>b.
     uj_Blocks (v_js E) (e_Data e) zero_Blocks = (b, Ok ()) \<longrightarrow> block_shape b addr)"

text \<open>So do the entries in a snapshot, and in what the leader answers.\<close>

definition shaped_snapshot :: "('d, 't, 'c, 's) env \<Rightarrow> gostring \<Rightarrow> 'c snapshot \<Rightarrow> bool" where
  "shaped_snapshot E addr sn \<longleftrightarrow> (\<forall>ents. v_uj_Entries E (sn_Data sn) = Ok ents \<longrightarrow> shaped_entries E addr ents)"

definition shaped_reply :: "('d, 't, 'c, 's) env \<Rightarrow> gostring \<Rightarrow> reply \<Rightarrow> bool" where
  "shaped_reply E addr r \<longleftrightarrow>
    (\<forall>data sn. r = Done data \<longrightarrow> v_uj_Snapshot E data = Ok sn \<longrightarrow> shaped_snapshot E addr sn)"

definition shaped_ready :: "('d, 't, 'c, 's) env \<Rightarrow> gostring \<Rightarrow> (nat \<Rightarrow> ReqSnaprpc \<Rightarrow> reply) \<Rightarrow> 'c Ready \<Rightarrow> bool" where
  "shaped_ready E addr replies rd \<longleftrightarrow> (\<forall>j req. shaped_reply E addr (replies j req)) \<and>
    (\<forall>sn. rd_Snapshot rd = Some sn \<longrightarrow> shaped_snapshot E addr sn) \<and> shaped_entries E addr (rd_CommittedEntries rd)"

lemma snapEntries_sub: "snapEntriesToApply ci ents = Ok es \<Longrightarrow> set es \<subseteq> set ents"
  by (auto simp: snapEntriesToApply_def slice_from_def split: if_splits dest: in_set_dropD)

lemma shaped_entries_sub: "shaped_entries E addr ents \<Longrightarrow> set es \<subseteq> set ents \<Longrightarrow> shaped_entries E addr es"
  by (auto simp: shaped_entries_def)

lemma unMarshal_Ok: "unMarshalSnapData E data = Ok ents \<Longrightarrow> v_uj_Entries E data = Ok ents \<and> ents \<noteq> []"
  by (auto simp: unMarshalSnapData_def obind_Ok_iff split: if_splits)

lemma snap_entries_shaped:
  assumes "shaped_snapshot E addr sn" "unMarshalSnapData E (sn_Data sn) = Ok ents" "snapEntriesToApply ci ents = Ok es"
  shows "shaped_entries E addr es"
  using assms(1) unMarshal_Ok [OF assms(2)] snapEntries_sub [OF assms(3)]
  by (auto simp: shaped_snapshot_def intro: shaped_entries_sub)

text \<open>Steps that only touch the storage, the snapshot and the indices.\<close>

definition same_chain :: "('d, 'c, 's) raftNode \<Rightarrow> ('d, 'c, 's) raftNode \<Rightarrow> bool" where
  "same_chain rn rn' \<longleftrightarrow> n_bc rn' = n_bc rn \<and> n_lastHeight rn' = n_lastHeight rn \<and> n_addr rn' = n_addr rn"

lemma same_chain_simps [simp]:
  "same_chain rn (rn\<lparr> n_storage := s \<rparr>)" "same_chain rn (rn\<lparr> n_committedIndex := i \<rparr>)" "same_chain rn (adopt_snapshot sn rn)"
  "same_chain rn (after_commit E rd rn)" "same_chain rn rn" "same_chain rn (emit as rn)"
  by (simp_all add: same_chain_def adopt_snapshot_def after_commit_def Let_def)

lemma same_chain_trans [trans]: "same_chain a b \<Longrightarrow> same_chain b c \<Longrightarrow> same_chain a c"
  by (simp add: same_chain_def)

lemma same_chain_in_step: "same_chain rn rn' \<Longrightarrow> in_step_with_chain st rn \<Longrightarrow> in_step_with_chain st rn' \<and> n_addr rn' = n_addr rn"
  by (simp add: same_chain_def in_step_with_chain_def)

lemma saveSnap_same_chain: "same_chain rn (fst (saveSnap E sn rn))"
  by (simp add: saveSnap_def split: prod.split)

lemma maybeTriggerSnapshot_same_chain: "same_chain rn (fst (maybeTriggerSnapshot E i rn))"
  by (auto simp: maybeTriggerSnapshot_def same_chain_def split: outcome.split prod.split)

lemma snapshot_due_same_chain: "snapshot_due E rn = Ok rn' \<Longrightarrow> same_chain rn rn'"
  using maybeTriggerSnapshot_same_chain [of rn E "n_committedIndex rn - n_committedIndex rn mod n_snapCount rn"]
  by (auto simp: snapshot_due_def split: if_splits prod.splits outcome.splits)

context store_tx begin

lemma reads_keep:
  "stored (fst (GetBalance D T a d)) = stored d" "stored (fst (GetLockBalance D T a d)) = stored d"
  "stored (fst (Height D T d)) = stored d"
  by (simp_all add: GetBalance_def GetLockBalance_def Height_def read_commit_done)

lemma GetNonce_nonces: "only_nonces (stored d) (stored (fst (GetNonce D T a d)))"
  by (auto simp: only_nonces_def GetNonce_done)

lemma SetNonce_nonces: "only_nonces (stored d) (stored (fst (SetNonce D T a n d)))"
  by (auto simp: only_nonces_def SetNonce_done)

lemma verify_nonces: "only_nonces (stored d) (stored (fst (verify ed D T cfg tx d)))"
proof -
  let ?a = "AddressToByte (tFrom tx)"
  let ?r = "case GetNonce D T ?a d of (d, Ok n) \<Rightarrow> (d, Ok n) | (d, Panic) \<Rightarrow> (d, Panic)
    | (d, Err e) \<Rightarrow> abind (SetNonce D T ?a 1) (\<lambda>_. aret 1) d"
  obtain d1 r1 where r: "?r = (d1, r1)" by (rule prod.exhaust)
  obtain d0 g where g: "GetNonce D T ?a d = (d0, g)" by (rule prod.exhaust)
  obtain d5 s5 where sn: "SetNonce D T ?a 1 d0 = (d5, s5)" by (rule prod.exhaust)
  have "only_nonces (stored d) (stored d0)" using GetNonce_nonces [of d ?a] by (simp add: g)
  moreover have "only_nonces (stored d0) (stored d5)" using SetNonce_nonces [of d0 ?a 1] by (simp add: sn)
  ultimately have d1: "only_nonces (stored d) (stored d1)"
    using r by (auto simp: g sn abind_def aret_def intro: only_nonces_trans split: outcome.splits)
  obtain d2 rb where b: "GetBalance D T ?a d1 = (d2, rb)" by (rule prod.exhaust)
  obtain d3 rl where l: "GetLockBalance D T ?a d2 = (d3, rl)" by (rule prod.exhaust)
  have same: "stored d2 = stored d1" "stored d3 = stored d1"
    using reads_keep(1) [of ?a d1] reads_keep(2) [of ?a d2] b l by auto
  have "fst (verify ed D T cfg tx d) \<in> {d, d1, d2, d3}"
    unfolding verify_def Let_def r
    by (cases "verify_signed ed tx"; cases r1; cases rb) (auto simp: b l split: bool.split)
  with d1 same show ?thesis by auto
qed

lemma verify_all_nonces: "only_nonces (stored d) (stored (fst (verify_all ed D T cfg txs d)))"
proof (induction txs arbitrary: d)
  case (Cons tx txs)
  obtain d1 r where v: "verify ed D T cfg tx d = (d1, r)" by (rule prod.exhaust)
  have "only_nonces (stored d) (stored d1)" using verify_nonces [of d ed cfg tx] by (simp add: v)
  with Cons.IH [of d1] show ?case
    by (auto simp: v intro: only_nonces_trans split: outcome.split)
qed simp

lemma VerifyBlcok_nonces:
  "VerifyBlcok sha256 ed D T js cfg b d = Some (d', r) \<Longrightarrow> only_nonces (stored d) (stored d')"
  using verify_all_nonces [of d ed cfg "sTxs b"]
  by (auto simp: VerifyBlcok_def split: if_splits option.splits outcome.splits bool.splits)

lemma calc_txs_keeps: "stored (fst (calc_txs D T txs res d)) = stored d"
proof (induction txs arbitrary: res d)
  case (Cons tx txs)
  have f: "stored (fst (calc_from D T tx res d)) = stored d" for res d
    using reads_keep(1) [of "AddressToByte (tFrom tx)" d]
    by (cases "GetBalance D T (AddressToByte (tFrom tx)) d") (auto simp: calc_from_def Let_def split: option.split)
  have t: "stored (fst (calc_to D T tx res d)) = stored d" for res d
    using reads_keep(1) [of "AddressToByte (tTo tx)" d]
    by (cases "GetBalance D T (AddressToByte (tTo tx)) d") (auto simp: calc_to_def split: option.split)
  obtain d1 r1 where c1: "calc_from D T tx res d = (d1, r1)" by (rule prod.exhaust)
  show ?case
  proof (cases r1)
    case (Ok res1)
    obtain d2 r2 where c2: "calc_to D T tx res1 d1 = (d2, r2)" by (rule prod.exhaust)
    show ?thesis
      using f [of res d] t [of res1 d1] c1 c2 Ok Cons.IH by (cases r2) (simp_all add: abind_def)
  qed (use f [of res d] c1 in \<open>simp_all add: abind_def\<close>)
qed simp

lemma Calculationresults_keeps: "stored (fst (Calculationresults D T b d)) = stored d"
  using calc_txs_keeps [of "bTxs b" "bTxres b" d]
  by (cases "calc_txs D T (bTxs b) (bTxres b) d"; cases "snd (calc_txs D T (bTxs b) (bTxres b) d)")
    (auto simp: Calculationresults_def abind_def aret_def)

lemma Checkresults_keeps:
  "Checkresults sha3 ed D T b Ds Cm qtj bc = Some (bc', r) \<Longrightarrow> stored (bc_db bc') = stored (bc_db bc)"
  using Calculationresults_keeps [of "blocks_change b" "bc_db bc"]
  by (auto simp: Checkresults_def Let_def split: prod.splits outcome.splits option.splits)

lemma commit_block_in_step:
  assumes "v_D E = D" "v_T E = T" "commit_block E clock idx b rn = Some (Ok rn')"
    "in_step_with_chain stored rn" "block_shape b (n_addr rn)"
  shows "in_step_with_chain stored rn'"
proof (cases "n_bc rn' = n_bc rn \<and> n_lastHeight rn' = n_lastHeight rn")
  case True
  with assms(4) show ?thesis by (simp add: in_step_with_chain_def)
next
  case False
  with commit_block_result(1) [OF assms(3)] have h: "n_lastHeight rn' = sHeight b" "sHeight b = n_lastHeight rn + 1"
    "n_lastHeight rn < sHeight b" by auto
  let ?rn = "rn\<lparr> n_pool := pool_Filter clock b (n_pool rn) \<rparr>"
  from assms(3) h False obtain bc d where
    c: "Checkresults (v_sha3 E) (v_ed E) D T b (n_DS rn) (n_Cm rn) (n_QTJ rn) (n_bc rn) = Some (bc, Ok True)"
    and v: "VerifyBlcok (v_sha256 E) (v_ed E) D T (v_js E) (v_cfg E) b (bc_db bc) = Some (d, Ok True)"
    and a: "AddBlock D T (v_js E) (v_ord E) b (n_addr rn) (bc\<lparr> bc_db := d \<rparr>) = (n_bc rn', Ok ())"
    by (auto simp: commit_block_def checkBlock_def CommitBlock_def Let_def assms(1,2)
        split: if_splits option.splits outcome.splits prod.splits bool.splits)
  have "stored d (lit ''height'') = Some (E64func (n_lastHeight rn))"
    using only_nonces_height [OF VerifyBlcok_nonces [OF v]] Checkresults_keeps [OF c] assms(4)
    by (simp add: in_step_with_chain_def)
  then have old: "stored (bc_db (bc\<lparr> bc_db := d \<rparr>)) (lit ''height'') = Some (E64func (n_lastHeight rn))" by simp
  obtain txs' where t: "list_all2 noted (sTxs b) txs'"
    "stored (bc_db (n_bc rn')) = block_effect (v_js E) b (n_addr rn) (n_lastHeight rn + 1) txs' (stored d)"
    using AddBlock_done [OF _ assms(5) old, of "v_js E" "v_ord E"] a by auto
  show ?thesis
    using block_effect_lookup(1) [OF assms(5) t(1)] h by (simp add: in_step_with_chain_def t(2))
qed

lemma commit_entry_in_step:
  assumes "v_D E = D" "v_T E = T" "commit_entry E clock e rn = Some (Ok rn')"
    "in_step_with_chain stored rn" "shaped_entries E (n_addr rn) [e]"
  shows "in_step_with_chain stored rn'"
proof (cases "e_Type e = EntryNormal \<and> \<not> e_Index e \<le> n_committedIndex rn \<and> 0 < length (e_Data e)")
  case True
  obtain b r where u: "uj_Blocks (v_js E) (e_Data e) zero_Blocks = (b, r)" by (rule prod.exhaust)
  show ?thesis
  proof (cases r)
    case (Ok x)
    with True u assms(3,5) commit_block_in_step [OF assms(1,2) _ assms(4)] show ?thesis
      by (auto simp: commit_entry_def shaped_entries_def)
  qed (use True u assms(3,4) in \<open>auto simp: commit_entry_def\<close>)
next
  case False
  with assms(3,4) show ?thesis
    by (cases "e_Type e")
      (auto simp: commit_entry_def in_step_with_chain_def obind_Ok_iff dest: apply_conf_fields split: if_splits)
qed

lemma commitEntries_in_step:
  "v_D E = D \<Longrightarrow> v_T E = T \<Longrightarrow> commitEntries E clock ents rn = Some (Ok rn') \<Longrightarrow>
    in_step_with_chain stored rn \<Longrightarrow> shaped_entries E (n_addr rn) ents \<Longrightarrow> in_step_with_chain stored rn'"
proof (induction ents arbitrary: rn)
  case (Cons e ents)
  then obtain rn1 where one: "commit_entry E (clock (e_Index e)) e rn = Some (Ok rn1)"
    and rest: "commitEntries E clock ents rn1 = Some (Ok rn')"
    unfolding commitEntries_Cons_Ok by blast
  have "shaped_entries E (n_addr rn) [e]" "shaped_entries E (n_addr rn1) ents"
    using Cons.prems(5) commit_entry_result(4) [OF one] by (auto simp: shaped_entries_def)
  with Cons.IH [OF Cons.prems(1,2) rest] commit_entry_in_step [OF Cons.prems(1,2) one Cons.prems(4)] show ?case by blast
qed simp

section \<open>Packing and receiving leave the chain\<close>

lemma pend_balance_keeps: "stored (snd (fst (pend_balance D T tx (p, d)))) = stored d"
proof -
  let ?a = "AddressToByte (tFrom tx)"
  obtain d1 rb where b: "GetBalance D T ?a d = (d1, rb)" by (rule prod.exhaust)
  obtain d2 rl where l: "GetLockBalance D T ?a d1 = (d2, rl)" by (rule prod.exhaust)
  show ?thesis
    using reads_keep(1) [of ?a d] reads_keep(2) [of ?a d1] b l
    by (simp add: pend_balance_def Let_def)
qed

lemma pend_one_nonces:
  assumes "pend_one sha3 D T cd tx (p, d) = Some (Ok (p', d'))"
  shows "only_nonces (stored d) (stored d')"
  using assms
proof (cases rule: pend_one_cases)
  case (low rn)
  then show ?thesis using GetNonce_nonces [of d "tFrom tx"] by simp
next
  case (poor d1 rn s)
  then show ?thesis using GetNonce_nonces [of d "tFrom tx"] pend_balance_keeps [of tx p d1] by simp
next
  case (kept d1 rn s pb)
  then show ?thesis using GetNonce_nonces [of d "tFrom tx"] pend_balance_keeps [of tx p d1] by simp
next
  case (accept d1 rn s pb)
  then show ?thesis using GetNonce_nonces [of d "tFrom tx"] pend_balance_keeps [of tx p d1] by simp
qed

lemma Pendings_nonces:
  assumes "Pendings sha3 D T clock (p, bc) = Some (Ok (p', bc'))"
  shows "only_nonces (stored (bc_db bc)) (stored (bc_db bc'))"
proof -
  obtain l p1 where loop: "pend_loop sha3 D T (bc_cdb bc) (p_List p) (p, bc_db bc) = Some (Ok (l, p1, bc_db bc'))"
    by (rule Pendings_loop [OF assms])
  let ?Inv = "\<lambda>s. only_nonces (stored (bc_db bc)) (stored (snd s))"
  have "?Inv (p1, bc_db bc') \<and> mset l \<subseteq># mset (p_List p)"
  proof (rule pend_loop_invariant [OF loop])
    show "?Inv s'" if "?Inv s" "pend_one sha3 D T (bc_cdb bc) tx s = Some (Ok s')" for tx s s'
      using pend_one_nonces [of sha3 "bc_cdb bc" tx "fst s" "snd s" "fst s'" "snd s'"] that
      by (auto intro: only_nonces_trans)
  qed simp
  then show ?thesis by simp
qed

lemma NewBlock_keeps:
  "NewBlock sha256 sha3 ed D T js now tr a Ds Cm Q d = Some (d', r) \<Longrightarrow> stored d' = stored d"
  using read_commit_done(1) [of "\<lambda>tx. obind (tx_Get T tx (lit ''height'')) D64func" d]
  by (auto simp: NewBlock_def Let_def split: prod.splits outcome.splits option.splits)

lemma PackBlock_nonces:
  assumes "v_D E = D" "v_T E = T" "PackBlock E clock now a Ds Cm Q (p, bc) = Some ((p', bc'), r)"
  shows "only_nonces (stored (bc_db bc)) (stored (bc_db bc'))"
proof -
  consider "bc' = bc"
    | p1 bc1 d r1 where "Pendings (v_sha3 E) D T clock (p, bc) = Some (Ok (p1, bc1))"
      "NewBlock (v_sha256 E) (v_sha3 E) (v_ed E) D T (v_js E) now (p_Pending p1) a Ds Cm Q (bc_db bc1) = Some (d, r1)"
      "bc_db bc' = d"
    using assms(3)
    by (auto simp: PackBlock_def assms(1,2) split: option.splits outcome.splits prod.splits)
  then show ?thesis
  proof cases
    case 2
    with Pendings_nonces [OF 2(1)] NewBlock_keeps [OF 2(2)] show ?thesis by simp
  qed simp
qed

lemma pack_round_in_step:
  assumes "v_D E = D" "v_T E = T" "pack_round E leader clock now rn = Some (Ok rn')" "in_step_with_chain stored rn"
  shows "in_step_with_chain stored rn' \<and> n_addr rn' = n_addr rn"
proof -
  have "rn' = rn \<or> (\<exists>p bc r. PackBlock E clock now (n_addr rn) (n_DS rn) (n_Cm rn) (n_QTJ rn) (n_pool rn, n_bc rn) =
      Some ((p, bc), r) \<and> stored (bc_db (n_bc rn')) = stored (bc_db bc) \<and> n_lastHeight rn' = n_lastHeight rn \<and>
      n_addr rn' = n_addr rn)"
  proof (cases "leader \<and> (\<exists>li c. st_LastIndex (v_st E) (n_storage rn) = Ok li \<and>
      st_Commit (v_st E) (n_storage rn) = Ok c \<and> \<not> li > c)")
    case False
    with assms(3) show ?thesis
      by (auto simp: pack_round_def split: if_splits outcome.splits)
  next
    case True
    then obtain li c where lead: leader "st_LastIndex (v_st E) (n_storage rn) = Ok li"
      "st_Commit (v_st E) (n_storage rn) = Ok c" "\<not> li > c" by blast
    obtain p bc r where pb: "PackBlock E clock now (n_addr rn) (n_DS rn) (n_Cm rn) (n_QTJ rn) (n_pool rn, n_bc rn) =
      Some ((p, bc), r)"
      using assms(3) lead by (auto simp: pack_round_def split: option.splits)
    show ?thesis
    proof (cases r)
      case (Ok b)
      obtain d rc where cr: "Calculationresults D T (b\<lparr> bMiner := n_addr rn \<rparr>) (bc_db bc) = (d, rc)"
        by (rule prod.exhaust)
      obtain d1 rh where h: "Height D T d = (d1, rh)" by (rule prod.exhaust)
      then have "stored d1 = stored d" using reads_keep(3) [of d] by simp
      moreover
      have "stored d = stored (bc_db bc)"
        using Calculationresults_keeps [of "b\<lparr> bMiner := n_addr rn \<rparr>" "bc_db bc"] by (simp add: cr)
      ultimately show ?thesis
        using assms(3) lead pb Ok h cr
        by (cases rc) (auto simp: pack_round_def Let_def assms(1,2) emit_def split: if_splits)
    qed (use assms(3) lead pb in \<open>auto simp: pack_round_def\<close>)
  qed
  then consider "rn' = rn"
    | p bc r where "PackBlock E clock now (n_addr rn) (n_DS rn) (n_Cm rn) (n_QTJ rn) (n_pool rn, n_bc rn) = Some ((p, bc), r)"
      "stored (bc_db (n_bc rn')) = stored (bc_db bc)" "n_lastHeight rn' = n_lastHeight rn" "n_addr rn' = n_addr rn"
    by blast
  then show ?thesis
  proof cases
    case 2
    with only_nonces_height [OF PackBlock_nonces [OF assms(1,2) 2(1)]] assms(4) show ?thesis
      by (simp add: in_step_with_chain_def)
  qed (use assms(4) in simp)
qed

lemma pool_Add_nonces:
  "only_nonces (stored d) (stored (snd (fst (pool_Add ed D T cfg now tx (p, d)))))"
  using verify_nonces [of d ed cfg tx]
  by (cases "verify ed D T cfg tx d"; cases "snd (verify ed D T cfg tx d)") (auto simp: pool_Add_def)

section \<open>Snapshots leave the height in step\<close>

definition kept :: "gostring \<Rightarrow> ('d, 'c, 's) raftNode \<Rightarrow> bool" where
  "kept addr rn \<longleftrightarrow> in_step_with_chain stored rn \<and> n_addr rn = addr"

lemma kept_same_chain: "same_chain rn rn' \<Longrightarrow> kept addr rn \<Longrightarrow> kept addr rn'"
  using same_chain_in_step [of rn rn' stored] by (simp add: kept_def)

lemma kept_commit:
  "v_D E = D \<Longrightarrow> v_T E = T \<Longrightarrow> commitEntries E clock ents rn = Some (Ok rn') \<Longrightarrow> shaped_entries E addr ents \<Longrightarrow>
    kept addr rn \<Longrightarrow> kept addr rn'"
  using commitEntries_in_step [of E clock ents rn rn'] commitEntries_forward [of E clock ents rn rn'] by (simp add: kept_def)

lemma handle_reply_kept:
  assumes "v_D E = D" "v_T E = T" "handle_reply E clock r rn = Some (go, rn', Ok u)" "shaped_reply E addr r" "kept addr rn"
  shows "kept addr rn'"
proof (cases "\<exists>data sn. r = Done data \<and> v_uj_Snapshot E data = Ok sn \<and> sn_Index sn \<noteq> 0 \<and> length (sn_Data sn) \<noteq> 0")
  case False
  with assms(3,5) show ?thesis
    by (auto simp: handle_reply_def split: reply.splits outcome.splits if_splits)
next
  case True
  then obtain data sn where sn: "r = Done data" "v_uj_Snapshot E data = Ok sn" "sn_Index sn \<noteq> 0" "length (sn_Data sn) \<noteq> 0"
    by blast
  show ?thesis
  proof (cases "obind (unMarshalSnapData E (sn_Data sn)) (snapEntriesToApply (n_committedIndex rn + 1))")
    case (Ok es)
    then obtain ents where "unMarshalSnapData E (sn_Data sn) = Ok ents" "snapEntriesToApply (n_committedIndex rn + 1) ents = Ok es"
      by (auto simp: obind_Ok_iff)
    with sn assms(4) have sh: "shaped_entries E addr es" by (auto simp: shaped_reply_def intro: snap_entries_shaped)
    obtain rn1 where c: "commitEntries E clock es rn = Some (Ok rn1)" "es \<noteq> []"
      using assms(3) sn Ok by (auto simp: handle_reply_def split: if_splits option.splits outcome.splits)
    have k: "kept addr rn1" by (rule kept_commit [OF assms(1,2) c(1) sh assms(5)])
    obtain rn2 rs where sv: "saveSnap E sn rn1 = (rn2, rs)" by (rule prod.exhaust)
    then have "kept addr rn2" using kept_same_chain [OF saveSnap_same_chain k, of E sn] by simp
    moreover have "kept addr (adopt_snapshot sn rn2)" by (rule kept_same_chain [OF _ calculation]) simp
    ultimately show ?thesis
      using assms(3) sn Ok c sv by (cases rs) (auto simp: handle_reply_def)
  qed (use assms(3,5) sn in \<open>auto simp: handle_reply_def\<close>)
qed

lemma recover_loop_kept:
  assumes "recover_loop E clock replies j sn rn = Some (rn', Ok u)"
    "v_D E = D" "v_T E = T" "\<forall>j req. shaped_reply E addr (replies j req)" "kept addr rn"
  shows "kept addr rn'"
proof -
  let ?Q = "\<lambda>E clock replies j sn rn res. v_D E = D \<longrightarrow> v_T E = T \<longrightarrow>
    (\<forall>j req. shaped_reply E addr (replies j req)) \<longrightarrow> kept addr rn \<longrightarrow> snd res = Ok u \<longrightarrow> kept addr (fst res)"
  have "?Q E clock replies j sn rn (rn', Ok u)"
  proof (rule recover_loop.raw_induct [where P = ?Q, OF _ assms(1)], goal_cases)
    case (1 rl E clock replies j sn rn res)
    show ?case
    proof (cases "n_snapshotIndex rn + n_snapCount rn < sn_Index sn \<and> n_snapCount rn \<noteq> 0 \<and> n_snapshotIndex rn mod n_snapCount rn = 0")
      case False
      with 1(2) show ?thesis by (auto split: if_splits)
    next
      case True
      with 1(2) obtain go rn1 r where h: "handle_reply E clock (replies j (snap_request sn rn)) rn = Some (go, rn1, r)"
        and rest: "(if go then rl E clock replies (j + 1) sn rn1 else Some (rn1, r)) = Some res"
        by (auto simp: bind_eq_Some_conv cong: if_cong)
      show ?thesis
      proof (cases go)
        case False
        with rest h handle_reply_kept [of E clock "replies j (snap_request sn rn)" rn False rn1] show ?thesis by auto
      next
        case True
        have "r = Ok ()"
          using h True by (auto simp: handle_reply_def split: reply.splits outcome.splits if_splits option.splits prod.splits)
        with 1(1) [of E clock replies "j + 1" sn rn1 res] rest True h
          handle_reply_kept [of E clock "replies j (snap_request sn rn)" rn True rn1] show ?thesis by auto
      qed
    qed
  qed
  with assms(2-5) show ?thesis by simp
qed

lemma recover_newest_kept:
  assumes "v_D E = D" "v_T E = T" "recover_newest E clock sn ents rn = Some (Ok rn')"
    "shaped_entries E addr ents" "kept addr rn"
  shows "kept addr rn'"
proof (cases "n_snapshotIndex rn + n_snapCount rn = sn_Index sn \<and> n_snapCount rn \<noteq> 0 \<and> n_snapshotIndex rn mod n_snapCount rn = 0")
  case False
  with assms(3,5) show ?thesis by (auto simp: recover_newest_def split: if_splits)
next
  case True
  show ?thesis
  proof (cases "snapEntriesToApply (n_committedIndex rn + 1) ents")
    case (Ok es)
    obtain rn1 where c: "commitEntries E clock es rn = Some (Ok rn1)"
      using assms(3) True Ok by (auto simp: recover_newest_def split: option.splits outcome.splits)
    have k: "kept addr rn1"
      by (rule kept_commit [OF assms(1,2) c shaped_entries_sub [OF assms(4) snapEntries_sub [OF Ok]] assms(5)])
    obtain rn2 rs where sv: "saveSnap E sn rn1 = (rn2, rs)" by (rule prod.exhaust)
    then have "kept addr rn2" using kept_same_chain [OF saveSnap_same_chain k, of E sn] by simp
    moreover have "kept addr (adopt_snapshot sn rn2)" by (rule kept_same_chain [OF _ calculation]) simp
    ultimately show ?thesis using assms(3) True Ok c sv by (cases rs) (auto simp: recover_newest_def)
  qed (use assms(3,5) True in \<open>auto simp: recover_newest_def\<close>)
qed

lemma recoverSnapshotData_kept:
  assumes "v_D E = D" "v_T E = T" "recoverSnapshotData E clock replies sn rn = Some (Ok rn')"
    "\<forall>j req. shaped_reply E addr (replies j req)" "shaped_snapshot E addr sn" "kept addr rn"
  shows "kept addr rn'"
proof -
  consider "rn' = rn"
    | ents ci where "unMarshalSnapData E (sn_Data sn) = Ok ents"
      "recover_newest E clock sn ents (rn\<lparr> n_committedIndex := ci \<rparr>) = Some (Ok rn')"
    | ents ci rn1 where "unMarshalSnapData E (sn_Data sn) = Ok ents"
      "recover_loop E clock replies 0 sn (rn\<lparr> n_committedIndex := ci \<rparr>) = Some (rn1, Ok ())"
      "recover_newest E clock sn ents rn1 = Some (Ok rn')"
  proof -
    have "rn' = rn \<or> (\<exists>ents ci. unMarshalSnapData E (sn_Data sn) = Ok ents \<and> st_Commit (v_st E) (n_storage rn) = Ok ci)"
      using assms(3)
      by (cases "unMarshalSnapData E (sn_Data sn)"; cases "st_Commit (v_st E) (n_storage rn)")
        (auto simp: recoverSnapshotData_def split: if_splits)
    then show thesis
    proof (elim disjE exE conjE)
      fix ents ci
      assume u: "unMarshalSnapData E (sn_Data sn) = Ok ents" and c: "st_Commit (v_st E) (n_storage rn) = Ok ci"
      let ?rn = "rn\<lparr> n_committedIndex := ci \<rparr>"
      let ?loop = "recover_loop E clock replies 0 sn ?rn"
      have "rn' = rn \<or> recover_newest E clock sn ents ?rn = Some (Ok rn') \<or>
        (\<exists>rn1. ?loop = Some (rn1, Ok ()) \<and> recover_newest E clock sn ents rn1 = Some (Ok rn'))"
      proof (cases "?loop")
        case None
        with assms(3) u c show ?thesis by (auto simp: recoverSnapshotData_def Let_def split: if_splits)
      next
        case (Some a)
        obtain rn1 ro where "a = (rn1, ro)" by (rule prod.exhaust)
        with Some assms(3) u c show ?thesis
          by (cases ro) (auto simp: recoverSnapshotData_def Let_def split: if_splits)
      qed
      with u that show thesis by blast
    qed (rule that)
  qed
  then show ?thesis
  proof cases
    case (2 ents ci)
    have "shaped_entries E addr ents"
      using assms(5) unMarshal_Ok [OF 2(1)] by (simp add: shaped_snapshot_def)
    moreover have "kept addr (rn\<lparr> n_committedIndex := ci \<rparr>)" by (rule kept_same_chain [OF _ assms(6)]) simp
    ultimately show ?thesis by (rule recover_newest_kept [OF assms(1,2) 2(2)])
  next
    case (3 ents ci rn1)
    have "shaped_entries E addr ents"
      using assms(5) unMarshal_Ok [OF 3(1)] by (simp add: shaped_snapshot_def)
    moreover have "kept addr (rn\<lparr> n_committedIndex := ci \<rparr>)" by (rule kept_same_chain [OF _ assms(6)]) simp
    ultimately show ?thesis
      using recover_newest_kept [OF assms(1,2) 3(3)] recover_loop_kept [OF 3(2) assms(1,2,4)] by blast
  qed (use assms(6) in simp)
qed

lemma handle_ready_kept:
  assumes "v_D E = D" "v_T E = T" "handle_ready E clock replies rd rn = Some (Ok rn')"
    "shaped_ready E addr replies rd" "kept addr rn"
  shows "kept addr rn'"
proof -
  obtain rn1 rn2 where
    rec: "rd_Snapshot rd = None \<and> rn1 = rn \<or> (\<exists>sn rn0. rd_Snapshot rd = Some sn \<and>
      recoverSnapshotData E clock replies sn rn = Some (Ok rn0) \<and>
      rn1 = rn0\<lparr> n_storage := st_ApplySnapshot (v_st E) sn (n_storage rn0) \<rparr>)"
    and c: "commitEntries E clock (rd_CommittedEntries rd) rn1 = Some (Ok rn2)"
    and due: "snapshot_due E (after_commit E rd rn2) = Ok rn'"
    using assms(3) by (auto simp: handle_ready_def split: option.splits outcome.splits)
  have "kept addr rn1"
  proof (cases "rd_Snapshot rd")
    case (Some sn)
    with rec obtain rn0 where r0: "recoverSnapshotData E clock replies sn rn = Some (Ok rn0)"
      and rn1: "rn1 = rn0\<lparr> n_storage := st_ApplySnapshot (v_st E) sn (n_storage rn0) \<rparr>" by auto
    have "kept addr rn0"
      by (rule recoverSnapshotData_kept [OF assms(1,2) r0 _ _ assms(5)]) (use assms(4) Some in \<open>simp_all add: shaped_ready_def\<close>)
    then show ?thesis using kept_same_chain [of rn0 rn1] by (simp add: rn1)
  qed (use rec assms(5) in simp)
  then have "kept addr rn2"
    using kept_commit [OF assms(1,2) c] assms(4) by (simp add: shaped_ready_def)
  with kept_same_chain [of rn2 "after_commit E rd rn2"] kept_same_chain [OF snapshot_due_same_chain [OF due]]
  show ?thesis by simp
qed

end

section \<open>The node's steps\<close>

text \<open>
  What moves the node: a Ready of raft with the leader's answers to the requests it leads to, a round of
  packing, a transaction from a client, a management request. Their order is raft's, the clients' and the
  scheduler's.
\<close>

datatype 'c event =
    RaftReady "nat \<Rightarrow> ReqSnaprpc \<Rightarrow> reply" "'c Ready"
  | PackRound
  | Receive transaction
  | Manage Request

inductive node_step ::
  "('d, 't, 'c, 's) env \<Rightarrow> ('d, 'c, 's) raftNode \<Rightarrow> 'c event \<Rightarrow> ('d, 'c, 's) raftNode \<Rightarrow> bool" for E where
  ready: "handle_ready E clock replies rd rn = Some (Ok rn') \<Longrightarrow> node_step E rn (RaftReady replies rd) rn'"
| pack: "pack_round E leader now' now rn = Some (Ok rn') \<Longrightarrow> node_step E rn PackRound rn'"
| receive: "pool_Add (v_ed E) (v_D E) (v_T E) (v_cfg E) now tx (n_pool rn, bc_db (n_bc rn)) = ((p, d), r) \<Longrightarrow>
    node_step E rn (Receive tx) (rn\<lparr> n_pool := p, n_bc := (n_bc rn)\<lparr> bc_db := d \<rparr> \<rparr>)"
| manage: "NodeManagement E leader order req rn = (rn', a) \<Longrightarrow> node_step E rn (Manage req) rn'"

inductive node_run ::
  "('d, 't, 'c, 's) env \<Rightarrow> ('d, 'c, 's) raftNode \<Rightarrow> 'c event list \<Rightarrow> ('d, 'c, 's) raftNode \<Rightarrow> bool" for E where
  run_refl: "node_run E rn [] rn"
| run_step: "node_run E rn evs rn1 \<Longrightarrow> node_step E rn1 ev rn2 \<Longrightarrow> node_run E rn (evs @ [ev]) rn2"

inductive_cases node_stepE: "node_step E rn ev rn'"

text \<open>
  Blocks that arrive with a Ready have hashes of 32 bytes, also those of their transactions, and addresses of
  47. The program does not check this: a transaction's hash is whatever its sender wrote.
\<close>

fun shaped_event :: "('d, 't, 'c, 's) env \<Rightarrow> gostring \<Rightarrow> 'c event \<Rightarrow> bool" where
  "shaped_event E addr (RaftReady replies rd) = shaped_ready E addr replies rd"
| "shaped_event E addr _ = True"

lemma NodeManagement_same_chain: "same_chain rn (fst (NodeManagement E leader order req rn))"
  by (simp add: NodeManagement_def)

context store_tx begin

lemma node_step_kept:
  assumes "v_D E = D" "v_T E = T" "node_step E rn ev rn'" "shaped_event E addr ev" "kept addr rn"
  shows "kept addr rn'"
  using assms(3)
proof (rule node_stepE, goal_cases)
  case (1 clock replies rd)
  with handle_ready_kept [OF assms(1,2) 1(2) _ assms(5)] assms(4) show ?case by simp
next
  case (2 leader now' now)
  with pack_round_in_step [OF assms(1,2) 2(2)] assms(5) show ?case by (simp add: kept_def)
next
  case (3 now tx p d r)
  have "only_nonces (stored (bc_db (n_bc rn))) (stored d)"
    using pool_Add_nonces [of "bc_db (n_bc rn)" "v_ed E" "v_cfg E" now tx "n_pool rn"] 3(3) by (simp add: assms(1,2))
  with assms(5) 3(2) show ?case by (simp add: kept_def in_step_with_chain_def only_nonces_height)
next
  case (4 leader order req a)
  with kept_same_chain [OF NodeManagement_same_chain assms(5), of E leader order req] show ?case by simp
qed

lemma node_run_kept:
  assumes "v_D E = D" "v_T E = T" "node_run E rn evs rn'" "\<forall>ev \<in> set evs. shaped_event E addr ev" "kept addr rn"
  shows "kept addr rn'"
  using assms(3-5)
proof (induction rule: node_run.induct)
  case (run_step rn evs rn1 ev rn2)
  then show ?case using node_step_kept [OF assms(1,2) run_step.hyps(2)] by simp
qed simp

end

text \<open>In every state the node can reach from one in step, its height is the height stored in the chain.\<close>

lemma node_run_in_step:
  assumes "roomy_badger B view writes contents" "v_D E = bgStore B" "v_T E = bgTransaction B"
    "node_run E rn evs rn'" "\<forall>ev \<in> set evs. shaped_event E (n_addr rn) ev" "in_step_with_chain contents rn"
  shows "in_step_with_chain contents rn'"
proof -
  note tx = bg_store_tx [OF assms(1)]
  have "store_tx.kept contents (n_addr rn) rn" using assms(6) by (simp add: store_tx.kept_def [OF tx])
  from store_tx.node_run_kept [OF tx assms(2-5) this] show ?thesis by (simp add: store_tx.kept_def [OF tx])
qed

lemma raft_shaped: "shaped_ready raft_env pool_addr (\<lambda>_ _. NotDone)
    \<lparr> rd_Snapshot = None, rd_CommittedEntries = [raft_entry 6 [0]], rd_Commit = Some 6, rd_Entries = [] \<rparr>"
  by (auto simp: shaped_ready_def shaped_reply_def shaped_entries_def block_shape_def raft_env_def raft_json_def zero_Blocks_def
      pool_addr_facts)

lemma raft_run: "\<exists>evs rn'. node_run raft_env raft_demo evs rn' \<and> (\<forall>ev \<in> set evs. shaped_event raft_env pool_addr ev) \<and> n_committedIndex rn' = 6 \<and>
    n_log rn' = [AddPeer 2 [66], ProposeConfChange \<lparr> cc_Type = 0, cc_NodeID = 3, cc_Context = [34, 67, 34] \<rparr>]"
proof -
  let ?rd = "\<lparr> rd_Snapshot = None, rd_CommittedEntries = [raft_entry 6 [0]], rd_Commit = Some 6, rd_Entries = [] \<rparr>"
  obtain rn1 where r1: "commitEntries raft_env (\<lambda>_ _. 0) [raft_entry 6 [0]] raft_demo = Some (Ok rn1)"
    "n_committedIndex rn1 = 6" "n_snapshotIndex rn1 = 4" "n_snapCount rn1 = 2" "n_storage rn1 = 5" "n_log rn1 = [AddPeer 2 [66]]"
    using raft_committed [of "\<lambda>_ _. 0"] by blast
  then obtain rn2 where r2: "handle_ready raft_env (\<lambda>_ _. 0) (\<lambda>_ _. NotDone) ?rd raft_demo = Some (Ok rn2)"
    "n_committedIndex rn2 = 6" "n_log rn2 = [AddPeer 2 [66]]"
    by (simp add: handle_ready_def snapshot_due_def after_commit_def maybeTriggerSnapshot_def getSnapData_def abind_def aret_def
        raft_env_def raft_storage_def Let_def)
  let ?ev = "RaftReady (\<lambda>_ _. NotDone) ?rd"
  have run2: "node_run raft_env raft_demo ([] @ [?ev]) rn2"
    by (rule run_step [OF run_refl node_step.ready [OF r2(1)]])
  obtain p d r where add: "pool_Add (v_ed raft_env) (v_D raft_env) (v_T raft_env) (v_cfg raft_env) 7 pool_tx
    (n_pool rn2, bc_db (n_bc rn2)) = ((p, d), r)" by (metis prod.exhaust)
  let ?rn3 = "rn2\<lparr> n_pool := p, n_bc := (n_bc rn2)\<lparr> bc_db := d \<rparr> \<rparr>"
  have run3: "node_run raft_env raft_demo (([] @ [?ev]) @ [Receive pool_tx]) ?rn3" by (rule run_step [OF run2 node_step.receive [OF add]])
  have run4: "node_run raft_env raft_demo ((([] @ [?ev]) @ [Receive pool_tx]) @ [Manage \<lparr> rq_Type = 0, rq_Id = 3, rq_Peer = [67] \<rparr>]) (fst (NodeManagement raft_env True [] \<lparr> rq_Type = 0, rq_Id = 3, rq_Peer = [67] \<rparr> ?rn3))"
    by (rule run_step [OF run3 node_step.manage]) (rule prod.collapse [symmetric])
  show ?thesis
    by (intro exI conjI, rule run4) (use raft_shaped in \<open>simp_all add: NodeManagement_def emit_def raft_env_def r2\<close>)
qed

end
