(* ===== verification/RaftCluster.thy ===== *)
theory RaftCluster
  imports RaftSpec
begin

text \<open>
  Snapshots and the cluster: what is taken from a snapshot is what the node lacks, snapshots are taken at
  multiples of \<open>snapCount\<close>, the leader finds the requested one; the list of peers under additions and
  removals, and the slices that are cut while they are ranged over.
\<close>

section \<open>Cutting a slice while ranging over it\<close>

lemma cut_range_none: "\<forall>j. i \<le> j \<and> j < n \<longrightarrow> \<not> P (arr ! j) \<Longrightarrow> cut_range P arr n m i = Ok (take m arr)"
proof (induction "n - i" arbitrary: i)
  case (Suc k)
  then show ?case by (subst cut_range.simps) simp
qed (simp add: cut_range.simps)

lemma cut_range_skip: "\<forall>j < i. \<not> P (arr ! j) \<Longrightarrow> i \<le> n \<Longrightarrow> cut_range P arr n m 0 = cut_range P arr n m i"
proof (induction i)
  case (Suc i)
  then have "cut_range P arr n m 0 = cut_range P arr n m i" by simp
  also have "\<dots> = cut_range P arr n m (Suc i)" using Suc.prems by (subst cut_range.simps) simp
  finally show ?case .
qed simp

text \<open>One matching place: it is cut, and the doubled last element is not looked at as a match.\<close>

lemma cut_range_one:
  assumes "\<forall>x \<in> set xs \<union> set ys. \<not> P x" "P y"
  shows "cut_range P (xs @ y # ys) (length (xs @ y # ys)) (length (xs @ y # ys)) 0 = Ok (xs @ ys)"
proof -
  let ?n = "length (xs @ y # ys)" and ?arr = "xs @ y # ys"
  let ?new = "xs @ ys @ [last (y # ys)]"
  have last: "drop (length xs + length ys) ?arr = [last (y # ys)]"
    by (cases ys rule: rev_cases) simp_all
  have "cut_range P ?arr ?n ?n 0 = cut_range P ?arr ?n ?n (length xs)"
    using assms(1) by (intro cut_range_skip) (auto simp: nth_append)
  also have "\<dots> = cut_range P ?new ?n (?n - 1) (length xs + 1)"
    using assms(2) last by (subst cut_range.simps) simp
  also have "\<dots> = Ok (take (?n - 1) ?new)"
  proof (rule cut_range_none, intro allI impI)
    fix j assume "length xs + 1 \<le> j \<and> j < ?n"
    then have "ys \<noteq> []" "?new ! j \<in> set ys"
      by (auto simp: nth_append less_Suc_eq)
    then show "\<not> P (?new ! j)" using assms(1) by blast
  qed
  finally show ?thesis by simp
qed

text \<open>Two matching places at the end: the second cut is behind the end of the shortened slice.\<close>

lemma cut_range_two_panics:
  assumes "\<forall>x \<in> set xs. \<not> P x" "P y" "P z"
  shows "cut_range P (xs @ [y, z]) (length (xs @ [y, z])) (length (xs @ [y, z])) 0 = Panic"
proof -
  let ?n = "length (xs @ [y, z])"
  have "cut_range P (xs @ [y, z]) ?n ?n 0 = cut_range P (xs @ [y, z]) ?n ?n (length xs)"
    using assms(1) by (intro cut_range_skip) (auto simp: nth_append)
  also have "\<dots> = cut_range P (xs @ [z, z]) ?n (?n - 1) (length xs + 1)"
    using assms(2) by (subst cut_range.simps) simp
  also have "\<dots> = Panic" using assms(3) by (subst cut_range.simps) (simp add: nth_append)
  finally show ?thesis .
qed

section \<open>Peers\<close>

text \<open>Removing a node that is listed once removes exactly it, from the list and from the map.\<close>

theorem updateClusterInfo_removes:
  assumes "distinct (n_peers rn)" "n_idPeer rn k = Some p" "p \<in> set (n_peers rn)"
  shows "updateClusterInfo False k ps rn =
    Ok (rn\<lparr> n_peers := filter (\<lambda>q. q \<noteq> p) (n_peers rn), n_idPeer := (n_idPeer rn)(k := None) \<rparr>)"
proof -
  obtain xs ys where split: "n_peers rn = xs @ p # ys" "p \<notin> set xs" "p \<notin> set ys"
    using assms(1,3) by (auto dest!: split_list)
  have "filter (\<lambda>q. q \<noteq> p) zs = zs" if "p \<notin> set zs" for zs
    using that by (intro filter_True) auto
  then have "filter (\<lambda>q. q \<noteq> p) (n_peers rn) = xs @ ys"
    using split by (simp only: split(1) filter_append filter.simps if_False not_True_eq_False simp_thms)
  moreover have "cut_range (\<lambda>q. q = p) (n_peers rn) (length (n_peers rn)) (length (n_peers rn)) 0 = Ok (xs @ ys)"
    unfolding split(1) using split by (intro cut_range_one) auto
  ultimately show ?thesis using assms(2) by (simp add: updateClusterInfo_def peer_at_def)
qed

theorem updateClusterInfo_removes_witness:
  "updateClusterInfo False 1 [] raft_demo = Ok (raft_demo\<lparr> n_peers := [[66]], n_idPeer := [2 \<mapsto> [66]] \<rparr>)"
proof -
  have "(n_idPeer raft_demo)(1 := None) = [2 \<mapsto> [66]]" by (auto simp: raft_demo_def)
  with updateClusterInfo_removes [of raft_demo 1 "[65]" "[]"] show ?thesis by (simp add: raft_demo_def)
qed

text \<open>Adding a node that is already there lists its address a second time (only the map is guarded), and
  then removing it panics.\<close>

theorem readded_peer_panics:
  assumes "n_peers rn = xs @ [p]" "p \<notin> set xs" "p \<noteq> []" "n_idPeer rn k = Some p"
  shows "obind (updateClusterInfo True k p rn) (updateClusterInfo False k []) = Panic"
proof -
  have "cut_range (\<lambda>q. q = p) (xs @ [p, p]) (length (xs @ [p, p])) (length (xs @ [p, p])) 0 = Panic"
    using assms(2) by (intro cut_range_two_panics) auto
  with assms show ?thesis by (simp add: updateClusterInfo_def peer_at_def)
qed

theorem readded_peer_panics_witness:
  "obind (updateClusterInfo True 2 [66] raft_demo) (updateClusterInfo False 2 []) = Panic"
  by (rule readded_peer_panics [of _ "[[65]]"]) (simp_all add: raft_demo_def)

text \<open>A leader proposes the addition of a node that exists all the same, and only reports that it exists.\<close>

theorem NodeManagement_proposes_existing:
  assumes "rq_Type req = 0" "(rq_Id req, p) \<in> set order"
  shows "n_log (fst (NodeManagement E True order req rn)) = n_log rn @
      [ProposeConfChange \<lparr> cc_Type = 0, cc_NodeID = rq_Id req, cc_Context = v_js_string E (rq_Peer req) \<rparr>] \<and>
    snd (NodeManagement E True order req rn) \<noteq> None"
proof -
  have "existing req order \<noteq> None"
    using assms(2) by (induction order) (auto split: if_splits)
  then show ?thesis using assms(1) by (simp add: NodeManagement_def emit_def)
qed

section \<open>Snapshots\<close>

text \<open>Consecutive entries, as raft stores them.\<close>

definition contiguous :: "Entry list \<Rightarrow> bool" where
  "contiguous ents \<longleftrightarrow> (\<forall>i < length ents. unat (e_Index (ents ! i)) = unat (e_Index (hd ents)) + i)"

lemma contiguous_drop:
  assumes "contiguous ents" "ents \<noteq> []" "e_Index (hd ents) \<le> ci"
  shows "drop (unat (ci - e_Index (hd ents))) ents = filter (\<lambda>e. ci \<le> e_Index e) ents"
proof -
  let ?f = "e_Index (hd ents)" and ?n = "unat (ci - e_Index (hd ents))"
  have n: "unat ci = unat ?f + ?n" using assms(3) by (simp add: unat_sub word_le_nat_alt)
  have idx: "ci \<le> e_Index (ents ! i) \<longleftrightarrow> ?n \<le> i" if "i < length ents" for i
    using assms(1) that n by (auto simp: contiguous_def word_le_nat_alt)
  have "filter (\<lambda>e. ci \<le> e_Index e) (take ?n ents) = []"
    using idx by (auto simp: filter_empty_conv in_set_conv_nth)
  moreover have "filter (\<lambda>e. ci \<le> e_Index e) (drop ?n ents) = drop ?n ents"
    using idx by (auto simp: filter_id_conv in_set_conv_nth)
  ultimately show ?thesis by (metis append_Nil append_take_drop_id filter_append)
qed

lemma snapshot_slice:
  assumes "contiguous ents" "ents \<noteq> []" "c \<noteq> - 1"
  shows "snapEntriesToApply (c + 1) ents =
    (if c + 1 < e_Index (hd ents) then Err (ErrText ''Commited index should >= ents[0].index.'')
     else if e_Index (last ents) \<le> c then Err (ErrText ''Already Commited, index should < ents[len - 1].index.'')
     else Ok (filter (\<lambda>e. c < e_Index e) ents))"
proof -
  have succ: "c + 1 \<le> x \<longleftrightarrow> c < x" for x
    using unat_succ_less [of c "- 1"] assms(3)
    by (auto simp: word_le_nat_alt word_less_nat_alt word_order.not_eq_extremum)
  show ?thesis
  proof (cases "c + 1 < e_Index (hd ents) \<or> e_Index (last ents) \<le> c")
    case True
    with assms(2) succ [of "e_Index (last ents)"] show ?thesis
      by (auto simp: snapEntriesToApply_def not_le [symmetric])
  next
    case False
    let ?n = "unat (c + 1 - e_Index (hd ents))"
    have le: "e_Index (hd ents) \<le> c + 1" "c < e_Index (last ents)" using False by (simp_all add: not_less not_le)
    have "unat (e_Index (last ents)) = unat (e_Index (hd ents)) + (length ents - 1)"
      using assms(1,2) by (simp add: contiguous_def last_conv_nth)
    moreover have "unat (c + 1) \<le> unat (e_Index (last ents))" using succ le(2) by (simp add: word_le_nat_alt)
    ultimately have "?n \<le> length ents" using le(1) by (simp add: unat_sub word_le_nat_alt)
    moreover have "drop ?n ents = filter (\<lambda>e. c < e_Index e) ents"
      using contiguous_drop [OF assms(1,2) le(1)] by (simp add: succ)
    moreover have "\<not> c + 1 < e_Index (hd ents)" "\<not> c + 1 > e_Index (last ents)" "\<not> e_Index (last ents) \<le> c"
      using le succ [of "e_Index (last ents)"] by (simp_all add: not_less not_le)
    ultimately show ?thesis
      by (simp only: snapEntriesToApply_def slice_from_def assms(2) if_False if_True)
  qed
qed

text \<open>C12: What is taken from a snapshot of consecutive entries for a node that has committed up to \<open>c\<close>: exactly
  the entries behind \<open>c\<close>, in order, when the snapshot begins no later than the next index and ends no
  earlier; an error when it begins after the next index, so that entries would be missing, or holds nothing new.\<close>

theorem snapshot_entries_exact:
  assumes "contiguous ents" "ents \<noteq> []" "c \<noteq> - 1"
  shows "snapEntriesToApply (c + 1) ents =
    (if c + 1 < e_Index (hd ents) then Err (ErrText ''Commited index should >= ents[0].index.'')
     else if e_Index (last ents) \<le> c then Err (ErrText ''Already Commited, index should < ents[len - 1].index.'')
     else Ok (filter (\<lambda>e. c < e_Index e) ents))"
  by (rule snapshot_slice [OF assms])

theorem snapshot_entries_exact_witness:
  "snapEntriesToApply (5 + 1) [raft_entry 5 [0], raft_entry 6 [0]] = Ok [raft_entry 6 [0]]"
proof -
  have "contiguous [raft_entry 5 [0], raft_entry 6 [0]]"
    by (simp add: contiguous_def raft_entry_def less_Suc_eq)
  from snapshot_entries_exact [OF this, of 5] show ?thesis by (simp add: raft_entry_def)
qed

text \<open>Committing what was taken has the effect of committing every entry of the snapshot.\<close>

theorem snapshot_entries_suffice:
  assumes "contiguous ents" "snapEntriesToApply (n_committedIndex rn + 1) ents = Ok es" "n_committedIndex rn \<noteq> - 1"
  shows "commitEntries E clock es rn = commitEntries E clock ents rn"
proof -
  have "ents \<noteq> []" using assms(2) by (auto simp: snapEntriesToApply_def)
  from snapshot_slice [OF assms(1) this assms(3)] assms(2) have "es = filter (\<lambda>e. n_committedIndex rn < e_Index e) ents"
    by (auto split: if_splits)
  then show ?thesis using commitEntries_skip_below [OF order_refl, of E clock ents rn] by simp
qed

lemma mod_below: "c \<noteq> 0 \<Longrightarrow> x mod c < (c :: u64) \<and> x mod c \<le> x"
  by (simp add: word_less_nat_alt word_le_nat_alt unat_mod unat_gt_0)

text \<open>A snapshot is taken at a multiple of \<open>snapCount\<close> between the last one and the committed index, less
  than \<open>snapCount\<close> behind the latter.\<close>

theorem snapshot_due_aligned:
  assumes "snapshot_due E rn = Ok rn'" "n_snapshotIndex rn' \<noteq> n_snapshotIndex rn"
  shows "n_snapshotIndex rn' mod n_snapCount rn = 0 \<and> n_snapshotIndex rn < n_snapshotIndex rn' \<and>
    n_snapshotIndex rn' \<le> n_committedIndex rn \<and> n_committedIndex rn - n_snapshotIndex rn' < n_snapCount rn"
proof -
  let ?c = "n_committedIndex rn" and ?s = "n_snapshotIndex rn" and ?n = "n_snapCount rn"
  have due: "?s < ?c" "?n \<le> ?c - ?s" "?n \<noteq> 0" "n_snapshotIndex rn' = ?c - ?c mod ?n"
    using assms by (auto simp: snapshot_due_def maybeTriggerSnapshot_def split: if_splits prod.splits outcome.splits)
  note m = mod_below [OF due(3), of ?c]
  have u: "unat (?c - ?c mod ?n) = unat ?c - unat ?c mod unat ?n" "unat (?c - ?s) = unat ?c - unat ?s"
    using m due(1) by (simp_all add: unat_sub unat_mod word_le_nat_alt word_less_nat_alt)
  have lt: "unat ?c mod unat ?n < unat ?n" using m by (simp add: word_less_nat_alt unat_mod)
  have "unat (?c - ?c mod ?n) mod unat ?n = 0" unfolding u(1) by (rule mod_0_imp_dvd [THEN dvd_imp_mod_0]) (simp flip: mod_eq_dvd_iff_nat)
  then have "(?c - ?c mod ?n) mod ?n = 0" by (metis unat_mod unat_eq_zero)
  moreover have "?s < ?c - ?c mod ?n"
    using due(1,2) lt u by (simp add: word_less_nat_alt word_le_nat_alt)
  moreover have "?c - (?c - ?c mod ?n) < ?n" using m by simp
  moreover have "?c - ?c mod ?n \<le> ?c" by (simp add: word_le_nat_alt u(1))
  ultimately show ?thesis by (simp add: due(4))
qed

theorem snapshot_due_aligned_witness:
  "\<exists>rn'. snapshot_due raft_env (raft_demo\<lparr> n_committedIndex := 7 \<rparr>) = Ok rn' \<and> n_snapshotIndex rn' = 6 \<and>
    n_snapshotIndex rn' mod 2 = 0"
proof -
  obtain rn' where due: "snapshot_due raft_env (raft_demo\<lparr> n_committedIndex := 7 \<rparr>) = Ok rn'" "n_snapshotIndex rn' = 6"
    by (simp add: snapshot_due_def maybeTriggerSnapshot_def getSnapData_def abind_def aret_def raft_env_def raft_storage_def
        raft_demo_def)
  from snapshot_due_aligned [OF due(1)] due show ?thesis by (auto simp: raft_demo_def)
qed

lemma snap_terms_skip:
  assumes "\<forall>t'. first \<le> t' \<and> t' < t \<longrightarrow> disk t' idx = None" "first \<le> t" "t < maxt + 1"
  shows "snap_terms disk maxt idx first = snap_terms disk maxt idx t"
  using assms
proof (induction "unat t - unat first" arbitrary: first)
  case 0
  then have "first = t" by (simp add: word_le_nat_alt word_unat_eq_iff)
  then show ?case by simp
next
  case (Suc k)
  then have lt: "first < t" by (simp add: word_less_nat_alt)
  note succ = unat_succ_less [OF lt]
  have "first < maxt + 1" "disk first idx = None" using Suc.prems lt by auto
  then have "snap_terms disk maxt idx first = snap_terms disk maxt idx (first + 1)"
    by (subst snap_terms.simps) simp
  also have "\<dots> = snap_terms disk maxt idx t"
  proof (rule Suc.hyps(1))
    show "k = unat t - unat (first + 1)" using Suc.hyps(2) succ by simp
    show "\<forall>t'. first + 1 \<le> t' \<and> t' < t \<longrightarrow> disk t' idx = None"
      using Suc.prems(1) succ by (auto simp: word_le_nat_alt word_less_nat_alt)
    show "first + 1 \<le> t" using lt succ by (simp add: word_le_nat_alt word_less_nat_alt)
  qed (rule Suc.prems(3))
  finally show ?case .
qed

lemma HandleSnap_missing:
  assumes "\<forall>t'. first \<le> t' \<and> t' < maxterm \<longrightarrow> disk t' idx = None" "first \<le> maxterm" "maxterm \<noteq> - 1" "disk maxterm idx = None"
  shows "snd (HandleSnap disk \<lparr> rr_MaxTerm = maxterm, rr_Term = first, rr_NextSnapshotIndex = idx \<rparr>) = Err (ErrText ''Can not find requested snap disk.'')"
proof -
  have lt: "maxterm < maxterm + 1"
    using unat_succ_less [of maxterm "- 1"] assms(3) by (simp add: word_less_nat_alt word_order.not_eq_extremum)
  have "HandleSnap disk \<lparr> rr_MaxTerm = maxterm, rr_Term = first, rr_NextSnapshotIndex = idx \<rparr> =
      snap_terms disk maxterm idx maxterm"
    using snap_terms_skip [where disk = disk and idx = idx, OF assms(1,2) lt] by (simp add: HandleSnap_def)
  also have "\<dots> = snap_terms disk maxterm idx (maxterm + 1)"
    using lt assms(4) by (subst snap_terms.simps) simp
  finally show ?thesis by (simp add: snap_terms.simps [of disk maxterm idx "maxterm + 1"])
qed

text \<open>The leader answers with the snapshot of the first term that has a file of the requested index.\<close>

lemma HandleSnap_served:
  assumes "rr_MaxTerm req \<noteq> - 1" "rr_Term req \<le> t" "t \<le> rr_MaxTerm req"
    "\<forall>t'. rr_Term req \<le> t' \<and> t' < t \<longrightarrow> disk t' (rr_NextSnapshotIndex req) = None"
    "disk t (rr_NextSnapshotIndex req) = Some (Ok data)" "data \<noteq> []"
  shows "HandleSnap disk req =
    (\<lparr> rs_Done = True, rs_Data = data, rs_Term = t, rs_NextSnapshotIndex = rr_NextSnapshotIndex req \<rparr>, Ok ())"
proof -
  have "unat (rr_MaxTerm req + 1) = Suc (unat (rr_MaxTerm req))"
    by (rule unat_succ_less [of _ "- 1"]) (use assms(1) in \<open>simp add: word_order.not_eq_extremum\<close>)
  with assms(3) have lt: "t < rr_MaxTerm req + 1" by (simp add: word_le_nat_alt word_less_nat_alt)
  from snap_terms_skip [where disk = disk and idx = "rr_NextSnapshotIndex req", OF assms(4,2) lt] lt assms(5,6) show ?thesis
    by (simp add: HandleSnap_def snap_terms.simps)
qed

theorem NodeManagement_proposes_existing_witness:
  "snd (NodeManagement raft_env True [(1, [65])] \<lparr> rq_Type = 0, rq_Id = 1, rq_Peer = [65] \<rparr> raft_demo) \<noteq> None"
  using NodeManagement_proposes_existing [of "\<lparr> rq_Type = 0, rq_Id = 1, rq_Peer = [65] \<rparr>" "[65]" "[(1, [65])]" raft_env raft_demo]
  by simp

end
