(* ===== verification/RaftStart.thy ===== *)
theory RaftStart
  imports RaftCluster
begin

text \<open>
  Starting a node: the node \<open>newRaftNode\<close> makes from the configuration, what \<open>replayWAL\<close> restores from the
  newest snapshot and the write-ahead log, the peers \<open>startNode\<close> announces, and the height
  \<open>handleChanel\<close> reads before its loop. Then the node's height agrees with the chain's from its start on,
  as long as the blocks raft delivers have the expected shape.
\<close>

section \<open>From the configuration to the loop\<close>

record cfgInfo =
  cf_id :: u64
  cf_addr :: gostring
  cf_peers :: "gostring list"
  cf_join :: bool
  cf_Ds :: gostring
  cf_Cm :: gostring
  cf_QTJ :: gostring
  cf_snapCount :: i64

text \<open>\<open>nilc\<close> is the nil configuration state, \<open>s\<close> a new memory storage.\<close>

definition newRaftNode :: "'c \<Rightarrow> 's \<Rightarrow> cfgInfo \<Rightarrow> Txpool \<Rightarrow> 'd Blockchain \<Rightarrow> ('d, 'c, 's) raftNode" where
  "newRaftNode nilc s cf p bc =
     \<lparr> n_clusterid = 0x1000, n_id = cf_id cf, n_addr = cf_addr cf, n_peers = cf_peers cf, n_idPeer = (\<lambda>_. None),
       n_DS = cf_Ds cf, n_Cm = cf_Cm cf, n_QTJ = cf_QTJ cf, n_pool = p, n_bc = bc,
       n_snapshot = Some \<lparr> sn_Index = 0, sn_Term = 0, sn_Conf = nilc, sn_Data = [] \<rparr>, n_snapCount = cf_snapCount cf,
       n_confState = nilc, n_snapshotIndex = 0, n_committedIndex = 0, n_lastHeight = 1, n_storage = s, n_log = [] \<rparr>"

text \<open>What the snapshotter loads: \<open>Ok None\<close> is \<open>ErrNoSnapshot\<close>. Every other error panics.\<close>

definition loadSnapshot :: "'c snapshot option outcome \<Rightarrow> ('d, 'c, 's) raftNode \<Rightarrow> ('d, 'c, 's) raftNode outcome" where
  "loadSnapshot loaded rn =
     (case loaded of Ok sn \<Rightarrow> Ok (rn\<lparr> n_snapshot := sn \<rparr>) | _ \<Rightarrow> Panic)"

text \<open>
  \<open>wal\<close> is what the log opened at the index and term of the snapshot holds, or \<open>None\<close> when it cannot be
  opened; then the nil log is read, which panics.
\<close>

definition readWAL ::
  "('d, 't, 'c, 's) env \<Rightarrow> (u64 \<Rightarrow> u64 \<Rightarrow> (u64 \<times> Entry list) option) \<Rightarrow> ('d, 'c, 's) raftNode \<Rightarrow>
    ('d, 'c, 's) raftNode outcome" where
  "readWAL E wal rn =
     (case wal (case n_snapshot rn of None \<Rightarrow> 0 | Some sn \<Rightarrow> sn_Index sn)
             (case n_snapshot rn of None \<Rightarrow> 0 | Some sn \<Rightarrow> sn_Term sn) of
        None \<Rightarrow> Panic
      | Some (commit, ents) \<Rightarrow>
          let rn = (case n_snapshot rn of
                      None \<Rightarrow> rn
                    | Some sn \<Rightarrow> rn\<lparr> n_storage := st_ApplySnapshot (v_st E) sn (n_storage rn),
                        n_confState := sn_Conf sn, n_snapshotIndex := sn_Index sn \<rparr>);
              rn = rn\<lparr> n_committedIndex := commit, n_storage := st_SetHardState (v_st E) commit (n_storage rn) \<rparr>
          in Ok (rn\<lparr> n_storage := st_Append (v_st E) ents (n_storage rn) \<rparr>))"

definition replayWAL ::
  "('d, 't, 'c, 's) env \<Rightarrow> 'c snapshot option outcome \<Rightarrow> (u64 \<Rightarrow> u64 \<Rightarrow> (u64 \<times> Entry list) option) \<Rightarrow>
    ('d, 'c, 's) raftNode \<Rightarrow> ('d, 'c, 's) raftNode outcome" where
  "replayWAL E loaded wal rn = obind (loadSnapshot loaded rn) (readWAL E wal)"

text \<open>The peers get the numbers from 1 on; every one but the node itself is added to the transport.\<close>

fun number_peers :: "u64 \<Rightarrow> gostring list \<Rightarrow> (u64 \<times> gostring) list" where
  "number_peers i [] = []"
| "number_peers i (p # ps) = (i, p) # number_peers (i + 1) ps"

definition startNode ::
  "('d, 't, 'c, 's) env \<Rightarrow> 'c snapshot option outcome \<Rightarrow> (u64 \<Rightarrow> u64 \<Rightarrow> (u64 \<times> Entry list) option) \<Rightarrow>
    ('d, 'c, 's) raftNode \<Rightarrow> ('d, 'c, 's) raftNode outcome" where
  "startNode E loaded wal rn =
     obind (replayWAL E loaded wal rn) (\<lambda>rn.
       let ps = number_peers 1 (n_peers rn);
           rn = rn\<lparr> n_idPeer := fold (\<lambda>(i, p) m. m(i \<mapsto> p)) ps (n_idPeer rn) \<rparr>
       in Ok (emit (map (\<lambda>(i, p). AddPeer i p) (filter (\<lambda>(i, p). i \<noteq> n_id rn) ps)) rn))"

text \<open>Before its loop \<open>handleChanel\<close> takes the height from the chain, and panics when there is none.\<close>

definition handleChanel_start ::
  "('d, 't, 'c, 's) env \<Rightarrow> ('d, 'c, 's) raftNode \<Rightarrow> ('d, 'c, 's) raftNode outcome" where
  "handleChanel_start E rn =
     (case Height (v_D E) (v_T E) (bc_db (n_bc rn)) of
        (d, Ok lh) \<Rightarrow> Ok (rn\<lparr> n_bc := (n_bc rn)\<lparr> bc_db := d \<rparr>, n_lastHeight := lh \<rparr>)
      | (d, _) \<Rightarrow> Panic)"

definition boot ::
  "('d, 't, 'c, 's) env \<Rightarrow> 'c \<Rightarrow> 's \<Rightarrow> cfgInfo \<Rightarrow> 'c snapshot option outcome \<Rightarrow>
    (u64 \<Rightarrow> u64 \<Rightarrow> (u64 \<times> Entry list) option) \<Rightarrow> Txpool \<Rightarrow> 'd Blockchain \<Rightarrow> ('d, 'c, 's) raftNode outcome" where
  "boot E nilc s cf loaded wal p bc = obind (startNode E loaded wal (newRaftNode nilc s cf p bc)) (handleChanel_start E)"

section \<open>What the start establishes\<close>

context store_tx begin

lemma heights_stored:
  assumes "stored d (lit ''height'') = Some (E64func h)"
  shows "GetMaxBlockHeight D d = Ok h" "snd (Height D T d) = Ok h"
  using assms by (simp_all add: GetMaxBlockHeight_def Height_def read_commit_done get_stored get_seen seen_new)

lemma handleChanel_in_step:
  assumes "v_D E = D" "v_T E = T" "handleChanel_start E rn = Ok rn'"
  shows "in_step_with_chain stored rn'"
proof -
  let ?d = "bc_db (n_bc rn)"
  obtain d lh where h: "Height D T ?d = (d, Ok lh)" "rn' = rn\<lparr> n_bc := (n_bc rn)\<lparr> bc_db := d \<rparr>, n_lastHeight := lh \<rparr>"
    using assms(3) by (auto simp: handleChanel_start_def assms(1,2) split: prod.splits outcome.splits)
  have "stored d = stored ?d" using reads_keep(3) [of ?d] h(1) by simp
  moreover have "stored ?d (lit ''height'') = Some (E64func lh)"
    using read_commit_done(2) [of "\<lambda>tx. obind (tx_Get T tx (lit ''height'')) D64func" ?d] h(1)
    by (auto simp: Height_def get_seen seen_new split: option.splits) (metis D64func_cases)
  ultimately show ?thesis by (simp add: in_step_with_chain_def h(2))
qed

end

text \<open>C3: From its start on, in whatever order Ready's, packing rounds, arriving transactions and management
  requests come, the node's height is the height the chain gives, as long as the blocks raft delivers, in
  entries, snapshots or the leader's answers, have hashes of 32 bytes, also those of their transactions, and
  addresses of 47. The code does not check that, and without it the claim fails: a transaction that carries
  the word \<open>height\<close> as its hash overwrites the height.\<close>

theorem node_height_is_chains:
  assumes "roomy_badger B view writes contents" "v_D E = bgStore B" "v_T E = bgTransaction B"
    "boot E nilc s cf loaded wal p bc = Ok rn0" "node_run E rn0 evs rn"
    "\<forall>ev \<in> set evs. shaped_event E (n_addr rn0) ev"
  shows "GetMaxBlockHeight (bgStore B) (bc_db (n_bc rn)) = Ok (n_lastHeight rn)"
proof -
  note tx = bg_store_tx [OF assms(1)]
  obtain rn1 where "handleChanel_start E rn1 = Ok rn0"
    using assms(4) by (auto simp: boot_def obind_Ok_iff)
  then have "in_step_with_chain contents rn0"
    by (rule store_tx.handleChanel_in_step [OF tx assms(2,3)])
  from node_run_in_step [OF assms(1-3,5,6) this] show ?thesis
    by (simp add: in_step_with_chain_def store_tx.heights_stored(1) [OF tx])
qed

lemma raft_booted:
  "boot raft_env 0 0 \<lparr> cf_id = 1, cf_addr = pool_addr, cf_peers = [[65], [66]], cf_join = False, cf_Ds = [], cf_Cm = [],
      cf_QTJ = [], cf_snapCount = 2 \<rparr> (Ok (Some \<lparr> sn_Index = 4, sn_Term = 1, sn_Conf = 0, sn_Data = [] \<rparr>))
      (\<lambda>i t. Some (5, [])) pool_demo (n_bc raft_demo) = Ok raft_demo"
proof -
  let ?d = "bc_db (n_bc raft_demo)"
  obtain d r where h: "Height (bgStore map_badger) (bgTransaction map_badger) ?d = (d, r)" by (rule prod.exhaust)
  have "fmlookup d = fmlookup ?d" "r = Ok 1"
    using ms.reads_keep(3) [of ?d] ms.heights_stored(2) [of ?d 1] h by (simp_all add: raft_demo_def)
  then have "Height (bgStore map_badger) (bgTransaction map_badger) ?d = (?d, Ok 1)"
    using h by (simp add: fmlookup_inject)
  then show ?thesis
    by (simp add: boot_def startNode_def replayWAL_def loadSnapshot_def readWAL_def newRaftNode_def handleChanel_start_def
      raft_demo_def raft_env_def raft_storage_def emit_def Let_def)
qed

theorem node_height_is_chains_witness:
  "\<exists>evs rn. node_run raft_env raft_demo evs rn \<and> n_committedIndex rn = 6 \<and>
    GetMaxBlockHeight (bgStore map_badger) (bc_db (n_bc rn)) = Ok (n_lastHeight rn)"
proof -
  obtain evs rn where run: "node_run raft_env raft_demo evs rn" "\<forall>ev \<in> set evs. shaped_event raft_env pool_addr ev"
    "n_committedIndex rn = 6" using raft_run by blast
  have "GetMaxBlockHeight (bgStore map_badger) (bc_db (n_bc rn)) = Ok (n_lastHeight rn)"
    by (rule node_height_is_chains [OF map_badger_roomy _ _ raft_booted run(1)])
      (use run(2) in \<open>simp_all add: raft_env_def raft_demo_def\<close>)
  with run show ?thesis by blast
qed

end
