(* ===== verification/SnapFile.thy ===== *)
theory SnapFile
  imports RaftStart Strconv
begin

text \<open>
  The snapshot files (\<open>raftconsensus/snap.go\<close>): their names, the checksum around the data, saving and
  loading, and what a leader serves from them. The protocol-buffer codecs and the checksum are
  parameters, the directory is a map from file names to contents.
\<close>

section \<open>File names\<close>

text \<open>\<open>%016x\<close> of a 64-bit number.\<close>

definition hex16 :: "u64 \<Rightarrow> bytes" where
  "hex16 x = map (\<lambda>i. hex_digit (unat x div 16 ^ i mod 16)) (rev [0..<16])"

definition snapSuffix :: bytes where
  "snapSuffix = lit ''.snap''"

definition snap_name :: "u64 \<Rightarrow> u64 \<Rightarrow> bytes" where
  "snap_name term index = hex16 term @ lit ''-'' @ hex16 index @ snapSuffix"

lemma low_digits:
  assumes "\<forall>i < k. (x :: nat) div 16 ^ i mod 16 = y div 16 ^ i mod 16"
  shows "x mod 16 ^ k = y mod 16 ^ k"
  using assms
proof (induction k)
  case (Suc k)
  have "z mod 16 ^ Suc k = z mod 16 ^ k + 16 ^ k * (z div 16 ^ k mod 16)" for z :: nat
    by (simp only: power_Suc2 mod_mult2_eq add.commute)
  with Suc show ?case by simp
qed simp

lemma hex16_inject: "hex16 x = hex16 y \<Longrightarrow> x = y"
proof -
  assume eq: "hex16 x = hex16 y"
  have "unat x div 16 ^ i mod 16 = unat y div 16 ^ i mod 16" if "i < 16" for i
  proof (rule hex_digit_inject)
    show "hex_digit (unat x div 16 ^ i mod 16) = hex_digit (unat y div 16 ^ i mod 16)"
      using eq that by (auto simp: hex16_def)
  qed simp_all
  then have "unat x mod 16 ^ 16 = unat y mod 16 ^ 16" by (intro low_digits) simp
  moreover have "unat z < 16 ^ 16" for z :: u64 using unsigned_less [of z] by simp
  ultimately show "x = y" by (simp add: word_unat_eq_iff)
qed

lemma snap_name_inject: "snap_name t i = snap_name t' i' \<Longrightarrow> t = t' \<and> i = i'"
proof -
  have len: "length (hex16 x) = 16" for x by (simp add: hex16_def)
  assume "snap_name t i = snap_name t' i'"
  then have "hex16 t = hex16 t' \<and> hex16 i = hex16 i'"
    using len by (simp add: snap_name_def append_eq_append_conv)
  then show "t = t' \<and> i = i'" using hex16_inject by blast
qed

section \<open>Saving and loading\<close>

text \<open>\<open>raftpb.Snapshot\<close>'s and \<open>snappb.Snapshot\<close>'s codecs and \<open>crc32.Update(0, crcTable, b)\<close>.\<close>

record 'c snapcodec =
  sc_Marshal :: "'c snapshot \<Rightarrow> bytes outcome"
  sc_Unmarshal :: "bytes \<Rightarrow> 'c snapshot outcome"
  sc_Pack :: "u32 \<times> bytes \<Rightarrow> bytes outcome"
  sc_Unpack :: "bytes \<Rightarrow> (u32 \<times> bytes) outcome"
  sc_crc :: "bytes \<Rightarrow> u32"

definition errEmptySnapshot :: goerror where
  "errEmptySnapshot = ErrText ''snap: empty snapshot''"

definition errCRCMismatch :: goerror where
  "errCRCMismatch = ErrText ''snap: crc mismatch''"

text \<open>\<open>wr\<close> is the outcome of writing the file; one that could not be written is taken as absent.\<close>

definition snapshotter_saveSnap ::
  "'c snapcodec \<Rightarrow> unit outcome \<Rightarrow> 'c snapshot \<Rightarrow> (bytes \<Rightarrow> bytes option, unit) act" where
  "snapshotter_saveSnap C wr sn files =
     (if sn_Index sn = 0 then (files, Ok ())
      else (case obind (sc_Marshal C sn) (\<lambda>b. sc_Pack C (sc_crc C b, b)) of
          Ok d \<Rightarrow> (case wr of
              Ok _ \<Rightarrow> (files(snap_name (sn_Term sn) (sn_Index sn) \<mapsto> d), Ok ())
            | r \<Rightarrow> (files(snap_name (sn_Term sn) (sn_Index sn) := None), r))
        | Err e \<Rightarrow> (files, Err e)
        | Panic \<Rightarrow> (files, Panic)))"

definition read_snap :: "'c snapcodec \<Rightarrow> bytes option \<Rightarrow> 'c snapshot outcome" where
  "read_snap C content =
     (case content of
        None \<Rightarrow> Err NotExist
      | Some b \<Rightarrow>
          if length b = 0 then Err errEmptySnapshot
          else obind (sc_Unpack C b) (\<lambda>(crc0, data).
            if length data = 0 \<or> crc0 = 0 then Err errCRCMismatch
            else if sc_crc C data \<noteq> crc0 then Err errCRCMismatch
            else sc_Unmarshal C data))"

definition snapshotter_load :: "'c snapcodec \<Rightarrow> u64 \<Rightarrow> u64 \<Rightarrow> (bytes \<Rightarrow> bytes option) \<Rightarrow> 'c snapshot outcome" where
  "snapshotter_load C term index files = read_snap C (files (snap_name term index))"

text \<open>What \<open>HandleSnap\<close> finds on the disk for a term and an index.\<close>

definition snap_disk ::
  "'c snapcodec \<Rightarrow> ('c snapshot \<Rightarrow> bytes outcome) \<Rightarrow> (bytes \<Rightarrow> bytes option) \<Rightarrow> u64 \<Rightarrow> u64 \<Rightarrow> bytes outcome option" where
  "snap_disk C js files term index =
     (if files (snap_name term index) = None then None
      else Some (obind (snapshotter_load C term index files) js))"

section \<open>What is saved is served\<close>

text \<open>The codecs invert themselves and give no empty bytes.\<close>

definition snapcodec_ok :: "'c snapcodec \<Rightarrow> bool" where
  "snapcodec_ok C \<longleftrightarrow> (\<forall>sn b. sc_Marshal C sn = Ok b \<longrightarrow> sc_Unmarshal C b = Ok sn \<and> b \<noteq> []) \<and>
    (\<forall>x b. sc_Pack C x = Ok b \<longrightarrow> sc_Unpack C b = Ok x \<and> b \<noteq> [])"

lemma saved_file:
  assumes "snapshotter_saveSnap C wr sn files = (files', Ok u)" "sn_Index sn \<noteq> 0"
  obtains b d where "sc_Marshal C sn = Ok b" "sc_Pack C (sc_crc C b, b) = Ok d"
    "files' = files(snap_name (sn_Term sn) (sn_Index sn) \<mapsto> d)"
proof -
  let ?enc = "obind (sc_Marshal C sn) (\<lambda>b. sc_Pack C (sc_crc C b, b))"
  from assms obtain d where "?enc = Ok d" "files' = files(snap_name (sn_Term sn) (sn_Index sn) \<mapsto> d)"
    by (cases ?enc; cases wr) (auto simp: snapshotter_saveSnap_def)
  with that show thesis by (auto simp: obind_Ok_iff)
qed

lemma load_saved:
  assumes "snapcodec_ok C" "snapshotter_saveSnap C wr sn files = (files', Ok u)" "sn_Index sn \<noteq> 0"
    "\<forall>b. sc_Marshal C sn = Ok b \<longrightarrow> sc_crc C b \<noteq> 0"
  shows "snapshotter_load C (sn_Term sn) (sn_Index sn) files' = Ok sn"
proof -
  obtain b d where b: "sc_Marshal C sn = Ok b" "sc_Pack C (sc_crc C b, b) = Ok d"
    "files' = files(snap_name (sn_Term sn) (sn_Index sn) \<mapsto> d)" by (rule saved_file [OF assms(2,3)])
  then have "sc_Unpack C d = Ok (sc_crc C b, b)" "d \<noteq> []" "sc_Unmarshal C b = Ok sn" "b \<noteq> []"
    using assms(1) by (auto simp: snapcodec_ok_def)
  with b assms(4) show ?thesis by (simp add: snapshotter_load_def read_snap_def)
qed

text \<open>C13: A leader that has saved a snapshot serves it to a request for its index whose range of terms holds its
  term and no earlier term with a file of that index; files of other terms and indices stay what they were.\<close>

theorem saved_snapshot_served:
  assumes "snapcodec_ok C" "snapshotter_saveSnap C wr sn files = (files', Ok u)" "sn_Index sn \<noteq> 0"
    "\<forall>b. sc_Marshal C sn = Ok b \<longrightarrow> sc_crc C b \<noteq> 0" "js sn = Ok data" "data \<noteq> []"
    "rr_NextSnapshotIndex req = sn_Index sn" "rr_Term req \<le> sn_Term sn" "sn_Term sn \<le> rr_MaxTerm req" "rr_MaxTerm req \<noteq> - 1"
    "\<forall>t. rr_Term req \<le> t \<and> t < sn_Term sn \<longrightarrow> files (snap_name t (sn_Index sn)) = None"
  shows "HandleSnap (snap_disk C js files') req =
      (\<lparr> rs_Done = True, rs_Data = data, rs_Term = sn_Term sn, rs_NextSnapshotIndex = sn_Index sn \<rparr>, Ok ()) \<and>
    (\<forall>t i. (t, i) \<noteq> (sn_Term sn, sn_Index sn) \<longrightarrow> snapshotter_load C t i files' = snapshotter_load C t i files)"
proof
  obtain b d where f: "files' = files(snap_name (sn_Term sn) (sn_Index sn) \<mapsto> d)" by (rule saved_file [OF assms(2,3)])
  have other: "files' (snap_name t i) = files (snap_name t i)" if "(t, i) \<noteq> (sn_Term sn, sn_Index sn)" for t i
    using snap_name_inject [of t i "sn_Term sn" "sn_Index sn"] that by (auto simp: f)
  then show "\<forall>t i. (t, i) \<noteq> (sn_Term sn, sn_Index sn) \<longrightarrow> snapshotter_load C t i files' = snapshotter_load C t i files"
    by (simp add: snapshotter_load_def)
  have "HandleSnap (snap_disk C js files') req =
    (\<lparr> rs_Done = True, rs_Data = data, rs_Term = sn_Term sn, rs_NextSnapshotIndex = rr_NextSnapshotIndex req \<rparr>, Ok ())"
  proof (rule HandleSnap_served)
    show "\<forall>t'. rr_Term req \<le> t' \<and> t' < sn_Term sn \<longrightarrow> snap_disk C js files' t' (rr_NextSnapshotIndex req) = None"
      using other assms(7,11) by (auto simp: snap_disk_def)
    show "snap_disk C js files' (sn_Term sn) (rr_NextSnapshotIndex req) = Some (Ok data)"
      using load_saved [OF assms(1-4)] assms(5,7) f by (simp add: snap_disk_def)
  qed (use assms in auto)
  with assms(7) show "HandleSnap (snap_disk C js files') req =
    (\<lparr> rs_Done = True, rs_Data = data, rs_Term = sn_Term sn, rs_NextSnapshotIndex = sn_Index sn \<rparr>, Ok ())" by simp
qed

text \<open>A codec over the one-byte data for the witnesses; the checksum counts the bytes.\<close>

definition demo_codec :: "nat snapcodec" where
  "demo_codec = \<lparr> sc_Marshal = (\<lambda>sn. if sn = \<lparr> sn_Index = 10, sn_Term = 3, sn_Conf = 0, sn_Data = [7] \<rparr> then Ok [1] else Err NotExist),
     sc_Unmarshal = (\<lambda>b. Ok \<lparr> sn_Index = 10, sn_Term = 3, sn_Conf = 0, sn_Data = [7] \<rparr>),
     sc_Pack = (\<lambda>(c, b). if c = of_nat (length b) then Ok (0 # b) else Err NotExist),
     sc_Unpack = (\<lambda>b. Ok (of_nat (length b - 1), tl b)), sc_crc = (\<lambda>b. of_nat (length b)) \<rparr>"

lemma demo_codec_ok: "snapcodec_ok demo_codec"
  by (auto simp: snapcodec_ok_def demo_codec_def split: if_splits)

theorem saved_snapshot_served_witness:
  "HandleSnap (snap_disk demo_codec (\<lambda>sn. Ok (sn_Data sn))
      (fst (snapshotter_saveSnap demo_codec (Ok ()) \<lparr> sn_Index = 10, sn_Term = 3, sn_Conf = 0, sn_Data = [7] \<rparr> (\<lambda>_. None))))
      \<lparr> rr_MaxTerm = 5, rr_Term = 2, rr_NextSnapshotIndex = 10 \<rparr> =
    (\<lparr> rs_Done = True, rs_Data = [7], rs_Term = 3, rs_NextSnapshotIndex = 10 \<rparr>, Ok ())"
  using saved_snapshot_served [OF demo_codec_ok, of "Ok ()" "\<lparr> sn_Index = 10, sn_Term = 3, sn_Conf = 0, sn_Data = [7] \<rparr>"
      "\<lambda>_. None" _ "()" "\<lambda>sn. Ok (sn_Data sn)" "[7]" "\<lparr> rr_MaxTerm = 5, rr_Term = 2, rr_NextSnapshotIndex = 10 \<rparr>"]
  by (simp add: snapshotter_saveSnap_def demo_codec_def)

text \<open>A snapshot whose checksum happens to be 0 is saved without an error and cannot be loaded.\<close>

theorem zero_checksum_unreadable:
  assumes "snapcodec_ok C" "snapshotter_saveSnap C wr sn files = (files', Ok u)" "sn_Index sn \<noteq> 0"
    "sc_Marshal C sn = Ok b" "sc_crc C b = 0"
  shows "snapshotter_load C (sn_Term sn) (sn_Index sn) files' = Err errCRCMismatch"
proof -
  obtain d where "sc_Pack C (0, b) = Ok d" "files' = files(snap_name (sn_Term sn) (sn_Index sn) \<mapsto> d)"
    by (rule saved_file [OF assms(2,3)]) (use assms(4,5) in auto)
  moreover from this have "sc_Unpack C d = Ok (0, b)" "d \<noteq> []"
    using assms(1) by (auto simp: snapcodec_ok_def)
  ultimately show ?thesis by (simp add: snapshotter_load_def read_snap_def)
qed

end
