(* ===== verification/Handlers.thy ===== *)
theory Handlers
  imports TxPool Strconv
begin

text \<open>
  The HTTP interface of the node (\<open>server/server.go\<close>) and the transactions that arrive from other nodes
  (\<open>p2p/node/node.go\<close>). A request is its decoded body, an answer the record that is marshalled into the
  response; routing, headers and logging are left out. A handler that fails answers with its code.
\<close>

section \<open>Requests and answers\<close>

datatype 'a http = HttpErr int | HttpOk 'a

definition ErrJSON :: int where "ErrJSON = - 41201"
definition ErrNoNonce :: int where "ErrNoNonce = - 41202"
definition ErrNoTransaction :: int where "ErrNoTransaction = - 41203"
definition ErrNoTxByHash :: int where "ErrNoTxByHash = - 41204"
definition ErrData :: int where "ErrData = - 41205"
definition ErrNoBlock :: int where "ErrNoBlock = - 41206"
definition ErrtTx :: int where "ErrtTx = - 41207"
definition ErrNoBlockHeight :: int where "ErrNoBlockHeight = - 41208"

lemmas error_codes = ErrJSON_def ErrNoNonce_def ErrNoTransaction_def ErrNoTxByHash_def ErrData_def ErrNoBlock_def
  ErrtTx_def ErrNoBlockHeight_def

record resp =
  rp_Address :: gostring
  rp_Hash :: gostring
  rp_Num :: i64
  rp_Page :: i64

record reqLock =
  rl_Address :: gostring
  rl_Pas :: gostring
  rl_Amount :: gostring

text \<open>The server's own \<open>Order\<close>, \<open>Transaction\<close> and \<open>Block\<close>: texts instead of bytes.\<close>

record OrderView =
  ov_Id :: gostring
  ov_Address :: gostring
  ov_Price :: u64
  ov_Hash :: gostring
  ov_Signature :: gostring
  ov_Ciphertext :: gostring
  ov_Tradename :: gostring
  ov_Region :: gostring

record TransactionView =
  tv_Nonce :: u64
  tv_BlockNumber :: u64
  tv_Amount :: u64
  tv_From :: gostring
  tv_To :: gostring
  tv_Hash :: gostring
  tv_Signature :: gostring
  tv_Time :: i64
  tv_Script :: gostring
  tv_Ord :: OrderView

record BlockView =
  bv_Height :: u64
  bv_PrevBlockHash :: gostring
  bv_Miner :: gostring
  bv_Txs :: "TransactionView list"
  bv_Root :: gostring
  bv_Version :: u64
  bv_Timestamp :: i64
  bv_Hash :: gostring
  bv_FirstTx :: "MinerTx list"

definition zero_OrderView :: OrderView where
  "zero_OrderView = \<lparr> ov_Id = [], ov_Address = [], ov_Price = 0, ov_Hash = [], ov_Signature = [], ov_Ciphertext = [],
     ov_Tradename = [], ov_Region = [] \<rparr>"

definition zero_BlockView :: BlockView where
  "zero_BlockView = \<lparr> bv_Height = 0, bv_PrevBlockHash = [], bv_Miner = [], bv_Txs = [], bv_Root = [], bv_Version = 0,
     bv_Timestamp = 0, bv_Hash = [], bv_FirstTx = [] \<rparr>"

section \<open>Views of transactions and blocks\<close>

text \<open>
  The handlers fill in different fields. All of them the first seven; three of them the script, and the
  order with its trade name and region; the two paging ones the order without these, and one of those the
  block's height as the number.
\<close>

definition plain_view :: "transaction \<Rightarrow> TransactionView" where
  "plain_view tx = \<lparr> tv_Nonce = tNonce tx, tv_BlockNumber = tBlockNumber tx, tv_Amount = tAmount tx,
     tv_From = AddressToByte (tFrom tx), tv_To = AddressToByte (tTo tx), tv_Hash = hexEncode (tHash tx),
     tv_Signature = hexEncode (tSignature tx), tv_Time = tTime tx, tv_Script = [], tv_Ord = zero_OrderView \<rparr>"

definition order_view :: "Order \<Rightarrow> OrderView" where
  "order_view ord = \<lparr> ov_Id = oId ord, ov_Address = AddressToByte (oAddress ord), ov_Price = oPrice ord,
     ov_Hash = hexEncode (oHash ord), ov_Signature = hexEncode (oSignature ord), ov_Ciphertext = hexEncode (oCiphertext ord),
     ov_Tradename = [], ov_Region = [] \<rparr>"

definition full_view :: "transaction \<Rightarrow> TransactionView" where
  "full_view tx = (plain_view tx)\<lparr> tv_Script := tScript tx,
     tv_Ord := (order_view (tOrd tx))\<lparr> ov_Tradename := oTradename (tOrd tx), ov_Region := oRegion (tOrd tx) \<rparr> \<rparr>"

definition paging_view :: "transaction \<Rightarrow> TransactionView" where
  "paging_view tx = (plain_view tx)\<lparr> tv_Script := tScript tx, tv_Ord := order_view (tOrd tx) \<rparr>"

definition latest_view :: "u64 \<Rightarrow> transaction \<Rightarrow> TransactionView" where
  "latest_view h tx = (plain_view tx)\<lparr> tv_BlockNumber := h, tv_Ord := order_view (tOrd tx) \<rparr>"

definition block_view :: "(transaction \<Rightarrow> TransactionView) \<Rightarrow> Block \<Rightarrow> BlockView" where
  "block_view f b = \<lparr> bv_Height = bHeight b, bv_PrevBlockHash = hexEncode (bPrevBlockHash b), bv_Miner = bMiner b,
     bv_Txs = map f (bTxs b), bv_Root = hexEncode (bRoot b), bv_Version = bVersion b, bv_Timestamp = bTimestamp b,
     bv_Hash = hexEncode (bHash b), bv_FirstTx = bFirstTx b \<rparr>"

section \<open>Single blocks and transactions\<close>

text \<open>An error other than a panic answers with the code.\<close>

definition or_code :: "int \<Rightarrow> 'a outcome \<Rightarrow> ('a \<Rightarrow> 'b http outcome) \<Rightarrow> 'b http outcome" where
  "or_code c r f = (case r of Ok x \<Rightarrow> f x | Err e \<Rightarrow> Ok (HttpErr c) | Panic \<Rightarrow> Panic)"

definition GetMaxBlockNum :: "('d, 't) DB \<Rightarrow> 'd \<Rightarrow> u64 http outcome" where
  "GetMaxBlockNum D d = or_code ErrNoBlockHeight (GetMaxBlockHeight D d) (\<lambda>h. Ok (HttpOk h))"

definition getNonceHandler :: "('d, 't) DB \<Rightarrow> ('d, 't) Transaction \<Rightarrow> resp outcome \<Rightarrow> ('d, u64 http) act" where
  "getNonceHandler D T body d =
     (case body of
        Ok req \<Rightarrow> (case GetNonce D T (rp_Address req) d of (d, r) \<Rightarrow> (d, or_code ErrNoNonce r (\<lambda>n. Ok (HttpOk n))))
      | Err e \<Rightarrow> (d, Ok (HttpErr ErrJSON))
      | Panic \<Rightarrow> (d, Panic))"

text \<open>A balance that cannot be read is 0.\<close>

definition GetBalancebyAddr :: "('d, 't) DB \<Rightarrow> ('d, 't) Transaction \<Rightarrow> resp outcome \<Rightarrow> ('d, u64 http) act" where
  "GetBalancebyAddr D T body d =
     (case body of
        Ok req \<Rightarrow> (case GetBalance D T (rp_Address req) d of
            (d, Ok b) \<Rightarrow> (d, Ok (HttpOk b)) | (d, Err e) \<Rightarrow> (d, Ok (HttpOk 0)) | (d, Panic) \<Rightarrow> (d, Panic))
      | Err e \<Rightarrow> (d, Ok (HttpErr ErrJSON))
      | Panic \<Rightarrow> (d, Panic))"

text \<open>A stored null gives a nil transaction, which the handler reads from.\<close>

definition GetTransactionbyhash :: "('d, 't) DB \<Rightarrow> json \<Rightarrow> resp outcome \<Rightarrow> 'd \<Rightarrow> TransactionView http outcome" where
  "GetTransactionbyhash D js body d =
     or_code ErrJSON body (\<lambda>req. case hexDecode (rp_Hash req) of
       (hash, r) \<Rightarrow> or_code ErrData r (\<lambda>_.
         or_code ErrNoTxByHash (GetTransaction D js d hash) (\<lambda>tx.
           case tx of None \<Rightarrow> Panic | Some tx \<Rightarrow> Ok (HttpOk (full_view tx)))))"

definition GetTransactionbyAddr ::
  "('d, 't) DB \<Rightarrow> ('d, 't) Transaction \<Rightarrow> json \<Rightarrow> resp outcome \<Rightarrow> ('d, TransactionView list http) act" where
  "GetTransactionbyAddr D T js body d =
     (case body of
        Ok req \<Rightarrow> (case GetTransactionByAddr D T js (rp_Address req) d of
            (d, r) \<Rightarrow> (d, or_code ErrNoTransaction r (\<lambda>txs.
              if txs = [] then Ok (HttpErr ErrNoTransaction) else Ok (HttpOk (map full_view txs)))))
      | Err e \<Rightarrow> (d, Ok (HttpErr ErrJSON))
      | Panic \<Rightarrow> (d, Panic))"

text \<open>The error of decoding the hash is dropped: what was decoded before it is looked up.\<close>

definition GetBlockbyHash :: "('d, 't) DB \<Rightarrow> json \<Rightarrow> resp outcome \<Rightarrow> 'd \<Rightarrow> BlockView http outcome" where
  "GetBlockbyHash D js body d =
     or_code ErrJSON body (\<lambda>req.
       or_code ErrNoBlock (GetBlockByHash D js d (fst (hexDecode (rp_Hash req)))) (\<lambda>b.
         case b of None \<Rightarrow> Panic | Some b \<Rightarrow> Ok (HttpOk (block_view plain_view b))))"

definition GetBlockbyNum :: "('d, 't) DB \<Rightarrow> json \<Rightarrow> resp outcome \<Rightarrow> 'd \<Rightarrow> BlockView http outcome" where
  "GetBlockbyNum D js body d =
     or_code ErrJSON body (\<lambda>req.
       or_code ErrNoBlock (GetBlockByHeight D js d (rp_Num req)) (\<lambda>b. Ok (HttpOk (block_view full_view b))))"

section \<open>The newest block with transactions\<close>

text \<open>The zero block when no block has any.\<close>

function latest_block :: "('d, 't) DB \<Rightarrow> json \<Rightarrow> 'd \<Rightarrow> u64 \<Rightarrow> BlockView http outcome" where
  "latest_block D js d h =
     (if h > 0
      then or_code ErrNoBlockHeight (GetBlockByHeight D js d h) (\<lambda>b.
        if bTxs b = [] then latest_block D js d (h - 1) else Ok (HttpOk (block_view (latest_view (bHeight b)) b)))
      else Ok (HttpOk zero_BlockView))"
  by pat_completeness auto
termination
  by (relation "measure (\<lambda>(D, js, d, h). unat h)") (auto simp: unat_minus_one word_gt_0 unat_gt_0)

declare latest_block.simps [simp del]

definition GetBlock_FY :: "('d, 't) DB \<Rightarrow> json \<Rightarrow> 'd \<Rightarrow> BlockView http outcome" where
  "GetBlock_FY D js d = or_code ErrNoBlock (GetMaxBlockHeight D d) (latest_block D js d)"

section \<open>Pages of blocks\<close>

text \<open>
  \<open>for i := blocknumber; i > 0 && i > (blocknumber-reqData.Num); i--\<close> on signed numbers; a block that is
  missing ends the list.
\<close>

function page_loop :: "('d, 't) DB \<Rightarrow> json \<Rightarrow> 'd \<Rightarrow> i64 \<Rightarrow> i64 \<Rightarrow> BlockView list \<Rightarrow> BlockView list outcome" where
  "page_loop D js d lo i blockList =
     (if 0 <s i \<and> lo <s i
      then (case GetBlockByHeight D js d i of
          Ok b \<Rightarrow> page_loop D js d lo (i - 1) (blockList @ [block_view paging_view b])
        | Err e \<Rightarrow> Ok blockList
        | Panic \<Rightarrow> Panic)
      else Ok blockList)"
  by pat_completeness auto
termination
proof (relation "measure (\<lambda>(D, js, d, lo, i, l). unat i)", goal_cases)
  case (2 D js d lo i blockList b)
  then have "i \<noteq> 0" by auto
  then show ?case by (simp add: unat_minus_one unat_gt_0)
qed simp

declare page_loop.simps [simp del]

definition GetBlockbyNum_FY ::
  "('d, 't) DB \<Rightarrow> json \<Rightarrow> resp outcome \<Rightarrow> 'd \<Rightarrow> (u64 \<times> BlockView list) http outcome" where
  "GetBlockbyNum_FY D js body d =
     or_code ErrJSON body (\<lambda>req.
       if rp_Num req <s 0 \<or> rp_Page req <s 0 then Ok (HttpErr ErrData)
       else or_code ErrNoBlockHeight (GetMaxBlockHeight D d) (\<lambda>maxHeight.
         let blocknumber = maxHeight - (rp_Page req - 1) * rp_Num req in
         if blocknumber \<le>s 0 then Ok (HttpErr ErrData)
         else obind (page_loop D js d (blocknumber - rp_Num req) blocknumber []) (\<lambda>blockList.
           Ok (HttpOk (maxHeight, blockList)))))"

section \<open>Accepting transactions, and locking\<close>

text \<open>The third component is what is broadcast to the other nodes.\<close>

definition RecepTx ::
  "ed25519 \<Rightarrow> ('d, 't) DB \<Rightarrow> ('d, 't) Transaction \<Rightarrow> gostring \<Rightarrow> i64 \<Rightarrow> transaction outcome \<Rightarrow> Txpool \<times> 'd \<Rightarrow>
    (Txpool \<times> 'd) \<times> gostring http outcome \<times> transaction list" where
  "RecepTx ed D T cfg now body s =
     (case body of
        Err e \<Rightarrow> (s, Ok (HttpErr ErrJSON), [])
      | Panic \<Rightarrow> (s, Panic, [])
      | Ok tx \<Rightarrow>
          if tFrom tx = tTo tx then (s, Ok (HttpErr ErrData), [])
          else (case pool_Add ed D T cfg now tx s of
              (s, Err e) \<Rightarrow> (s, Ok (HttpErr ErrtTx), [])
            | (s, Panic) \<Rightarrow> (s, Panic, [])
            | (s, Ok _) \<Rightarrow> (s, Ok (HttpOk (hexEncode (tHash tx))), [tx\<lparr> tTime := now \<rparr>])))"

text \<open>\<open>p2p/node\<close>: a transaction another node has broadcast; one that does not decode is dropped, as is the
  pool's answer.\<close>

definition recv ::
  "ed25519 \<Rightarrow> ('d, 't) DB \<Rightarrow> ('d, 't) Transaction \<Rightarrow> gostring \<Rightarrow> i64 \<Rightarrow> transaction outcome \<Rightarrow> (Txpool \<times> 'd, unit) act" where
  "recv ed D T cfg now data s =
     (case data of
        Ok tx \<Rightarrow> (case pool_Add ed D T cfg now tx s of (s, r) \<Rightarrow> (s, if r = Panic then Panic else Ok ()))
      | Err e \<Rightarrow> (s, Ok ())
      | Panic \<Rightarrow> (s, Panic))"

definition PasLock :: gostring where
  "PasLock = lit ''myxwxhqutjqc''"

text \<open>The text written to the response, and the lock. A body that does not decode leaves the empty request.\<close>

definition LockAmount :: "('d, 't) DB \<Rightarrow> ('d, 't) Transaction \<Rightarrow> reqLock \<Rightarrow> ('d, gostring) act" where
  "LockAmount D T v d =
     (case LockBalance D T (rl_Address v) (word_of_int (fst (ParseInt 10 64 (rl_Amount v)))) d of
        (d, Panic) \<Rightarrow> (d, Panic)
      | (d, _) \<Rightarrow> (d, Ok (if rl_Pas v \<noteq> PasLock then lit ''lock failed'' else [])))"

section \<open>Exchange rates\<close>

text \<open>
  Two handlers pass on what a market's server answers. \<open>fetch\<close> is the outcome of the request; when it
  fails a fixed text is the answer. The Chinese message is written as its bytes.
\<close>

record http_request =
  hr_Method :: gostring
  hr_URI :: gostring
  hr_ContentType :: gostring
  hr_Body :: bytes

definition ticker_request :: http_request where
  "ticker_request = \<lparr> hr_Method = lit ''GET'', hr_URI = lit ''https://www.bcone.vip/api/market/tickers/ticker?symbol=usdt_kto'',
     hr_ContentType = [], hr_Body = [] \<rparr>"

definition rate_request :: http_request where
  "rate_request = \<lparr> hr_Method = lit ''POST'', hr_URI = lit ''https://www.bcone.vip/api/currency/currency/getUsdtCny'',
     hr_ContentType = lit ''application/json'', hr_Body = lit ''{}'' \<rparr>"

definition passed_on :: "bytes \<Rightarrow> bytes outcome \<Rightarrow> bytes outcome" where
  "passed_on failed r = (case r of Ok body \<Rightarrow> Ok body | Err e \<Rightarrow> Ok failed | Panic \<Rightarrow> Panic)"

definition GetUSDkto :: "(http_request \<Rightarrow> bytes outcome) \<Rightarrow> bytes outcome" where
  "GetUSDkto fetch = passed_on (lit ''{\"success\":true}'') (fetch ticker_request)"

definition GetUsdtCny :: "(http_request \<Rightarrow> bytes outcome) \<Rightarrow> bytes outcome" where
  "GetUsdtCny fetch =
     passed_on (lit ''{\"flag\":0,\"isSuccess\":false,\"data\":{},\"message\":\"'' @
         [0xE6, 0x95, 0xB0, 0xE6, 0x8D, 0xAE, 0xE9, 0x94, 0x99, 0xE8, 0xAF, 0xAF] @ lit ''\"}'')
       (fetch rate_request)"

text \<open>
  \<open>transaction.SendTransaction\<close>, the client's side of \<open>RecepTx\<close>: \<open>marshal\<close> and \<open>hash_of\<close> are the JSON of the
  transaction and the field \<open>hash\<close> of the answer. An answer that does not decode counts as the empty hash.
\<close>

definition send_request :: "bytes \<Rightarrow> http_request" where
  "send_request body = \<lparr> hr_Method = lit ''POST'', hr_URI = lit ''http://127.0.0.1:12345/ReceTransaction?'',
     hr_ContentType = lit ''application/json'', hr_Body = body \<rparr>"

definition tx_SendTransaction ::
  "(transaction \<Rightarrow> bytes outcome) \<Rightarrow> (bytes \<Rightarrow> gostring outcome) \<Rightarrow> (http_request \<Rightarrow> bytes outcome) \<Rightarrow> transaction \<Rightarrow>
    gostring outcome" where
  "tx_SendTransaction marshal hash_of fetch tx =
     obind (fetch (send_request (or_zero [] (marshal tx)))) (\<lambda>b. Ok (or_zero [] (hash_of b)))"

end
