(* ===== verification/HandlersSpec.thy ===== *)
theory HandlersSpec
  imports Handlers ChainSpec TxPoolSpec
begin

text \<open>
  Properties of the HTTP interface: pages of blocks are the slices of the chain from the newest block
  down, the newest block with transactions is found, a transaction of an appended block is served under
  its hash; what \<open>RecepTx\<close> keeps out of the pool and the network interface lets in; and a lock that no
  password guards.
\<close>

section \<open>Pages\<close>

text \<open>A chain of \<open>H\<close> blocks that can all be read.\<close>

definition readable_chain :: "('d, 't) DB \<Rightarrow> json \<Rightarrow> 'd \<Rightarrow> nat \<Rightarrow> (nat \<Rightarrow> Block) \<Rightarrow> bool" where
  "readable_chain D js d H blk \<longleftrightarrow> H < 2 ^ 63 \<and> GetMaxBlockHeight D d = Ok (of_nat H) \<and>
     (\<forall>h. 1 \<le> h \<and> h \<le> H \<longrightarrow> GetBlockByHeight D js d (of_nat h) = Ok (blk h))"

lemma sint_of_nat_small: "n < 2 ^ 63 \<Longrightarrow> sint (of_nat n :: 64 word) = int n"
  by (simp add: sint_uint_small uint_nat unat_of_nat_small)

lemma sint_diff_small:
  assumes "a < 2 ^ 63" "b < 2 ^ 63"
  shows "sint (of_nat a - of_nat b :: 64 word) = int a - int b"
proof -
  have "sint (of_nat a - of_nat b :: 64 word) = signed_take_bit 63 (int a - int b)"
    using sint_of_nat_small [OF assms(1)] sint_of_nat_small [OF assms(2)] by (simp only: sint_word_ariths) simp
  also have "\<dots> = int a - int b"
    by (rule signed_take_bit_int_eq_self) (use assms in simp_all)
  finally show ?thesis .
qed

lemma page_loop_blocks:
  assumes "readable_chain D js d H blk" "i \<le> H"
  shows "page_loop D js d lo (of_nat i) acc =
    Ok (acc @ map (\<lambda>h. block_view paging_view (blk h)) (rev [Suc (nat (sint lo))..<Suc i]))"
  using assms(2)
proof (induction i arbitrary: acc)
  case 0
  then show ?case by (simp add: page_loop.simps [of D js d lo 0])
next
  case (Suc i)
  have H: "H < 2 ^ 63" using assms(1) by (simp add: readable_chain_def)
  then have s: "sint (of_nat (Suc i) :: 64 word) = int (Suc i)" using Suc.prems by (intro sint_of_nat_small) simp
  have get: "GetBlockByHeight D js d (of_nat (Suc i)) = Ok (blk (Suc i))"
    using assms(1) Suc.prems by (simp add: readable_chain_def del: of_nat_Suc)
  have pos: "0 <s (of_nat (Suc i) :: 64 word)" using s by (simp add: word_sless_alt del: of_nat_Suc)
  have less: "lo <s (of_nat (Suc i) :: 64 word) \<longleftrightarrow> nat (sint lo) \<le> i"
    using s by (auto simp: word_sless_alt simp del: of_nat_Suc)
  show ?case
  proof (cases "nat (sint lo) \<le> i")
    case True
    have "page_loop D js d lo (of_nat (Suc i)) acc =
        page_loop D js d lo (of_nat i) (acc @ [block_view paging_view (blk (Suc i))])"
      using pos less True get by (subst page_loop.simps) (simp del: of_nat_Suc, simp)
    also have "\<dots> = Ok (acc @ [block_view paging_view (blk (Suc i))] @
        map (\<lambda>h. block_view paging_view (blk h)) (rev [Suc (nat (sint lo))..<Suc i]))"
      using Suc by simp
    finally show ?thesis using True by simp
  next
    case False
    then show ?thesis using less by (subst page_loop.simps) (simp del: of_nat_Suc)
  qed
qed

lemma descending_slice:
  "take n (drop k (rev [1..<Suc H])) = rev [Suc (H - k - n)..<Suc (H - k)]"
proof -
  have "drop k (rev [1..<Suc H]) = rev [1..<Suc (H - k)]"
    by (simp add: drop_rev take_upt del: upt_Suc)
  then show ?thesis by (simp add: take_rev drop_upt del: upt_Suc)
qed

text \<open>C29: On a readable chain the \<open>p\<close>-th page of \<open>n\<close> blocks is the \<open>p\<close>-th slice of length \<open>n\<close> of the chain from
  the newest block down, so the pages list every block once.\<close>

theorem pages_are_slices:
  assumes "readable_chain D js d H blk" "rp_Num req = of_nat n" "rp_Page req = of_nat p"
    "1 \<le> p" "p < 2 ^ 63" "n < 2 ^ 63" "(p - 1) * n < H"
  shows "GetBlockbyNum_FY D js (Ok req) d = Ok (HttpOk (of_nat H,
    take n (drop ((p - 1) * n) (map (\<lambda>h. block_view paging_view (blk h)) (rev [1..<Suc H])))))"
proof -
  let ?k = "(p - 1) * n" and ?bn = "H - (p - 1) * n"
  have H: "H < 2 ^ 63" "GetMaxBlockHeight D d = Ok (of_nat H)" using assms(1) by (auto simp: readable_chain_def)
  have bn: "of_nat H - (rp_Page req - 1) * rp_Num req = (of_nat ?bn :: u64)"
    using assms(4,7) by (simp add: assms(2,3) of_nat_diff)
  have sbn: "sint (of_nat ?bn :: i64) = int ?bn" "0 < ?bn"
    using H(1) assms(7) sint_of_nat_small [of ?bn] by simp_all
  have pos: "\<not> (of_nat ?bn :: u64) \<le>s 0" "\<not> rp_Num req <s 0" "\<not> rp_Page req <s 0"
    using sbn sint_of_nat_small [OF assms(6)] sint_of_nat_small [OF assms(5)]
    by (simp_all add: assms(2,3) word_sle_eq word_sless_alt del: of_nat_diff)
  have "sint (of_nat ?bn - rp_Num req) = int ?bn - int n"
    unfolding assms(2) using H(1) assms(6) by (intro sint_diff_small) simp_all
  then have lo: "nat (sint (of_nat ?bn - rp_Num req)) = ?bn - n" by simp
  note loop = page_loop_blocks [OF assms(1) diff_le_self [of H ?k], of "of_nat ?bn - rp_Num req" "[]", unfolded lo append_Nil]
  show ?thesis
    using pos H(2) loop unfolding GetBlockbyNum_FY_def
    by (simp add: or_code_def bn Let_def take_map drop_map descending_slice [unfolded One_nat_def diff_diff_left]
        del: upt_Suc of_nat_diff)
qed

text \<open>Two blocks, the first with a transaction.\<close>

definition page_json :: json where
  "page_json = demo_json\<lparr> uj_Block := (\<lambda>b x. (x\<lparr> bHeight := of_nat (unat (hd b)), bTxs := (if hd b = 1 then [demo_tx] else []) \<rparr>,
     Ok ())) \<rparr>"

definition page_db :: mdb where
  "page_db = fmupd (eMapKey (E64func 1) (lit ''hash'')) [1] (fmupd (eMapKey (E64func 2) (lit ''hash'')) [2]
     (fmupd (lit ''height'') (E64func 2) (fmupd [1] [1] (fmupd [2] [2] fmempty))))"

definition page_block :: "nat \<Rightarrow> Block" where
  "page_block h = NewBlock0\<lparr> bHeight := of_nat h, bTxs := (if h = 1 then [demo_tx] else []) \<rparr>"

lemma page_chain: "readable_chain (bgStore map_badger) page_json page_db 2 page_block"
proof -
  let ?k = "\<lambda>i. eMapKey (E64func i) (lit ''hash'')"
  have ne: "?k i \<noteq> lit ''height''" for i
    using neq_if_length_neq [of "?k i" "lit ''height''"] by (simp add: lit_def)
  have ne1: "?k i \<noteq> [b]" for i b
    using neq_if_length_neq [of "?k i" "[b]"] by (simp add: lit_def)
  have ne2: "lit ''height'' \<noteq> [b]" for b by (simp add: lit_def)
  have key: "?k i = ?k j \<longleftrightarrow> i = j" for i j by (simp add: eMapKey_inject)
  have "fmlookup page_db (?k 1) = Some [1]" "fmlookup page_db (?k 2) = Some [2]" "fmlookup page_db [1] = Some [1]"
    "fmlookup page_db [2] = Some [2]" "fmlookup page_db (lit ''height'') = Some (E64func 2)"
    using ne ne1 ne2 key by (simp_all add: page_db_def del: length_eMapKey)
  note look = this
  have "GetBlockByHeight (bgStore map_badger) page_json page_db (of_nat h) = Ok (page_block h)" if h: "1 \<le> h \<and> h \<le> 2" for h
  proof -
    consider "h = 1" | "h = 2" using h by linarith
    then show ?thesis
      using ms.GetBlockByHeight_stored [OF look(1)] ms.GetBlockByHeight_stored [OF look(2)] look(3,4)
      by cases (simp_all add: unmarshal_def abind_def page_json_def page_block_def)
  qed
  moreover have "GetMaxBlockHeight (bgStore map_badger) page_db = Ok (of_nat 2)"
    using ms.GetMaxBlockHeight_stored [of page_db] look(5) by simp
  ultimately show ?thesis by (simp add: readable_chain_def)
qed

lemma two_down: "[Suc 0..<3] = [1, 2]"
  by (simp add: eval_nat_numeral)

theorem pages_are_slices_witness:
  "GetBlockbyNum_FY (bgStore map_badger) page_json
      (Ok \<lparr> rp_Address = [], rp_Hash = [], rp_Num = 1, rp_Page = 2 \<rparr>) page_db =
    Ok (HttpOk (2, [block_view paging_view (page_block 1)]))"
  using pages_are_slices [OF page_chain, of "\<lparr> rp_Address = [], rp_Hash = [], rp_Num = 1, rp_Page = 2 \<rparr>" 1 2]
  by (simp add: two_down)

section \<open>The newest block with transactions\<close>

lemma latest_block_found:
  assumes "readable_chain D js d H blk" "i \<le> H"
  shows "latest_block D js d (of_nat i) =
    Ok (HttpOk (case find (\<lambda>b. bTxs b \<noteq> []) (map blk (rev [1..<Suc i])) of
      None \<Rightarrow> zero_BlockView | Some b \<Rightarrow> block_view (latest_view (bHeight b)) b))"
  using assms(2)
proof (induction i)
  case 0
  then show ?case by (simp add: latest_block.simps [of D js d 0])
next
  case (Suc i)
  have H: "H < 2 ^ 63" using assms(1) by (simp add: readable_chain_def)
  have get: "GetBlockByHeight D js d (of_nat (Suc i)) = Ok (blk (Suc i))"
    using assms(1) Suc.prems by (simp add: readable_chain_def del: of_nat_Suc)
  have "unat (of_nat (Suc i) :: u64) = Suc i"
    by (rule unat_of_nat_small) (use H Suc.prems in simp)
  then have pos: "(0 :: u64) < of_nat (Suc i)" by (simp add: word_less_nat_alt del: of_nat_Suc)
  show ?case
    using Suc pos get by (subst latest_block.simps) (simp add: or_code_def del: of_nat_Suc, simp)
qed

text \<open>\<open>GetBlock_FY\<close> shows the newest block that has transactions, and the zero block when none has.\<close>

theorem GetBlock_FY_newest:
  assumes "readable_chain D js d H blk"
  shows "GetBlock_FY D js d = Ok (HttpOk (case find (\<lambda>b. bTxs b \<noteq> []) (map blk (rev [1..<Suc H])) of
      None \<Rightarrow> zero_BlockView | Some b \<Rightarrow> block_view (latest_view (bHeight b)) b))"
  using latest_block_found [OF assms order_refl] assms
  by (simp add: GetBlock_FY_def or_code_def readable_chain_def)

theorem GetBlock_FY_newest_witness:
  "GetBlock_FY (bgStore map_badger) page_json page_db =
    Ok (HttpOk (block_view (latest_view (bHeight (page_block 1))) (page_block 1)))"
proof -
  have "find (\<lambda>b. bTxs b \<noteq> []) (map page_block (rev [1..<Suc 2])) = Some (page_block 1)"
    by (simp add: two_down page_block_def NewBlock0_def)
  then show ?thesis by (simp only: GetBlock_FY_newest [OF page_chain] option.case)
qed

section \<open>Transactions by hash\<close>

lemma stored_transaction:
  assumes "block_shape b minaddr" "list_all2 noted (sTxs b) txs'" "distinct (map tHash (sTxs b))" "Tx \<in> set (sTxs b)"
  shows "\<exists>Tx'. noted Tx Tx' \<and> block_effect js b minaddr h txs' c (tHash Tx) = Some (js_tx js Tx')"
proof -
  obtain xs ys where split: "sTxs b = xs @ Tx # ys" using assms(4) by (meson split_list)
  with assms(2) obtain xs' Tx' ys' where txs': "txs' = xs' @ Tx' # ys'" "noted Tx Tx'" "list_all2 noted ys ys'"
    by (auto simp: list_all2_append1 list_all2_Cons1)
  have hash: "tHash Tx' = tHash Tx" using noted_fields [OF txs'(2)] by simp
  have shape: "tx_shape Tx" "\<forall>Tx \<in> set ys. tx_shape Tx" "length (sHash b) = 32" "length minaddr = 47"
    using assms(1) split by (auto simp: block_shape_def)
  have "tHash Tx \<notin> tHash ` set ys" using assms(3) split by auto
  then have "length (tHash Tx) < 32 \<or> length (tHash Tx) = 32 \<and> tHash Tx \<notin> tHash ` set ys"
    using shape(1) by (simp add: tx_shape_def)
  from txs_effect_keeps [OF txs'(3) shape(2,4,3) this, of js h]
  have "block_effect js b minaddr h txs' c (tHash Tx) =
      tx_effect js (sHash b) h minaddr Tx' (foldl (\<lambda>c Tx. tx_effect js (sHash b) h minaddr Tx c) (header_effect js b h c) xs')
        (tHash Tx)"
    by (simp add: block_effect_def txs'(1))
  also have "\<dots> = Some (js_tx js Tx')" by (simp add: tx_effect_def Let_def hash [symmetric])
  finally show ?thesis using txs'(2) by blast
qed

text \<open>C30: A transaction of an appended block is served under the hash the answers print, as it was stored:
  unchanged, or with the note that its contract could not be flushed.\<close>

theorem stored_transaction_served:
  assumes "roomy_badger B view writes contents" "block_shape b minaddr"
    "contents (bc_db bc) (lit ''height'') = Some (E64func h)"
    "snd (AddBlock (bgStore B) (bgTransaction B) js ord b minaddr bc) = Ok ()"
    "distinct (map tHash (sTxs b))" "Tx \<in> set (sTxs b)" "rp_Hash req = hexEncode (tHash Tx)"
    "\<forall>Tx'. noted Tx Tx' \<longrightarrow> uj_tx js (js_tx js Tx') zero_transaction = (Tx', Ok ()) \<and> \<not> js_null js (js_tx js Tx')"
  shows "\<exists>Tx'. noted Tx Tx' \<and> GetTransactionbyhash (bgStore B) js (Ok req)
    (bc_db (fst (AddBlock (bgStore B) (bgTransaction B) js ord b minaddr bc))) = Ok (HttpOk (full_view Tx'))"
proof -
  let ?d = "bc_db (fst (AddBlock (bgStore B) (bgTransaction B) js ord b minaddr bc))"
  note tx = bg_store_tx [OF assms(1)]
  obtain txs' where txs': "list_all2 noted (sTxs b) txs'"
    "contents ?d = block_effect js b minaddr (h + 1) txs' (contents (bc_db bc))"
    by (rule store_tx.AddBlock_done [OF tx assms(4,2,3)])
  obtain Tx' where Tx': "noted Tx Tx'" "contents ?d (tHash Tx) = Some (js_tx js Tx')"
    using stored_transaction [OF assms(2) txs'(1) assms(5,6), of js "h + 1" "contents (bc_db bc)"] txs'(2) by auto
  have "tHash Tx \<noteq> []" using assms(2,6) by (auto simp: block_shape_def tx_shape_def)
  then have "db_Get (bgStore B) ?d (tHash Tx) = Ok (js_tx js Tx')"
    using store_tx.get_stored [OF tx] Tx'(2) by simp
  then have "GetTransaction (bgStore B) js ?d (tHash Tx) = Ok (Some Tx')"
    using assms(8) Tx'(1) by (simp add: GetTransaction_def unmarshal_def abind_def)
  then have "GetTransactionbyhash (bgStore B) js (Ok req) ?d = Ok (HttpOk (full_view Tx'))"
    by (simp add: GetTransactionbyhash_def or_code_def assms(7) hexDecode_hexEncode)
  with Tx'(1) show ?thesis by blast
qed

definition note_json :: json where
  "note_json = demo_json\<lparr> js_tx := (\<lambda>t. if tErrmsg t = [] then [2] else [4]),
     uj_tx := (\<lambda>b x. (if b = [2] then demo_tx else demo_tx\<lparr> tErrmsg := lit ''flush code is failed'' \<rparr>, Ok ())) \<rparr>"

theorem stored_transaction_served_witness:
  "\<exists>Tx'. noted demo_tx Tx' \<and> GetTransactionbyhash (bgStore map_badger) note_json
    (Ok \<lparr> rp_Address = [], rp_Hash = hexEncode (replicate 32 9), rp_Num = 0, rp_Page = 0 \<rparr>)
    (bc_db (fst (AddBlock (bgStore map_badger) (bgTransaction map_badger) note_json (\<lambda>_. []) demo_block addr_a
      \<lparr> bc_db = demo_db, bc_cdb = fmempty \<rparr>))) = Ok (HttpOk (full_view Tx'))"
proof (rule stored_transaction_served [OF map_badger_roomy demo_shape])
  show "fmlookup (bc_db \<lparr> bc_db = demo_db, bc_cdb = fmempty :: mdb \<rparr>) (lit ''height'') = Some (E64func 1)"
    by (simp add: demo_height)
  show "snd (AddBlock (bgStore map_badger) (bgTransaction map_badger) note_json (\<lambda>_. []) demo_block addr_a
      \<lparr> bc_db = demo_db, bc_cdb = fmempty \<rparr>) = Ok ()"
    by (rule ms.AddBlock_no_scripts [OF demo_shape demo_scripts]) (simp add: demo_height)
  show "distinct (map tHash (sTxs demo_block))" "demo_tx \<in> set (sTxs demo_block)"
    by (simp_all add: demo_block_def)
  show "\<forall>Tx'. noted demo_tx Tx' \<longrightarrow> uj_tx note_json (js_tx note_json Tx') zero_transaction = (Tx', Ok ()) \<and>
      \<not> js_null note_json (js_tx note_json Tx')"
    by (auto simp: noted_def note_json_def demo_json_def demo_tx_def zero_transaction_def lit_def)
qed (simp add: demo_tx_def)

section \<open>What enters the pool\<close>

definition no_self_transfers :: "Txpool \<Rightarrow> bool" where
  "no_self_transfers p \<longleftrightarrow> (\<forall>tx \<in> set (p_List p). tFrom tx \<noteq> tTo tx)"

lemma pool_Add_members:
  "pool_Add ed D T cfg now tx (p, d) = ((p', d'), r) \<Longrightarrow> r = Ok () \<Longrightarrow>
    set (p_List p') = insert (tx\<lparr> tTime := now \<rparr>) (set (p_List p))"
proof -
  assume add: "pool_Add ed D T cfg now tx (p, d) = ((p', d'), r)" "r = Ok ()"
  then have "p' = p\<lparr> p_List := heap_Push TxHeap_Less (p_List p) (tx\<lparr> tTime := now \<rparr>) \<rparr>"
    using pool_Add_Ok(4) [of ed D T cfg now tx p d "(p', d')"] by simp
  then show ?thesis
    using heap_Push_keeps [of TxHeap_Less "p_List p" "tx\<lparr> tTime := now \<rparr>"]
    by (metis (no_types, lifting) Txpool.select_convs(1) Txpool.surjective Txpool.update_convs(1) set_mset_add_mset_insert set_mset_mset)
qed

text \<open>Through the HTTP interface no transfer from an address to itself gets into the pool.\<close>

theorem RecepTx_keeps_out_self_transfers:
  assumes "no_self_transfers p" "RecepTx ed D T cfg now body (p, d) = ((p', d'), r, out)"
  shows "no_self_transfers p' \<and> (\<forall>tx \<in> set out. tFrom tx \<noteq> tTo tx)"
proof (cases "\<exists>tx. body = Ok tx \<and> tFrom tx \<noteq> tTo tx")
  case False
  with assms show ?thesis by (cases body) (auto simp: RecepTx_def)
next
  case True
  then obtain tx where tx: "body = Ok tx" "tFrom tx \<noteq> tTo tx" by blast
  obtain p1 d1 ra where add: "pool_Add ed D T cfg now tx (p, d) = ((p1, d1), ra)" by (metis prod.exhaust)
  have res: "p' = p1" "ra = Ok () \<or> out = []" "out = [] \<or> out = [tx\<lparr> tTime := now \<rparr>]"
    using assms(2) tx add by (auto simp: RecepTx_def split: outcome.splits)
  show ?thesis
  proof (cases "ra = Ok ()")
    case True
    with pool_Add_members [OF add] res assms(1) tx(2) show ?thesis by (auto simp: no_self_transfers_def)
  next
    case False
    then have "p1 = p" using pool_Add_refused [of ed D T cfg now tx p d] add by simp
    with False res assms(1) show ?thesis by simp
  qed
qed

theorem RecepTx_keeps_out_self_transfers_witness:
  "no_self_transfers (fst (fst (RecepTx pool_ed (bgStore map_badger) (bgTransaction map_badger) [] 7
    (Ok (pool_tx\<lparr> tTo := addr_b \<rparr>)) (Txpool_New, pool_db))))"
proof -
  obtain p' d' r out where run: "RecepTx pool_ed (bgStore map_badger) (bgTransaction map_badger) [] 7
    (Ok (pool_tx\<lparr> tTo := addr_b \<rparr>)) (Txpool_New, pool_db) = ((p', d'), r, out)" by (metis prod.exhaust)
  have "no_self_transfers Txpool_New" by (simp add: no_self_transfers_def Txpool_New_def heap_Init_def)
  from RecepTx_keeps_out_self_transfers [OF this run] show ?thesis by (simp add: run)
qed

text \<open>From another node one does: what the pool takes is taken, the sender being the receiver or not.\<close>

theorem recv_lets_in_self_transfers:
  assumes "pool_Add ed D T cfg now tx (p, d) = ((p', d'), Ok ())" "tFrom tx = tTo tx"
  shows "recv ed D T cfg now (Ok tx) (p, d) = ((p', d'), Ok ()) \<and> \<not> no_self_transfers p' \<and>
    RecepTx ed D T cfg now (Ok tx) (p, d) = ((p, d), Ok (HttpErr ErrData), [])"
  using assms pool_Add_members [OF assms(1)]
  by (auto simp: recv_def RecepTx_def no_self_transfers_def intro: bexI [of _ "tx\<lparr> tTime := now \<rparr>"])

lemma pool_tx_added:
  "\<exists>p' d'. pool_Add pool_ed (bgStore map_badger) (bgTransaction map_badger) [] 7 pool_tx (Txpool_New, pool_db) = ((p', d'), Ok ())"
proof -
  obtain d' where "verify pool_ed (bgStore map_badger) (bgTransaction map_badger) [] pool_tx pool_db = (d', Ok True)"
    using pool_verified by (metis prod.collapse)
  then show ?thesis
    by (simp add: pool_Add_def Txpool_New_def heap_Init_def TxHeap_check_def)
qed

theorem recv_lets_in_self_transfers_witness:
  "\<exists>p'. fst (fst (recv pool_ed (bgStore map_badger) (bgTransaction map_badger) [] 7 (Ok pool_tx) (Txpool_New, pool_db))) = p' \<and>
    \<not> no_self_transfers p'"
proof -
  obtain p' d' where add: "pool_Add pool_ed (bgStore map_badger) (bgTransaction map_badger) [] 7 pool_tx (Txpool_New, pool_db) =
    ((p', d'), Ok ())" using pool_tx_added by blast
  have "tFrom pool_tx = tTo pool_tx" by (simp add: pool_tx_def)
  from recv_lets_in_self_transfers [OF add this] show ?thesis by simp
qed

section \<open>Locking\<close>

text \<open>The password does not guard the lock: with any password the same amount is locked.\<close>

theorem LockAmount_ignores_password:
  "fst (LockAmount D T (v\<lparr> rl_Pas := x \<rparr>) d) = fst (LockAmount D T v d)"
  by (simp add: LockAmount_def split: prod.split outcome.split)

text \<open>When the market cannot be reached the ticker's answer says that all is well.\<close>

lemma GetUSDkto_failure_says_success: "fetch ticker_request = Err e \<Longrightarrow> GetUSDkto fetch = Ok (lit ''{\"success\":true}'')"
  by (simp add: GetUSDkto_def passed_on_def)

end
