(* ===== verification/Rpc.thy ===== *)
theory Rpc
  imports TxPool Strconv
begin

text \<open>
  The gRPC interface (\<open>rpcclient/rpcclient.go\<close>): queries of the chain, transactions that the node builds
  and signs for a client or takes signed, the token statements it writes into their scripts, locking, and
  keys. Messages are the records of \<open>message.proto\<close>; transport, rate limiting and logging are left out.
\<close>

section \<open>Messages\<close>

record MsgOrder =
  mo_Id :: gostring
  mo_Address :: gostring
  mo_Price :: u64
  mo_Hash :: gostring
  mo_Signature :: gostring
  mo_Ciphertext :: gostring
  mo_Tradename :: gostring
  mo_Region :: gostring

record MsgTx =
  mt_Nonce :: u64
  mt_Amount :: u64
  mt_From :: gostring
  mt_To :: gostring
  mt_Hash :: gostring
  mt_Signature :: gostring
  mt_Time :: i64
  mt_Script :: gostring
  mt_Order :: "MsgOrder option"

record RespBlock =
  rb_Height :: u64
  rb_PrevBlockHash :: gostring
  rb_Txs :: "MsgTx list"
  rb_Root :: gostring
  rb_Version :: u64
  rb_Timestamp :: i64
  rb_Hash :: gostring
  rb_Miner :: gostring

record ReqTransaction =
  rq_From :: gostring
  rq_To :: gostring
  rq_Amount :: u64
  rq_Nonce :: u64
  rq_Priv :: gostring
  rq_Order :: "MsgOrder option"

record ReqSignedTransaction =
  rs_From :: gostring
  rs_To :: gostring
  rs_Amount :: u64
  rs_Nonce :: u64
  rs_Time :: i64
  rs_Hash :: bytes
  rs_Signature :: bytes

record ReqToken =
  rt_From :: gostring
  rt_To :: gostring
  rt_Amount :: u64
  rt_Nonce :: u64
  rt_Priv :: gostring
  rt_Symbol :: gostring
  rt_Total :: u64
  rt_Fee :: u64

text \<open>\<open>ReqTokenTransaction\<close> has \<open>TokenAmount\<close> where \<open>ReqTokenCreate\<close> has \<open>Total\<close>; the code never reads the
  amount of a \<open>ReqTokenCreate\<close>.\<close>

definition zero_MsgOrder :: MsgOrder where
  "zero_MsgOrder = \<lparr> mo_Id = [], mo_Address = [], mo_Price = 0, mo_Hash = [], mo_Signature = [], mo_Ciphertext = [],
     mo_Tradename = [], mo_Region = [] \<rparr>"

definition data_error :: goerror where
  "data_error = ErrText ''data error''"

section \<open>Queries\<close>

text \<open>A failing read of the balance answers 0.\<close>

definition rpc_GetBalance :: "('d, 't) DB \<Rightarrow> ('d, 't) Transaction \<Rightarrow> gostring \<Rightarrow> ('d, u64) act" where
  "rpc_GetBalance D T addr d =
     (case GetBalance D T addr d of (d, r) \<Rightarrow> (d, if r = Panic then Panic else Ok (or_zero 0 r)))"

definition msg_tx :: "transaction \<Rightarrow> MsgTx" where
  "msg_tx tx = \<lparr> mt_Nonce = tNonce tx, mt_Amount = tAmount tx, mt_From = AddressToByte (tFrom tx),
     mt_To = AddressToByte (tTo tx), mt_Hash = hexEncode (tHash tx), mt_Signature = hexEncode (tSignature tx),
     mt_Time = tTime tx, mt_Script = tScript tx, mt_Order = None \<rparr>"

text \<open>In a block every transaction has an empty order.\<close>

definition resp_block :: "Block \<Rightarrow> RespBlock" where
  "resp_block b = \<lparr> rb_Height = bHeight b, rb_PrevBlockHash = hexEncode (bPrevBlockHash b),
     rb_Txs = map (\<lambda>tx. (msg_tx tx)\<lparr> mt_Order := Some zero_MsgOrder \<rparr>) (bTxs b), rb_Root = hexEncode (bRoot b),
     rb_Version = bVersion b, rb_Timestamp = bTimestamp b, rb_Hash = hexEncode (bHash b), rb_Miner = bMiner b \<rparr>"

definition rpc_GetBlockByNum :: "('d, 't) DB \<Rightarrow> json \<Rightarrow> u64 \<Rightarrow> 'd \<Rightarrow> RespBlock outcome" where
  "rpc_GetBlockByNum D js h d = obind (GetBlockByHeight D js d h) (\<lambda>b. Ok (resp_block b))"

text \<open>The error of decoding the hash is dropped; a stored null is a nil block, which is read from.\<close>

definition rpc_GetBlockByHash :: "('d, 't) DB \<Rightarrow> json \<Rightarrow> gostring \<Rightarrow> 'd \<Rightarrow> RespBlock outcome" where
  "rpc_GetBlockByHash D js hash d =
     obind (GetBlockByHash D js d (fst (hexDecode hash))) (\<lambda>b. case b of None \<Rightarrow> Panic | Some b \<Rightarrow> Ok (resp_block b))"

text \<open>A transaction outside a block: its order when it has an id, hash and signature in base 58.\<close>

definition msg_order :: "Order \<Rightarrow> MsgOrder" where
  "msg_order ord = \<lparr> mo_Id = oId ord, mo_Address = AddressToByte (oAddress ord), mo_Price = oPrice ord,
     mo_Hash = Encode (oHash ord), mo_Signature = Encode (oSignature ord), mo_Ciphertext = oCiphertext ord,
     mo_Tradename = oTradename ord, mo_Region = oRegion ord \<rparr>"

definition msg_tx_order :: "transaction \<Rightarrow> MsgTx" where
  "msg_tx_order tx = (msg_tx tx)\<lparr> mt_Order := (if oId (tOrd tx) \<noteq> [] then Some (msg_order (tOrd tx)) else None) \<rparr>"

text \<open>No transactions is the nil answer.\<close>

definition rpc_GetTxsByAddr ::
  "('d, 't) DB \<Rightarrow> ('d, 't) Transaction \<Rightarrow> json \<Rightarrow> gostring \<Rightarrow> ('d, MsgTx list option) act" where
  "rpc_GetTxsByAddr D T js addr d =
     (case GetTransactionByAddr D T js addr d of
        (d, r) \<Rightarrow> (d, obind r (\<lambda>txs. Ok (if txs = [] then None else Some (map msg_tx_order txs)))))"

definition rpc_GetTxByHash :: "('d, 't) DB \<Rightarrow> json \<Rightarrow> gostring \<Rightarrow> 'd \<Rightarrow> MsgTx outcome" where
  "rpc_GetTxByHash D js hash d =
     (case hexDecode hash of (h, r) \<Rightarrow> obind r (\<lambda>_.
        obind (GetTransaction D js d h) (\<lambda>tx. case tx of None \<Rightarrow> Panic | Some tx \<Rightarrow> Ok (msg_tx_order tx))))"

definition rpc_GetAddressNonceAt :: "('d, 't) DB \<Rightarrow> ('d, 't) Transaction \<Rightarrow> gostring \<Rightarrow> ('d, u64) act" where
  "rpc_GetAddressNonceAt D T addr = GetNonce D T addr"

definition rpc_GetBalanceToken :: "('d, 't) DB \<Rightarrow> 'd \<Rightarrow> gostring \<Rightarrow> gostring \<Rightarrow> u64 outcome" where
  "rpc_GetBalanceToken D cd addr symb = GetTokenBalance D cd addr symb"

definition rpc_GetMaxBlockNumber :: "('d, 't) DB \<Rightarrow> 'd \<Rightarrow> u64 outcome" where
  "rpc_GetMaxBlockNumber D d = GetMaxBlockHeight D d"

definition rpc_GetFrozenAssets :: "('d, 't) DB \<Rightarrow> ('d, 't) Transaction \<Rightarrow> gostring \<Rightarrow> ('d, u64) act" where
  "rpc_GetFrozenAssets D T addr d =
     (case GetLockBalance D T addr d of (d, r) \<Rightarrow> (d, if r = Panic then Panic else Ok (or_zero 0 r)))"

section \<open>Transactions\<close>

text \<open>
  The end of the sending calls: into the pool, then broadcast and answered with the hash. \<open>g\<close> is what the
  call makes of the pool's error, the third component what is broadcast.
\<close>

type_synonym ('d, 'a) sending = "Txpool \<times> 'd \<Rightarrow> (Txpool \<times> 'd) \<times> 'a outcome \<times> transaction list"

definition submit ::
  "ed25519 \<Rightarrow> ('d, 't) DB \<Rightarrow> ('d, 't) Transaction \<Rightarrow> gostring \<Rightarrow> i64 \<Rightarrow> (goerror \<Rightarrow> goerror) \<Rightarrow> transaction \<Rightarrow>
    ('d, gostring) sending" where
  "submit ed D T cfg now g tx s =
     (case pool_Add ed D T cfg now tx s of
        (s, Err e) \<Rightarrow> (s, Err (g e), [])
      | (s, Panic) \<Rightarrow> (s, Panic, [])
      | (s, Ok _) \<Rightarrow> (s, Ok (hexEncode (tHash tx)), [tx\<lparr> tTime := now \<rparr>]))"

text \<open>A signed transaction goes on; \<open>SignTx\<close> gives nil only for a key of the wrong length.\<close>

definition sign_submit ::
  "ed25519 \<Rightarrow> ('d, 't) DB \<Rightarrow> ('d, 't) Transaction \<Rightarrow> gostring \<Rightarrow> i64 \<Rightarrow> bytes \<Rightarrow> transaction \<Rightarrow>
    ('d, gostring) sending" where
  "sign_submit ed D T cfg now priv tx s =
     (case SignTx ed tx priv of
        Ok (Some tx) \<Rightarrow> submit ed D T cfg now (\<lambda>e. e) tx s
      | Err e \<Rightarrow> (s, Err e, [])
      | _ \<Rightarrow> (s, Panic, []))"

text \<open>The order of a request: hash, signature and ciphertext in hex, the id as it stands. An order whose
  address does not have 47 bytes is dropped.\<close>

definition put_order :: "MsgOrder option \<Rightarrow> transaction \<Rightarrow> transaction outcome" where
  "put_order ord tx =
     (case ord of
        None \<Rightarrow> Ok tx
      | Some ord \<Rightarrow>
          if length (mo_Address ord) \<noteq> Lenthaddr then Ok tx
          else (case (hexDecode (mo_Ciphertext ord), hexDecode (mo_Hash ord), hexDecode (mo_Signature ord)) of
              ((cip, rc), (hash, rh), (sig, rs)) \<Rightarrow>
                if is_ok rc \<and> is_ok rh \<and> is_ok rs
                then Ok (tx\<lparr> tOrd := \<lparr> oId = mo_Id ord, oAddress = mo_Address ord, oPrice = mo_Price ord,
                  oHash = hash, oCiphertext = cip, oSignature = sig, oTradename = mo_Tradename ord,
                  oRegion = mo_Region ord \<rparr> \<rparr>)
                else Err data_error))"

definition SendTransaction ::
  "(bytes \<Rightarrow> bytes) \<Rightarrow> ed25519 \<Rightarrow> ('d, 't) DB \<Rightarrow> ('d, 't) Transaction \<Rightarrow> gostring \<Rightarrow> i64 \<Rightarrow> i64 \<Rightarrow> ReqTransaction \<Rightarrow>
    ('d, gostring) sending" where
  "SendTransaction sha3 ed D T cfg now now' req s =
     (if rq_From req = rq_To req then (s, Err data_error, [])
      else let from = BytesToAddress (rq_From req); to = BytesToAddress (rq_To req); priv = Decode (rq_Priv req)
        in if length priv \<noteq> 64 then (s, Err data_error, [])
           else (case put_order (rq_Order req)
                 (tx_NewTransaction sha3 now (rq_Nonce req) (rq_Amount req) from to []) of
               Ok tx \<Rightarrow> sign_submit ed D T cfg now' priv tx s
             | Err e \<Rightarrow> (s, Err e, [])
             | Panic \<Rightarrow> (s, Panic, [])))"

definition SendSignedTransaction ::
  "ed25519 \<Rightarrow> ('d, 't) DB \<Rightarrow> ('d, 't) Transaction \<Rightarrow> gostring \<Rightarrow> i64 \<Rightarrow> ReqSignedTransaction \<Rightarrow>
    ('d, gostring) sending" where
  "SendSignedTransaction ed D T cfg now req s =
     (if rs_From req = rs_To req then (s, Err data_error, [])
      else submit ed D T cfg now (\<lambda>_. ErrText ''parameter error'')
        (zero_transaction\<lparr> tFrom := BytesToAddress (rs_From req), tTo := BytesToAddress (rs_To req),
          tNonce := rs_Nonce req, tAmount := rs_Amount req, tTime := rs_Time req, tHash := rs_Hash req,
          tSignature := rs_Signature req \<rparr>) s)"

section \<open>Token statements\<close>

text \<open>\<open>fmt.Sprintf("new \"%s\" %s", Symbol, At)\<close> and its like; the symbol is not escaped.\<close>

definition quoted :: "gostring \<Rightarrow> gostring" where
  "quoted s = [34] @ s @ [34]"

definition new_script :: "gostring \<Rightarrow> u64 \<Rightarrow> gostring" where
  "new_script symb tot = lit ''new '' @ quoted symb @ [32] @ dec (unat tot)"

definition mint_script :: "gostring \<Rightarrow> u64 \<Rightarrow> gostring" where
  "mint_script symb tot = lit ''mint '' @ quoted symb @ [32] @ dec (unat tot)"

definition token_script :: "gostring \<Rightarrow> u64 \<Rightarrow> gostring \<Rightarrow> gostring" where
  "token_script symb amount to = lit ''transfer '' @ quoted symb @ [32] @ dec (unat amount) @ [32] @ quoted to"

definition send_script ::
  "(bytes \<Rightarrow> bytes) \<Rightarrow> ed25519 \<Rightarrow> ('d, 't) DB \<Rightarrow> ('d, 't) Transaction \<Rightarrow> gostring \<Rightarrow> i64 \<Rightarrow> i64 \<Rightarrow> ReqToken \<Rightarrow> u64 \<Rightarrow> gostring \<Rightarrow>
    ('d, gostring) sending" where
  "send_script sha3 ed D T cfg now now' req amount script s =
     (if rt_From req = rt_To req then (s, Err (ErrText ''request data error''), [])
      else let priv = Decode (rt_Priv req)
        in if length priv \<noteq> 64 then (s, Err (ErrText ''priv error''), [])
           else sign_submit ed D T cfg now' priv
             (tx_Newtoken sha3 now (rt_Nonce req) amount (rt_Fee req) (BytesToAddress (rt_From req))
               (BytesToAddress (rt_To req)) script) s)"

definition CreateContract ::
  "(bytes \<Rightarrow> bytes) \<Rightarrow> ed25519 \<Rightarrow> ('d, 't) DB \<Rightarrow> ('d, 't) Transaction \<Rightarrow> gostring \<Rightarrow> i64 \<Rightarrow> i64 \<Rightarrow> ReqToken \<Rightarrow>
    ('d, gostring) sending" where
  "CreateContract sha3 ed D T cfg now now' req =
     send_script sha3 ed D T cfg now now' req 500001 (new_script (rt_Symbol req) (rt_Total req))"

definition MintToken ::
  "(bytes \<Rightarrow> bytes) \<Rightarrow> ed25519 \<Rightarrow> ('d, 't) DB \<Rightarrow> ('d, 't) Transaction \<Rightarrow> gostring \<Rightarrow> i64 \<Rightarrow> i64 \<Rightarrow> ReqToken \<Rightarrow>
    ('d, gostring) sending" where
  "MintToken sha3 ed D T cfg now now' req =
     send_script sha3 ed D T cfg now now' req 500001 (mint_script (rt_Symbol req) (rt_Total req))"

definition SendToken ::
  "(bytes \<Rightarrow> bytes) \<Rightarrow> ed25519 \<Rightarrow> ('d, 't) DB \<Rightarrow> ('d, 't) Transaction \<Rightarrow> gostring \<Rightarrow> i64 \<Rightarrow> i64 \<Rightarrow> ReqToken \<Rightarrow>
    ('d, gostring) sending" where
  "SendToken sha3 ed D T cfg now now' req =
     send_script sha3 ed D T cfg now now' req (rt_Amount req)
       (token_script (rt_Symbol req) (rt_Total req) (rt_To req))"

section \<open>Locking\<close>

text \<open>Neither asks who is calling.\<close>

definition rpc_SetLockBalance :: "('d, 't) DB \<Rightarrow> ('d, 't) Transaction \<Rightarrow> gostring \<Rightarrow> u64 \<Rightarrow> ('d, bool) act" where
  "rpc_SetLockBalance D T addr amount = LockBalance D T addr amount"

definition rpc_SetUnlockBalance :: "('d, 't) DB \<Rightarrow> ('d, 't) Transaction \<Rightarrow> gostring \<Rightarrow> u64 \<Rightarrow> ('d, bool) act" where
  "rpc_SetUnlockBalance D T addr amount = Unlockbalance D T addr amount"

section \<open>Keys and orders\<close>

text \<open>\<open>gen i\<close> is the private key the \<open>i\<close>-th call of \<open>ed25519.GenerateKey\<close> returns, or its error.\<close>

definition Generprivkey :: "(nat \<Rightarrow> bytes outcome) \<Rightarrow> nat \<Rightarrow> (bytes \<times> bytes) outcome" where
  "Generprivkey gen i = obind (gen i) (\<lambda>priv. Ok (drop 32 priv, priv))"

partial_function (option) CreateAddr_loop ::
  "(nat \<Rightarrow> bytes outcome) \<Rightarrow> nat \<Rightarrow> (gostring \<times> gostring) outcome option" where
  "CreateAddr_loop gen i =
     (case Generprivkey gen i of
        Ok (pubKey, privKey) \<Rightarrow>
          if length (PubtoAddr pubKey) = 47 then Some (Ok (PubtoAddr pubKey, Encode privKey))
          else CreateAddr_loop gen (Suc i)
      | Err e \<Rightarrow> Some (Err e)
      | Panic \<Rightarrow> Some Panic)"

definition CreateAddr :: "(nat \<Rightarrow> bytes outcome) \<Rightarrow> (gostring \<times> gostring) outcome option" where
  "CreateAddr gen = CreateAddr_loop gen 0"

definition GetAddrByPriv :: "gostring \<Rightarrow> gostring outcome" where
  "GetAddrByPriv priv =
     (let privBytes = Decode priv in
      if length privBytes \<noteq> 64 then Err (ErrText ''private key error'') else Ok (PubtoAddr (drop 32 privBytes)))"

definition SignOrd ::
  "(bytes \<Rightarrow> bytes) \<Rightarrow> ed25519 \<Rightarrow> gostring \<Rightarrow> MsgOrder option \<Rightarrow> (gostring \<times> gostring) outcome" where
  "SignOrd sha3 ed priv ord =
     (case ord of
        None \<Rightarrow> Err data_error
      | Some ord \<Rightarrow>
          if mo_Id ord = [] \<or> mo_Address ord = [] \<or> mo_Ciphertext ord = [] \<or> mo_Price ord = 0 \<or> priv = []
          then Err data_error
          else (case hexDecode (mo_Id ord) of (ident, ri) \<Rightarrow> obind ri (\<lambda>_.
            (case hexDecode (mo_Ciphertext ord) of (cip, rc) \<Rightarrow> obind rc (\<lambda>_.
              let hash32 = sha3 (((E64func (mo_Price ord) @ ident) @ cip) @ mo_Address ord) in
              obind (Sign ed (Decode priv) hash32) (\<lambda>signatures. Ok (hexEncode hash32, hexEncode signatures)))))))"

end
