(* ===== verification/RpcSpec.thy ===== *)
theory RpcSpec
  imports Rpc ParserSpec TxPoolSpec
begin

text \<open>
  Properties of the gRPC interface: the statements it writes into scripts are read back by the script
  parser as the statements that were asked for, only the owner's key spends, an address it has created
  belongs to the key it has handed out; and where it falls short, a transfer from an address to itself
  that its test lets through, a token name that rewrites the transfer, and a key of the wrong length that takes
  the node down.
\<close>

section \<open>Scripts\<close>

lemma scripts_printed:
  "new_script symb n = print_call (lit ''new'') [VString symb, VUint n]"
  "mint_script symb n = print_call (lit ''mint'') [VString symb, VUint n]"
  "token_script symb n to = print_call (lit ''transfer'') [VString symb, VUint n, VString to]"
  by (simp_all add: new_script_def mint_script_def token_script_def print_call_def quoted_def lit_def)

lemma fits_facts:
  "fits AMOUNT (VUint n)" "quotable s \<Longrightarrow> fits TOKENID (VString s)" "quotable s \<Longrightarrow> fits ADDRESS (VString s)"
  by (simp_all add: fits_def typList_def TOKENID_def AMOUNT_def ADDRESS_def O_INT_def O_STRING_def)

lemma scripts_parsed:
  assumes "quotable symb"
  shows "Parser (new_script symb n) = Ok [Some (call_script (lit ''new'') [TOKENID, AMOUNT] [VString symb, VUint n])]"
    "Parser (mint_script symb n) = Ok [Some (call_script (lit ''mint'') [TOKENID, AMOUNT] [VString symb, VUint n])]"
    "quotable to \<Longrightarrow> Parser (token_script symb n to) =
      Ok [Some (call_script (lit ''transfer'') [TOKENID, AMOUNT, ADDRESS] [VString symb, VUint n, VString to])]"
  unfolding scripts_printed
  by (rule Parser_call; simp add: statement_types_def fits_facts assms lit_def)+

section \<open>Accepted transactions\<close>

lemma verify_True_signed: "snd (verify ed D T cfg tx d) = Ok True \<Longrightarrow> verify_signed ed tx = Ok True"
  by (auto simp: verify_def Let_def split: outcome.splits bool.splits)

text \<open>What the pool has accepted is in it, carries the sender's signature, and is broadcast.\<close>

lemma submit_Ok:
  assumes "submit ed D T cfg now g tx s = (s', Ok h, out)"
  shows "out = [tx\<lparr> tTime := now \<rparr>]" "h = hexEncode (tHash tx)" "tx\<lparr> tTime := now \<rparr> \<in> set (p_List (fst s'))"
    "ed_verify ed (AddrToPub (tFrom tx)) (tHash tx) (tSignature tx)"
proof -
  obtain p d where s: "s = (p, d)" by (rule prod.exhaust)
  obtain s1 r where add: "pool_Add ed D T cfg now tx (p, d) = (s1, r)" by (rule prod.exhaust)
  have r: "r = Ok ()" "s1 = s'" "out = [tx\<lparr> tTime := now \<rparr>]" "h = hexEncode (tHash tx)"
    using assms add by (auto simp: submit_def s split: outcome.splits)
  then show "out = [tx\<lparr> tTime := now \<rparr>]" "h = hexEncode (tHash tx)" by simp_all
  note ok = pool_Add_Ok [OF add [unfolded r(1)]]
  have "mset (p_List (fst s')) = add_mset (tx\<lparr> tTime := now \<rparr>) (mset (p_List p))"
    using ok(4) r(2) by (simp add: heap_Push_keeps)
  then show "tx\<lparr> tTime := now \<rparr> \<in> set (p_List (fst s'))" by (metis in_multiset_in_set union_single_eq_member)
  show "ed_verify ed (AddrToPub (tFrom tx)) (tHash tx) (tSignature tx)"
    using verify_signed_True(1) [OF verify_True_signed [OF ok(3)]] .
qed

lemma sign_submit_Ok:
  assumes "sign_submit ed D T cfg now priv tx s = (s', Ok h, out)"
  shows "submit ed D T cfg now (\<lambda>e. e) (tx\<lparr> tSignature := ed_sign ed priv (tHash tx) \<rparr>) s = (s', Ok h, out)"
    "length priv = 64"
  using assms by (auto simp: sign_submit_def SignTx_def Sign_def split: if_splits)

text \<open>C23: A \<open>SendToken\<close> call that succeeds, with a token name and an address that hold no double quote, no
  backquote and no line end, has put into the pool and broadcast one transaction of the sender that is asked
  for, whose script the parser reads as the transfer of exactly the requested amount of the requested token
  to the requested address. Its signature verifies under the sender's key over the transaction's hash, which
  does not cover the script. The call does not check the name or the address, and with a double quote in the
  name the script is another transfer (\<open>symbol_rewrites_transfer\<close> below).\<close>

theorem SendToken_transfers:
  assumes "SendToken sha3 ed D T cfg now now' req s = (s', Ok h, out)"
    "quotable (rt_Symbol req)" "quotable (rt_To req)"
  shows "\<exists>tx. out = [tx] \<and> tx \<in> set (p_List (fst s')) \<and> h = hexEncode (tHash tx) \<and>
    tFrom tx = BytesToAddress (rt_From req) \<and> ed_verify ed (AddrToPub (tFrom tx)) (tHash tx) (tSignature tx) \<and>
    Parser (tScript tx) = Ok [Some (call_script (lit ''transfer'') [TOKENID, AMOUNT, ADDRESS]
      [VString (rt_Symbol req), VUint (rt_Total req), VString (rt_To req)])]"
proof -
  let ?script = "token_script (rt_Symbol req) (rt_Total req) (rt_To req)"
  let ?raw = "tx_Newtoken sha3 now (rt_Nonce req) (rt_Amount req) (rt_Fee req) (BytesToAddress (rt_From req))
    (BytesToAddress (rt_To req)) ?script"
  let ?tx = "?raw\<lparr> tSignature := ed_sign ed (Decode (rt_Priv req)) (tHash ?raw) \<rparr>"
  have "sign_submit ed D T cfg now' (Decode (rt_Priv req)) ?raw s = (s', Ok h, out)"
    using assms(1) by (auto simp: SendToken_def send_script_def Let_def split: if_splits)
  note sent = submit_Ok [OF sign_submit_Ok(1) [OF this]]
  have fields: "tFrom ?tx = BytesToAddress (rt_From req)" "tScript ?tx = ?script"
    by (simp_all add: tx_Newtoken_def)
  show ?thesis
    by (rule exI [of _ "?tx\<lparr> tTime := now' \<rparr>"])
      (use sent scripts_parsed(3) [OF assms(2,3)] fields in simp)
qed

text \<open>Asked to send \<open>m\<close> units to \<open>t\<close> of the token whose name is \<open>x\<close>, a double quote, the number \<open>n\<close>, a double
  quote and \<open>y\<close>, the script sends \<open>n\<close> units of \<open>x\<close> to \<open>y\<close>; the requested amount and receiver are left over behind
  the statement and ignored.\<close>

theorem symbol_rewrites_transfer:
  assumes "quotable x" "quotable y" "quotable t"
  shows "Parser (token_script (x @ [34, 32] @ dec (unat n) @ [32, 34] @ y) m t) =
    Ok [Some (call_script (lit ''transfer'') [TOKENID, AMOUNT, ADDRESS] [VString x, VUint n, VString y])]"
proof -
  have "token_script (x @ [34, 32] @ dec (unat n) @ [32, 34] @ y) m t =
      print_call (lit ''transfer'') ([VString x, VUint n, VString y] @ [VUint m, VString t])"
    by (simp add: token_script_def print_call_def quoted_def lit_def)
  moreover have "list_all2 fits [TOKENID, AMOUNT, ADDRESS] [VString x, VUint n, VString y]"
    using assms by (simp add: fits_facts)
  ultimately show ?thesis
    using Parser_surplus [of "lit ''transfer''" "[TOKENID, AMOUNT, ADDRESS]" "[VString x, VUint n, VString y]" "[VUint m, VString t]"]
      assms(3) by (simp add: statement_types_def lit_def)
qed

theorem symbol_rewrites_transfer_witness:
  "Parser (token_script ([120] @ [34, 32] @ dec (unat (1 :: u64)) @ [32, 34] @ [121]) 10 [116]) =
    Ok [Some (call_script (lit ''transfer'') [TOKENID, AMOUNT, ADDRESS] [VString [120], VUint 1, VString [121]])]"
  by (rule symbol_rewrites_transfer) (simp_all add: quotable_def)

section \<open>Only the owner spends\<close>

lemma put_order_keeps:
  "put_order ord tx = Ok tx' \<Longrightarrow> tFrom tx' = tFrom tx \<and> tHash tx' = tHash tx"
  by (auto simp: put_order_def split: option.splits if_splits prod.splits)

text \<open>The private key of a \<open>SendTransaction\<close> call that succeeds is the key of the sender's address,
  provided that a signature verifies under no public key but the signer's.\<close>

theorem SendTransaction_needs_key:
  assumes "\<And>priv pub m. length priv = 64 \<Longrightarrow> ed_verify ed pub m (ed_sign ed priv m) \<Longrightarrow> pub = drop 32 priv"
    "SendTransaction sha3 ed D T cfg now now' req s = (s', Ok h, out)"
  shows "AddrToPub (BytesToAddress (rq_From req)) = drop 32 (Decode (rq_Priv req))"
proof -
  let ?priv = "Decode (rq_Priv req)"
  let ?raw = "tx_NewTransaction sha3 now (rq_Nonce req) (rq_Amount req) (BytesToAddress (rq_From req))
    (BytesToAddress (rq_To req)) []"
  obtain tx where tx: "put_order (rq_Order req) ?raw = Ok tx"
    and sub: "sign_submit ed D T cfg now' ?priv tx s = (s', Ok h, out)"
    using assms(2) by (auto simp: SendTransaction_def Let_def split: if_splits outcome.splits)
  have "ed_verify ed (AddrToPub (tFrom tx)) (tHash tx) (ed_sign ed ?priv (tHash tx))"
    using submit_Ok(4) [OF sign_submit_Ok(1) [OF sub]] by simp
  then have "AddrToPub (tFrom tx) = drop 32 ?priv" by (rule assms(1) [OF sign_submit_Ok(2) [OF sub]])
  moreover have "tFrom tx = BytesToAddress (rq_From req)"
    using put_order_keeps [OF tx] by (simp add: tx_NewTransaction_def)
  ultimately show ?thesis by simp
qed

section \<open>A test that does not see the address\<close>

text \<open>\<open>SendSignedTransaction\<close> compares the texts of the two addresses and then cuts them to 47 bytes: with
  a byte appended to the sender's own address a transfer to itself passes the test, and once the pool's
  checks accept it, it is in the pool.\<close>

theorem appended_byte_passes_test:
  assumes "length (rs_From req) = 47" "rs_To req = rs_From req @ c # cs"
    "SendSignedTransaction ed D T cfg now req s = (s', Ok h, out)"
  shows "\<exists>tx. out = [tx] \<and> tx \<in> set (p_List (fst s')) \<and> tFrom tx = tTo tx"
proof -
  let ?tx = "zero_transaction\<lparr> tFrom := BytesToAddress (rs_From req), tTo := BytesToAddress (rs_To req),
    tNonce := rs_Nonce req, tAmount := rs_Amount req, tTime := rs_Time req, tHash := rs_Hash req,
    tSignature := rs_Signature req \<rparr>"
  have "submit ed D T cfg now (\<lambda>_. ErrText ''parameter error'') ?tx s = (s', Ok h, out)"
    using assms by (simp add: SendSignedTransaction_def)
  note sent = submit_Ok [OF this]
  have "BytesToAddress (rs_From req) = BytesToAddress (rs_To req)"
    using assms(1,2) by (simp add: BytesToAddress_def Lenthaddr_def)
  with sent show ?thesis by (intro exI [of _ "?tx\<lparr> tTime := now \<rparr>"]) simp
qed

section \<open>Keys\<close>

lemma CreateAddr_loop_created:
  assumes "CreateAddr_loop gen i = Some (Ok (addr, key))"
  shows "\<exists>j priv. gen j = Ok priv \<and> addr = PubtoAddr (drop 32 priv) \<and> key = Encode priv \<and> length addr = 47"
proof -
  let ?Q = "\<lambda>gen i r. \<forall>addr key. r = Ok (addr, key) \<longrightarrow>
    (\<exists>j priv. gen j = Ok priv \<and> addr = PubtoAddr (drop 32 priv) \<and> key = Encode priv \<and> length addr = 47)"
  have "?Q gen i (Ok (addr, key))"
  proof (rule CreateAddr_loop.raw_induct [where P = ?Q, OF _ assms], goal_cases)
    case (1 loop gen i r)
    show ?case
    proof (cases "gen i")
      case (Ok priv)
      with 1 show ?thesis by (auto simp: Generprivkey_def split: if_splits)
    qed (use 1(2) in \<open>auto simp: Generprivkey_def\<close>)
  qed
  then show ?thesis by blast
qed

text \<open>The key \<open>CreateAddr\<close> hands out belongs to the address it hands out: \<open>GetAddrByPriv\<close> gives the address
  back, and the public key in the address is the key's own. The generator returns keys of 64 bytes.\<close>

theorem CreateAddr_key_of_address:
  assumes "\<And>i priv. gen i = Ok priv \<Longrightarrow> length priv = 64" "CreateAddr gen = Some (Ok (addr, key))"
  shows "GetAddrByPriv key = Ok addr \<and> AddrToPub (BytesToAddress addr) = drop 32 (Decode key)"
proof -
  obtain j priv where j: "gen j = Ok priv" "addr = PubtoAddr (drop 32 priv)" "key = Encode priv" "length addr = 47"
    using CreateAddr_loop_created assms(2) unfolding CreateAddr_def by blast
  have "length (drop 32 priv) = 32" using assms(1) [OF j(1)] by simp
  from AddrToPub_PubtoAddr [OF this] j assms(1) [OF j(1)] show ?thesis
    by (simp add: GetAddrByPriv_def Decode_Encode)
qed

text \<open>\<open>SignOrd\<close> with a complete order and a private key that does not decode to 64 bytes panics.\<close>

theorem SignOrd_bad_key_panics:
  assumes "length (Decode priv) \<noteq> 64" "priv \<noteq> []" "mo_Id ord = hexEncode ident" "ident \<noteq> []"
    "mo_Ciphertext ord = hexEncode cip" "cip \<noteq> []" "mo_Address ord \<noteq> []" "mo_Price ord \<noteq> 0"
  shows "SignOrd sha3 ed priv (Some ord) = Panic"
proof -
  have "hexEncode b \<noteq> []" if "b \<noteq> []" for b :: bytes
    using that by (cases b) (simp_all add: hexEncode_def)
  with assms show ?thesis
    by (simp add: SignOrd_def hexDecode_hexEncode Sign_def Let_def)
qed

section \<open>Instances\<close>

text \<open>A signature that names its key, an address with that key, and calls the pool accepts.\<close>

definition key_ed :: ed25519 where
  "key_ed = \<lparr> ed_sign = (\<lambda>k m. drop 32 k @ m), ed_verify = (\<lambda>p m s. s = p @ m) \<rparr>"

definition key_text :: gostring where
  "key_text = Encode (replicate 64 255)"

lemma key_text_bytes: "Decode key_text = replicate 64 255"
  by (simp add: key_text_def Decode_Encode)

lemma pool_addr_text: "BytesToAddress pool_addr = pool_addr" "BytesToAddress (pool_addr @ [0]) = pool_addr"
  using pool_addr_facts(1) by (simp_all add: BytesToAddress_def Lenthaddr_def)

lemma pool_accepts:
  assumes "tFrom tx = pool_addr" "tTo tx = pool_addr" "tNonce tx = 1" "tAmount tx = 600000" "tOrd tx = zero_order"
    "tScript tx = [] \<or> tFee tx = 600000" "tSignature tx = replicate 32 255 @ tHash tx"
  shows "\<exists>s'. pool_Add key_ed (bgStore map_badger) (bgTransaction map_badger) [] 7 tx (Txpool_New, pool_db) = (s', Ok ())"
proof -
  have signed: "verify_signed key_ed tx = Ok True"
    using assms by (simp add: verify_signed_def pool_addr_facts AddressToByte_def Verify_def key_ed_def)
  have amounts: "verify_amounts key_ed [] tx 1000000 0 = Ok True"
    using assms by (auto simp: verify_amounts_def zero_order_def)
  have "snd (verify key_ed (bgStore map_badger) (bgTransaction map_badger) [] tx pool_db) = Ok True"
    by (rule ms.verify_first [where bal = 1000000])
      (use signed amounts assms in \<open>simp_all add: pool_db_def pool_addr_facts\<close>)
  then obtain d' where "verify key_ed (bgStore map_badger) (bgTransaction map_badger) [] tx pool_db = (d', Ok True)"
    by (metis prod.collapse)
  then show ?thesis
    by (simp add: pool_Add_def Txpool_New_def heap_Init_def TxHeap_check_def)
qed

text \<open>A key as generated, and calls that succeed.\<close>

definition rpc_send :: ReqTransaction where
  "rpc_send = \<lparr> rq_From = pool_addr, rq_To = pool_addr @ [0], rq_Amount = 600000, rq_Nonce = 1, rq_Priv = key_text,
     rq_Order = None \<rparr>"

definition rpc_token :: ReqToken where
  "rpc_token = \<lparr> rt_From = pool_addr, rt_To = pool_addr @ [0], rt_Amount = 600000, rt_Nonce = 1, rt_Priv = key_text,
     rt_Symbol = lit ''abc'', rt_Total = 10, rt_Fee = 600000 \<rparr>"

definition rpc_signed :: ReqSignedTransaction where
  "rpc_signed = \<lparr> rs_From = pool_addr, rs_To = pool_addr @ [0], rs_Amount = 600000, rs_Nonce = 1, rs_Time = 5,
     rs_Hash = [9], rs_Signature = replicate 32 255 @ [9] \<rparr>"

lemma submit_accepted:
  assumes "tFrom tx = pool_addr" "tTo tx = pool_addr" "tNonce tx = 1" "tAmount tx = 600000" "tOrd tx = zero_order"
    "tScript tx = [] \<or> tFee tx = 600000" "tSignature tx = replicate 32 255 @ tHash tx"
  shows "\<exists>s' h out. submit key_ed (bgStore map_badger) (bgTransaction map_badger) [] 7 g tx (Txpool_New, pool_db) = (s', Ok h, out)"
  using pool_accepts [OF assms] by (auto simp: submit_def)

lemma sign_submit_accepted:
  assumes "tFrom tx = pool_addr" "tTo tx = pool_addr" "tNonce tx = 1" "tAmount tx = 600000" "tOrd tx = zero_order"
    "tScript tx = [] \<or> tFee tx = 600000"
  shows "\<exists>s' h out. sign_submit key_ed (bgStore map_badger) (bgTransaction map_badger) [] 7 (replicate 64 255) tx
    (Txpool_New, pool_db) = (s', Ok h, out)"
proof -
  have "SignTx key_ed tx (replicate 64 255) = Ok (Some (tx\<lparr> tSignature := replicate 32 255 @ tHash tx \<rparr>))"
    by (simp add: SignTx_def Sign_def key_ed_def)
  then show ?thesis
    using submit_accepted [of "tx\<lparr> tSignature := replicate 32 255 @ tHash tx \<rparr>"] assms
    by (simp add: sign_submit_def)
qed

lemma SendTransaction_runs:
  "\<exists>s' h out. SendTransaction (\<lambda>_. []) key_ed (bgStore map_badger) (bgTransaction map_badger) [] 5 7 rpc_send
    (Txpool_New, pool_db) = (s', Ok h, out)"
proof -
  let ?tx = "tx_NewTransaction (\<lambda>_. []) 5 1 600000 pool_addr pool_addr []"
  have "SendTransaction (\<lambda>_. []) key_ed (bgStore map_badger) (bgTransaction map_badger) [] 5 7 rpc_send =
      sign_submit key_ed (bgStore map_badger) (bgTransaction map_badger) [] 7 (replicate 64 255) ?tx"
    by (rule ext) (simp add: SendTransaction_def rpc_send_def put_order_def pool_addr_text key_text_bytes)
  then show ?thesis
    using sign_submit_accepted [of ?tx] by (simp add: tx_NewTransaction_def zero_transaction_def)
qed

lemma SendToken_runs:
  "\<exists>s' h out. SendToken (\<lambda>_. []) key_ed (bgStore map_badger) (bgTransaction map_badger) [] 5 7 rpc_token
    (Txpool_New, pool_db) = (s', Ok h, out)"
proof -
  let ?tx = "tx_Newtoken (\<lambda>_. []) 5 1 600000 600000 pool_addr pool_addr (token_script (lit ''abc'') 10 (pool_addr @ [0]))"
  have "SendToken (\<lambda>_. []) key_ed (bgStore map_badger) (bgTransaction map_badger) [] 5 7 rpc_token =
      sign_submit key_ed (bgStore map_badger) (bgTransaction map_badger) [] 7 (replicate 64 255) ?tx"
    by (rule ext) (simp add: SendToken_def send_script_def rpc_token_def pool_addr_text key_text_bytes)
  then show ?thesis
    using sign_submit_accepted [of ?tx] by (simp add: tx_Newtoken_def zero_transaction_def)
qed

lemma SendSignedTransaction_runs:
  "\<exists>s' h out. SendSignedTransaction key_ed (bgStore map_badger) (bgTransaction map_badger) [] 7 rpc_signed
    (Txpool_New, pool_db) = (s', Ok h, out)"
proof -
  let ?tx = "zero_transaction\<lparr> tFrom := pool_addr, tTo := pool_addr, tNonce := 1, tAmount := 600000, tTime := 5,
    tHash := [9], tSignature := replicate 32 255 @ [9] \<rparr>"
  have "SendSignedTransaction key_ed (bgStore map_badger) (bgTransaction map_badger) [] 7 rpc_signed =
      submit key_ed (bgStore map_badger) (bgTransaction map_badger) [] 7 (\<lambda>_. ErrText ''parameter error'') ?tx"
    by (rule ext) (simp add: SendSignedTransaction_def rpc_signed_def pool_addr_text)
  moreover have "\<exists>s' h out. submit key_ed (bgStore map_badger) (bgTransaction map_badger) [] 7
      (\<lambda>_. ErrText ''parameter error'') ?tx (Txpool_New, pool_db) = (s', Ok h, out)"
    by (rule submit_accepted) (simp_all add: zero_transaction_def)
  ultimately show ?thesis by metis
qed

lemma quotable_texts: "quotable (lit ''abc'')" "quotable (pool_addr @ [0])"
proof -
  show "quotable (lit ''abc'')" by (simp add: quotable_def lit_def)
  let ?e = "Encode (replicate 32 255)" and ?a = "PubtoAddr (replicate 32 255)"
  have no: "c \<notin> set ?e" if "b58 ! unat c = 255" for c
    using Decode_invalid [OF _ that, of ?e] by (auto simp: Decode_Encode)
  have e: "quotable ?e"
    unfolding quotable_def using no [of 34] no [of 96] no [of 10] no [of 13] by (auto simp: b58_def)
  have k: "quotable (lit ''Kto'')" by (simp add: quotable_def lit_def)
  have "quotable (x @ y) \<longleftrightarrow> quotable x \<and> quotable y" for x y by (auto simp: quotable_def)
  moreover have "quotable (take n x)" if "quotable x" for n x
    using that by (auto simp: quotable_def dest: in_set_takeD)
  moreover have "quotable (replicate n 0)" for n by (simp add: quotable_def)
  moreover have "quotable [0]" by (simp add: quotable_def)
  ultimately show "quotable (pool_addr @ [0])"
    using e k by (simp only: pool_addr_def BytesToAddress_def PubtoAddr_def simp_thms)
qed

theorem SendToken_transfers_witness:
  "\<exists>tx. Parser (tScript tx) = Ok [Some (call_script (lit ''transfer'') [TOKENID, AMOUNT, ADDRESS]
      [VString (lit ''abc''), VUint 10, VString (pool_addr @ [0])])] \<and>
    tx \<in> set (p_List (fst (fst (SendToken (\<lambda>_. []) key_ed (bgStore map_badger) (bgTransaction map_badger) [] 5 7 rpc_token
      (Txpool_New, pool_db)))))"
proof -
  obtain s' h out where run: "SendToken (\<lambda>_. []) key_ed (bgStore map_badger) (bgTransaction map_badger) [] 5 7 rpc_token
    (Txpool_New, pool_db) = (s', Ok h, out)" using SendToken_runs by blast
  have "quotable (rt_Symbol rpc_token)" "quotable (rt_To rpc_token)"
    using quotable_texts by (simp_all add: rpc_token_def)
  from SendToken_transfers [OF run this] show ?thesis using run by (auto simp: rpc_token_def)
qed

theorem SendTransaction_needs_key_witness:
  "AddrToPub pool_addr = drop 32 (Decode key_text)"
proof -
  obtain s' h out where run: "SendTransaction (\<lambda>_. []) key_ed (bgStore map_badger) (bgTransaction map_badger) [] 5 7 rpc_send
    (Txpool_New, pool_db) = (s', Ok h, out)" using SendTransaction_runs by blast
  have "AddrToPub (BytesToAddress (rq_From rpc_send)) = drop 32 (Decode (rq_Priv rpc_send))"
    by (rule SendTransaction_needs_key [OF _ run]) (simp add: key_ed_def)
  then show ?thesis by (simp add: rpc_send_def pool_addr_text)
qed

theorem appended_byte_passes_test_witness:
  "\<exists>tx \<in> set (p_List (fst (fst (SendSignedTransaction key_ed (bgStore map_badger) (bgTransaction map_badger) [] 7 rpc_signed
    (Txpool_New, pool_db))))). tFrom tx = tTo tx"
proof -
  obtain s' h out where run: "SendSignedTransaction key_ed (bgStore map_badger) (bgTransaction map_badger) [] 7 rpc_signed
    (Txpool_New, pool_db) = (s', Ok h, out)" using SendSignedTransaction_runs by blast
  from appended_byte_passes_test [OF _ _ run, of 0 "[]"] show ?thesis
    using run pool_addr_facts(1) by (auto simp: rpc_signed_def)
qed

theorem CreateAddr_key_of_address_witness:
  "GetAddrByPriv key_text = Ok (PubtoAddr (replicate 32 255))"
proof -
  have "length (PubtoAddr (replicate 32 255)) = 47"
    using length_Encode_255 by (simp add: PubtoAddr_def PublicKeyToAddress_def)
  then have "CreateAddr (\<lambda>_. Ok (replicate 64 255)) = Some (Ok (PubtoAddr (replicate 32 255), key_text))"
    by (simp add: CreateAddr_def CreateAddr_loop.simps Generprivkey_def key_text_def)
  from CreateAddr_key_of_address [OF _ this] show ?thesis by auto
qed

theorem SignOrd_bad_key_panics_witness:
  "SignOrd (\<lambda>x. x) key_ed (lit ''0'') (Some (zero_MsgOrder\<lparr> mo_Id := hexEncode [1], mo_Ciphertext := hexEncode [2],
    mo_Address := [3], mo_Price := 4 \<rparr>)) = Panic"
proof (rule SignOrd_bad_key_panics [where ident = "[1]" and cip = "[2]"])
  have "Decode (lit ''0'') = []" by (rule Decode_invalid [of 48]) (simp_all add: lit_def b58_def)
  then show "length (Decode (lit ''0'')) \<noteq> 64" by simp
qed (simp_all add: lit_def)

end
