(* ===== verification/KvServer.thy ===== *)
theory KvServer
  imports StoreApi Strconv
begin

text \<open>
  The store's network server (\<open>until/store/server/\<close>): reading a request from a connection through
  \<open>bufio\<close> and \<open>textproto\<close>, the commands on the store, and the replies as they are written. A connection
  is the list of the chunks its reads will deliver; listening, accepting and the goroutine of each
  connection are left out. The texts of errors are parameters.
\<close>

section \<open>Reading from a connection\<close>

record reader =
  r_buf :: bytes
  r_conn :: "bytes list"

definition EOF_err :: goerror where
  "EOF_err = ErrText ''EOF''"

text \<open>One read of at most \<open>n\<close> bytes; \<open>None\<close> at the end.\<close>

fun conn_read :: "nat \<Rightarrow> bytes list \<Rightarrow> (bytes \<times> bytes list) option" where
  "conn_read n [] = None"
| "conn_read n (c # cs) =
     (if c = [] then conn_read n cs
      else Some (take n c, if length c \<le> n then cs else drop n c # cs))"

definition conn_size :: "bytes list \<Rightarrow> nat" where
  "conn_size cs = sum_list (map length cs)"

lemma conn_read_size:
  "conn_read n cs = Some (bs, cs') \<Longrightarrow> conn_size cs = length bs + conn_size cs' \<and> (0 < n \<longrightarrow> bs \<noteq> [])"
  by (induction n cs rule: conn_read.induct) (auto simp: conn_size_def split: if_splits)

definition chomp :: "bytes \<Rightarrow> bytes" where
  "chomp s = (if s \<noteq> [] \<and> last s = 13 then butlast s else s)"

text \<open>
  \<open>textproto.Reader.ReadLine\<close> over a \<open>bufio.Reader\<close> of 4096 bytes: a line is collected from buffers; a
  full buffer without a line end is taken whole, but for a carriage return at its end. At the end of the
  connection what is buffered counts as a line.
\<close>

function ReadLine :: "reader \<Rightarrow> bytes \<Rightarrow> bytes outcome \<times> reader" where
  "ReadLine rd acc =
     (if 10 \<in> set (r_buf rd)
      then (Ok (acc @ chomp (takeWhile (\<lambda>c. c \<noteq> 10) (r_buf rd))),
        rd\<lparr> r_buf := tl (dropWhile (\<lambda>c. c \<noteq> 10) (r_buf rd)) \<rparr>)
      else if 4096 \<le> length (r_buf rd)
      then if last (r_buf rd) = 13 then ReadLine (rd\<lparr> r_buf := [13] \<rparr>) (acc @ butlast (r_buf rd))
        else ReadLine (rd\<lparr> r_buf := [] \<rparr>) (acc @ r_buf rd)
      else (case conn_read (4096 - length (r_buf rd)) (r_conn rd) of
          None \<Rightarrow> if r_buf rd = [] then (Err EOF_err, rd) else (Ok (acc @ r_buf rd), rd\<lparr> r_buf := [] \<rparr>)
        | Some (bs, cs) \<Rightarrow> ReadLine \<lparr> r_buf = r_buf rd @ bs, r_conn = cs \<rparr> acc))"
  by pat_completeness auto
termination
proof (relation "measures [\<lambda>(rd, acc). conn_size (r_conn rd), \<lambda>(rd, acc). length (r_buf rd)]", goal_cases)
  case (4 rd acc a bs cs)
  then have "conn_size (r_conn rd) = length bs + conn_size cs \<and> bs \<noteq> []"
    using conn_read_size [of "4096 - length (r_buf rd)" "r_conn rd" bs cs] by simp
  then show ?case by (cases bs) simp_all
qed auto

declare ReadLine.simps [simp del]

text \<open>\<open>bufio.Reader.Read\<close> into \<open>n\<close> bytes: at most one read of the connection.\<close>

definition buf_Read :: "nat \<Rightarrow> reader \<Rightarrow> bytes \<times> reader" where
  "buf_Read n rd =
     (if n = 0 then ([], rd)
      else if r_buf rd \<noteq> [] then (take n (r_buf rd), rd\<lparr> r_buf := drop n (r_buf rd) \<rparr>)
      else if 4096 \<le> n
      then (case conn_read n (r_conn rd) of None \<Rightarrow> ([], rd) | Some (bs, cs) \<Rightarrow> (bs, rd\<lparr> r_conn := cs \<rparr>))
      else (case conn_read 4096 (r_conn rd) of
          None \<Rightarrow> ([], rd)
        | Some (bs, cs) \<Rightarrow> (take n bs, \<lparr> r_buf = drop n bs, r_conn = cs \<rparr>)))"

section \<open>Requests\<close>

text \<open>\<open>s[1:]\<close> of an empty line panics.\<close>

definition readNumber :: "reader \<Rightarrow> int outcome \<times> reader" where
  "readNumber rd =
     (case ReadLine rd [] of
        (Err e, rd) \<Rightarrow> (Err e, rd)
      | (Panic, rd) \<Rightarrow> (Panic, rd)
      | (Ok s, rd) \<Rightarrow>
          if s = [] then (Panic, rd)
          else (case ParseInt 0 64 (tl s) of
              (v, err) \<Rightarrow> (if err then Err (ErrText ''strconv.ParseInt'') else Ok v, rd)))"

text \<open>\<open>bytes.ToUpper\<close>; \<open>uni\<close> is what it does to text that is not ASCII.\<close>

definition ToUpper :: "(bytes \<Rightarrow> bytes) \<Rightarrow> bytes \<Rightarrow> bytes" where
  "ToUpper uni s =
     (if list_all (\<lambda>b. b < 128) s then map (\<lambda>b. if 97 \<le> b \<and> b \<le> 122 then b - 32 else b) s else uni s)"

text \<open>
  The arguments: a length line, the bytes and two more. A negative size panics when it is allocated, and
  fewer than two bytes when they are cut off. The first argument is turned into upper case. A size the
  machine cannot allocate is taken as one it can.
\<close>

fun kv_args :: "(bytes \<Rightarrow> bytes) \<Rightarrow> nat \<Rightarrow> bool \<Rightarrow> reader \<Rightarrow> bytes list outcome \<times> reader" where
  "kv_args uni 0 first rd = (Ok [], rd)"
| "kv_args uni (Suc k) first rd =
     (case readNumber rd of
        (Err e, rd) \<Rightarrow> (Err e, rd)
      | (Panic, rd) \<Rightarrow> (Panic, rd)
      | (Ok x, rd) \<Rightarrow>
          let len = sint (word_of_int x + 2 :: i64) in
          if len < 0 then (Panic, rd)
          else (case buf_Read (nat len) rd of (arg, rd) \<Rightarrow>
            if length arg \<noteq> nat len then (Err (ErrText ''Argument Illegal Length''), rd)
            else let arg = (if first then ToUpper uni arg else arg) in
              if length arg < 2 then (Panic, rd)
              else (case kv_args uni k False rd of
                  (Ok args, rd) \<Rightarrow> (Ok (take (length arg - 2) arg # args), rd)
                | r \<Rightarrow> r)))"

definition readRequest :: "(bytes \<Rightarrow> bytes) \<Rightarrow> reader \<Rightarrow> bytes list outcome \<times> reader" where
  "readRequest uni rd =
     (case readNumber rd of
        (Err e, rd) \<Rightarrow> (Err e, rd)
      | (Panic, rd) \<Rightarrow> (Panic, rd)
      | (Ok n, rd) \<Rightarrow> kv_args uni (nat n) True rd)"

section \<open>Replies\<close>

datatype kvreply = RError goerror | RWrongArgs string | RUnknown bytes | RNumError bytes
  | RInteger int | RSimple bytes | RBulk bytes | RArray "bytes list"

text \<open>The texts of the errors of the store and of \<open>ParseInt\<close>.\<close>

record texts =
  t_err :: "goerror \<Rightarrow> bytes"
  t_num :: "bytes \<Rightarrow> bytes"

definition wline :: "bytes \<Rightarrow> bytes" where
  "wline s = s @ [13, 10]"

definition respError :: "bytes \<Rightarrow> bytes" where
  "respError err = wline (lit ''-Error '' @ err)"

definition respInteger :: "int \<Rightarrow> bytes" where
  "respInteger v = wline (58 # show_int v)"

definition respSimple :: "bytes \<Rightarrow> bytes" where
  "respSimple s = wline (43 # s)"

definition respBulk :: "bytes \<Rightarrow> bytes" where
  "respBulk s = (if length s = 0 then wline (lit ''$-1'') else wline (36 # dec (length s)) @ wline s)"

definition respArray :: "bytes list \<Rightarrow> bytes" where
  "respArray xs = wline (42 # dec (length xs)) @ concat (map respBulk xs)"

definition render :: "texts \<Rightarrow> kvreply \<Rightarrow> bytes" where
  "render tx r =
     (case r of
        RError e \<Rightarrow> respError (t_err tx e)
      | RWrongArgs c \<Rightarrow> respError (lit ''wrong number of arguments for '' @ [39] @ lit c @ [39] @ lit '' command'')
      | RUnknown c \<Rightarrow> respError (lit ''unknown command '' @ [39] @ c @ [39])
      | RNumError s \<Rightarrow> respError (t_num tx s)
      | RInteger v \<Rightarrow> respInteger v
      | RSimple s \<Rightarrow> respSimple s
      | RBulk s \<Rightarrow> respBulk s
      | RArray xs \<Rightarrow> respArray xs)"

section \<open>Commands\<close>

definition kv_reply :: "'a outcome \<Rightarrow> ('a \<Rightarrow> kvreply) \<Rightarrow> (goerror \<Rightarrow> kvreply) \<Rightarrow> kvreply outcome" where
  "kv_reply r f g = (case r of Ok x \<Rightarrow> Ok (f x) | Err e \<Rightarrow> Ok (g e) | Panic \<Rightarrow> Panic)"

definition kv_done :: "'d \<times> 'a outcome \<Rightarrow> ('a \<Rightarrow> kvreply) \<Rightarrow> (goerror \<Rightarrow> kvreply) \<Rightarrow> 'd \<times> kvreply outcome" where
  "kv_done s f g = (fst s, kv_reply (snd s) f g)"

definition kv_need :: "nat \<Rightarrow> string \<Rightarrow> bytes list \<Rightarrow> ('d, kvreply) act \<Rightarrow> ('d, kvreply) act" where
  "kv_need n name args k d = (if length args < n then (d, Ok (RWrongArgs name)) else k d)"

definition kv_deal0 :: "('d, 't) DB \<Rightarrow> bytes list \<Rightarrow> ('d, kvreply) act" where
  "kv_deal0 D args =
     kv_need 2 ''SET'' args (\<lambda>d. 
       kv_done (db_Set D (args ! 0) (args ! 1) d) (\<lambda>_. RSimple (lit ''OK'')) RError)"

definition kv_deal1 :: "('d, 't) DB \<Rightarrow> bytes list \<Rightarrow> ('d, kvreply) act" where
  "kv_deal1 D args =
     kv_need 1 ''DEL'' args (\<lambda>d. 
       kv_done (db_Del D (args ! 0) d) (\<lambda>_. RInteger 1) (\<lambda>_. RInteger 0))"

definition kv_deal2 :: "('d, 't) DB \<Rightarrow> bytes list \<Rightarrow> ('d, kvreply) act" where
  "kv_deal2 D args =
     kv_need 1 ''GET'' args (\<lambda>d. 
       (d, kv_reply (db_Get D d (args ! 0)) RBulk (\<lambda>_. RBulk [])))"

definition kv_deal3 :: "('d, 't) DB \<Rightarrow> bytes list \<Rightarrow> ('d, kvreply) act" where
  "kv_deal3 D args =
     kv_need 3 ''HSET'' args (\<lambda>d. 
       kv_done (db_Mset D (args ! 0) (args ! 1) (args ! 2) d) (\<lambda>_. RInteger 1) RError)"

definition kv_deal4 :: "('d, 't) DB \<Rightarrow> bytes list \<Rightarrow> ('d, kvreply) act" where
  "kv_deal4 D args =
     kv_need 2 ''HDEL'' args (\<lambda>d. 
       kv_done (db_Mdel D (args ! 0) (args ! 1) d) (\<lambda>_. RInteger 1) (\<lambda>_. RInteger 0))"

definition kv_deal5 :: "('d, 't) DB \<Rightarrow> bytes list \<Rightarrow> ('d, kvreply) act" where
  "kv_deal5 D args =
     kv_need 2 ''HGET'' args (\<lambda>d. 
       (d, kv_reply (db_Mget D d (args ! 0) (args ! 1)) RBulk (\<lambda>_. RBulk [])))"

definition kv_deal6 :: "('d, 't) DB \<Rightarrow> bytes list \<Rightarrow> ('d, kvreply) act" where
  "kv_deal6 D args =
     kv_need 1 ''HKEYS'' args (\<lambda>d. 
       (d, kv_reply (db_Mkeys D d (args ! 0)) RArray (\<lambda>_. RArray [])))"

definition kv_deal7 :: "('d, 't) DB \<Rightarrow> bytes list \<Rightarrow> ('d, kvreply) act" where
  "kv_deal7 D args =
     kv_need 1 ''HVALS'' args (\<lambda>d. 
       (d, kv_reply (db_Mvals D d (args ! 0)) RArray (\<lambda>_. RArray [])))"

definition kv_deal8 :: "('d, 't) DB \<Rightarrow> bytes list \<Rightarrow> ('d, kvreply) act" where
  "kv_deal8 D args =
     kv_need 1 ''HCLEAR'' args (\<lambda>d. 
       kv_done (db_Mclear D (args ! 0) d) (\<lambda>_. RInteger 1) (\<lambda>_. RInteger 0))"

definition kv_deal9 :: "('d, 't) DB \<Rightarrow> bytes list \<Rightarrow> ('d, kvreply) act" where
  "kv_deal9 D args =
     kv_need 2 ''SADD'' args (\<lambda>d. 
       kv_done (db_Sadd D (args ! 0) (args ! 1) d) (\<lambda>_. RInteger 1) (\<lambda>_. RInteger 0))"

definition kv_deal10 :: "('d, 't) DB \<Rightarrow> bytes list \<Rightarrow> ('d, kvreply) act" where
  "kv_deal10 D args =
     kv_need 2 ''SREM'' args (\<lambda>d. 
       kv_done (db_Sdel D (args ! 0) (args ! 1) d) (\<lambda>_. RInteger 1) (\<lambda>_. RInteger 0))"

definition kv_deal11 :: "('d, 't) DB \<Rightarrow> bytes list \<Rightarrow> ('d, kvreply) act" where
  "kv_deal11 D args =
     kv_need 2 ''SISMEMBER'' args (\<lambda>d. 
       (d, kv_reply (db_Selem D d (args ! 0) (args ! 1)) (\<lambda>ok. RInteger (if ok then 1 else 0)) (\<lambda>_. RInteger 0)))"

definition kv_deal12 :: "('d, 't) DB \<Rightarrow> bytes list \<Rightarrow> ('d, kvreply) act" where
  "kv_deal12 D args =
     kv_need 1 ''SMEMBERS'' args (\<lambda>d. 
       (d, kv_reply (db_Smembers D d (args ! 0)) RArray (\<lambda>_. RArray [])))"

definition kv_deal13 :: "('d, 't) DB \<Rightarrow> bytes list \<Rightarrow> ('d, kvreply) act" where
  "kv_deal13 D args =
     kv_need 1 ''SMEMBERS'' args (\<lambda>d. 
       kv_done (db_Sclear D (args ! 0) d) (\<lambda>_. RInteger 1) (\<lambda>_. RInteger 0))"

definition kv_deal14 :: "('d, 't) DB \<Rightarrow> bytes list \<Rightarrow> ('d, kvreply) act" where
  "kv_deal14 D args =
     kv_need 3 ''ZADD'' args (\<lambda>d. 
       (case ParseInt 0 32 (args ! 1) of (score, err) \<Rightarrow> if err then (d, Ok (RInteger 0)) else kv_done (db_Zadd D (args ! 0) (word_of_int score) (args ! 2) d) (\<lambda>_. RInteger 1) (\<lambda>_. RInteger 0)))"

definition kv_deal15 :: "('d, 't) DB \<Rightarrow> bytes list \<Rightarrow> ('d, kvreply) act" where
  "kv_deal15 D args =
     kv_need 2 ''ZREM'' args (\<lambda>d. 
       kv_done (db_Zdel D (args ! 0) (args ! 1) d) (\<lambda>_. RInteger 1) (\<lambda>_. RInteger 0))"

definition kv_deal16 :: "('d, 't) DB \<Rightarrow> bytes list \<Rightarrow> ('d, kvreply) act" where
  "kv_deal16 D args =
     kv_need 2 ''ZSCORE'' args (\<lambda>d. 
       (d, kv_reply (db_Zscore D d (args ! 0) (args ! 1)) (\<lambda>score. RBulk (show_int (sint score))) (\<lambda>_. RBulk [])))"

definition kv_deal17 :: "('d, 't) DB \<Rightarrow> bytes list \<Rightarrow> ('d, kvreply) act" where
  "kv_deal17 D args =
     kv_need 3 ''ZRANGE'' args (\<lambda>d. 
       (case ParseInt 0 32 (args ! 1) of (start, err) \<Rightarrow> if err then (d, Ok (RNumError (args ! 1))) else (case ParseInt 0 32 (args ! 2) of (stop, err) \<Rightarrow> if err then (d, Ok (RNumError (args ! 2))) else (d, kv_reply (db_Zrange D d (args ! 0) (word_of_int start) (word_of_int stop)) RArray RError))))"

definition kv_deal18 :: "('d, 't) DB \<Rightarrow> bytes list \<Rightarrow> ('d, kvreply) act" where
  "kv_deal18 D args =
     kv_need 1 ''ZCLEAR'' args (\<lambda>d. 
       kv_done (db_Zclear D (args ! 0) d) (\<lambda>_. RInteger 1) (\<lambda>_. RInteger 0))"

definition kv_deal19 :: "('d, 't) DB \<Rightarrow> bytes list \<Rightarrow> ('d, kvreply) act" where
  "kv_deal19 D args =
     kv_need 1 ''LPOP'' args (\<lambda>d. 
       kv_done (db_Llpop D (args ! 0) d) RBulk (\<lambda>_. RBulk []))"

definition kv_deal20 :: "('d, 't) DB \<Rightarrow> bytes list \<Rightarrow> ('d, kvreply) act" where
  "kv_deal20 D args =
     kv_need 2 ''LPUSH'' args (\<lambda>d. 
       kv_done (db_Llpush D (args ! 0) (args ! 1) d) (\<lambda>n. RInteger (sint n)) RError)"

definition kv_deal21 :: "('d, 't) DB \<Rightarrow> bytes list \<Rightarrow> ('d, kvreply) act" where
  "kv_deal21 D args =
     kv_need 1 ''RPOP'' args (\<lambda>d. 
       kv_done (db_Lrpop D (args ! 0) d) RBulk (\<lambda>_. RBulk []))"

definition kv_deal22 :: "('d, 't) DB \<Rightarrow> bytes list \<Rightarrow> ('d, kvreply) act" where
  "kv_deal22 D args =
     kv_need 2 ''RPUSH'' args (\<lambda>d. 
       kv_done (db_Lrpush D (args ! 0) (args ! 1) d) (\<lambda>n. RInteger (sint n)) RError)"

definition kv_deal23 :: "('d, 't) DB \<Rightarrow> bytes list \<Rightarrow> ('d, kvreply) act" where
  "kv_deal23 D args =
     kv_need 3 ''LSET'' args (\<lambda>d. 
       (case ParseInt 0 64 (args ! 1) of (idx, err) \<Rightarrow> if err then (d, Ok (RNumError (args ! 1))) else kv_done (db_Lset D (args ! 0) (word_of_int idx) (args ! 2) d) (\<lambda>_. RSimple (lit ''OK'')) RError))"

definition kv_deal24 :: "('d, 't) DB \<Rightarrow> bytes list \<Rightarrow> ('d, kvreply) act" where
  "kv_deal24 D args =
     kv_need 1 ''LLEN'' args (\<lambda>d. 
       (d, kv_reply (db_Llen D d (args ! 0)) (\<lambda>n. RInteger (sint n)) (\<lambda>_. RInteger 0)))"

definition kv_deal25 :: "('d, 't) DB \<Rightarrow> bytes list \<Rightarrow> ('d, kvreply) act" where
  "kv_deal25 D args =
     kv_need 2 ''LINDEX'' args (\<lambda>d. 
       (case ParseInt 0 64 (args ! 1) of (idx, err) \<Rightarrow> if err then (d, Ok (RNumError (args ! 1))) else (d, kv_reply (db_Lindex D d (args ! 0) (word_of_int idx)) RBulk (\<lambda>_. RBulk []))))"

text \<open>\<open>Lrange\<close> may not return.\<close>

definition kv_deal26 :: "('d, 't) DB \<Rightarrow> bytes list \<Rightarrow> 'd \<Rightarrow> ('d \<times> kvreply outcome) option" where
  "kv_deal26 D args d =
     (if length args < 3 then Some (d, Ok (RWrongArgs ''LRANE''))
      else case ParseInt 0 64 (args ! 1) of (start, err) \<Rightarrow>
        if err then Some (d, Ok (RNumError (args ! 1)))
        else case ParseInt 0 64 (args ! 2) of (stop, err) \<Rightarrow>
          if err then Some (d, Ok (RNumError (args ! 2)))
          else map_option (\<lambda>r. (d, kv_reply r RArray (\<lambda>_. RArray [])))
            (db_Lrange D d (args ! 0) (word_of_int start) (word_of_int stop)))"

definition kv_deal27 :: "('d, 't) DB \<Rightarrow> bytes list \<Rightarrow> ('d, kvreply) act" where
  "kv_deal27 D args =
     kv_need 1 ''LCLEAR'' args (\<lambda>d. 
       kv_done (db_Lclear D (args ! 0) d) (\<lambda>_. RInteger 1) (\<lambda>_. RInteger 0))"

definition dealRegister ::
  "('d, 't) DB \<Rightarrow> (bytes \<times> (bytes list \<Rightarrow> 'd \<Rightarrow> ('d \<times> kvreply outcome) option)) list" where
  "dealRegister D =
    [(lit ''SET'', \<lambda>args d. Some (kv_deal0 D args d)),
     (lit ''DEL'', \<lambda>args d. Some (kv_deal1 D args d)),
     (lit ''GET'', \<lambda>args d. Some (kv_deal2 D args d)),
     (lit ''HSET'', \<lambda>args d. Some (kv_deal3 D args d)),
     (lit ''HDEL'', \<lambda>args d. Some (kv_deal4 D args d)),
     (lit ''HGET'', \<lambda>args d. Some (kv_deal5 D args d)),
     (lit ''HKEYS'', \<lambda>args d. Some (kv_deal6 D args d)),
     (lit ''HVALS'', \<lambda>args d. Some (kv_deal7 D args d)),
     (lit ''HCLEAR'', \<lambda>args d. Some (kv_deal8 D args d)),
     (lit ''SADD'', \<lambda>args d. Some (kv_deal9 D args d)),
     (lit ''SREM'', \<lambda>args d. Some (kv_deal10 D args d)),
     (lit ''SISMEMBER'', \<lambda>args d. Some (kv_deal11 D args d)),
     (lit ''SMEMBERS'', \<lambda>args d. Some (kv_deal12 D args d)),
     (lit ''SCLEAR'', \<lambda>args d. Some (kv_deal13 D args d)),
     (lit ''ZADD'', \<lambda>args d. Some (kv_deal14 D args d)),
     (lit ''ZREM'', \<lambda>args d. Some (kv_deal15 D args d)),
     (lit ''ZSCORE'', \<lambda>args d. Some (kv_deal16 D args d)),
     (lit ''ZRANGE'', \<lambda>args d. Some (kv_deal17 D args d)),
     (lit ''ZCLEAR'', \<lambda>args d. Some (kv_deal18 D args d)),
     (lit ''LPOP'', \<lambda>args d. Some (kv_deal19 D args d)),
     (lit ''LPUSH'', \<lambda>args d. Some (kv_deal20 D args d)),
     (lit ''RPOP'', \<lambda>args d. Some (kv_deal21 D args d)),
     (lit ''RPUSH'', \<lambda>args d. Some (kv_deal22 D args d)),
     (lit ''LSET'', \<lambda>args d. Some (kv_deal23 D args d)),
     (lit ''LLEN'', \<lambda>args d. Some (kv_deal24 D args d)),
     (lit ''LINDEX'', \<lambda>args d. Some (kv_deal25 D args d)),
     (lit ''LRANGE'', kv_deal26 D),
     (lit ''LCLEAR'', \<lambda>args d. Some (kv_deal27 D args d))]"

section \<open>Serving a connection\<close>

text \<open>Reading takes bytes off the connection, and a request at least one.\<close>

lemma ReadLine_size:
  "ReadLine rd acc = (r, rd') \<Longrightarrow> conn_size (r_conn rd') \<le> conn_size (r_conn rd) \<and>
    (r_buf rd = [] \<longrightarrow> is_ok r \<longrightarrow> conn_size (r_conn rd') < conn_size (r_conn rd))"
proof (induction rd acc arbitrary: r rd' rule: ReadLine.induct)
  case (1 rd acc)
  show ?case
  proof (cases "10 \<in> set (r_buf rd) \<or> 4096 \<le> length (r_buf rd)")
    case True
    with 1(1,2,4) show ?thesis
      by (subst (asm) (3) ReadLine.simps) (auto split: if_splits)
  next
    case False
    show ?thesis
    proof (cases "conn_read (4096 - length (r_buf rd)) (r_conn rd)")
      case None
      with 1(4) False show ?thesis by (subst (asm) ReadLine.simps) (auto split: if_splits)
    next
      case (Some a)
      obtain bs cs where a: "a = (bs, cs)" by (rule prod.exhaust)
      have "conn_size (r_conn rd) = length bs + conn_size cs" "bs \<noteq> []"
        using conn_read_size [OF Some [unfolded a]] False by auto
      moreover have "ReadLine \<lparr> r_buf = r_buf rd @ bs, r_conn = cs \<rparr> acc = (r, rd')"
        using 1(4) False Some a by (subst (asm) ReadLine.simps) simp
      then have "conn_size (r_conn rd') \<le> conn_size cs"
        using 1(3) [OF _ _ Some a [symmetric]] False by auto
      ultimately show ?thesis by (cases bs) auto
    qed
  qed
qed


lemma buf_Read_size: "buf_Read n rd = (bs, rd') \<Longrightarrow> conn_size (r_conn rd') \<le> conn_size (r_conn rd)"
  by (auto simp: buf_Read_def dest!: conn_read_size split: if_splits option.splits prod.splits)

lemma readNumber_size:
  "readNumber rd = (r, rd') \<Longrightarrow> conn_size (r_conn rd') \<le> conn_size (r_conn rd) \<and>
    (r_buf rd = [] \<longrightarrow> is_ok r \<longrightarrow> conn_size (r_conn rd') < conn_size (r_conn rd))"
  by (auto simp: readNumber_def dest!: ReadLine_size split: outcome.splits prod.splits if_splits)

lemma kv_args_size:
  "kv_args uni k first rd = (r, rd') \<Longrightarrow> conn_size (r_conn rd') \<le> conn_size (r_conn rd)"
proof (induction uni k first rd arbitrary: r rd' rule: kv_args.induct)
  case (2 uni k first rd)
  obtain n rd1 where n: "readNumber rd = (n, rd1)" by (rule prod.exhaust)
  note le1 = conjunct1 [OF readNumber_size [OF n]]
  show ?case
  proof (cases n)
    case (Ok x)
    let ?len = "sint (word_of_int x + 2 :: i64)"
    obtain arg rd2 where a: "buf_Read (nat ?len) rd1 = (arg, rd2)" by (rule prod.exhaust)
    note le2 = buf_Read_size [OF a]
    obtain q rd3 where q: "kv_args uni k False rd2 = (q, rd3)" by (rule prod.exhaust)
    have "conn_size (r_conn rd3) \<le> conn_size (r_conn rd2)" if "\<not> ?len < 0" "length arg = nat ?len"
      "\<not> length (if first then ToUpper uni arg else arg) < 2"
      using 2(1) [OF n [symmetric] Ok refl that(1) a [symmetric] _ refl that(3) q] that(2) by simp
    with 2(2) n Ok a q le1 le2 show ?thesis
      by (auto simp: Let_def split: if_splits outcome.splits)
  qed (use 2(2) n le1 in simp_all)
qed simp

lemma readRequest_size:
  "readRequest uni rd = (Ok args, rd') \<Longrightarrow> r_buf rd = [] \<Longrightarrow> conn_size (r_conn rd') < conn_size (r_conn rd)"
  by (fastforce simp: readRequest_def dest!: readNumber_size kv_args_size split: outcome.splits prod.splits)

text \<open>
  Every request is read through a new buffer: what the last one has read beyond its request is lost. The
  result is the store, what has been written, and whether the server panicked; \<open>None\<close> when a command does
  not return.
\<close>

function serve ::
  "('d, 't) DB \<Rightarrow> (bytes \<Rightarrow> bytes) \<Rightarrow> texts \<Rightarrow> bytes list \<Rightarrow> 'd \<Rightarrow> ('d \<times> bytes \<times> bool) option" where
  "serve D uni tx conn d =
     (case readRequest uni \<lparr> r_buf = [], r_conn = conn \<rparr> of
        (Panic, _) \<Rightarrow> Some (d, [], True)
      | (Err e, _) \<Rightarrow> Some (d, if e = EOF_err then [] else respError (lit ''illegal request''), False)
      | (Ok [], _) \<Rightarrow> Some (d, [], True)
      | (Ok (c # args), rd) \<Rightarrow>
          (case map_of (dealRegister D) c of
             None \<Rightarrow> Some (d, render tx (RUnknown c), False)
           | Some f \<Rightarrow>
               (case f args d of
                  None \<Rightarrow> None
                | Some (d', Ok reply) \<Rightarrow>
                    map_option (\<lambda>(d'', out, p). (d'', render tx reply @ out, p))
                      (serve D uni tx (r_conn rd) d')
                | Some (d', _) \<Rightarrow> Some (d', [], True))))"
  by pat_completeness auto
termination
  by (relation "measure (\<lambda>(D, uni, tx, conn, d). conn_size conn)") (auto dest!: readRequest_size [OF sym])

declare serve.simps [simp del]

section \<open>Accepting and stopping\<close>

text \<open>
  \<open>Run\<close> looks at the channel without waiting, and else waits for a connection, which is served apart or
  whose error is passed over; \<open>Stop\<close> sends, receives and closes. \<open>Arrives\<close> is the end of an \<open>Accept\<close>, the
  other steps are the program's own.
\<close>

datatype kv_run = Looking | Accepting | Confirming | RunReturned
datatype kv_stop = StopNotCalled | StopSending | StopReceiving | StopReturned

datatype kv_event = Arrives | Calls | Internal

inductive kv_life :: "kv_event \<Rightarrow> kv_run \<times> kv_stop \<Rightarrow> kv_run \<times> kv_stop \<Rightarrow> bool" where
  kv_default: "st \<noteq> StopSending \<Longrightarrow> kv_life Internal (Looking, st) (Accepting, st)"
| kv_arrives: "kv_life Arrives (Accepting, st) (Looking, st)"
| kv_calls: "kv_life Calls (ru, StopNotCalled) (ru, StopSending)"
| kv_meet: "kv_life Internal (Looking, StopSending) (Confirming, StopReceiving)"
| kv_confirm: "kv_life Internal (Confirming, StopReceiving) (RunReturned, StopReturned)"

inductive_cases kv_life_elim: "kv_life e x y"

inductive kv_runs :: "kv_run \<times> kv_stop \<Rightarrow> kv_event list \<Rightarrow> kv_run \<times> kv_stop \<Rightarrow> bool" where
  kv_nil: "kv_runs x [] x"
| kv_cons: "kv_life e x y \<Longrightarrow> kv_runs y es z \<Longrightarrow> kv_runs x (e # es) z"

end
