(* ===== verification/KvServerSpec.thy ===== *)
theory KvServerSpec
  imports KvServer
begin

text \<open>
  Properties of the network server: a request written the way a client writes it is read back as its
  arguments, a value that was set is returned over the wire, what a client sends behind a request in the
  same packet is dropped, and a request without arguments takes the server down.
\<close>

section \<open>Requests as a client writes them\<close>

definition encode_arg :: "bytes \<Rightarrow> bytes" where
  "encode_arg a = wline (36 # dec (length a)) @ wline a"

definition encode_request :: "bytes list \<Rightarrow> bytes" where
  "encode_request args = wline (42 # dec (length args)) @ concat (map encode_arg args)"

definition ascii :: "bytes \<Rightarrow> bool" where
  "ascii s \<longleftrightarrow> list_all (\<lambda>b. b < 128) s"

lemma ReadLine_wline:
  assumes "10 \<notin> set l"
  shows "ReadLine \<lparr> r_buf = wline l @ rest, r_conn = cs \<rparr> [] = (Ok l, \<lparr> r_buf = rest, r_conn = cs \<rparr>)"
proof -
  have "takeWhile (\<lambda>c. c \<noteq> 10) (wline l @ rest) = l @ [13]" "dropWhile (\<lambda>c. c \<noteq> 10) (wline l @ rest) = 10 # rest"
    using assms by (auto simp: wline_def takeWhile_append dropWhile_append)
  then show ?thesis by (simp add: ReadLine.simps wline_def chomp_def)
qed

lemma ReadLine_chunk:
  "c \<noteq> [] \<Longrightarrow> length c \<le> 4096 \<Longrightarrow>
    ReadLine \<lparr> r_buf = [], r_conn = c # cs \<rparr> [] = ReadLine \<lparr> r_buf = c, r_conn = cs \<rparr> []"
  by (subst ReadLine.simps) simp

lemma readNumber_wline:
  assumes "n < 2 ^ 63"
  shows "readNumber \<lparr> r_buf = wline (p # dec n) @ rest, r_conn = cs \<rparr> =
    (if p = 10 then readNumber \<lparr> r_buf = wline (p # dec n) @ rest, r_conn = cs \<rparr>
     else (Ok (int n), \<lparr> r_buf = rest, r_conn = cs \<rparr>))"
proof (cases "p = 10")
  case False
  have "10 \<notin> set (p # dec n)" using dec_digits [of n] False by auto
  from ReadLine_wline [OF this] False ParseInt_dec [of n 64 0] assms show ?thesis
    by (simp add: readNumber_def)
qed simp

lemma readNumber_chunk:
  "c \<noteq> [] \<Longrightarrow> length c \<le> 4096 \<Longrightarrow>
    readNumber \<lparr> r_buf = [], r_conn = c # cs \<rparr> = readNumber \<lparr> r_buf = c, r_conn = cs \<rparr>"
  by (simp add: readNumber_def ReadLine_chunk)

lemma length_wline: "length (wline a) = length a + 2"
  by (simp add: wline_def)

lemma take_wline: "length b = n \<Longrightarrow> take n (wline b) = b"
  by (simp add: wline_def)

lemma ToUpper_line: "ascii a \<Longrightarrow> ToUpper uni (wline a) = wline (ToUpper uni a)"
  by (simp add: ToUpper_def wline_def ascii_def)

lemma length_ToUpper: "ascii a \<Longrightarrow> length (ToUpper uni a) = length a"
  by (simp add: ToUpper_def ascii_def)

text \<open>The arguments, read from a buffer that holds all of them.\<close>

lemma kv_args_encoded:
  assumes "\<forall>a \<in> set args. length a < 2 ^ 62" "args \<noteq> [] \<longrightarrow> first \<longrightarrow> ascii (hd args)"
  shows "kv_args uni (length args) first \<lparr> r_buf = concat (map encode_arg args) @ rest, r_conn = cs \<rparr> =
    (Ok (if first \<and> args \<noteq> [] then ToUpper uni (hd args) # tl args else args), \<lparr> r_buf = rest, r_conn = cs \<rparr>)"
  using assms
proof (induction args arbitrary: first)
  case (Cons a args)
  let ?more = "concat (map encode_arg args) @ rest"
  have a: "length a < 2 ^ 62" using Cons.prems by simp
  have num: "readNumber \<lparr> r_buf = wline (36 # dec (length a)) @ wline a @ ?more, r_conn = cs \<rparr> =
      (Ok (int (length a)), \<lparr> r_buf = wline a @ ?more, r_conn = cs \<rparr>)"
    using readNumber_wline [of "length a" 36 "wline a @ ?more" cs] a by simp
  have len: "sint (word_of_int (int (length a)) + 2 :: i64) = int (length (wline a))"
  proof -
    have "word_of_int (int (length a)) + 2 = (word_of_int (int (length a + 2)) :: i64)" by simp
    then have "sint (word_of_int (int (length a)) + 2 :: i64) = signed_take_bit 63 (int (length a + 2))"
      by (simp only: sint_sbintrunc') simp
    also have "\<dots> = int (length a + 2)"
      by (rule signed_take_bit_int_eq_self) (use a in simp_all)
    finally show ?thesis by (simp add: wline_def)
  qed
  have nat_len: "nat (sint (word_of_nat (length a) + 2 :: i64)) = length (wline a)"
    "\<not> sint (word_of_nat (length a) + 2 :: i64) < 0"
    using len by simp_all
  have bytes: "buf_Read (length (wline a)) \<lparr> r_buf = wline a @ ?more, r_conn = cs \<rparr> =
      (wline a, \<lparr> r_buf = ?more, r_conn = cs \<rparr>)"
    by (simp add: buf_Read_def wline_def)
  have up: "length (if first then ToUpper uni (wline a) else wline a) = length a + 2"
    "take (length a) (if first then ToUpper uni (wline a) else wline a) = (if first then ToUpper uni a else a)"
    using Cons.prems by (simp_all add: ToUpper_line length_ToUpper length_wline take_wline)
  have rest: "kv_args uni (length args) False \<lparr> r_buf = ?more, r_conn = cs \<rparr> =
      (Ok args, \<lparr> r_buf = rest, r_conn = cs \<rparr>)"
    using Cons.IH [of False] Cons.prems by simp
  have "kv_args uni (Suc (length args)) first \<lparr> r_buf = wline (36 # dec (length a)) @ wline a @ ?more, r_conn = cs \<rparr> =
      (Ok ((if first then ToUpper uni a else a) # args), \<lparr> r_buf = rest, r_conn = cs \<rparr>)"
    using up by (cases first) (simp_all add: num Let_def nat_len bytes bytes [simplified length_wline add_2_eq_Suc'] rest)
  then show ?case by (simp add: encode_arg_def [of a] del: kv_args.simps)
qed simp

lemma length_encode_request:
  "a \<in> set args \<Longrightarrow> length a < length (encode_request args)"
  "length args < length (encode_request args)"
proof -
  have "length a \<le> length (concat (map encode_arg args))" if "a \<in> set args"
    using that by (induction args) (auto simp: encode_arg_def wline_def)
  then show "a \<in> set args \<Longrightarrow> length a < length (encode_request args)"
    by (force simp: encode_request_def wline_def)
  have "length args \<le> length (concat (map encode_arg args))"
    by (induction args) (auto simp: encode_arg_def wline_def)
  then show "length args < length (encode_request args)"
    by (simp add: encode_request_def wline_def)
qed

text \<open>A request at the start of a packet that fits the buffer.\<close>

lemma readRequest_encoded:
  assumes "args \<noteq> []" "ascii (hd args)" "length (encode_request args @ rest) \<le> 4096"
  shows "readRequest uni \<lparr> r_buf = [], r_conn = (encode_request args @ rest) # cs \<rparr> =
    (Ok (ToUpper uni (hd args) # tl args), \<lparr> r_buf = rest, r_conn = cs \<rparr>)"
proof -
  have short: "length args < 2 ^ 62" "\<forall>a \<in> set args. length a < 2 ^ 62"
    using length_encode_request(1) [of _ args] length_encode_request(2) [of args] assms(3) by fastforce+
  have "readNumber \<lparr> r_buf = [], r_conn = (encode_request args @ rest) # cs \<rparr> =
      (Ok (int (length args)), \<lparr> r_buf = concat (map encode_arg args) @ rest, r_conn = cs \<rparr>)"
    using readNumber_chunk [OF _ assms(3), of cs] short(1)
      readNumber_wline [of "length args" 42 "concat (map encode_arg args) @ rest" cs]
    by (simp add: encode_request_def wline_def)
  then show ?thesis
    using kv_args_encoded [OF short(2), of True uni rest cs] assms(1,2) by (simp add: readRequest_def)
qed

section \<open>What the server does with them\<close>

text \<open>C31: A request of at least one argument that a client writes in one packet of at most 4096 bytes is
  read back as exactly its arguments, the first one in upper case, and nothing of the packet is left.\<close>

theorem request_roundtrip:
  assumes "args \<noteq> []" "ascii (hd args)" "length (encode_request args) \<le> 4096"
  shows "readRequest uni \<lparr> r_buf = [], r_conn = [encode_request args] \<rparr> =
    (Ok (ToUpper uni (hd args) # tl args), \<lparr> r_buf = [], r_conn = [] \<rparr>)"
  using readRequest_encoded [OF assms(1,2), of "[]"] assms(3) by simp

theorem request_roundtrip_witness:
  "readRequest (\<lambda>s. s) \<lparr> r_buf = [], r_conn = [encode_request [lit ''get'', [0, 10, 13]]] \<rparr> =
    (Ok [lit ''GET'', [0, 10, 13]], \<lparr> r_buf = [], r_conn = [] \<rparr>)"
proof -
  have "length (encode_request [lit ''get'', [0, 10, 13]]) \<le> 4096"
    by (simp add: encode_request_def encode_arg_def wline_def dec.simps)
  from request_roundtrip [OF _ _ this, of "\<lambda>s. s"] show ?thesis
    by (simp add: ascii_def ToUpper_def lit_def)
qed

lemma serve_one:
  assumes "args \<noteq> []" "ascii (hd args)" "length (encode_request args @ rest) \<le> 4096"
    "map_of (dealRegister D) (ToUpper uni (hd args)) = Some f" "f (tl args) d = Some (d', Ok reply)"
  shows "serve D uni tx ((encode_request args @ rest) # cs) d =
    map_option (\<lambda>(d'', out, p). (d'', render tx reply @ out, p)) (serve D uni tx cs d')"
  using readRequest_encoded [OF assms(1-3), of uni cs] assms(4,5) by (subst serve.simps) simp

lemma serve_end: "serve D uni tx [] d = Some (d, [], False)"
  by (simp add: serve.simps [of D uni tx "[]"] readRequest_def readNumber_def ReadLine.simps)

lemma commands:
  "ToUpper uni (lit ''SET'') = lit ''SET''" "ToUpper uni (lit ''GET'') = lit ''GET''"
  "ascii (lit ''SET'')" "ascii (lit ''GET'')"
  "map_of (dealRegister D) (lit ''SET'') = Some (\<lambda>args d. Some (kv_deal0 D args d))"
  "map_of (dealRegister D) (lit ''GET'') = Some (\<lambda>args d. Some (kv_deal2 D args d))"
  by (simp_all add: ToUpper_def ascii_def lit_def dealRegister_def)

context roomy_badger begin

lemma db_Set_stored:
  assumes "k \<noteq> []"
  shows "\<exists>d'. db_Set (bgStore B) k v d = (d', Ok ()) \<and> contents d' = (contents d)(k \<mapsto> v)"
proof -
  let ?t = "NewTransaction B d True" and ?d = "fst (db_update B (set_tx B k v) d)"
  have ok: "snd (set_tx B k v ?t) = Ok ()" by (rule set_tx_done [OF assms])
  have "writes (fst (set_tx B k v ?t)) = [k \<mapsto> Some v]"
    using store.set_pending [OF assms] writes_new by simp
  then have "contents ?d = (contents d)(k \<mapsto> v)"
    using db_update_contents(2) [where op = "set_tx B k v" and d = d, OF ok] by (simp add: fun_eq_iff)
  moreover have "snd (db_update B (set_tx B k v) d) = Ok ()"
    by (rule db_update_contents(1) [where op = "set_tx B k v", OF ok])
  ultimately show ?thesis by (cases "db_update B (set_tx B k v) d") simp
qed

lemma kv_set: "k \<noteq> [] \<Longrightarrow> \<exists>d'. kv_deal0 (bgStore B) [k, v] d = (d', Ok (RSimple (lit ''OK''))) \<and>
    db_Get (bgStore B) d' k = Ok v"
  using db_Set_stored [of k v d] store.get_stored [of k]
  by (auto simp: kv_deal0_def kv_need_def kv_done_def kv_reply_def)

end

text \<open>A value that a client sets is what a client gets: after \<open>SET\<close> and \<open>GET\<close> of a key, each in a
  packet of its own, the server has written OK and the value.\<close>

theorem set_then_get_served:
  assumes "roomy_badger B view writes contents" "k \<noteq> []"
    "length (encode_request [lit ''SET'', k, v]) \<le> 4096" "length (encode_request [lit ''GET'', k]) \<le> 4096"
  shows "\<exists>d'. serve (bgStore B) uni tx [encode_request [lit ''SET'', k, v], encode_request [lit ''GET'', k]] d =
    Some (d', respSimple (lit ''OK'') @ respBulk v, False)"
proof -
  obtain d' where set: "kv_deal0 (bgStore B) [k, v] d = (d', Ok (RSimple (lit ''OK'')))"
    and get: "db_Get (bgStore B) d' k = Ok v"
    using roomy_badger.kv_set [OF assms(1,2)] by blast
  have deal2: "kv_deal2 (bgStore B) [k] d' = (d', Ok (RBulk v))"
    using get by (simp add: kv_deal2_def kv_need_def kv_reply_def)
  have "serve (bgStore B) uni tx [encode_request [lit ''GET'', k]] d' = Some (d', respBulk v, False)"
    using serve_one [of "[lit ''GET'', k]" "[]" "bgStore B" uni "\<lambda>args d. Some (kv_deal2 (bgStore B) args d)"
        d' d' "RBulk v" tx "[]"] assms(4) deal2
    by (simp add: serve_end commands render_def)
  then show ?thesis
    using serve_one [of "[lit ''SET'', k, v]" "[]" "bgStore B" uni "\<lambda>args d. Some (kv_deal0 (bgStore B) args d)"
        d d' "RSimple (lit ''OK'')" tx "[encode_request [lit ''GET'', k]]"] assms(3) set
    by (simp add: commands render_def)
qed

theorem set_then_get_served_witness:
  "\<exists>d'. serve (bgStore map_badger) (\<lambda>s. s) \<lparr> t_err = \<lambda>e. [], t_num = \<lambda>s. [] \<rparr>
    [encode_request [lit ''SET'', [1], [2, 3]], encode_request [lit ''GET'', [1]]] fmempty =
    Some (d', respSimple (lit ''OK'') @ respBulk [2, 3], False)"
proof -
  have "length (encode_request [lit ''SET'', [1], [2, 3]]) \<le> 4096" "length (encode_request [lit ''GET'', [1]]) \<le> 4096"
    by (simp_all add: encode_request_def encode_arg_def wline_def dec.simps lit_def)
  from set_then_get_served [OF map_badger_roomy _ this] show ?thesis by simp
qed

text \<open>Whatever a client sends behind a request in the same packet is dropped: the server answers the
  first request and goes on with what the next read delivers.\<close>

theorem pipelined_requests_lost:
  assumes "args \<noteq> []" "ascii (hd args)" "length (encode_request args @ rest) \<le> 4096"
  shows "serve D uni tx ((encode_request args @ rest) # cs) d = serve D uni tx (encode_request args # cs) d"
  using readRequest_encoded [OF assms, of uni cs] readRequest_encoded [OF assms(1,2), of "[]" uni cs] assms(3)
  by (subst (1 2) serve.simps) (simp cong: option.case_cong prod.case_cong outcome.case_cong)

theorem pipelined_requests_lost_witness:
  "serve (bgStore map_badger) (\<lambda>s. s) \<lparr> t_err = \<lambda>e. [], t_num = \<lambda>s. [] \<rparr>
      [encode_request [lit ''DEL'', [1]] @ encode_request [lit ''DEL'', [2]]] fmempty =
    serve (bgStore map_badger) (\<lambda>s. s) \<lparr> t_err = \<lambda>e. [], t_num = \<lambda>s. [] \<rparr>
      [encode_request [lit ''DEL'', [1]]] fmempty"
proof -
  have "length (encode_request [lit ''DEL'', [1]] @ encode_request [lit ''DEL'', [2]]) \<le> 4096"
    by (simp add: encode_request_def encode_arg_def wline_def dec.simps lit_def)
  from pipelined_requests_lost [OF _ _ this] show ?thesis by (simp add: ascii_def lit_def)
qed

text \<open>A request of no arguments, or an empty line, takes the server down.\<close>

lemma empty_request_panics:
  "serve D uni tx [[42, 48, 13, 10]] d = Some (d, [], True)" "serve D uni tx [[13, 10]] d = Some (d, [], True)"
proof -
  have zero: "readNumber \<lparr> r_buf = [], r_conn = [[42, 48, 13, 10]] \<rparr> = (Ok 0, \<lparr> r_buf = [], r_conn = [] \<rparr>)"
    using readNumber_chunk [of "[42, 48, 13, 10]" "[]"] readNumber_wline [of 0 42 "[]" "[]"]
    by (simp add: wline_def dec_0)
  have blank: "readNumber \<lparr> r_buf = [], r_conn = [[13, 10]] \<rparr> = (Panic, \<lparr> r_buf = [], r_conn = [] \<rparr>)"
    using ReadLine_chunk [of "[13, 10]" "[]"] ReadLine_wline [of "[]" "[]" "[]"]
    by (simp add: wline_def readNumber_def)
  show "serve D uni tx [[42, 48, 13, 10]] d = Some (d, [], True)"
    by (simp add: serve.simps [of D uni tx "[[42, 48, 13, 10]]"] readRequest_def zero)
  show "serve D uni tx [[13, 10]] d = Some (d, [], True)"
    by (simp add: serve.simps [of D uni tx "[[13, 10]]"] readRequest_def blank)
qed

section \<open>Stopping\<close>

text \<open>A server that waits for a connection cannot be stopped before one arrives; then it can.\<close>

lemma Stop_waits_for_connection:
  assumes "kv_runs (Accepting, st) es z" "Arrives \<notin> set es" "st = StopNotCalled \<or> st = StopSending"
  shows "fst z = Accepting \<and> snd z \<in> {StopNotCalled, StopSending}"
  using assms
proof (induction "(Accepting, st)" es z arbitrary: st rule: kv_runs.induct)
  case (kv_cons e y es z)
  from kv_cons.hyps(1) kv_cons.prems obtain st' where "y = (Accepting, st')" "st' = StopNotCalled \<or> st' = StopSending"
    by (cases rule: kv_life.cases) auto
  with kv_cons.hyps(3) kv_cons.prems(1) show ?case by simp
qed auto

lemma Stop_after_connection: "kv_runs (Accepting, StopSending) [Arrives, Internal, Internal] (RunReturned, StopReturned)"
  by (rule kv_runs.intros | rule kv_life.intros)+

end
