(* ===== verification/Slices.thy ===== *)
theory Slices
  imports Prelude "HOL-Library.List_Lexorder"
begin

text \<open>
  The small list library of the program: ordered values (\<open>until/typeclass/\<close>), partially applied
  comparisons (\<open>until/curry/\<close>), the list operations (\<open>until/slice/slice.go\<close>) and the two functions of
  \<open>until/miscellaneous\<close> that use them. A value of the interface \<open>Ord\<close> is a value with the record of its
  type's methods; lists whose elements have different types, and floats, are left out.
\<close>

section \<open>Ordered values\<close>

text \<open>\<open>o_Lt R a b\<close> is \<open>a.Lt(b)\<close>.\<close>

record 'a Ord =
  o_Eq :: "'a \<Rightarrow> 'a \<Rightarrow> bool"
  o_Lt :: "'a \<Rightarrow> 'a \<Rightarrow> bool"
  o_Le :: "'a \<Rightarrow> 'a \<Rightarrow> bool"
  o_Gt :: "'a \<Rightarrow> 'a \<Rightarrow> bool"
  o_Ge :: "'a \<Rightarrow> 'a \<Rightarrow> bool"

datatype Ordering = LT | EQ | GT

definition o_NotEq :: "'a Ord \<Rightarrow> 'a \<Rightarrow> 'a \<Rightarrow> bool" where
  "o_NotEq R a b = (\<not> o_Eq R a b)"

definition o_Compare :: "'a Ord \<Rightarrow> 'a \<Rightarrow> 'a \<Rightarrow> Ordering" where
  "o_Compare R a b = (if o_Lt R a b then LT else if o_Eq R a b then EQ else GT)"

definition o_Min :: "'a Ord \<Rightarrow> 'a \<Rightarrow> 'a \<Rightarrow> 'a" where
  "o_Min R a b = (if o_Lt R a b then a else b)"

definition o_Max :: "'a Ord \<Rightarrow> 'a \<Rightarrow> 'a \<Rightarrow> 'a" where
  "o_Max R a b = (if o_Lt R a b then b else a)"

definition ordInt :: "i64 Ord" where
  "ordInt = \<lparr> o_Eq = (=), o_Lt = word_sless, o_Le = word_sle, o_Gt = (\<lambda>a b. b <s a), o_Ge = (\<lambda>a b. b \<le>s a) \<rparr>"

definition ordUint64 :: "u64 Ord" where
  "ordUint64 = \<lparr> o_Eq = (=), o_Lt = (<), o_Le = (\<le>), o_Gt = (>), o_Ge = (\<ge>) \<rparr>"

text \<open>\<open>bytes.Compare\<close> and \<open>strings.Compare\<close> are lexicographic.\<close>

definition ordBytes :: "bytes Ord" where
  "ordBytes = \<lparr> o_Eq = (=), o_Lt = (<), o_Le = (\<le>), o_Gt = (>), o_Ge = (\<ge>) \<rparr>"

definition ordString :: "gostring Ord" where
  "ordString = \<lparr> o_Eq = (=), o_Lt = (<), o_Le = (\<le>), o_Gt = (>), o_Ge = (\<ge>) \<rparr>"

definition MaxBytes :: "bytes \<Rightarrow> bytes \<Rightarrow> bytes" where
  "MaxBytes a b = (if o_Lt ordBytes a b then b else a)"

definition MinBytes :: "bytes \<Rightarrow> bytes \<Rightarrow> bytes" where
  "MinBytes a b = (if o_Lt ordBytes a b then b else a)"

definition MaxString :: "gostring \<Rightarrow> gostring \<Rightarrow> gostring" where
  "MaxString a b = (if o_Lt ordString a b then b else a)"

definition MinString :: "gostring \<Rightarrow> gostring \<Rightarrow> gostring" where
  "MinString a b = (if o_Lt ordString a b then b else a)"

section \<open>Partially applied comparisons\<close>

definition curry_Eq :: "'a Ord \<Rightarrow> 'a \<Rightarrow> 'a \<Rightarrow> bool" where
  "curry_Eq R x = (\<lambda>y. o_Eq R y x)"

definition curry_NotEq :: "'a Ord \<Rightarrow> 'a \<Rightarrow> 'a \<Rightarrow> bool" where
  "curry_NotEq R x = (\<lambda>y. \<not> o_Eq R y x)"

definition curry_Lt :: "'a Ord \<Rightarrow> 'a \<Rightarrow> 'a \<Rightarrow> bool" where
  "curry_Lt R x = (\<lambda>y. o_Lt R y x)"

definition curry_Le :: "'a Ord \<Rightarrow> 'a \<Rightarrow> 'a \<Rightarrow> bool" where
  "curry_Le R x = (\<lambda>y. o_Le R y x)"

definition curry_Gt :: "'a Ord \<Rightarrow> 'a \<Rightarrow> 'a \<Rightarrow> bool" where
  "curry_Gt R x = (\<lambda>y. o_Gt R y x)"

definition curry_Ge :: "'a Ord \<Rightarrow> 'a \<Rightarrow> 'a \<Rightarrow> bool" where
  "curry_Ge R x = (\<lambda>y. o_Ge R y x)"

section \<open>Lists\<close>

fun Filter_loop :: "('a \<Rightarrow> bool) \<Rightarrow> 'a list \<Rightarrow> 'a list \<Rightarrow> 'a list" where
  "Filter_loop f [] rs = rs"
| "Filter_loop f (x # xs) rs = Filter_loop f xs (if f x then rs @ [x] else rs)"

definition Filter :: "('a \<Rightarrow> bool) \<Rightarrow> 'a list \<Rightarrow> 'a list" where
  "Filter f xs = Filter_loop f xs []"

lemma Filter_loop_filter: "Filter_loop f xs rs = rs @ filter f xs"
  by (induction f xs rs rule: Filter_loop.induct) auto

lemma Filter_filter: "Filter f xs = filter f xs"
  by (simp add: Filter_def Filter_loop_filter)

function Nub_loop :: "'a Ord \<Rightarrow> 'a list \<Rightarrow> 'a list \<Rightarrow> 'a list" where
  "Nub_loop R [] rs = rs"
| "Nub_loop R (x # xs) rs = Nub_loop R (Filter (curry_NotEq R x) xs) (rs @ [x])"
  by pat_completeness auto
termination
  by (relation "measure (\<lambda>(R, xs, rs). length xs)") (auto simp: Filter_filter le_imp_less_Suc)

definition Nub :: "'a Ord \<Rightarrow> 'a list \<Rightarrow> 'a list" where
  "Nub R xs = Nub_loop R xs []"

fun Elem :: "'a Ord \<Rightarrow> 'a \<Rightarrow> 'a list \<Rightarrow> 'a option" where
  "Elem R x [] = None"
| "Elem R x (y # xs) = (if o_Eq R y x then Some y else Elem R x xs)"

fun ElemIndex_loop :: "'a Ord \<Rightarrow> 'a \<Rightarrow> 'a list \<Rightarrow> int \<Rightarrow> int" where
  "ElemIndex_loop R x [] i = -1"
| "ElemIndex_loop R x (y # xs) i = (if o_Eq R y x then i else ElemIndex_loop R x xs (i + 1))"

definition ElemIndex :: "'a Ord \<Rightarrow> 'a \<Rightarrow> 'a list \<Rightarrow> int" where
  "ElemIndex R x xs = ElemIndex_loop R x xs 0"

fun DeleteBy_loop :: "('a \<Rightarrow> bool) \<Rightarrow> 'a list \<Rightarrow> 'a list \<Rightarrow> 'a list" where
  "DeleteBy_loop f [] rs = rs"
| "DeleteBy_loop f (y # xs) rs = (if f y then rs @ xs else DeleteBy_loop f xs (rs @ [y]))"

definition DeleteBy :: "('a \<Rightarrow> bool) \<Rightarrow> 'a list \<Rightarrow> 'a list" where
  "DeleteBy f xs = DeleteBy_loop f xs []"

definition Delete :: "'a Ord \<Rightarrow> 'a \<Rightarrow> 'a list \<Rightarrow> 'a list" where
  "Delete R x xs = DeleteBy_loop (\<lambda>y. o_Eq R y x) xs []"

fun Push_loop :: "'a Ord \<Rightarrow> 'a \<Rightarrow> 'a list \<Rightarrow> 'a list \<Rightarrow> 'a list" where
  "Push_loop R x [] rs = rs @ [x]"
| "Push_loop R x (y # xs) rs =
     (if o_Ge R y x then (rs @ [x]) @ (y # xs) else Push_loop R x xs (rs @ [y]))"

definition Push :: "'a Ord \<Rightarrow> 'a \<Rightarrow> 'a list \<Rightarrow> 'a list" where
  "Push R x xs = Push_loop R x xs []"

fun slice_Map :: "('a \<Rightarrow> 'a) \<Rightarrow> 'a list \<Rightarrow> 'a list" where
  "slice_Map f [] = []"
| "slice_Map f (x # xs) = [f x] @ slice_Map f xs"

fun Foldl :: "('a \<Rightarrow> 'b \<Rightarrow> 'b) \<Rightarrow> 'b \<Rightarrow> 'a list \<Rightarrow> 'b" where
  "Foldl f x [] = x"
| "Foldl f x (y # xs) = Foldl f (f y x) xs"

fun Foldr :: "('a \<Rightarrow> 'b \<Rightarrow> 'b) \<Rightarrow> 'b \<Rightarrow> 'a list \<Rightarrow> 'b" where
  "Foldr f x [] = x"
| "Foldr f x (y # xs) = f y (Foldr f x xs)"

text \<open>What \<open>FoldWhile\<close> folds is the test's own answer: a value, or a boolean.\<close>

datatype 'b iface = Value 'b | Boolean bool

fun FoldWhile :: "('a \<Rightarrow> 'b iface \<Rightarrow> bool) \<Rightarrow> 'b iface \<Rightarrow> 'a list \<Rightarrow> 'b iface" where
  "FoldWhile f x [] = x"
| "FoldWhile f x (y # xs) = (if \<not> f y x then x else FoldWhile f (Boolean (f y x)) xs)"

section \<open>Searching and sorting\<close>

definition index :: "'a list \<Rightarrow> int \<Rightarrow> 'a outcome" where
  "index xs i = (if 0 \<le> i \<and> i < int (length xs) then Ok (xs ! nat i) else Panic)"

function Bsearch_loop :: "'a Ord \<Rightarrow> 'a \<Rightarrow> 'a list \<Rightarrow> int \<Rightarrow> int \<Rightarrow> int outcome" where
  "Bsearch_loop R x xs start stop =
     (if start \<le> stop
      then let mid = start + (stop - start) div 2 in
        (case index xs mid of
           Panic \<Rightarrow> Panic
         | Err e \<Rightarrow> Err e
         | Ok y \<Rightarrow>
             if o_Eq R y x then Ok mid
             else if o_Lt R y x then Bsearch_loop R x xs (mid + 1) stop
             else Bsearch_loop R x xs start (mid - 1))
      else Ok (-1))"
  by pat_completeness auto
termination
  by (relation "measure (\<lambda>(R, x, xs, start, stop). nat (stop + 1 - start))") auto

declare Bsearch_loop.simps [simp del]

definition Bsearch :: "'a Ord \<Rightarrow> 'a \<Rightarrow> 'a list \<Rightarrow> int outcome" where
  "Bsearch R x xs = Bsearch_loop R x xs 0 (int (length xs) - 1)"

text \<open>\<open>copy(ys[a:b], src)\<close>, and an assignment to an index.\<close>

definition copy_slice :: "'a list \<Rightarrow> nat \<Rightarrow> nat \<Rightarrow> 'a list \<Rightarrow> 'a list outcome" where
  "copy_slice ys a b src =
     (if a \<le> b \<and> b \<le> length ys
      then let n = min (b - a) (length src) in Ok (take a ys @ take n src @ drop (a + n) ys)
      else Panic)"

definition set_index :: "'a list \<Rightarrow> nat \<Rightarrow> 'a \<Rightarrow> 'a list outcome" where
  "set_index ys k z = (if k < length ys then Ok (ys[k := z]) else Panic)"

text \<open>
  One range of \<open>Qsort\<close>: the first element is the pivot, the smaller ones are moved before it and the
  others after it. The result is the list and the ranges that are appended to the queue.
\<close>

definition Qsort_step :: "'a Ord \<Rightarrow> 'a list \<Rightarrow> int \<Rightarrow> int \<Rightarrow> ('a list \<times> (int \<times> int) list) outcome" where
  "Qsort_step R ys x y =
     (if x < y
      then obind (index ys x) (\<lambda>z.
        obind (slice_range ys (nat (x + 1)) (nat (y + 1))) (\<lambda>s.
        let ls = Filter (curry_Lt R z) s; rs = Filter (curry_Ge R z) s; k = nat x + length ls in
        obind (if ls \<noteq> [] then copy_slice ys (nat x) k ls else Ok ys) (\<lambda>ys.
        obind (if rs \<noteq> [] then copy_slice ys (k + 1) (nat (y + 1)) rs else Ok ys) (\<lambda>ys.
        obind (set_index ys k z) (\<lambda>ys.
        Ok (ys, (if ls \<noteq> [] then [(x, x + int (length ls) - 1)] else []) @
                (if rs \<noteq> [] then [(x + int (length ls) + 1, y)] else [])))))))
      else Ok (ys, []))"

text \<open>A type whose comparisons contradict each other may keep the queue from getting empty.\<close>

partial_function (option) Qsort_loop :: "'a Ord \<Rightarrow> 'a list \<Rightarrow> (int \<times> int) list \<Rightarrow> 'a list outcome option" where
  "Qsort_loop R ys qs =
     (if qs = [] then Some (Ok ys)
      else (case Qsort_step R ys (fst (hd qs)) (snd (hd qs)) of
          Ok (ys, new) \<Rightarrow> Qsort_loop R ys (tl qs @ new)
        | Err e \<Rightarrow> Some (Err e)
        | Panic \<Rightarrow> Some Panic))"

definition Qsort :: "'a Ord \<Rightarrow> 'a list \<Rightarrow> 'a list outcome option" where
  "Qsort R xs = Qsort_loop R xs [(0, int (length xs) - 1)]"

section \<open>Sorted lists in \<open>miscellaneous\<close>\<close>

text \<open>\<open>xs[lo:hi]\<close> and \<open>xs[lo:]\<close> of an index that was found.\<close>

fun Contain_loop :: "'a Ord \<Rightarrow> 'a list \<Rightarrow> 'a list \<Rightarrow> bool outcome" where
  "Contain_loop R xs [] = Ok True"
| "Contain_loop R xs (y # ys) =
     obind (Bsearch R y xs) (\<lambda>start.
       if start = -1 then Ok False
       else obind (slice_from xs (nat start)) (\<lambda>xs. Contain_loop R xs ys))"

definition Contain :: "'a Ord \<Rightarrow> 'a list \<Rightarrow> 'a list \<Rightarrow> bool outcome" where
  "Contain R xs ys =
     (let n = length ys in
      if n = 0 then Ok True
      else if length xs < n then Ok False
      else if o_Gt R (xs ! (n - 1)) (ys ! (n - 1)) then Ok False
      else if n = 1 then obind (Bsearch R (ys ! 0) xs) (\<lambda>i. Ok (i \<noteq> -1))
      else if n = 2
      then obind (Bsearch R (ys ! 0) xs) (\<lambda>i.
        if i = -1 then Ok False else obind (Bsearch R (ys ! 1) xs) (\<lambda>j. Ok (j \<noteq> -1)))
      else obind (Bsearch R (ys ! 0) xs) (\<lambda>start.
        if start = -1 then Ok False
        else obind (Bsearch R (ys ! (n - 1)) xs) (\<lambda>stop.
          if stop = -1 then Ok False
          else obind (slice_range xs (nat start) (nat stop)) (\<lambda>xs.
            Contain_loop R xs (butlast (tl ys))))))"

text \<open>The loop of \<open>MostFrequent\<close> over what is left of the list: \<open>n\<close> the length of the current run, \<open>m\<close> the
  longest so far, \<open>rs\<close> the elements with runs of that length.\<close>

fun MostFrequent_loop :: "'a Ord \<Rightarrow> 'a list \<Rightarrow> nat \<Rightarrow> nat \<Rightarrow> 'a list \<Rightarrow> nat \<times> 'a list" where
  "MostFrequent_loop R [] n m rs = (m, rs)"
| "MostFrequent_loop R (x # xs) n m rs =
     (if xs = [] \<or> o_NotEq R x (hd xs)
      then MostFrequent_loop R xs 1 (if m < n then n else m)
        (if n = m then rs @ [x] else if m < n then [x] else rs)
      else MostFrequent_loop R xs (n + 1) m rs)"

definition MostFrequent :: "'a Ord \<Rightarrow> 'a list \<Rightarrow> nat \<times> 'a list" where
  "MostFrequent R xs =
     (if length xs = 0 then (0, [])
      else if length xs = 1 then (1, [xs ! 0])
      else MostFrequent_loop R xs 1 0 [])"

end
