(* ===== verification/SlicesSpec.thy ===== *)
theory SlicesSpec
  imports Slices "HOL-Library.Multiset"
begin

text \<open>
  Correctness of the list library over any type whose comparisons form a linear order, and that the
  integers, byte strings and texts of the program are such types: sorting, searching, inclusion of sorted
  lists, the most frequent elements, insertion, and duplicates.
\<close>

section \<open>Lawful comparisons\<close>

locale linear_ord =
  fixes R :: "'a Ord"
  assumes Eq_iff [simp]: "o_Eq R a b \<longleftrightarrow> a = b"
    and Lt_iff [simp]: "o_Lt R a b \<longleftrightarrow> \<not> o_Le R b a"
    and Gt_iff [simp]: "o_Gt R a b \<longleftrightarrow> \<not> o_Le R a b"
    and Ge_iff [simp]: "o_Ge R a b \<longleftrightarrow> o_Le R b a"
    and Le_total: "o_Le R a b \<or> o_Le R b a"
    and Le_antisym: "o_Le R a b \<Longrightarrow> o_Le R b a \<Longrightarrow> a = b"
    and Le_trans: "o_Le R a b \<Longrightarrow> o_Le R b c \<Longrightarrow> o_Le R a c"

interpretation ints: linear_ord ordInt
  by unfold_locales (auto simp: ordInt_def word_sle_eq word_sless_alt dest: signed_word_eqI)

interpretation uints: linear_ord ordUint64
  by unfold_locales (auto simp: ordUint64_def)

interpretation byteses: linear_ord ordBytes
  by unfold_locales (auto simp: ordBytes_def)

interpretation strings: linear_ord ordString
  by unfold_locales (auto simp: ordString_def)

lemmas linear_ords = ints.linear_ord_axioms uints.linear_ord_axioms byteses.linear_ord_axioms strings.linear_ord_axioms

section \<open>Sorting\<close>

definition apart :: "int \<times> int \<Rightarrow> int \<times> int \<Rightarrow> bool" where
  "apart p q \<longleftrightarrow> snd p < fst q \<or> snd q < fst p"

fun all_apart :: "(int \<times> int) list \<Rightarrow> bool" where
  "all_apart [] \<longleftrightarrow> True"
| "all_apart (q # qs) \<longleftrightarrow> (\<forall>r \<in> set qs. apart q r) \<and> all_apart qs"

lemma all_apart_append:
  "all_apart (ps @ qs) \<longleftrightarrow> all_apart ps \<and> all_apart qs \<and> (\<forall>p \<in> set ps. \<forall>q \<in> set qs. apart p q)"
  by (induction ps) auto

definition within :: "int \<times> int \<Rightarrow> nat \<Rightarrow> nat \<Rightarrow> bool" where
  "within q i j \<longleftrightarrow> fst q \<le> int i \<and> int j \<le> snd q"

definition in_bounds :: "nat \<Rightarrow> int \<times> int \<Rightarrow> bool" where
  "in_bounds n q \<longleftrightarrow> 0 \<le> fst q \<and> snd q < int n"

text \<open>What is left to sort: two positions are in order unless one range of the queue holds both.\<close>

definition Qsort_inv :: "('a \<Rightarrow> 'a \<Rightarrow> bool) \<Rightarrow> 'a list \<Rightarrow> (int \<times> int) list \<Rightarrow> bool" where
  "Qsort_inv le ys qs \<longleftrightarrow> all_apart qs \<and> (\<forall>q \<in> set qs. in_bounds (length ys) q) \<and>
     (\<forall>i j. i < j \<longrightarrow> j < length ys \<longrightarrow> le (ys ! i) (ys ! j) \<or> (\<exists>q \<in> set qs. within q i j))"

definition queue_size :: "(int \<times> int) list \<Rightarrow> nat" where
  "queue_size qs = sum_list (map (\<lambda>q. 2 * nat (snd q + 1 - fst q) + 1) qs)"

text \<open>Replacing a stretch of a list by a permutation of it.\<close>

lemma nth_outside:
  "length L' = length L \<Longrightarrow> p < length A \<or> length A + length L \<le> p \<Longrightarrow> (A @ L' @ B) ! p = (A @ L @ B) ! p"
  by (auto simp: nth_append)

lemma nth_inside:
  assumes "mset L' = mset L" "length A \<le> p" "p < length A + length L"
  shows "\<exists>q. length A \<le> q \<and> q < length A + length L \<and> (A @ L @ B) ! q = (A @ L' @ B) ! p"
proof -
  have len: "length L' = length L" by (rule mset_eq_length [OF assms(1)])
  have less: "p - length A < length L" using assms(2,3) by arith
  have "L' ! (p - length A) \<in> set L"
    using assms len mset_eq_setD [OF assms(1)] by (metis add.commute less_diff_conv2 nth_mem)
  then obtain r where "r < length L" "L ! r = L' ! (p - length A)" by (auto simp: in_set_conv_nth)
  moreover have "(A @ L' @ B) ! p = L' ! (p - length A)"
    using assms(2) len less by (simp add: nth_append)
  ultimately show ?thesis by (intro exI [of _ "length A + r"]) (simp add: nth_append)
qed

context linear_ord begin

abbreviation below :: "'a \<Rightarrow> 'a list \<Rightarrow> 'a list" where
  "below z M \<equiv> filter (\<lambda>v. \<not> o_Le R z v) M"

abbreviation not_below :: "'a \<Rightarrow> 'a list \<Rightarrow> 'a list" where
  "not_below z M \<equiv> filter (\<lambda>v. o_Le R z v) M"

lemma below_length: "length (below z M) + length (not_below z M) = length M"
  by (induction M) auto

lemma below_mset: "mset (below z M @ z # not_below z M) = mset (z # M)"
  by (induction M) auto

text \<open>One range: the pivot ends up between the smaller and the other elements.\<close>

lemma Qsort_step_split:
  assumes "M \<noteq> []"
  shows "Qsort_step R (A @ (z # M) @ B) (int (length A)) (int (length A + length M)) =
    Ok (A @ (below z M @ z # not_below z M) @ B,
      (if below z M \<noteq> [] then [(int (length A), int (length A + length (below z M)) - 1)] else []) @
      (if not_below z M \<noteq> [] then [(int (length A + length (below z M)) + 1, int (length A + length M))] else []))"
proof -
  let ?ys = "A @ (z # M) @ B" and ?l = "below z M" and ?r = "not_below z M"
  let ?k = "length A + length ?l"
  have len: "length ?l + length ?r = length M" by (rule below_length)
  have x: "index ?ys (int (length A)) = Ok z" by (simp add: index_def nth_append)
  have s: "slice_range ?ys (nat (int (length A) + 1)) (nat (int (length A + length M) + 1)) = Ok M"
    using slice_appends(3) [of "A @ [z]" "nat (int (length A) + 1)" M "nat (int (length A + length M) + 1)" B] by simp
  have f: "Filter (curry_Lt R z) M = ?l" "Filter (curry_Ge R z) M = ?r"
    by (simp_all add: Filter_filter curry_Lt_def curry_Ge_def)
  obtain w where w: "drop (length ?l) (z # M) = w # drop (length ?l) M"
    using len by (metis Cons_nth_drop_Suc drop_Suc_Cons le_imp_less_Suc length_Cons le_add1)
  have first: "(if ?l \<noteq> [] then copy_slice ?ys (length A) ?k ?l else Ok ?ys) =
      Ok (A @ ?l @ w # drop (length ?l) M @ B)"
  proof (cases "?l = []")
    case True
    then show ?thesis using w by auto
  next
    case False
    have "copy_slice ?ys (length A) ?k ?l = Ok (A @ ?l @ drop (length ?l) (z # M) @ B)"
      using len drop_append [of "length ?l" "z # M" B] by (simp add: copy_slice_def Let_def)
    with False show ?thesis by (simp only: w if_True append_Cons simp_thms)
  qed
  have second: "(if ?r \<noteq> [] then copy_slice (A @ ?l @ w # drop (length ?l) M @ B) (?k + 1) (nat (int (length A + length M) + 1)) ?r
      else Ok (A @ ?l @ w # drop (length ?l) M @ B)) = Ok (A @ ?l @ w # ?r @ B)"
  proof (cases "?r = []")
    case True
    with len have "length ?l = length M" by simp
    with True show ?thesis by simp
  next
    case False
    have e: "nat (int (length A + length M) + 1) = ?k + 1 + length ?r" using len by simp
    have "copy_slice (A @ ?l @ w # drop (length ?l) M @ B) (?k + 1) (?k + 1 + length ?r) ?r =
        Ok (A @ ?l @ w # ?r @ B)"
    proof -
      have "length (drop (length ?l) M) = length ?r" using len by simp
      then show ?thesis by (simp add: copy_slice_def Let_def)
    qed
    with False show ?thesis by (simp only: e if_True simp_thms)
  qed
  have third: "set_index (A @ ?l @ w # ?r @ B) ?k z = Ok (A @ (?l @ z # ?r) @ B)"
    by (simp add: set_index_def list_update_append)
  have "int (length A) < int (length A + length M)" using assms by (cases M) simp_all
  then show ?thesis
    by (simp only: Qsort_step_def x s obind_simps f Let_def nat_int first second third if_True)
      (simp add: of_nat_diff)
qed

text \<open>A step keeps the invariant, and makes the queue smaller.\<close>

lemma split_inv:
  assumes inv: "Qsort_inv (o_Le R) (A @ (z # M) @ B) ((int (length A), int (length A + length M)) # qs)"
    and M: "M \<noteq> []"
  shows "Qsort_inv (o_Le R) (A @ (below z M @ z # not_below z M) @ B)
    (qs @ (if below z M \<noteq> [] then [(int (length A), int (length A + length (below z M)) - 1)] else []) @
      (if not_below z M \<noteq> [] then [(int (length A + length (below z M)) + 1, int (length A + length M))] else []))"
    (is "Qsort_inv _ ?ys' (qs @ ?new)")
proof -
  let ?L = "z # M" and ?L' = "below z M @ z # not_below z M" and ?x = "length A" and ?k = "length A + length (below z M)"
  let ?ys = "A @ ?L @ B" and ?old = "(int (length A), int (length A + length M))"
  have perm: "mset ?L' = mset ?L" by (rule below_mset)
  have len: "length ?L' = length ?L" by (rule mset_eq_length [OF perm])
  have lens: "length (below z M) + length (not_below z M) = length M" by (rule below_length)
  have new: "fst ?old \<le> fst q \<and> snd q \<le> snd ?old" if "q \<in> set ?new" for q
    using that lens by (auto split: if_splits)
  have qs: "all_apart qs" "\<forall>q \<in> set qs. apart ?old q" "\<forall>q \<in> set qs. in_bounds (length ?ys) q"
    using inv by (auto simp: Qsort_inv_def)
  have old: "o_Le R (?ys ! i) (?ys ! j) \<or> (\<exists>q \<in> set (?old # qs). within q i j)" if "i < j" "j < length ?ys" for i j
    using inv that unfolding Qsort_inv_def by blast
  have "all_apart ?new" using lens by (auto simp: apart_def)
  moreover have "apart q r" if "q \<in> set qs" "r \<in> set ?new" for q r
    using qs(2) that(1) new [OF that(2)] by (force simp: apart_def)
  ultimately have 1: "all_apart (qs @ ?new)" using qs(1) by (simp only: all_apart_append) blast
  have "in_bounds (length ?ys') q" if "q \<in> set ?new" for q
    using new [OF that] len that by (auto simp: in_bounds_def split: if_splits)
  moreover have same: "length ?ys' = length ?ys" using len by (simp only: length_append)
  ultimately have 2: "\<forall>q \<in> set (qs @ ?new). in_bounds (length ?ys') q"
    using qs(3) unfolding set_append by (metis Un_iff)
  have 3: "o_Le R (?ys' ! i) (?ys' ! j) \<or> (\<exists>q \<in> set (qs @ ?new). within q i j)"
    if ij: "i < j" "j < length ?ys'" for i j
  proof -
    have j: "j < length ?ys" using ij len by simp
    consider (both) "?x \<le> i" "j < ?x + length ?L" | (left) "?x \<le> i" "i < ?x + length ?L" "?x + length ?L \<le> j"
      | (right) "i < ?x" "?x \<le> j" "j < ?x + length ?L"
      | (out) "i < ?x \<or> ?x + length ?L \<le> i" "j < ?x \<or> ?x + length ?L \<le> j"
      using ij(1) by linarith
    then show ?thesis
    proof cases
      case both
      then consider (l) "j < ?k" | (m) "i < ?k" "?k \<le> j" | (p) "i = ?k" | (r) "?k < i" by linarith
      then show ?thesis
      proof cases
        case l
        then have "below z M \<noteq> []" using both ij by auto
        then show ?thesis using l both by (auto simp: within_def)
      next
        case m
        have less: "i - ?x < length (below z M)" using m both by arith
        then have "?ys' ! i = below z M ! (i - ?x)" using both by (simp add: nth_append)
        with nth_mem [OF less] have i: "?ys' ! i \<in> set (below z M)" by simp
        have less: "j - ?k < length (z # not_below z M)" using m(2) both(2) lens by simp
        have "?ys' ! j = ((z # not_below z M) @ B) ! (j - ?k)"
          using m(2) nth_append [of "A @ below z M" "(z # not_below z M) @ B" j] by simp
        then have "?ys' ! j = (z # not_below z M) ! (j - ?k)" using less by (simp only: nth_append if_True)
        moreover note less
        ultimately have "?ys' ! j \<in> set (z # not_below z M)" by (metis nth_mem)
        then have "o_Le R z (?ys' ! j)" using Le_total [of z z] by auto
        moreover have "o_Le R (?ys' ! i) z" using i Le_total [of z "?ys' ! i"] by simp
        ultimately show ?thesis using Le_trans by blast
      next
        case p
        have "?ys' ! i = z" using p by (simp add: nth_append)
        moreover have less: "j - Suc ?k < length (not_below z M)" using p ij both(2) lens by simp
        moreover have "?ys' ! j = not_below z M ! (j - Suc ?k)"
          using p ij(1) less nth_append [of "A @ below z M @ [z]" "not_below z M @ B" j] by (simp add: nth_append)
        ultimately show ?thesis by (metis (no_types, lifting) mem_Collect_eq nth_mem set_filter)
      next
        case r
        then have "length (not_below z M) > 0" using both ij lens by auto
        then show ?thesis using r both by (auto simp: within_def)
      qed
    next
      case left
      obtain q where q: "?x \<le> q" "q < ?x + length ?L" "?ys ! q = ?ys' ! i"
        using nth_inside [OF perm left(1,2)] by blast
      have "?ys' ! j = ?ys ! j" using nth_outside [OF len, of j] left(3) by blast
      moreover have "\<not> within r q j" if "r \<in> set (?old # qs)" for r
        using that qs(2) q left(3) by (auto simp: within_def apart_def)
      ultimately show ?thesis using old [of q j] q left(3) j by force
    next
      case right
      obtain q where q: "?x \<le> q" "q < ?x + length ?L" "?ys ! q = ?ys' ! j"
        using nth_inside [OF perm right(2,3)] by blast
      have "?ys' ! i = ?ys ! i" using nth_outside [OF len, of i] right(1) by blast
      moreover have "\<not> within r i q" if "r \<in> set (?old # qs)" for r
        using that qs(2) q right(1) by (auto simp: within_def apart_def)
      moreover have "q < length ?ys" using q by simp
      ultimately show ?thesis using old [of i q] q right(1) by force
    next
      case out
      have "?ys' ! i = ?ys ! i" "?ys' ! j = ?ys ! j"
        using nth_outside [OF len, of i] nth_outside [OF len, of j] out by blast+
      moreover have "\<not> within ?old i j" using out ij(1) by (auto simp: within_def)
      ultimately show ?thesis using old [OF ij(1) j] by auto
    qed
  qed
  show ?thesis unfolding Qsort_inv_def using 1 2 3 by blast
qed

lemma Qsort_step_inv:
  assumes "Qsort_inv (o_Le R) ys ((x, y) # qs)"
  shows "\<exists>ys' new. Qsort_step R ys x y = Ok (ys', new) \<and> mset ys' = mset ys \<and> Qsort_inv (o_Le R) ys' (qs @ new) \<and>
    queue_size (qs @ new) < queue_size ((x, y) # qs)"
proof (cases "x < y")
  case False
  then have "Qsort_inv (o_Le R) ys qs"
    using assms by (fastforce simp: Qsort_inv_def within_def)
  with False show ?thesis by (simp add: Qsort_step_def queue_size_def)
next
  case True
  have b: "0 \<le> x" "y < int (length ys)" using assms by (auto simp: Qsort_inv_def in_bounds_def)
  define A z M B where "A = take (nat x) ys" and "z = ys ! nat x" and "M = take (nat y - nat x) (drop (Suc (nat x)) ys)"
    and "B = drop (Suc (nat y)) ys"
  have lens: "length A = nat x" "length M = nat y - nat x" "M \<noteq> []"
    using b True by (auto simp: A_def M_def)
  have "drop (nat x) ys = z # drop (Suc (nat x)) ys" using b True by (simp add: z_def Cons_nth_drop_Suc)
  moreover have "drop (Suc (nat x)) ys = M @ B"
    using b True append_take_drop_id [of "nat y - nat x" "drop (Suc (nat x)) ys"] by (simp add: M_def B_def)
  ultimately have ys: "ys = A @ (z # M) @ B" using append_take_drop_id [of "nat x" ys] by (simp add: A_def)
  have xy: "x = int (length A)" "y = int (length A + length M)" using lens b True by simp_all
  have inv: "Qsort_inv (o_Le R) (A @ (z # M) @ B) ((int (length A), int (length A + length M)) # qs)"
    using assms ys xy by simp
  have m: "mset (A @ (below z M @ z # not_below z M) @ B) = mset (A @ (z # M) @ B)"
    using below_mset [of z M] by simp
  have q: "queue_size (qs @ (if below z M \<noteq> [] then [(int (length A), int (length A + length (below z M)) - 1)] else []) @
      (if not_below z M \<noteq> [] then [(int (length A + length (below z M)) + 1, int (length A + length M))] else []))
    < queue_size ((int (length A), int (length A + length M)) # qs)"
    using below_length [of z M] by (auto simp: queue_size_def; arith)
  show ?thesis
    using Qsort_step_split [OF lens(3), of A z B] split_inv [OF inv lens(3)] m q unfolding ys xy by blast
qed

lemma Qsort_loop_sorts:
  "Qsort_inv (o_Le R) ys qs \<Longrightarrow>
    \<exists>zs. Qsort_loop R ys qs = Some (Ok zs) \<and> mset zs = mset ys \<and> sorted_wrt (o_Le R) zs"
proof (induction "queue_size qs" arbitrary: ys qs rule: less_induct)
  case less
  show ?case
  proof (cases qs)
    case Nil
    have "sorted_wrt (o_Le R) ys"
      using less.prems by (auto simp: Qsort_inv_def Nil sorted_wrt_iff_nth_less)
    then show ?thesis by (subst Qsort_loop.simps) (simp add: Nil)
  next
    case (Cons q qs')
    obtain x y where q: "q = (x, y)" by (rule prod.exhaust)
    obtain ys' new where step: "Qsort_step R ys x y = Ok (ys', new)" "mset ys' = mset ys"
      "Qsort_inv (o_Le R) ys' (qs' @ new)" "queue_size (qs' @ new) < queue_size qs"
      using Qsort_step_inv [of ys x y qs'] less.prems Cons q by blast
    obtain zs where "Qsort_loop R ys' (qs' @ new) = Some (Ok zs)" "mset zs = mset ys'" "sorted_wrt (o_Le R) zs"
      using less.hyps [OF step(4,3)] by blast
    with step show ?thesis by (subst Qsort_loop.simps) (simp add: Cons q)
  qed
qed

lemma Qsort_sorted: "\<exists>zs. Qsort R xs = Some (Ok zs) \<and> mset zs = mset xs \<and> sorted_wrt (o_Le R) zs"
  unfolding Qsort_def
  by (rule Qsort_loop_sorts) (auto simp: Qsort_inv_def in_bounds_def within_def)

end

section \<open>Searching\<close>

context linear_ord begin

lemma Bsearch_loop_found:
  assumes "sorted_wrt (o_Le R) xs" "0 \<le> start" "stop < int (length xs)"
    "\<forall>p < length xs. int p < start \<or> stop < int p \<longrightarrow> xs ! p \<noteq> x"
  shows "\<exists>i. Bsearch_loop R x xs start stop = Ok i \<and>
    (if x \<in> set xs then 0 \<le> i \<and> i < int (length xs) \<and> xs ! nat i = x else i = -1)"
  using assms(2-4)
proof (induction "nat (stop + 1 - start)" arbitrary: start stop rule: less_induct)
  case less
  show ?case
  proof (cases "start \<le> stop")
    case False
    then have "x \<notin> set xs" using less.prems(3) by (force simp: in_set_conv_nth)
    then show ?thesis using False by (simp add: Bsearch_loop.simps)
  next
    case True
    let ?mid = "start + (stop - start) div 2"
    have mid: "start \<le> ?mid" "?mid \<le> stop" "nat ?mid < length xs" using True less.prems by auto
    have idx: "index xs ?mid = Ok (xs ! nat ?mid)" using mid less.prems by (simp add: index_def)
    have mono: "o_Le R (xs ! p) (xs ! q)" if "p \<le> q" "q < length xs" for p q
      using that assms(1) Le_total by (cases "p = q") (auto simp: sorted_wrt_iff_nth_less)
    consider (eq) "xs ! nat ?mid = x" | (lt) "xs ! nat ?mid \<noteq> x" "\<not> o_Le R x (xs ! nat ?mid)"
      | (gt) "xs ! nat ?mid \<noteq> x" "o_Le R x (xs ! nat ?mid)" by blast
    then show ?thesis
    proof cases
      case eq
      then have "x \<in> set xs" using mid less.prems by (auto simp: in_set_conv_nth intro!: exI [of _ "nat ?mid"])
      then show ?thesis using eq True idx mid less.prems by (subst Bsearch_loop.simps) (simp add: Let_def)
    next
      case lt
      have "xs ! p \<noteq> x" if "p < length xs" "int p < ?mid + 1 \<or> stop < int p" for p
      proof (cases "stop < int p")
        case False
        then have "p \<le> nat ?mid" using that by linarith
        then show ?thesis using mono [of p "nat ?mid"] lt mid less.prems by auto
      qed (use that less.prems in blast)
      then have "\<exists>i. Bsearch_loop R x xs (?mid + 1) stop = Ok i \<and>
          (if x \<in> set xs then 0 \<le> i \<and> i < int (length xs) \<and> xs ! nat i = x else i = -1)"
        by (intro less.hyps) (use mid less.prems True in auto)
      then show ?thesis using lt True idx by (subst Bsearch_loop.simps) (simp add: Let_def)
    next
      case gt
      have "xs ! p \<noteq> x" if "p < length xs" "int p < start \<or> ?mid - 1 < int p" for p
      proof (cases "int p < start")
        case False
        then have "nat ?mid \<le> p" using that by linarith
        then show ?thesis using mono [of "nat ?mid" p] gt that Le_antisym by auto
      qed (use that less.prems in blast)
      then have "\<exists>i. Bsearch_loop R x xs start (?mid - 1) = Ok i \<and>
          (if x \<in> set xs then 0 \<le> i \<and> i < int (length xs) \<and> xs ! nat i = x else i = -1)"
        by (intro less.hyps) (use mid less.prems True in auto)
      then show ?thesis using gt True idx by (subst Bsearch_loop.simps) (simp add: Let_def)
    qed
  qed
qed

lemma Bsearch_found:
  assumes "sorted_wrt (o_Le R) xs"
  shows "\<exists>i. Bsearch R x xs = Ok i \<and>
    (if x \<in> set xs then 0 \<le> i \<and> i < int (length xs) \<and> xs ! nat i = x else i = -1)"
  unfolding Bsearch_def by (rule Bsearch_loop_found [OF assms]) auto

text \<open>Inclusion: what is searched from the place of one element on contains every later one.\<close>

lemma sorted_later:
  assumes "sorted_wrt (o_Le R) xs" "i < length xs" "x \<in> set xs" "\<not> o_Le R x (xs ! i)"
  shows "x \<in> set (drop i xs)"
proof -
  obtain p where p: "p < length xs" "xs ! p = x" using assms(3) by (auto simp: in_set_conv_nth)
  have "\<not> p < i" using assms(1,2,4) p by (auto simp: sorted_wrt_iff_nth_less)
  with p show ?thesis by (auto simp: in_set_conv_nth intro!: exI [of _ "p - i"])
qed

lemma sorted_between:
  assumes "sorted_wrt (o_Le R) xs" "i < length xs" "j < length xs" "x \<in> set xs" "\<not> o_Le R x (xs ! i)" "\<not> o_Le R (xs ! j) x"
  shows "x \<in> set (take (j - i) (drop i xs))" "i \<le> j"
proof -
  obtain p where p: "p < length xs" "xs ! p = x" using assms(4) by (auto simp: in_set_conv_nth)
  have "\<not> p < i" "\<not> j < p"
    using assms p by (auto simp: sorted_wrt_iff_nth_less)
  moreover have "p \<noteq> j" using p assms(6) Le_total [of x x] by auto
  ultimately have "i \<le> p" "p < j" by linarith+
  with p assms(3) show "x \<in> set (take (j - i) (drop i xs))" "i \<le> j"
    by (auto simp: in_set_conv_nth intro!: exI [of _ "p - i"])
qed

text \<open>Strictly ascending.\<close>

abbreviation ascending :: "'a list \<Rightarrow> bool" where
  "ascending ys \<equiv> sorted_wrt (\<lambda>a b. \<not> o_Le R b a) ys"

lemma Contain_loop_subset:
  "sorted_wrt (o_Le R) xs \<Longrightarrow> ascending ys \<Longrightarrow> Contain_loop R xs ys = Ok (set ys \<subseteq> set xs)"
proof (induction ys arbitrary: xs)
  case (Cons y ys)
  obtain i where i: "Bsearch R y xs = Ok i"
    "if y \<in> set xs then 0 \<le> i \<and> i < int (length xs) \<and> xs ! nat i = y else i = -1"
    using Bsearch_found [OF Cons.prems(1)] by blast
  show ?case
  proof (cases "y \<in> set xs")
    case False
    with i show ?thesis by simp
  next
    case True
    with i have i': "0 \<le> i" "nat i < length xs" "xs ! nat i = y" by auto
    have "sorted_wrt (o_Le R) (drop (nat i) xs)" using Cons.prems(1) by (rule sorted_wrt_drop)
    then have "Contain_loop R (drop (nat i) xs) ys = Ok (set ys \<subseteq> set (drop (nat i) xs))"
      using Cons.IH Cons.prems(2) by simp
    moreover have "set ys \<subseteq> set (drop (nat i) xs) \<longleftrightarrow> set ys \<subseteq> set xs"
      using sorted_later [OF Cons.prems(1) i'(2)] Cons.prems(2) i'(3) set_drop_subset [of "nat i" xs] by fastforce
    ultimately show ?thesis using i(1) i' True by (simp add: slice_from_def)
  qed
qed simp

lemma count_bound:
  assumes "sorted_wrt (o_Le R) xs" "ascending ys" "set ys \<subseteq> set xs" "n \<le> length ys" "0 < n"
  shows "n \<le> length xs" "o_Le R (xs ! (n - 1)) (ys ! (n - 1))"
proof -
  have dist: "distinct ys"
    using assms(2) Le_total by (auto simp: distinct_conv_nth sorted_wrt_iff_nth_less) (metis linorder_neqE_nat)
  have "length ys \<le> length xs"
    using card_mono [OF _ assms(3)] card_length [of xs] distinct_card [OF dist] by simp
  then show len: "n \<le> length xs" using assms(4) by simp
  show "o_Le R (xs ! (n - 1)) (ys ! (n - 1))"
  proof (rule ccontr)
    assume no: "\<not> o_Le R (xs ! (n - 1)) (ys ! (n - 1))"
    have "ys ! q \<in> set (take (n - 1) xs)" if "q < n" for q
    proof -
      have "ys ! q \<in> set xs" using assms(3,4) that by auto
      then obtain p where p: "p < length xs" "xs ! p = ys ! q" by (auto simp: in_set_conv_nth)
      have yq: "o_Le R (ys ! q) (ys ! (n - 1))"
      proof (cases "q = n - 1")
        case False
        then have "\<not> o_Le R (ys ! (n - 1)) (ys ! q)"
          using assms(2,4) that by (simp add: sorted_wrt_iff_nth_less)
        then show ?thesis using Le_total by blast
      qed (use Le_total in auto)
      have "p < n - 1"
      proof (rule ccontr)
        assume "\<not> p < n - 1"
        then have "o_Le R (xs ! (n - 1)) (xs ! p)"
          using assms(1) p(1) Le_total by (cases "p = n - 1") (auto simp: sorted_wrt_iff_nth_less)
        with yq p no Le_trans show False by metis
      qed
      with p show ?thesis using len by (auto simp: in_set_conv_nth intro!: exI [of _ p])
    qed
    then have "set (take n ys) \<subseteq> set (take (n - 1) xs)"
      using assms(4) by (auto simp: in_set_conv_nth)
    then have "card (set (take n ys)) \<le> n - 1"
      using card_mono [of "set (take (n - 1) xs)" "set (take n ys)"] card_length [of "take (n - 1) xs"] by simp
    moreover have "card (set (take n ys)) = n"
      using distinct_card [of "take n ys"] dist assms(4) by simp
    ultimately show False using assms(5) by simp
  qed
qed

lemma Bsearch_hit:
  assumes "sorted_wrt (o_Le R) xs"
  obtains (hit) i where "Bsearch R x xs = Ok i" "0 \<le> i" "nat i < length xs" "xs ! nat i = x" "x \<in> set xs" "i \<noteq> -1"
    | (miss) "Bsearch R x xs = Ok (-1)" "x \<notin> set xs"
  using Bsearch_found [OF assms, of x] by (auto split: if_splits)

lemma Contain_subset:
  assumes "sorted_wrt (o_Le R) xs" "ascending ys"
  shows "Contain R xs ys = Ok (set ys \<subseteq> set xs)"
proof -
  let ?n = "length ys"
  consider (empty) "ys = []" | (short) "ys \<noteq> []" "length xs < ?n"
    | (big) "ys \<noteq> []" "?n \<le> length xs" "\<not> o_Le R (xs ! (?n - 1)) (ys ! (?n - 1))"
    | (search) "ys \<noteq> []" "?n \<le> length xs" "o_Le R (xs ! (?n - 1)) (ys ! (?n - 1))" by linarith
  then show ?thesis
  proof cases
    case empty
    then show ?thesis by (simp add: Contain_def)
  next
    case short
    then show ?thesis using count_bound(1) [OF assms, of ?n] by (auto simp: Contain_def Let_def)
  next
    case big
    then show ?thesis using count_bound(2) [OF assms, of ?n] by (auto simp: Contain_def Let_def)
  next
    case search
    note go = search(1) search(2) [unfolded linorder_not_less [symmetric]] search(3)
    consider (one) y where "ys = [y]" | (two) y z where "ys = [y, z]" | (more) y zs w where "ys = y # zs @ [w]" "zs \<noteq> []"
      using search(1) by (metis append_butlast_last_id append_Nil list.exhaust)
    then show ?thesis
    proof cases
      case one
      show ?thesis
        by (cases rule: Bsearch_hit [OF assms(1), of y]) (use go one in \<open>auto simp: Contain_def Let_def\<close>)
    next
      case two
      show ?thesis
        by (cases rule: Bsearch_hit [OF assms(1), of y]; cases rule: Bsearch_hit [OF assms(1), of z])
          (use go two in \<open>auto simp: Contain_def Let_def\<close>)
    next
      case more
      then have n: "?n \<noteq> 0" "?n \<noteq> 1" "?n \<noteq> 2" and parts: "ys ! 0 = y" "ys ! (?n - 1) = w" "butlast (tl ys) = zs"
        by (cases zs; simp add: nth_append)+
      have asc: "ascending zs" "\<forall>x \<in> set zs. \<not> o_Le R x y \<and> \<not> o_Le R w x"
        using assms(2) more by (auto simp: sorted_wrt_append)
      consider (hit) i where "Bsearch R y xs = Ok i" "0 \<le> i" "nat i < length xs" "xs ! nat i = y" "y \<in> set xs" "i \<noteq> -1"
        | (miss) "Bsearch R y xs = Ok (-1)" "y \<notin> set xs" by (rule Bsearch_hit [OF assms(1)])
      then show ?thesis
      proof cases
        case (hit i)
        note y = hit
        consider (hit) j where "Bsearch R w xs = Ok j" "0 \<le> j" "nat j < length xs" "xs ! nat j = w" "w \<in> set xs" "j \<noteq> -1"
          | (miss) "Bsearch R w xs = Ok (-1)" "w \<notin> set xs" by (rule Bsearch_hit [OF assms(1)])
        then show ?thesis
        proof cases
          case (hit j)
          let ?m = "take (nat j - nat i) (drop (nat i) xs)"
          have between: "x \<in> set ?m \<and> nat i \<le> nat j" if "x \<in> set zs" "x \<in> set xs" for x
            using sorted_between [OF assms(1) y(3) hit(3) that(2)] asc(2) that(1) y(4) hit(4) by simp
          have le: "nat i \<le> nat j"
          proof (rule ccontr)
            assume "\<not> nat i \<le> nat j"
            then have "nat j < nat i" by (simp only: not_le)
            then have "o_Le R (xs ! nat j) (xs ! nat i)"
              using assms(1) y(3) unfolding sorted_wrt_iff_nth_less by blast
            then have "o_Le R w y" using y(4) hit(4) by simp
            with asc(2) more(2) Le_trans show False by (metis Le_total hd_in_set)
          qed
          have "sorted_wrt (o_Le R) ?m" using assms(1) by (simp add: sorted_wrt_take sorted_wrt_drop)
          then have "Contain_loop R ?m zs = Ok (set zs \<subseteq> set ?m)" using asc(1) by (rule Contain_loop_subset)
          moreover have "set zs \<subseteq> set ?m \<longleftrightarrow> set zs \<subseteq> set xs"
            using between by (auto dest!: in_set_takeD in_set_dropD)
          moreover have "slice_range xs (nat i) (nat j) = Ok ?m" using le hit(3) by (simp add: slice_range_def)
          moreover have "set ys \<subseteq> set xs \<longleftrightarrow> set zs \<subseteq> set xs" using y(5) hit(5) more by auto
          ultimately show ?thesis
            using go n y(1,6) hit(1,6) unfolding Contain_def Let_def parts by simp
        next
          case miss
          then have "\<not> set ys \<subseteq> set xs" using more by auto
          then show ?thesis using go n y(1,6) miss unfolding Contain_def Let_def parts by simp
        qed
      next
        case miss
        then have "\<not> set ys \<subseteq> set xs" using more by auto
        then show ?thesis using go n miss unfolding Contain_def Let_def parts by simp
      qed
    qed
  qed
qed

lemma Push_loop_mset: "mset (Push_loop R x xs rs) = add_mset x (mset xs + mset rs)"
  by (induction R x xs rs rule: Push_loop.induct) auto

lemma Push_loop_sorted:
  "sorted_wrt (o_Le R) (rs @ xs) \<Longrightarrow> \<forall>r \<in> set rs. o_Le R r x \<Longrightarrow> sorted_wrt (o_Le R) (Push_loop R x xs rs)"
proof (induction xs arbitrary: rs)
  case Nil
  then show ?case by (simp add: sorted_wrt_append)
next
  case (Cons y xs)
  show ?case
  proof (cases "o_Le R x y")
    case True
    then show ?thesis using Cons.prems Le_trans by (auto simp: sorted_wrt_append)
  next
    case False
    then have "o_Le R y x" using Le_total by blast
    then show ?thesis using Cons.IH [of "rs @ [y]"] Cons.prems False by simp
  qed
qed

text \<open>The loop of \<open>MostFrequent\<close>: how often an element occurs in the current run and after it.\<close>

abbreviation occurs :: "nat \<Rightarrow> 'a list \<Rightarrow> 'a \<Rightarrow> nat" where
  "occurs n xs v \<equiv> (if v = hd xs then n - 1 else 0) + count_list xs v"

lemma MostFrequent_loop_counts:
  assumes "sorted_wrt (o_Le R) xs" "xs \<noteq> []" "1 \<le> n" "MostFrequent_loop R xs n m rs = (m', rs')"
  shows "m \<le> m' \<and> (\<forall>v \<in> set xs. occurs n xs v \<le> m') \<and> (m' = m \<or> (\<exists>v \<in> set xs. occurs n xs v = m')) \<and>
    set rs' = (if m' = m then set rs else {}) \<union> {v \<in> set xs. occurs n xs v = m'}"
  using assms
proof (induction xs arbitrary: n m rs)
  case (Cons x xs)
  show ?case
  proof (cases "xs = []")
    case True
    then show ?thesis using Cons.prems by (auto split: if_splits)
  next
    case ne: False
    then have sorted: "sorted_wrt (o_Le R) xs" using Cons.prems(1) by simp
    show ?thesis
    proof (cases "x = hd xs")
      case True
      then have run: "MostFrequent_loop R xs (n + 1) m rs = (m', rs')"
        using Cons.prems(4) ne by (simp add: o_NotEq_def)
      have "occurs (n + 1) xs v = occurs n (x # xs) v" for v
        using True Cons.prems(3) by auto
      moreover have "set (x # xs) = set xs" using True ne by auto
      ultimately show ?thesis using Cons.IH [OF sorted ne _ run] by simp
    next
      case False
      let ?m = "if m < n then n else m" and ?rs = "if n = m then rs @ [x] else if m < n then [x] else rs"
      have run: "MostFrequent_loop R xs 1 ?m ?rs = (m', rs')"
        using Cons.prems(4) False ne by (simp add: o_NotEq_def)
      have "o_Le R (hd xs) v" if "v \<in> set xs" for v
        using sorted that ne Le_total by (cases xs) auto
      then have new: "x \<notin> set xs"
        using Cons.prems(1) ne False Le_antisym by (metis hd_in_set sorted_wrt.simps(2))
      have x: "occurs n (x # xs) x = n" using new Cons.prems(3) by (simp add: count_list_0_iff)
      have v: "occurs n (x # xs) v = occurs 1 xs v" if "v \<in> set xs" for v
        using new that by auto
      define f g where "f = occurs n (x # xs)" and "g = occurs 1 xs"
      have fg: "f x = n" "\<And>v. v \<in> set xs \<Longrightarrow> f v = g v" using x v by (simp_all add: f_def g_def)
      have ih: "?m \<le> m' \<and> (\<forall>v \<in> set xs. g v \<le> m') \<and> (m' = ?m \<or> (\<exists>v \<in> set xs. g v = m')) \<and>
          set rs' = (if m' = ?m then set ?rs else {}) \<union> {v \<in> set xs. g v = m'}"
        unfolding g_def by (rule Cons.IH [OF sorted ne _ run]) simp
      have "{v \<in> set (x # xs). f v = m'} = (if n = m' then {x} else {}) \<union> {v \<in> set xs. g v = m'}"
        using fg by auto
      moreover have b: "n \<le> m'" "m \<le> m'" using ih by (cases "m < n"; simp)+
      have "\<forall>v \<in> set (x # xs). f v \<le> m'" using fg ih b by auto
      moreover have "m' = m \<or> (\<exists>v \<in> set (x # xs). f v = m')"
        using fg ih by (cases "m < n") auto
      moreover have "set rs' = (if m' = m then set rs else {}) \<union> ((if n = m' then {x} else {}) \<union> {v \<in> set xs. g v = m'})"
        using ih by (cases n m rule: linorder_cases) auto
      ultimately have "m \<le> m' \<and> (\<forall>v \<in> set (x # xs). f v \<le> m') \<and> (m' = m \<or> (\<exists>v \<in> set (x # xs). f v = m')) \<and>
          set rs' = (if m' = m then set rs else {}) \<union> {v \<in> set (x # xs). f v = m'}"
        using b(2) by (simp only: simp_thms)
      then show ?thesis unfolding f_def .
    qed
  qed
qed simp

end

section \<open>Properties\<close>

text \<open>C32: \<open>Qsort\<close> returns, without a panic, a sorted permutation of its argument.\<close>

theorem Qsort_sorts:
  assumes "linear_ord R"
  shows "\<exists>zs. Qsort R xs = Some (Ok zs) \<and> mset zs = mset xs \<and> sorted_wrt (o_Le R) zs"
  by (rule linear_ord.Qsort_sorted [OF assms])

theorem Qsort_sorts_witness:
  "\<exists>zs. Qsort ordInt [3, -1, 2, 3] = Some (Ok zs) \<and> mset zs = {#-1, 2, 3, 3#} \<and> sorted_wrt word_sle zs"
  using Qsort_sorts [OF linear_ords(1), of "[3, -1, 2, 3]"] by (auto simp: ordInt_def add_mset_commute)

text \<open>In a sorted list \<open>Bsearch\<close> returns an index at which the element stands, or -1 when it does not
  occur; it never reads outside the list.\<close>

theorem Bsearch_correct:
  assumes "linear_ord R" "sorted_wrt (o_Le R) xs"
  shows "\<exists>i. Bsearch R x xs = Ok i \<and>
    (if x \<in> set xs then 0 \<le> i \<and> i < int (length xs) \<and> xs ! nat i = x else i = -1)"
  by (rule linear_ord.Bsearch_found [OF assms])

theorem Bsearch_correct_witness:
  "\<exists>i. Bsearch ordUint64 7 [2, 5, 7] = Ok i \<and> 0 \<le> i \<and> i < 3 \<and> [2, 5, 7 :: u64] ! nat i = 7"
  using Bsearch_correct [OF linear_ords(2), of "[2, 5, 7]" 7] by (simp add: ordUint64_def)

text \<open>For a sorted list and a strictly ascending one, \<open>Contain\<close> decides inclusion.\<close>

theorem Contain_decides_inclusion:
  assumes "linear_ord R" "sorted_wrt (o_Le R) xs" "sorted_wrt (\<lambda>a b. \<not> o_Le R b a) ys"
  shows "Contain R xs ys = Ok (set ys \<subseteq> set xs)"
  by (rule linear_ord.Contain_subset [OF assms])

theorem Contain_decides_inclusion_witness:
  "Contain ordUint64 [1, 2, 2, 4, 9] [1, 2, 4] = Ok True"
proof -
  have "\<not> (2 :: u64) \<le> 1" "\<not> (4 :: u64) \<le> 1" by (simp_all add: word_le_nat_alt)
  then show ?thesis
    using Contain_decides_inclusion [OF linear_ords(2), of "[1, 2, 2, 4, 9]" "[1, 2, 4]"] by (simp add: ordUint64_def)
qed

text \<open>With an element twice it does not: a list need not contain itself.\<close>

lemma Contain_misses_repeated: "Contain ordUint64 [3, 3, 3] [3, 3, 3] = Ok False"
  by (simp add: Contain_def Bsearch_def Bsearch_loop.simps index_def slice_range_def ordUint64_def)

text \<open>In a sorted list \<open>MostFrequent\<close> returns the largest number of occurrences of an element and
  exactly the elements that occur that often.\<close>

theorem MostFrequent_correct:
  assumes "linear_ord R" "sorted_wrt (o_Le R) xs" "xs \<noteq> []" "MostFrequent R xs = (m, rs)"
  shows "(\<forall>v \<in> set xs. count_list xs v \<le> m) \<and> set rs = {v \<in> set xs. count_list xs v = m} \<and> rs \<noteq> []"
proof (cases "length xs = 1")
  case True
  then show ?thesis using assms(4) by (cases xs) (auto simp: MostFrequent_def)
next
  case False
  then have "MostFrequent_loop R xs 1 0 [] = (m, rs)" using assms(3,4) by (simp add: MostFrequent_def)
  note c = linear_ord.MostFrequent_loop_counts [OF assms(1-3) le_refl this]
  have "hd xs \<in> set xs" using assms(3) by simp
  then have "count_list xs (hd xs) \<noteq> 0" by (simp add: count_list_0_iff)
  moreover have "count_list xs (hd xs) \<le> m" using c \<open>hd xs \<in> set xs\<close> by fastforce
  ultimately have "m \<noteq> 0" by simp
  with c show ?thesis by auto
qed

theorem MostFrequent_correct_witness:
  "MostFrequent ordUint64 [1, 4, 4, 7, 7] = (2, [4, 7]) \<and> set [4, 7] = {v \<in> set [1, 4, 4, 7, 7 :: u64]. count_list [1, 4, 4, 7, 7] v = 2}"
proof -
  have run: "MostFrequent ordUint64 [1, 4, 4, 7, 7] = (2, [4, 7])"
    by (simp add: MostFrequent_def o_NotEq_def ordUint64_def)
  from MostFrequent_correct [OF linear_ords(2) _ _ this] run show ?thesis by (simp add: ordUint64_def)
qed

text \<open>\<open>Push\<close> puts an element into a sorted list and keeps it sorted.\<close>

theorem Push_inserts:
  assumes "linear_ord R" "sorted_wrt (o_Le R) xs"
  shows "sorted_wrt (o_Le R) (Push R x xs) \<and> mset (Push R x xs) = add_mset x (mset xs)"
  using linear_ord.Push_loop_sorted [OF assms(1), of "[]" xs x] linear_ord.Push_loop_mset [OF assms(1), of x xs "[]"] assms(2)
  by (simp add: Push_def)

theorem Push_inserts_witness:
  "sorted_wrt (\<le>) (Push ordUint64 4 [2, 5]) \<and> mset (Push ordUint64 4 [2, 5]) = {#4, 2, 5#}"
  using Push_inserts [OF linear_ords(2), of "[2, 5]" 4] by (simp add: ordUint64_def)

text \<open>The smaller of two byte strings or texts is the larger one, and a fold that is to stop at an
  element keeps nothing but its test.\<close>

lemma MinBytes_is_MaxBytes: "MinBytes = MaxBytes" "MinString = MaxString"
  by (simp_all add: fun_eq_iff MinBytes_def MaxBytes_def MinString_def MaxString_def)

lemma FoldWhile_forgets: "FoldWhile f x xs = x \<or> FoldWhile f x xs = Boolean True"
proof (induction f x xs rule: FoldWhile.induct)
  case (2 f x y xs)
  then show ?case by (cases "f y x") auto
qed simp

end
