(* ===== verification/OrdValues.thy ===== *)
theory OrdValues
  imports SlicesSpec "HOL-Library.Signed_Division"
begin

text \<open>
  Values of different types behind the interface \<open>Ord\<close>, floats among them, and the arithmetic of
  \<open>until/curry/\<close>, which looks at the dynamic types of its arguments. The operations on \<open>float64\<close> are a
  parameter. A comparison converts its argument with \<open>v, _ := b.(T)\<close>: a value of another type counts as
  the zero value.
\<close>

section \<open>Values\<close>

record 'f float64 =
  fl_zero :: 'f
  fl_Eq :: "'f \<Rightarrow> 'f \<Rightarrow> bool"
  fl_Lt :: "'f \<Rightarrow> 'f \<Rightarrow> bool"
  fl_Le :: "'f \<Rightarrow> 'f \<Rightarrow> bool"
  fl_Gt :: "'f \<Rightarrow> 'f \<Rightarrow> bool"
  fl_Ge :: "'f \<Rightarrow> 'f \<Rightarrow> bool"
  fl_Add :: "'f \<Rightarrow> 'f \<Rightarrow> 'f"
  fl_Sub :: "'f \<Rightarrow> 'f \<Rightarrow> 'f"
  fl_Mul :: "'f \<Rightarrow> 'f \<Rightarrow> 'f"
  fl_Div :: "'f \<Rightarrow> 'f \<Rightarrow> 'f"

definition ordFloat :: "'f float64 \<Rightarrow> 'f Ord" where
  "ordFloat F = \<lparr> o_Eq = fl_Eq F, o_Lt = fl_Lt F, o_Le = fl_Le F, o_Gt = fl_Gt F, o_Ge = fl_Ge F \<rparr>"

definition MaxFloat :: "'f float64 \<Rightarrow> 'f \<Rightarrow> 'f \<Rightarrow> 'f" where
  "MaxFloat F a b = (if o_Lt (ordFloat F) a b then b else a)"

definition MinFloat :: "'f float64 \<Rightarrow> 'f \<Rightarrow> 'f \<Rightarrow> 'f" where
  "MinFloat F a b = (if o_Lt (ordFloat F) a b then a else b)"

text \<open>The functions every type has of its own.\<close>

definition MaxInt :: "i64 \<Rightarrow> i64 \<Rightarrow> i64" where
  "MaxInt a b = (if o_Lt ordInt a b then b else a)"

definition MinInt :: "i64 \<Rightarrow> i64 \<Rightarrow> i64" where
  "MinInt a b = (if o_Lt ordInt a b then a else b)"

definition MaxUint64 :: "u64 \<Rightarrow> u64 \<Rightarrow> u64" where
  "MaxUint64 a b = (if o_Lt ordUint64 a b then b else a)"

definition MinUint64 :: "u64 \<Rightarrow> u64 \<Rightarrow> u64" where
  "MinUint64 a b = (if o_Lt ordUint64 a b then a else b)"

definition Uint64_Compare :: "u64 \<Rightarrow> u64 \<Rightarrow> Ordering" where
  "Uint64_Compare a b = (if o_Lt ordUint64 a b then LT else if o_Eq ordUint64 a b then EQ else GT)"

definition Float_Compare :: "'f float64 \<Rightarrow> 'f \<Rightarrow> 'f \<Rightarrow> Ordering" where
  "Float_Compare F a b = (if o_Lt (ordFloat F) a b then LT else if o_Eq (ordFloat F) a b then EQ else GT)"

definition Bytes_Compare :: "bytes \<Rightarrow> bytes \<Rightarrow> Ordering" where
  "Bytes_Compare a b = (if o_Lt ordBytes a b then LT else if o_Eq ordBytes a b then EQ else GT)"

definition String_Compare :: "gostring \<Rightarrow> gostring \<Rightarrow> Ordering" where
  "String_Compare a b = (if o_Lt ordString a b then LT else if o_Eq ordString a b then EQ else GT)"

datatype 'f ordv = OInt i64 | OUint64 u64 | OFloat 'f | OBytes bytes | OString gostring

fun as_int :: "'f ordv \<Rightarrow> i64" where
  "as_int (OInt v) = v"
| "as_int _ = 0"

fun as_uint64 :: "'f ordv \<Rightarrow> u64" where
  "as_uint64 (OUint64 v) = v"
| "as_uint64 _ = 0"

fun as_float :: "'f float64 \<Rightarrow> 'f ordv \<Rightarrow> 'f" where
  "as_float F (OFloat v) = v"
| "as_float F _ = fl_zero F"

fun as_bytes :: "'f ordv \<Rightarrow> bytes" where
  "as_bytes (OBytes v) = v"
| "as_bytes _ = []"

fun as_ostring :: "'f ordv \<Rightarrow> gostring" where
  "as_ostring (OString v) = v"
| "as_ostring _ = []"

text \<open>The method of the receiver's type, on the converted argument.\<close>

fun dispatch ::
  "'f float64 \<Rightarrow> (i64 Ord \<Rightarrow> i64 \<Rightarrow> i64 \<Rightarrow> bool) \<Rightarrow> ('f Ord \<Rightarrow> 'f \<Rightarrow> 'f \<Rightarrow> bool) \<Rightarrow> (bytes Ord \<Rightarrow> bytes \<Rightarrow> bytes \<Rightarrow> bool) \<Rightarrow>
    'f ordv \<Rightarrow> 'f ordv \<Rightarrow> bool" where
  "dispatch F mi mf mb (OInt a) b = mi ordInt a (as_int b)"
| "dispatch F mi mf mb (OUint64 a) b = mi ordUint64 a (as_uint64 b)"
| "dispatch F mi mf mb (OFloat a) b = mf (ordFloat F) a (as_float F b)"
| "dispatch F mi mf mb (OBytes a) b = mb ordBytes a (as_bytes b)"
| "dispatch F mi mf mb (OString a) b = mb ordString a (as_ostring b)"

definition anyOrd :: "'f float64 \<Rightarrow> 'f ordv Ord" where
  "anyOrd F = \<lparr> o_Eq = dispatch F o_Eq o_Eq o_Eq, o_Lt = dispatch F o_Lt o_Lt o_Lt, o_Le = dispatch F o_Le o_Le o_Le,
     o_Gt = dispatch F o_Gt o_Gt o_Gt, o_Ge = dispatch F o_Ge o_Ge o_Ge \<rparr>"

section \<open>Arithmetic\<close>

text \<open>Integers of one type, floats, and otherwise \<open>y\<close> as it is: \<open>ordUint64\<close> has no method \<open>Int\<close>.\<close>

fun arith :: "(i64 \<Rightarrow> i64 \<Rightarrow> i64 outcome) \<Rightarrow> ('f \<Rightarrow> 'f \<Rightarrow> 'f) \<Rightarrow> 'f ordv \<Rightarrow> 'f ordv \<Rightarrow> 'f ordv outcome" where
  "arith fi ff (OInt xx) (OInt yy) = obind (fi xx yy) (\<lambda>v. Ok (OInt v))"
| "arith fi ff (OFloat xx) (OFloat yy) = Ok (OFloat (ff xx yy))"
| "arith fi ff _ y = Ok y"

text \<open>\<open>yy / xx\<close> truncates towards zero, wraps for the least number and -1, and panics for zero.\<close>

definition int_div :: "i64 \<Rightarrow> i64 \<Rightarrow> i64 outcome" where
  "int_div yy xx = (if xx = 0 then Panic else Ok (word_of_int (sint yy sdiv sint xx)))"

definition curry_Mul :: "'f float64 \<Rightarrow> 'f ordv \<Rightarrow> 'f ordv \<Rightarrow> 'f ordv outcome" where
  "curry_Mul F x = (\<lambda>y. arith (\<lambda>xx yy. Ok (xx * yy)) (fl_Mul F) x y)"

definition curry_Div :: "'f float64 \<Rightarrow> 'f ordv \<Rightarrow> 'f ordv \<Rightarrow> 'f ordv outcome" where
  "curry_Div F x = (\<lambda>y. arith (\<lambda>xx yy. int_div yy xx) (\<lambda>xx yy. fl_Div F yy xx) x y)"

definition curry_Add :: "'f float64 \<Rightarrow> 'f ordv \<Rightarrow> 'f ordv \<Rightarrow> 'f ordv outcome" where
  "curry_Add F x = (\<lambda>y. arith (\<lambda>xx yy. Ok (xx + yy)) (fl_Add F) x y)"

definition curry_Sub :: "'f float64 \<Rightarrow> 'f ordv \<Rightarrow> 'f ordv \<Rightarrow> 'f ordv outcome" where
  "curry_Sub F x = (\<lambda>y. arith (\<lambda>xx yy. Ok (yy - xx)) (\<lambda>xx yy. fl_Sub F yy xx) x y)"

fun curry_Suffix :: "'f ordv \<Rightarrow> 'f ordv \<Rightarrow> 'f ordv" where
  "curry_Suffix (OBytes xx) (OBytes yy) = OBytes (yy @ xx)"
| "curry_Suffix _ y = y"

fun curry_Prefix :: "'f ordv \<Rightarrow> 'f ordv \<Rightarrow> 'f ordv" where
  "curry_Prefix (OBytes xx) (OBytes yy) = OBytes (xx @ yy)"
| "curry_Prefix _ y = y"

section \<open>Properties\<close>

text \<open>The maxima and minima are those of the orders: signed for integers, unsigned for the others.\<close>

lemma max_min:
  "sint (MaxInt a b) = max (sint a) (sint b)" "sint (MinInt a b) = min (sint a) (sint b)"
  "MaxUint64 c d = max c d" "MinUint64 c d = min c d"
  by (auto simp: MaxInt_def MinInt_def MaxUint64_def MinUint64_def ordInt_def ordUint64_def word_sless_alt max_def min_def)

lemma Compare_iff:
  "Uint64_Compare a b = LT \<longleftrightarrow> a < b" "Uint64_Compare a b = EQ \<longleftrightarrow> a = b" "Uint64_Compare a b = GT \<longleftrightarrow> b < a"
  "Bytes_Compare x y = LT \<longleftrightarrow> x < y" "Bytes_Compare x y = EQ \<longleftrightarrow> x = y" "Bytes_Compare x y = GT \<longleftrightarrow> y < x"
  "String_Compare x y = LT \<longleftrightarrow> x < y" "String_Compare x y = EQ \<longleftrightarrow> x = y" "String_Compare x y = GT \<longleftrightarrow> y < x"
  by (auto simp: Uint64_Compare_def Bytes_Compare_def String_Compare_def ordUint64_def ordBytes_def ordString_def)

text \<open>Subtracting what was added gives the value back, whatever the types, floats apart.\<close>

lemma curry_Sub_Add: "y \<notin> range OFloat \<Longrightarrow> obind (curry_Add F x y) (curry_Sub F x) = Ok y"
  by (cases x; cases y) (auto simp: curry_Add_def curry_Sub_def)

lemma curry_Div_panics_iff: "curry_Div F x y = Panic \<longleftrightarrow> x = OInt 0 \<and> (\<exists>yy. y = OInt yy)"
  by (cases x; cases y) (auto simp: curry_Div_def int_div_def)

text \<open>On values of one type the comparisons are those of the type.\<close>

lemma anyOrd_ints:
  "o_Eq (anyOrd F) (OInt a) (OInt b) = o_Eq ordInt a b" "o_Lt (anyOrd F) (OInt a) (OInt b) = o_Lt ordInt a b"
  "o_Le (anyOrd F) (OInt a) (OInt b) = o_Le ordInt a b" "o_Gt (anyOrd F) (OInt a) (OInt b) = o_Gt ordInt a b"
  "o_Ge (anyOrd F) (OInt a) (OInt b) = o_Ge ordInt a b"
  by (simp_all add: anyOrd_def)

text \<open>Across types they are no order: 5 is neither below nor above \<open>"a"\<close> and not equal to it either way.\<close>

lemma mixed_comparisons:
  "\<not> o_Lt (anyOrd F) (OInt 5) (OString [97])" "\<not> o_Lt (anyOrd F) (OString [97]) (OInt 5)"
  "\<not> o_Eq (anyOrd F) (OInt 5) (OString [97])" "\<not> o_Eq (anyOrd F) (OString [97]) (OInt 5)"
  by (simp_all add: anyOrd_def ordInt_def ordString_def word_sless_alt)

text \<open>
  A value that is neither below a pivot nor at least the pivot, as NaN, is overwritten when a smaller
  element is moved: sorting 2, NaN, 1 gives 1, 2, 1.
\<close>

lemma Qsort_loses_NaN:
  assumes "fl_Lt F one two" "\<not> fl_Ge F one two" "\<not> fl_Lt F nan two" "\<not> fl_Ge F nan two"
  shows "Qsort (ordFloat F) [two, nan, one] = Some (Ok [one, two, one])"
proof -
  have "Qsort_step (ordFloat F) [two, nan, one] 0 2 = Ok ([one, two, one], [(0, 0)])"
    using assms
    by (simp add: Qsort_step_def index_def slice_range_def Filter_filter curry_Lt_def curry_Ge_def ordFloat_def
        copy_slice_def set_index_def numeral_nat)
  moreover have "Qsort_step (ordFloat F) [one, two, one] 0 0 = Ok ([one, two, one], [])"
    by (simp add: Qsort_step_def)
  ultimately show ?thesis
    unfolding Qsort_def by (simp add: Qsort_loop.simps)
qed

end
