(* ===== verification/Recover.thy ===== *)
theory Recover
  imports RaftNode ChainSpec Strconv
begin

text \<open>
  The recovery tool (\<open>waldir/recover.go\<close>): it reads the blocks of the write-ahead log and either adds them
  to the chain or checks that their heights have no gap. Opening the log and the chain is left out: the log is
  the outcome of \<open>ReadAll\<close>. Where the tool ends the process with a message, the result is an error.
\<close>

section \<open>The tool\<close>

definition fatal :: goerror where
  "fatal = ErrText ''log.Fatalf''"

definition is_recover :: "gostring \<Rightarrow> bool" where
  "is_recover cmd \<longleftrightarrow> cmd = lit ''-r'' \<or> cmd = lit ''-R''"

definition is_heights :: "gostring \<Rightarrow> bool" where
  "is_heights cmd \<longleftrightarrow> cmd = lit ''-h'' \<or> cmd = lit ''-H''"

text \<open>\<open>i\<close> is the entry's position, \<open>h\<close> the height reached, \<open>mp\<close> the heights seen, \<open>lastHeight\<close> the last
  checked.\<close>

fun recovery_loop ::
  "('d, 't) DB \<Rightarrow> ('d, 't) Transaction \<Rightarrow> json \<Rightarrow> (writeset \<Rightarrow> (gostring \<times> gostring) list) \<Rightarrow> gostring \<Rightarrow> u64 \<Rightarrow>
    Entry list \<Rightarrow> nat \<Rightarrow> u64 \<Rightarrow> u64 set \<Rightarrow> u64 \<Rightarrow> ('d Blockchain, unit) act" where
  "recovery_loop D T js ord cmd hi [] i h mp lastHeight bc = (bc, Ok ())"
| "recovery_loop D T js ord cmd hi (e # es) i h mp lastHeight bc =
     (if e_Type e = EntryNormal \<and> e_Data e \<noteq> []
      then (case unmarshal (uj_Blocks js) zero_Blocks (e_Data e) of
          Panic \<Rightarrow> (bc, Panic)
        | Err _ \<Rightarrow> recovery_loop D T js ord cmd hi es (i + 1) h mp lastHeight bc
        | Ok b \<Rightarrow>
            if is_recover cmd
            then if sHeight b = hi then (bc, Ok ())
              else if sHeight b \<in> mp then recovery_loop D T js ord cmd hi es (i + 1) h mp lastHeight bc
              else if h + 1 \<noteq> sHeight b then (bc, Err fatal)
              else (case AddBlock D T js ord b [] bc of
                  (bc, Ok _) \<Rightarrow>
                    recovery_loop D T js ord cmd hi es (i + 1) (h + 1) (insert (sHeight b) mp) lastHeight bc
                | (bc, Err _) \<Rightarrow> (bc, Err fatal)
                | (bc, Panic) \<Rightarrow> (bc, Panic))
            else if is_heights cmd
            then if 0 < i \<and> sHeight b \<noteq> lastHeight + 1 then (bc, Panic)
              else recovery_loop D T js ord cmd hi es (i + 1) h mp (sHeight b) bc
            else recovery_loop D T js ord cmd hi es (i + 1) h mp lastHeight bc)
      else recovery_loop D T js ord cmd hi es (i + 1) h mp lastHeight bc)"

text \<open>
  \<open>hi, err := strconv.Atoi(args[1])\<close> inside the conditional declares another \<open>hi\<close>: the one the loop reads
  stays 1.
\<close>

definition Recovery ::
  "('d, 't) DB \<Rightarrow> ('d, 't) Transaction \<Rightarrow> json \<Rightarrow> (writeset \<Rightarrow> (gostring \<times> gostring) list) \<Rightarrow> gostring list \<Rightarrow>
    Entry list outcome \<Rightarrow> ('d Blockchain, unit) act" where
  "Recovery D T js ord args log bc =
     (if length args < 1 \<or> 2 < length args then (bc, Ok ())
      else if length args = 2 \<and> (snd (ParseInt 10 64 (args ! 1)) \<or> fst (ParseInt 10 64 (args ! 1)) < 1) then (bc, Ok ())
      else (case log of
          Ok ents \<Rightarrow> recovery_loop D T js ord (args ! 0) 1 ents 0 1 {} 1 bc
        | Err _ \<Rightarrow> (bc, Err fatal)
        | Panic \<Rightarrow> (bc, Panic)))"

section \<open>What it does\<close>

text \<open>The blocks of a log, and adding blocks one after the other.\<close>

definition entry_block :: "json \<Rightarrow> Entry \<Rightarrow> Blocks option" where
  "entry_block js e =
     (if e_Type e = EntryNormal \<and> e_Data e \<noteq> []
      then (case unmarshal (uj_Blocks js) zero_Blocks (e_Data e) of Ok b \<Rightarrow> Some b | _ \<Rightarrow> None) else None)"

definition log_blocks :: "json \<Rightarrow> Entry list \<Rightarrow> Blocks list" where
  "log_blocks js ents = List.map_filter (entry_block js) ents"

lemma log_blocks_simps [simp]:
  "log_blocks js [] = []"
  "log_blocks js (e # es) = (case entry_block js e of None \<Rightarrow> log_blocks js es | Some b \<Rightarrow> b # log_blocks js es)"
  by (simp_all add: log_blocks_def map_filter_simps split: option.split)

fun add_blocks ::
  "('d, 't) DB \<Rightarrow> ('d, 't) Transaction \<Rightarrow> json \<Rightarrow> (writeset \<Rightarrow> (gostring \<times> gostring) list) \<Rightarrow> Blocks list \<Rightarrow>
    ('d Blockchain, unit) act" where
  "add_blocks D T js ord [] bc = (bc, Ok ())"
| "add_blocks D T js ord (b # bs) bc =
     (case AddBlock D T js ord b [] bc of (bc, Ok _) \<Rightarrow> add_blocks D T js ord bs bc | r \<Rightarrow> r)"

lemma entry_None:
  "entry_block js e = None \<Longrightarrow> \<not> (e_Type e = EntryNormal \<and> e_Data e \<noteq> []) \<or>
    (\<exists>x. unmarshal (uj_Blocks js) zero_Blocks (e_Data e) = Err x) \<or> unmarshal (uj_Blocks js) zero_Blocks (e_Data e) = Panic"
  by (auto simp: entry_block_def split: if_splits outcome.splits)

lemma entry_Some:
  assumes "entry_block js e = Some b"
  shows "e_Type e = EntryNormal \<and> e_Data e \<noteq> []" "unmarshal (uj_Blocks js) zero_Blocks (e_Data e) = Ok b"
  using assms by (auto simp: entry_block_def split: if_splits outcome.splits)

lemma recovery_loop_adds:
  assumes "is_recover cmd" "recovery_loop D T js ord cmd hi ents i h mp lastHeight bc = (bc', Ok ())"
  shows "\<exists>bs. set bs \<subseteq> set (log_blocks js ents) \<and> (\<forall>k < length bs. sHeight (bs ! k) = h + 1 + of_nat k) \<and>
    add_blocks D T js ord bs bc = (bc', Ok ())"
  using assms(2)
proof (induction ents arbitrary: i h mp bc)
  case Nil
  then show ?case by (intro exI [of _ "[]"]) simp
next
  case (Cons e es)
  let ?go = "\<lambda>h mp. recovery_loop D T js ord cmd hi es (i + 1) h mp lastHeight"
  show ?case
  proof (cases "entry_block js e")
    case None
    from entry_None [OF None] have "?go h mp bc = (bc', Ok ())"
      by (elim disjE exE) (use Cons.prems assms(1) in \<open>auto split: if_splits\<close>)
    from Cons.IH [OF this] None show ?thesis by simp
  next
    case (Some b)
    note e = entry_Some [OF Some]
    consider (stop) "sHeight b = hi" | (seen) "sHeight b \<noteq> hi" "sHeight b \<in> mp"
      | (add) "sHeight b \<noteq> hi" "sHeight b \<notin> mp" by blast
    then show ?thesis
    proof cases
      case stop
      then have "bc' = bc" using Cons.prems e assms(1) by simp
      then show ?thesis by (intro exI [of _ "[]"]) simp
    next
      case seen
      then have "?go h mp bc = (bc', Ok ())" using Cons.prems e assms(1) by simp
      from Cons.IH [OF this] Some show ?thesis by auto
    next
      case add
      obtain bc1 r where ab: "AddBlock D T js ord b [] bc = (bc1, r)" by (rule prod.exhaust)
      have h: "sHeight b = h + 1" and r: "r = Ok ()" and go: "?go (h + 1) (insert (sHeight b) mp) bc1 = (bc', Ok ())"
        using Cons.prems e assms(1) add ab by (auto split: if_splits outcome.splits)
      obtain bs where bs: "set bs \<subseteq> set (log_blocks js es)" "\<forall>k < length bs. sHeight (bs ! k) = h + 1 + 1 + of_nat k"
        "add_blocks D T js ord bs bc1 = (bc', Ok ())" using Cons.IH [OF go] by blast
      have "sHeight ((b # bs) ! k) = h + 1 + of_nat k" if "k < length (b # bs)" for k
        using that bs(2) h by (cases k) (simp_all add: algebra_simps)
      moreover have "add_blocks D T js ord (b # bs) bc = (bc', Ok ())" using ab r bs(3) by simp
      moreover have "set (b # bs) \<subseteq> set (log_blocks js (e # es))" using bs(1) Some by auto
      ultimately show ?thesis by blast
    qed
  qed
qed

lemma recovery_loop_heights:
  assumes "is_heights cmd" "recovery_loop D T js ord cmd hi ents i h mp lastHeight bc = (bc', r)"
  shows "bc' = bc \<and> (r = Ok () \<longrightarrow> successively (\<lambda>a b. sHeight b = sHeight a + 1) (log_blocks js ents) \<and>
    (0 < i \<longrightarrow> (\<forall>b bs. log_blocks js ents = b # bs \<longrightarrow> sHeight b = lastHeight + 1)))"
  using assms(2)
proof (induction ents arbitrary: i lastHeight)
  case (Cons e es)
  have no: "\<not> is_recover cmd" using assms(1) by (auto simp: is_recover_def is_heights_def lit_def)
  let ?go = "\<lambda>l. recovery_loop D T js ord cmd hi es (i + 1) h mp l bc"
  show ?case
  proof (cases "entry_block js e")
    case None
    from entry_None [OF None] have "?go lastHeight = (bc', r) \<or> bc' = bc \<and> r = Panic"
      by (elim disjE exE) (use Cons.prems in \<open>auto split: if_splits\<close>)
    then consider "?go lastHeight = (bc', r)" | "bc' = bc" "r = Panic" by blast
    then show ?thesis
    proof cases
      case 1
      from Cons.IH [OF this] None show ?thesis by simp
    qed simp
  next
    case (Some b)
    note e = entry_Some [OF Some]
    show ?thesis
    proof (cases "0 < i \<and> sHeight b \<noteq> lastHeight + 1")
      case True
      then show ?thesis using Cons.prems e no assms(1) by auto
    next
      case False
      then have "?go (sHeight b) = (bc', r)" using Cons.prems e no assms(1) by auto
      from Cons.IH [OF this] Some False show ?thesis
        by (cases "log_blocks js es") auto
    qed
  qed
qed simp

text \<open>C33: When recovery returns, what it has added to the chain are blocks of the log, one for every height
  from 2 on without a gap, each by \<open>AddBlock\<close>.\<close>

theorem Recovery_adds_in_order:
  assumes "is_recover (hd args)" "Recovery D T js ord args (Ok ents) bc = (bc', Ok ())"
  shows "\<exists>bs. set bs \<subseteq> set (log_blocks js ents) \<and> (\<forall>k < length bs. sHeight (bs ! k) = 2 + of_nat k) \<and>
    add_blocks D T js ord bs bc = (bc', Ok ())"
proof (cases "recovery_loop D T js ord (args ! 0) 1 ents 0 1 {} 1 bc = (bc', Ok ())")
  case True
  have "is_recover (args ! 0) \<or> args = []" using assms(1) by (cases args) auto
  with recovery_loop_adds [OF _ True] show ?thesis
    using assms(2) by (cases "args = []") (auto simp: Recovery_def intro!: exI [of _ "[]"])
next
  case False
  then have "bc' = bc" using assms(2) by (auto simp: Recovery_def split: if_splits)
  then show ?thesis by (intro exI [of _ "[]"]) simp
qed

text \<open>The check of the heights changes nothing, and when it returns the heights of the log's blocks follow
  one another.\<close>

theorem Recovery_checks_heights:
  assumes "is_heights cmd" "Recovery D T js ord [cmd] (Ok ents) bc = (bc', r)"
  shows "bc' = bc \<and> (r = Ok () \<longrightarrow> successively (\<lambda>a b. sHeight b = sHeight a + 1) (log_blocks js ents))"
  using recovery_loop_heights [OF assms(1), of D T js ord 1 ents 0 1 "{}" 1 bc bc' r] assms(2)
  by (simp add: Recovery_def)

text \<open>The height the tool is given is ignored: with any valid number it does what it does without one.\<close>

theorem Recovery_ignores_height:
  assumes "ParseInt 10 64 n = (v, False)" "1 \<le> v"
  shows "Recovery D T js ord [cmd, n] log bc = Recovery D T js ord [cmd] log bc"
  using assms by (cases log) (simp_all add: Recovery_def)

section \<open>Instances\<close>

definition rec_block :: "u64 \<Rightarrow> Blocks" where
  "rec_block h = zero_Blocks\<lparr> sHeight := h, sHash := replicate 32 7 \<rparr>"

definition rec_json :: json where
  "rec_json = demo_json\<lparr> uj_Blocks := (\<lambda>data x. (rec_block (ucast (hd data)), Ok ())) \<rparr>"

definition rec_entry :: "byte \<Rightarrow> Entry" where
  "rec_entry h = \<lparr> e_Term = 1, e_Index = 1, e_Type = EntryNormal, e_Data = [h] \<rparr>"

lemma rec_entry_block: "entry_block rec_json (rec_entry h) = Some (rec_block (ucast h))"
  by (simp add: entry_block_def rec_entry_def rec_json_def unmarshal_def abind_def)

lemma rec_added:
  "\<exists>bc'. AddBlock (bgStore map_badger) (bgTransaction map_badger) js ord (rec_block h) []
    \<lparr> bc_db = demo_db, bc_cdb = fmempty \<rparr> = (bc', Ok ())"
proof -
  have "AddBlock (bgStore map_badger) (bgTransaction map_badger) js ord (rec_block h) [] =
      AddBlock (bgStore map_badger) (bgTransaction map_badger) js ord (rec_block h) addr_a"
  proof -
    have txs: "sTxs (rec_block h) = []" by (simp add: rec_block_def zero_Blocks_def)
    show ?thesis by (rule ext) (unfold AddBlock_def txs add_txs.simps, rule refl)
  qed
  moreover have "snd (AddBlock (bgStore map_badger) (bgTransaction map_badger) js ord (rec_block h) addr_a
      \<lparr> bc_db = demo_db, bc_cdb = fmempty \<rparr>) = Ok ()"
    by (rule ms.AddBlock_no_scripts [where h = 1])
      (simp_all add: block_shape_def rec_block_def zero_Blocks_def addr_ab demo_height)
  ultimately show ?thesis by (metis prod.collapse)
qed

theorem Recovery_adds_in_order_witness:
  "\<exists>bs bc'. Recovery (bgStore map_badger) (bgTransaction map_badger) rec_json (\<lambda>_. []) [lit ''-r''] (Ok [rec_entry 2])
    \<lparr> bc_db = demo_db, bc_cdb = fmempty \<rparr> = (bc', Ok ()) \<and> (\<forall>k < length bs. sHeight (bs ! k) = 2 + of_nat k) \<and>
    add_blocks (bgStore map_badger) (bgTransaction map_badger) rec_json (\<lambda>_. []) bs
      \<lparr> bc_db = demo_db, bc_cdb = fmempty \<rparr> = (bc', Ok ())"
proof -
  have cmd: "is_recover (hd [lit ''-r''])" by (simp add: is_recover_def)
  obtain bc' where "AddBlock (bgStore map_badger) (bgTransaction map_badger) rec_json (\<lambda>_. []) (rec_block 2) []
    \<lparr> bc_db = demo_db, bc_cdb = fmempty \<rparr> = (bc', Ok ())" using rec_added by blast
  then have run: "Recovery (bgStore map_badger) (bgTransaction map_badger) rec_json (\<lambda>_. []) [lit ''-r''] (Ok [rec_entry 2])
      \<lparr> bc_db = demo_db, bc_cdb = fmempty \<rparr> = (bc', Ok ())"
    using entry_Some [OF rec_entry_block, of 2] cmd by (simp add: Recovery_def) (simp add: rec_block_def)
  from Recovery_adds_in_order [OF cmd run] run show ?thesis by blast
qed

theorem Recovery_checks_heights_witness:
  "successively (\<lambda>a b. sHeight b = sHeight a + 1) (log_blocks rec_json [rec_entry 4, rec_entry 5])"
proof -
  have cmd: "is_heights (lit ''-h'')" "\<not> is_recover (lit ''-h'')" by (simp_all add: is_heights_def is_recover_def lit_def)
  have run: "Recovery (bgStore map_badger) (bgTransaction map_badger) rec_json (\<lambda>_. []) [lit ''-h''] (Ok [rec_entry 4, rec_entry 5])
      \<lparr> bc_db = demo_db, bc_cdb = fmempty \<rparr> = (\<lparr> bc_db = demo_db, bc_cdb = fmempty \<rparr>, Ok ())"
    using entry_Some [OF rec_entry_block, of 4] entry_Some [OF rec_entry_block, of 5] cmd
    by (simp add: Recovery_def) (simp add: rec_block_def)
  from Recovery_checks_heights [OF cmd(1) run] show ?thesis by simp
qed

theorem Recovery_ignores_height_witness:
  "Recovery (bgStore map_badger) (bgTransaction map_badger) rec_json (\<lambda>_. []) [lit ''-r'', lit ''5''] (Ok [rec_entry 2])
      \<lparr> bc_db = demo_db, bc_cdb = fmempty \<rparr> =
    Recovery (bgStore map_badger) (bgTransaction map_badger) rec_json (\<lambda>_. []) [lit ''-r''] (Ok [rec_entry 2])
      \<lparr> bc_db = demo_db, bc_cdb = fmempty \<rparr>"
proof (rule Recovery_ignores_height)
  have "lit ''5'' = dec 5" by (subst dec.simps) (simp add: lit_def)
  then show "ParseInt 10 64 (lit ''5'') = (5, False)" using ParseInt_dec [of 5 64 10] by simp
qed simp

end
