(* ===== verification/Admitted.thy ===== *)
theory Admitted
  imports ChainSpec TxPoolSpec
begin

text \<open>
  What a transaction that \<open>verify\<close> has accepted can do to the chain: it can cost more than its sender has,
  and, since it is stored under the hash its sender wrote, it can overwrite the height.
\<close>

section \<open>An overdraft\<close>

text \<open>\<open>verify\<close> compares the amount and the fee with the balance one by one, and \<open>AddBlock\<close> subtracts both
  without a test. When together they are more than the balance, the sender is left with 2^64 less what is
  missing.\<close>

theorem accepted_overdraft:
  assumes "roomy_badger B view writes contents"
    "snd (verify ed (bgStore B) (bgTransaction B) cfg Tx (bc_db bc)) = Ok True"
    "unat (num_at (contents (bc_db bc)) (tFrom Tx)) < unat (tAmount Tx) + unat (tFee Tx)"
    "block_shape b minaddr" "contents (bc_db bc) (lit ''height'') = Some (E64func h)" "sTxs b = [Tx]"
    "snd (AddBlock (bgStore B) (bgTransaction B) js ord b minaddr bc) = Ok ()"
    "account (tFrom Tx)" "tFrom Tx \<noteq> tTo Tx" "tFrom Tx \<noteq> minaddr" "tFrom Tx \<notin> mRecAddress ` set (sFirstTx b)"
  shows "unat (num_at (contents (bc_db (fst (AddBlock (bgStore B) (bgTransaction B) js ord b minaddr bc)))) (tFrom Tx)) +
    (unat (tAmount Tx) + unat (tFee Tx) - unat (num_at (contents (bc_db bc)) (tFrom Tx))) = 2 ^ 64"
proof -
  note tx = bg_store_tx [OF assms(1)]
  let ?bal = "num_at (contents (bc_db bc)) (tFrom Tx)"
  have "rewarded (tFrom Tx) ms = 0" if "tFrom Tx \<notin> mRecAddress ` set ms" for ms
    using that by (induction ms) auto
  then have flows: "income minaddr (tFrom Tx) b = 0" "spent (tFrom Tx) (sTxs b) = unat (tAmount Tx) + unat (tFee Tx)"
    using assms(6,9-11) by (auto simp: income_def)
  have "tAmount Tx \<le> ?bal"
    using verify_amounts_True(2) [OF store_tx.verify_accepted(3) [OF tx assms(2)]] .
  then have "unat (tAmount Tx) \<le> unat ?bal" by (simp add: word_le_nat_alt)
  moreover have "unat (tFee Tx) < 2 ^ 64" by (rule order_less_le_trans [OF unsigned_less]) simp
  ultimately have "unat (tAmount Tx) + unat (tFee Tx) - unat ?bal \<le> 2 ^ 64" by linarith
  then show ?thesis
    using wrapped_change [OF store_tx.AddBlock_balance [OF tx assms(7,4,5,8)]] assms(3) by (simp add: flows)
qed

section \<open>The height overwritten\<close>

text \<open>No check looks at the hash a transaction carries. With the word \<open>height\<close> for a hash, the transaction's
  text is stored where the height was, and the height can no longer be read: a JSON text does not have
  eight bytes.\<close>

theorem hash_overwrites_height:
  assumes "roomy_badger B view writes contents" "block_keys b minaddr"
    "contents (bc_db bc) (lit ''height'') = Some (E64func h)" "sTxs b = [Tx]" "tHash Tx = lit ''height''"
    "snd (AddBlock (bgStore B) (bgTransaction B) js ord b minaddr bc) = Ok ()" "\<And>tx. length (js_tx js tx) \<noteq> 8"
  shows "GetMaxBlockHeight (bgStore B) (bc_db (fst (AddBlock (bgStore B) (bgTransaction B) js ord b minaddr bc))) \<noteq> Ok v"
proof -
  note tx = bg_store_tx [OF assms(1)]
  let ?d = "bc_db (fst (AddBlock (bgStore B) (bgTransaction B) js ord b minaddr bc))"
  obtain txs' where t: "list_all2 noted (sTxs b) txs'"
    "contents ?d = block_effect js b minaddr (h + 1) txs' (contents (bc_db bc))"
    by (rule store_tx.AddBlock_effect [OF tx assms(6,2,3)])
  obtain Tx' where Tx': "txs' = [Tx']" "noted Tx Tx'"
    using t(1) assms(4) by (auto simp: list_all2_Cons1)
  then have "tHash Tx' = lit ''height''" using noted_fields [OF Tx'(2)] assms(5) by simp
  then have "contents ?d (lit ''height'') = Some (js_tx js Tx')"
    using tx_effect_hash [of js "sHash b" "h + 1" minaddr Tx'] by (simp add: t(2) Tx'(1) block_effect_def)
  moreover have "D64func (js_tx js Tx') \<noteq> Ok v"
    using D64func_cases [of "js_tx js Tx'" v] assms(7) [of Tx'] by auto
  ultimately show ?thesis by (simp add: store_tx.GetMaxBlockHeight_stored [OF tx])
qed

section \<open>Instances\<close>

context store_tx begin

text \<open>A block of one transaction whose contract runs is added.\<close>

lemma AddBlock_one:
  assumes "block_keys b minaddr" "sTxs b = [Tx]" "tScript Tx \<noteq> []"
    "stored (bc_db bc) (lit ''height'') = Some (E64func h)" "run_contract D T ord Tx (bc_cdb bc) = (cd, Ok Tx)"
  shows "snd (AddBlock D T js ord b minaddr bc) = Ok ()"
proof -
  let ?t = "db_NewTransaction D (bc_db bc)"
  have ne: "lit ''height'' \<noteq> []" by (simp add: lit_def)
  have get: "tx_Get T ?t (lit ''height'') = Ok (E64func h)"
    using assms(4) by (simp add: get_seen [OF ne] seen_new)
  have keys: "sHash b \<noteq> []" "\<forall>m \<in> set (sFirstTx b). mRecAddress m \<noteq> []" "tx_keys Tx" "minaddr \<noteq> []"
    using assms(1,2) by (auto simp: block_keys_def)
  have "E64func h = E64func (h + 1 - 1)" by simp
  then obtain t1 x where hd: "add_header T js b (E64func h) (h + 1) ?t = (t1, Ok x)"
    using doesD [OF does_header [OF keys(1,2)], of "E64func h" "h + 1" js ?t] by blast
  obtain t2 y where "record_tx T js (sHash b) (h + 1) minaddr Tx t1 = (t2, Ok y)"
    using doesD [OF does_record_tx [OF keys(3,4)], of js "sHash b" "h + 1" t1] by blast
  then have "add_txs D T js ord (sHash b) (h + 1) minaddr (sTxs b) (t1, bc_cdb bc) = ((t2, cd), Ok ())"
    using assms(2,3,5) by simp
  then show ?thesis
    using get hd commit_ok [of t2 "bc_db bc"]
    by (cases "tx_Commit T t2 (bc_db bc)") (simp add: AddBlock_def Let_def)
qed

end

definition to_addr :: Address where
  "to_addr = BytesToAddress (PubtoAddr (replicate 31 255 @ [0]))"

lemma to_addr_facts: "length to_addr = 47" "take 3 to_addr = lit ''Kto''" "length (AddrToPub to_addr) = 32" "to_addr \<noteq> pool_addr"
proof -
  let ?pub = "replicate 31 255 @ [0] :: bytes"
  have u: "unat (255 :: byte) = 255" by simp
  have "foldl (\<lambda>x c. 256 * x + unat (c :: byte)) a (replicate n 255) + 1 = (a + 1) * 256 ^ n" for a n
    by (induction n arbitrary: a) (simp_all only: replicate.simps foldl.simps u power.simps, simp_all add: algebra_simps)
  from this [of 0 31] have big: "big_SetBytes ?pub = 256 * (2 ^ 248 - 1)"
    by (simp add: big_SetBytes_def)
  have "58 ^ 43 \<le> (256 :: nat) * (2 ^ 248 - 1)" by simp
  then have "44 \<le> length (Encode ?pub)"
    using length_Encode_loop_ge [of 43 "256 * (2 ^ 248 - 1)"] unfolding Encode_def big by simp
  then have len: "length (PubtoAddr ?pub) = 47"
    using length_Encode_32 [of ?pub] by (simp add: PubtoAddr_def length_lit_Kto)
  show "length to_addr = 47" by (simp add: to_addr_def)
  show "take 3 to_addr = lit ''Kto''"
    unfolding to_addr_def BytesToAddress_def Lenthaddr_def len by (simp add: PubtoAddr_def length_lit_Kto)
  have pub: "AddrToPub to_addr = ?pub"
    unfolding to_addr_def using AddrToPub_PubtoAddr [of ?pub] by (simp add: len)
  then show "length (AddrToPub to_addr) = 32" by simp
  have "(0 :: byte) \<noteq> 255" by simp
  then have "last ?pub \<noteq> last (replicate 32 255)" by simp
  then show "to_addr \<noteq> pool_addr" using pub pool_addr_facts(3) by metis
qed

definition paying_tx :: "u64 \<Rightarrow> bytes \<Rightarrow> gostring \<Rightarrow> transaction" where
  "paying_tx amount hash script = zero_transaction\<lparr> tFrom := pool_addr, tTo := to_addr, tAmount := amount, tFee := 500000,
     tNonce := 1, tHash := hash, tSignature := hash, tScript := script \<rparr>"

definition admitting_db :: mdb where
  "admitting_db = fmupd (lit ''height'') (E64func 1) pool_db"

lemma admitting_facts:
  "fmlookup admitting_db (lit ''height'') = Some (E64func 1)" "fmlookup admitting_db pool_addr = Some (E64func 1000000)"
  "fmlookup admitting_db (nonce_key pool_addr) = None" "fmlookup admitting_db (lock_key pool_addr) = None"
  "num_at (fmlookup admitting_db) pool_addr = 1000000"
proof -
  have "length (lit ''height'') = 6" "length (nonce_key pool_addr) = 58" "length (lock_key pool_addr) = 57"
    by (simp_all add: lit_def nonce_key_def lock_key_def pool_addr_facts)
  then have ne: "lit ''height'' \<noteq> pool_addr" "lit ''height'' \<noteq> nonce_key pool_addr" "lit ''height'' \<noteq> lock_key pool_addr"
    using pool_addr_facts(1) by (metis numeral_eq_iff semiring_norm(83,84,85,87,88,89,90))+
  then show "fmlookup admitting_db (lit ''height'') = Some (E64func 1)" "fmlookup admitting_db pool_addr = Some (E64func 1000000)"
    "fmlookup admitting_db (nonce_key pool_addr) = None" "fmlookup admitting_db (lock_key pool_addr) = None"
    "num_at (fmlookup admitting_db) pool_addr = 1000000"
    using pool_addr_facts by (simp_all add: admitting_db_def pool_db_def num_at_def)
qed

lemma paying_accepted:
  assumes "500000 \<le> amount" "amount \<le> 1000000"
  shows "snd (verify pool_ed (bgStore map_badger) (bgTransaction map_badger) [] (paying_tx amount hash script) admitting_db) = Ok True"
proof (rule ms.verify_first [where bal = 1000000])
  show "verify_signed pool_ed (paying_tx amount hash script) = Ok True"
    by (simp add: verify_signed_def paying_tx_def pool_addr_facts to_addr_facts AddressToByte_def Verify_def pool_ed_def)
  show "verify_amounts pool_ed [] (paying_tx amount hash script) 1000000 0 = Ok True"
    using assms by (auto simp: verify_amounts_def paying_tx_def zero_transaction_def zero_order_def not_less)
qed (simp_all add: paying_tx_def admitting_facts pool_addr_facts)

lemma paying_keys: "hash \<noteq> [] \<Longrightarrow> tx_keys (paying_tx amount hash script)"
  using pool_addr_facts(4) to_addr_facts(1) by (auto simp: tx_keys_def paying_tx_def)

theorem hash_overwrites_height_witness:
  "snd (verify pool_ed (bgStore map_badger) (bgTransaction map_badger) [] (paying_tx 500000 (lit ''height'') []) admitting_db) = Ok True \<and>
    GetMaxBlockHeight (bgStore map_badger) (bc_db (fst (AddBlock (bgStore map_badger) (bgTransaction map_badger) demo_json (\<lambda>_. [])
      (zero_Blocks\<lparr> sHeight := 2, sHash := replicate 32 7, sTxs := [paying_tx 500000 (lit ''height'') []] \<rparr>) addr_a
      \<lparr> bc_db = admitting_db, bc_cdb = fmempty \<rparr>))) \<noteq> Ok 2"
proof -
  let ?Tx = "paying_tx 500000 (lit ''height'') []"
  let ?b = "zero_Blocks\<lparr> sHeight := 2, sHash := replicate 32 7, sTxs := [?Tx] \<rparr>"
  have keys: "block_keys ?b addr_a"
    using addr_ab(1) paying_keys [of "lit ''height''" 500000 "[]"] by (auto simp: block_keys_def zero_Blocks_def lit_def)
  have added: "snd (AddBlock (bgStore map_badger) (bgTransaction map_badger) demo_json (\<lambda>_. []) ?b addr_a
      \<lparr> bc_db = admitting_db, bc_cdb = fmempty \<rparr>) = Ok ()"
    by (rule ms.AddBlock_runs [OF keys, where h = 1]) (simp_all add: paying_tx_def admitting_facts)
  have "tHash ?Tx = lit ''height''" by (simp add: paying_tx_def)
  from hash_overwrites_height [OF map_badger_roomy keys _ _ this added, of 1 2] paying_accepted [of 500000 "lit ''height''" "[]"]
  show ?thesis by (simp add: admitting_facts demo_json_def)
qed

text \<open>A contract that creates a token: 800000 and a fee of 500000 out of a balance of 1000000.\<close>

definition creating_script :: gostring where
  "creating_script = print_call (lit ''new'') [VString [97], VUint 5]"

lemma creating_parsed: "Parser creating_script = Ok [Some (call_script (lit ''new'') [TOKENID, AMOUNT] [VString [97], VUint 5])]"
  unfolding creating_script_def
  by (rule Parser_call) (simp_all add: statement_types_def fits_def quotable_def typList_def TOKENID_def AMOUNT_def O_STRING_def
      O_INT_def lit_def)

lemma creating_runs: "\<exists>e. exec_New (bgStore map_badger) fmempty
    [Some (call_script (lit ''new'') [TOKENID, AMOUNT] [VString [97], VUint 5])] a = Ok e"
  by (simp add: exec_New_def call_script_def deal0_def argument_def aKey_def ms.get_stored Let_def del: bg_fields)

theorem accepted_overdraft_witness:
  "num_at (fmlookup (bc_db (fst (AddBlock (bgStore map_badger) (bgTransaction map_badger) demo_json (\<lambda>_. [])
    (zero_Blocks\<lparr> sHeight := 2, sHash := replicate 32 7, sTxs := [paying_tx 800000 (replicate 32 9) creating_script] \<rparr>) (replicate 47 1)
    \<lparr> bc_db = admitting_db, bc_cdb = fmempty \<rparr>)))) pool_addr = - 300000"
proof -
  let ?Tx = "paying_tx 800000 (replicate 32 9) creating_script"
  let ?b = "zero_Blocks\<lparr> sHeight := 2, sHash := replicate 32 7, sTxs := [?Tx] \<rparr>"
  let ?bc = "\<lparr> bc_db = admitting_db, bc_cdb = fmempty \<rparr>" and ?D = "bgStore map_badger" and ?T = "bgTransaction map_badger"
  have shape: "block_shape ?b (replicate 47 1)"
    by (simp add: block_shape_def tx_shape_def zero_Blocks_def paying_tx_def pool_addr_facts to_addr_facts)
  have script: "tScript ?Tx = creating_script" "creating_script \<noteq> []" by (simp_all add: paying_tx_def creating_script_def print_call_def)
  obtain e where e: "exec_New ?D fmempty [Some (call_script (lit ''new'') [TOKENID, AMOUNT] [VString [97], VUint 5])] pool_addr = Ok e"
    using creating_runs by blast
  obtain cd where fl: "exec_Flush ?D ?T [] fmempty = (cd, Ok ())"
    using ms.exec_Flush_stored [of fmempty "[]" fmempty] by (cases "exec_Flush ?D ?T [] fmempty") (simp add: range_order_def)
  have run: "run_contract ?D ?T (\<lambda>_. []) ?Tx fmempty = (cd, Ok ?Tx)"
    unfolding run_contract_def script(1) creating_parsed using e by (simp add: AddressToByte_def paying_tx_def fl)
  have added: "snd (AddBlock ?D ?T demo_json (\<lambda>_. []) ?b (replicate 47 1) ?bc) = Ok ()"
    by (rule ms.AddBlock_one [OF shape_keys(2) [OF shape], where h = 1 and Tx = ?Tx and cd = cd])
      (simp_all add: script admitting_facts run)
  have acc: "account pool_addr"
    using pool_addr_facts(1,2) by (auto simp: account_def lit_def hd_conv_nth dest: arg_cong [where f = hd])
  have "hd (take 3 pool_addr) \<noteq> hd (take 3 (replicate 47 (1 :: byte)))" by (simp add: pool_addr_facts(2) lit_def)
  then have "pool_addr \<noteq> replicate 47 1" by metis
  with accepted_overdraft [OF map_badger_roomy _ _ shape _ _ added, of pool_ed "[]" ?Tx 1] paying_accepted [of 800000 "replicate 32 9" creating_script] acc
  have "unat (num_at (fmlookup (bc_db (fst (AddBlock ?D ?T demo_json (\<lambda>_. []) ?b (replicate 47 1) ?bc)))) pool_addr) + 300000 = 2 ^ 64"
    using to_addr_facts(4) by (simp add: admitting_facts) (simp add: paying_tx_def admitting_facts zero_Blocks_def)
  then have "of_nat (unat (num_at (fmlookup (bc_db (fst (AddBlock ?D ?T demo_json (\<lambda>_. []) ?b (replicate 47 1) ?bc)))) pool_addr) + 300000) = (0 :: u64)"
    by simp
  then show ?thesis by (simp add: eq_neg_iff_add_eq_0)
qed

end
