(* ===== verification/P2p.thy ===== *)
theory P2p
  imports Handlers
begin

text \<open>
  The gossip layer (\<open>p2p/p2p.go\<close>, \<open>p2p/sum/\<close>) and the node on top of it (\<open>p2p/node/node.go\<close>). A node keeps
  the data it has broadcast under its CRC-64 and pushes all of it to all members every second; a member
  that receives a push acknowledges it with a pull, and the entry goes. Membership and the transport are
  the memberlist library, whose nodes are a type parameter with the record \<open>nodes\<close>: the name, and the
  \<open>gob\<close> encoding and decoding, \<open>None\<close> being an error. What a method sends is a list of destinations and
  packets.
\<close>

section \<open>The sum\<close>

text \<open>\<open>hash/crc64\<close> with the table of the ECMA polynomial; the state of a \<open>Hash64\<close> is the sum so far.\<close>

definition ECMA :: u64 where
  "ECMA = 0xC96C5795D7870F42"

definition crc_step :: "u64 \<Rightarrow> u64" where
  "crc_step c = (if c AND 1 = 1 then drop_bit 1 c XOR ECMA else drop_bit 1 c)"

definition crc_table :: "byte \<Rightarrow> u64" where
  "crc_table i = (crc_step ^^ 8) (ucast i)"

definition crc_byte :: "u64 \<Rightarrow> byte \<Rightarrow> u64" where
  "crc_byte crc v = crc_table (ucast crc XOR v) XOR drop_bit 8 crc"

definition h_Reset :: "u64 \<Rightarrow> u64" where
  "h_Reset h = 0"

definition h_Write :: "bytes \<Rightarrow> u64 \<Rightarrow> u64" where
  "h_Write p h = NOT (foldl crc_byte (NOT h) p)"

definition h_Sum64 :: "u64 \<Rightarrow> u64" where
  "h_Sum64 h = h"

text \<open>The state the shared hash is left in, and the sum.\<close>

definition sum_Sum :: "u64 \<Rightarrow> bytes \<Rightarrow> u64 \<times> u64" where
  "sum_Sum h data = (let h = h_Write data (h_Reset h) in (h, h_Sum64 h))"

definition crc64 :: "bytes \<Rightarrow> u64" where
  "crc64 data = snd (sum_Sum 0 data)"

lemma Sum_fresh [simp]: "sum_Sum h data = (crc64 data, crc64 data)"
  by (simp add: crc64_def sum_Sum_def Let_def h_Reset_def h_Sum64_def)

section \<open>State\<close>

record 'nd nodes =
  nd_Name :: "'nd \<Rightarrow> gostring"
  nd_Encode :: "'nd \<Rightarrow> bytes option"
  nd_Decode :: "bytes \<Rightarrow> 'nd option"

record Config =
  c_Port :: i64
  c_Name :: gostring
  c_Address :: gostring

record mlConfig =
  ml_Name :: gostring
  ml_BindPort :: i64
  ml_BindAddr :: gostring
  ml_AdvertisePort :: i64
  ml_AdvertiseAddr :: gostring

text \<open>
  \<open>p_ch\<close> is the channel the loop is stopped through, \<open>None\<close> the nil channel. \<open>p_got\<close> is not in the code:
  it records what has been handed to the notify function.
\<close>

record 'u p2p =
  p_h :: u64
  p_u :: 'u
  p_ch :: "unit option"
  p_mp :: "u64 \<Rightarrow> bytes option"
  p_got :: "bytes list"

definition p2p_New :: "(mlConfig \<Rightarrow> unit outcome) \<Rightarrow> Config \<Rightarrow> 'u \<Rightarrow> 'u p2p outcome" where
  "p2p_New create config u =
     obind (create \<lparr> ml_Name = c_Name config, ml_BindPort = c_Port config, ml_BindAddr = c_Address config,
         ml_AdvertisePort = c_Port config, ml_AdvertiseAddr = c_Address config \<rparr>)
       (\<lambda>_. Ok \<lparr> p_h = 0, p_u = u, p_ch = None, p_mp = Map.empty, p_got = [] \<rparr>)"

section \<open>Sending\<close>

definition Broadcast :: "bytes \<Rightarrow> 'u p2p \<Rightarrow> 'u p2p" where
  "Broadcast data p = (let (h, s) = sum_Sum (p_h p) data in p\<lparr> p_h := h, p_mp := (p_mp p)(s \<mapsto> data) \<rparr>)"

definition push_packet :: "bytes \<Rightarrow> bytes \<Rightarrow> bytes" where
  "push_packet nd data = lit ''push'' @ le_bytes 8 (of_nat (length nd) :: u64) @ nd @ data"

definition pull_packet :: "u64 \<Rightarrow> bytes" where
  "pull_packet s = lit ''pull'' @ le_bytes 8 s"

text \<open>To member \<open>n\<close>, from the local node; not to itself.\<close>

definition broadcast :: "'nd nodes \<Rightarrow> 'nd \<Rightarrow> 'nd \<Rightarrow> bytes \<Rightarrow> ('nd \<times> bytes) list" where
  "broadcast C self n data =
     (if nd_Name C n = nd_Name C self then []
      else (case nd_Encode C self of None \<Rightarrow> [] | Some nd \<Rightarrow> [(n, push_packet nd data)]))"

text \<open>One round of the loop after a second: \<open>ord\<close> is the order in which the map is ranged over.\<close>

definition Run_tick :: "'nd nodes \<Rightarrow> 'nd \<Rightarrow> 'nd list \<Rightarrow> u64 list \<Rightarrow> 'u p2p \<Rightarrow> ('nd \<times> bytes) list" where
  "Run_tick C self ns ord p =
     (if length ns > 0
      then concat (map (\<lambda>v. concat (map (\<lambda>n. broadcast C self n v) ns)) (List.map_filter (p_mp p) ord))
      else [])"

section \<open>Receiving\<close>

text \<open>The upper bound of a slice expression goes up to the capacity: \<open>spare\<close> is what follows in the array.\<close>

definition cap_to :: "bytes \<Rightarrow> bytes \<Rightarrow> nat \<Rightarrow> bytes outcome" where
  "cap_to b spare n = slice_to (b @ spare) n"

type_synonym ('nd, 'u) effect = "'u p2p \<times> ('nd \<times> bytes) list \<times> unit outcome"

text \<open>The acknowledgement is sent before the data is handed over.\<close>

definition recvMsg :: "(bytes \<Rightarrow> ('u, unit) act) \<Rightarrow> 'nd \<Rightarrow> bytes \<Rightarrow> 'u p2p \<Rightarrow> ('nd, 'u) effect" where
  "recvMsg nf n data p =
     (let (h, s) = sum_Sum (p_h p) data; (u, r) = nf data (p_u p)
      in (p\<lparr> p_h := h, p_u := u, p_got := p_got p @ [data] \<rparr>, [(n, pull_packet s)], r))"

definition or_panic :: "'u p2p \<Rightarrow> 'a outcome \<Rightarrow> ('a \<Rightarrow> ('nd, 'u) effect) \<Rightarrow> ('nd, 'u) effect" where
  "or_panic p r f = (case r of Ok x \<Rightarrow> f x | _ \<Rightarrow> (p, [], Panic))"

lemma or_panic_simps [simp]:
  "or_panic p (Ok x) f = f x" "or_panic p (Err e) f = (p, [], Panic)" "or_panic p Panic f = (p, [], Panic)"
  by (simp_all add: or_panic_def)

definition NotifyMsg ::
  "'nd nodes \<Rightarrow> (bytes \<Rightarrow> ('u, unit) act) \<Rightarrow> bytes \<Rightarrow> bytes \<Rightarrow> 'u p2p \<Rightarrow> ('nd, 'u) effect" where
  "NotifyMsg C nf data spare p =
     or_panic p (cap_to data spare 4) (\<lambda>op.
       if op = lit ''push'' then
         or_panic p (slice_from data 4) (\<lambda>data.
         or_panic p (LE_Uint64 data) (\<lambda>len.
         or_panic p (slice_from data 8) (\<lambda>data.
         or_panic p (cap_to data spare (unat len)) (\<lambda>nd.
           case nd_Decode C nd of
             None \<Rightarrow> (p, [], Ok ())
           | Some n \<Rightarrow> or_panic p (slice_from data (unat len)) (\<lambda>data. recvMsg nf n data p)))))
       else if op = lit ''pull'' then
         or_panic p (slice_from data 4) (\<lambda>data.
         or_panic p (LE_Uint64 data) (\<lambda>s. (p\<lparr> p_mp := (p_mp p)(s := None) \<rparr>, [], Ok ())))
       else (p, [], Ok ()))"

section \<open>Running and stopping\<close>

text \<open>
  The loop of \<open>Run\<close> and a call of \<open>Stop\<close>, which meet twice on the channel. A communication on an
  unbuffered channel needs both sides; on a nil channel there is none.
\<close>

datatype run_at = Looping | Answering | Returned
datatype stop_at = NotCalled | Asking | Waiting | ShutDown

inductive life :: "unit option \<Rightarrow> run_at \<times> stop_at \<Rightarrow> run_at \<times> stop_at \<Rightarrow> bool" where
  life_tick: "life ch (Looping, st) (Looping, st)"
| life_call: "life ch (ru, NotCalled) (ru, Asking)"
| life_ask: "ch \<noteq> None \<Longrightarrow> life ch (Looping, Asking) (Answering, Waiting)"
| life_answer: "ch \<noteq> None \<Longrightarrow> life ch (Answering, Waiting) (Returned, ShutDown)"

inductive_cases life_elim: "life ch x y"

section \<open>The node\<close>

text \<open>\<open>encTx\<close> and \<open>decTx\<close> are \<open>gob\<close> on transactions; the error of \<open>Encode\<close> is discarded, with the nil slice.\<close>

definition node_Broadcast :: "(transaction \<Rightarrow> bytes option) \<Rightarrow> transaction \<Rightarrow> 'u p2p \<Rightarrow> 'u p2p" where
  "node_Broadcast encTx tx p = Broadcast (case encTx tx of None \<Rightarrow> [] | Some data \<Rightarrow> data) p"

definition node_New ::
  "(mlConfig \<Rightarrow> unit outcome) \<Rightarrow> i64 \<Rightarrow> gostring \<Rightarrow> gostring \<Rightarrow> Txpool \<Rightarrow> 'd \<Rightarrow> (Txpool \<times> 'd) p2p outcome" where
  "node_New create port nm address pool bc =
     p2p_New create \<lparr> c_Port = port, c_Name = nm, c_Address = address \<rparr> (pool, bc)"

text \<open>
  The notify function of the node: \<open>recv\<close> on the decoded data. The readings of the clock to come are part
  of the state, and each call takes one.
\<close>

definition node_notify ::
  "ed25519 \<Rightarrow> ('d, 't) DB \<Rightarrow> ('d, 't) Transaction \<Rightarrow> gostring \<Rightarrow> (bytes \<Rightarrow> transaction outcome) \<Rightarrow>
    bytes \<Rightarrow> ((Txpool \<times> 'd) \<times> (nat \<Rightarrow> i64), unit) act" where
  "node_notify ed D T cfg decTx data s =
     (case recv ed D T cfg (snd s 0) (decTx data) (fst s) of (s', r) \<Rightarrow> ((s', \<lambda>n. snd s (Suc n)), r))"

section \<open>Lemmas\<close>

lemma lit_tags [simp]: "length (lit ''push'') = 4" "length (lit ''pull'') = 4" "lit ''push'' \<noteq> lit ''pull''"
  by (simp_all add: lit_def)

lemma cap_to_prefix: "length a = n \<Longrightarrow> cap_to (a @ b) spare n = Ok a"
  by (simp add: cap_to_def slice_to_def)

lemma slice_from_prefix: "length a = n \<Longrightarrow> slice_from (a @ b) n = Ok b"
  by (simp add: slice_from_def)

lemma LE_Uint64_le_bytes [simp]: "LE_Uint64 (le_bytes 8 v @ rest) = Ok v"
  by (simp add: LE_Uint64_def le_word_le_bytes_id)

lemma NotifyMsg_pull [simp]:
  "NotifyMsg C nf (pull_packet s) spare p = (p\<lparr> p_mp := (p_mp p)(s := None) \<rparr>, [], Ok ())"
  using LE_Uint64_le_bytes [of s "[]"]
  by (simp add: NotifyMsg_def pull_packet_def cap_to_prefix slice_from_prefix lit_tags(3) [symmetric])

lemma NotifyMsg_push:
  assumes "nd_Decode C nd = Some n" "length nd < 2 ^ 64"
  shows "NotifyMsg C nf (push_packet nd data) spare p = recvMsg nf n data p"
proof -
  have "unat (of_nat (length nd) :: u64) = length nd"
    using assms(2) by (intro unat_of_nat_small) simp
  then show ?thesis
    using assms(1)
    by (simp add: NotifyMsg_def push_packet_def cap_to_prefix slice_from_prefix)
qed

lemma Broadcast_simps [simp]:
  "p_mp (Broadcast data p) = (p_mp p)(crc64 data \<mapsto> data)"
  "p_got (Broadcast data p) = p_got p" "p_u (Broadcast data p) = p_u p"
  by (simp_all add: Broadcast_def)

lemma recvMsg_Ok_iff:
  "recvMsg nf n data p = (p', out, r) \<longleftrightarrow>
    (\<exists>u. nf data (p_u p) = (u, r) \<and> out = [(n, pull_packet (crc64 data))] \<and>
      p' = p\<lparr> p_h := crc64 data, p_u := u, p_got := p_got p @ [data] \<rparr>)"
  by (auto simp: recvMsg_def split: prod.splits)

lemma Run_tick_sends:
  assumes "set ord = dom (p_mp p)"
  shows "(n, m) \<in> set (Run_tick C self ns ord p) \<longleftrightarrow>
    n \<in> set ns \<and> nd_Name C n \<noteq> nd_Name C self \<and>
    (\<exists>k v nd. p_mp p k = Some v \<and> nd_Encode C self = Some nd \<and> m = push_packet nd v)"
proof -
  have mem: "v \<in> set (List.map_filter (p_mp p) ord) \<longleftrightarrow> (\<exists>k. p_mp p k = Some v)" for v
  proof -
    have "v \<in> set (List.map_filter (p_mp p) ord) \<longleftrightarrow> (\<exists>k \<in> set ord. p_mp p k = Some v)"
      by (force simp: List.map_filter_def)
    with assms show ?thesis by auto
  qed
  have bc: "(n, m) \<in> set (broadcast C self n' v) \<longleftrightarrow>
      n' = n \<and> nd_Name C n \<noteq> nd_Name C self \<and> (\<exists>nd. nd_Encode C self = Some nd \<and> m = push_packet nd v)" for n' v
    by (cases "nd_Encode C self") (auto simp: broadcast_def)
  have "(n, m) \<in> set (Run_tick C self ns ord p) \<longleftrightarrow>
      (\<exists>v \<in> set (List.map_filter (p_mp p) ord). \<exists>n' \<in> set ns. (n, m) \<in> set (broadcast C self n' v))"
    by (auto simp: Run_tick_def)
  then show ?thesis unfolding Bex_def mem bc by blast
qed

end
