(* ===== verification/P2pSpec.thy ===== *)
theory P2pSpec
  imports P2p
begin

text \<open>
  The gossip network: nodes that broadcast, push and acknowledge over a transport that may lose packets
  and reorder them, and may stop at any time. Nothing is handed to a node that no node has broadcast; a
  broadcast is kept until another node has been handed it, up to a collision of the sum; while it is kept
  it can still reach every running member. But the first acknowledgement ends it: a member whose packet was
  lost never gets it. A packet that is too short takes the node down, and \<open>Stop\<close> never returns.
\<close>

section \<open>Networks\<close>

text \<open>
  \<open>n_wire\<close> is what has been sent and not yet arrived, \<open>n_bcasts\<close> the history of the calls of \<open>Broadcast\<close>.
  The members a node sees in a round, and what follows a packet in its array, are arbitrary.
\<close>

record ('nd, 'u) net =
  n_peer :: "'nd \<Rightarrow> 'u p2p"
  n_up :: "'nd \<Rightarrow> bool"
  n_wire :: "('nd \<times> bytes) list"
  n_bcasts :: "('nd \<times> bytes) list"

definition net_broadcast :: "'nd \<Rightarrow> bytes \<Rightarrow> ('nd, 'u) net \<Rightarrow> ('nd, 'u) net" where
  "net_broadcast i data s =
     s\<lparr> n_peer := (n_peer s)(i := Broadcast data (n_peer s i)), n_bcasts := n_bcasts s @ [(i, data)] \<rparr>"

definition net_tick :: "'nd nodes \<Rightarrow> 'nd \<Rightarrow> 'nd list \<Rightarrow> u64 list \<Rightarrow> ('nd, 'u) net \<Rightarrow> ('nd, 'u) net" where
  "net_tick C i ns ord s = s\<lparr> n_wire := n_wire s @ Run_tick C i ns ord (n_peer s i) \<rparr>"

text \<open>A panic, which nothing recovers, takes the process down.\<close>

definition net_arrive :: "'nd \<Rightarrow> 'u p2p \<Rightarrow> unit outcome \<Rightarrow> ('nd \<times> bytes) list \<Rightarrow> ('nd, 'u) net \<Rightarrow> ('nd, 'u) net" where
  "net_arrive i p' r wire s =
     s\<lparr> n_peer := (n_peer s)(i := p'), n_up := (n_up s)(i := r \<noteq> Panic), n_wire := wire \<rparr>"

inductive net_step :: "'nd nodes \<Rightarrow> (bytes \<Rightarrow> ('u, unit) act) \<Rightarrow> ('nd, 'u) net \<Rightarrow> ('nd, 'u) net \<Rightarrow> bool"
  for C nf where
  step_broadcast: "n_up s i \<Longrightarrow> net_step C nf s (net_broadcast i data s)"
| step_tick: "n_up s i \<Longrightarrow> distinct ord \<Longrightarrow> set ord = dom (p_mp (n_peer s i)) \<Longrightarrow>
    net_step C nf s (net_tick C i ns ord s)"
| step_deliver: "n_up s i \<Longrightarrow> n_wire s = xs @ (i, m) # ys \<Longrightarrow>
    NotifyMsg C nf m spare (n_peer s i) = (p', out, r) \<Longrightarrow> net_step C nf s (net_arrive i p' r (xs @ ys @ out) s)"
| step_lose: "n_wire s = xs @ x # ys \<Longrightarrow> net_step C nf s (s\<lparr> n_wire := xs @ ys \<rparr>)"
| step_stop: "net_step C nf s (s\<lparr> n_up := (n_up s)(i := False) \<rparr>)"

text \<open>All nodes have just been made, by \<open>p2p_New\<close>, each with its own \<open>u\<close>.\<close>

definition fresh :: "'u \<Rightarrow> 'u p2p" where
  "fresh u = \<lparr> p_h = 0, p_u = u, p_ch = None, p_mp = Map.empty, p_got = [] \<rparr>"

definition net_init :: "('nd \<Rightarrow> 'u) \<Rightarrow> ('nd, 'u) net" where
  "net_init u0 = \<lparr> n_peer = (\<lambda>i. fresh (u0 i)), n_up = (\<lambda>_. True), n_wire = [], n_bcasts = [] \<rparr>"

inductive net_reach :: "'nd nodes \<Rightarrow> (bytes \<Rightarrow> ('u, unit) act) \<Rightarrow> ('nd \<Rightarrow> 'u) \<Rightarrow> ('nd, 'u) net \<Rightarrow> bool"
  for C nf u0 where
  reach_init: "net_reach C nf u0 (net_init u0)"
| reach_step: "net_reach C nf u0 s \<Longrightarrow> net_step C nf s s' \<Longrightarrow> net_reach C nf u0 s'"

lemma p2p_New_fresh: "p2p_New create config u = Ok p \<Longrightarrow> p = fresh u"
  by (auto simp: p2p_New_def fresh_def obind_Ok_iff)

section \<open>What the network keeps\<close>

text \<open>A node decodes its own encoding, of a length that fits.\<close>

definition codec_ok :: "'nd nodes \<Rightarrow> bool" where
  "codec_ok C \<longleftrightarrow> (\<forall>n nd. nd_Encode C n = Some nd \<longrightarrow> nd_Decode C nd = Some n \<and> length nd < 2 ^ 64)"

text \<open>Another node has been handed a broadcast of \<open>i\<close> with the sum of \<open>d\<close>.\<close>

definition acked :: "'nd nodes \<Rightarrow> ('nd, 'u) net \<Rightarrow> 'nd \<Rightarrow> u64 \<Rightarrow> bool" where
  "acked C s i k \<longleftrightarrow> (\<exists>j d. nd_Name C j \<noteq> nd_Name C i \<and> d \<in> set (p_got (n_peer s j)) \<and>
     (i, d) \<in> set (n_bcasts s) \<and> crc64 d = k)"

definition packet_ok :: "'nd nodes \<Rightarrow> ('nd, 'u) net \<Rightarrow> 'nd \<times> bytes \<Rightarrow> bool" where
  "packet_ok C s x \<longleftrightarrow>
     (\<exists>j nd data. snd x = push_packet nd data \<and> nd_Encode C j = Some nd \<and> (j, data) \<in> set (n_bcasts s) \<and>
        nd_Name C (fst x) \<noteq> nd_Name C j) \<or>
     (\<exists>k. snd x = pull_packet k \<and> acked C s (fst x) k)"

definition net_inv :: "'nd nodes \<Rightarrow> (bytes \<Rightarrow> ('u, unit) act) \<Rightarrow> ('nd \<Rightarrow> 'u) \<Rightarrow> ('nd, 'u) net \<Rightarrow> bool" where
  "net_inv C nf u0 s \<longleftrightarrow>
     (\<forall>x \<in> set (n_wire s). packet_ok C s x) \<and>
     (\<forall>i k v. p_mp (n_peer s i) k = Some v \<longrightarrow> k = crc64 v \<and> (i, v) \<in> set (n_bcasts s)) \<and>
     (\<forall>i. finite (dom (p_mp (n_peer s i)))) \<and>
     (\<forall>i. \<forall>d \<in> set (p_got (n_peer s i)). \<exists>j. nd_Name C j \<noteq> nd_Name C i \<and> (j, d) \<in> set (n_bcasts s)) \<and>
     (\<forall>i d. (i, d) \<in> set (n_bcasts s) \<longrightarrow> p_mp (n_peer s i) (crc64 d) \<noteq> None \<or> acked C s i (crc64 d)) \<and>
     (\<forall>i. p_u (n_peer s i) = fold (\<lambda>d u. fst (nf d u)) (p_got (n_peer s i)) (u0 i))"

text \<open>The histories only grow, and what is said of them stays true.\<close>

definition net_le :: "('nd, 'u) net \<Rightarrow> ('nd, 'u) net \<Rightarrow> bool" where
  "net_le s s' \<longleftrightarrow> set (n_bcasts s) \<subseteq> set (n_bcasts s') \<and>
     (\<forall>i. set (p_got (n_peer s i)) \<subseteq> set (p_got (n_peer s' i)))"

lemma acked_mono: "net_le s s' \<Longrightarrow> acked C s i k \<Longrightarrow> acked C s' i k"
  unfolding acked_def net_le_def by blast

lemma packet_ok_mono: "net_le s s' \<Longrightarrow> packet_ok C s x \<Longrightarrow> packet_ok C s' x"
  unfolding packet_ok_def using acked_mono [of s s' C "fst x"] unfolding net_le_def by blast

lemma net_arrive_simps [simp]:
  "n_peer (net_arrive i p' r w s) = (n_peer s)(i := p')" "n_bcasts (net_arrive i p' r w s) = n_bcasts s"
  "n_wire (net_arrive i p' r w s) = w" "n_up (net_arrive i p' r w s) = (n_up s)(i := r \<noteq> Panic)"
  by (simp_all add: net_arrive_def)

text \<open>What an arriving packet does.\<close>

lemma arrive_cases:
  assumes "codec_ok C" "packet_ok C s (i, m)" "NotifyMsg C nf m spare p = (p', out, r)"
  obtains (push) j data where "(j, data) \<in> set (n_bcasts s)" "nd_Name C i \<noteq> nd_Name C j"
      "out = [(j, pull_packet (crc64 data))]" "nf data (p_u p) = (p_u p', r)"
      "p_mp p' = p_mp p" "p_got p' = p_got p @ [data]"
    | (pull) k where "acked C s i k" "out = []" "r = Ok ()" "p' = p\<lparr> p_mp := (p_mp p)(k := None) \<rparr>"
proof -
  from assms(2) consider (a) j nd data where "m = push_packet nd data" "nd_Encode C j = Some nd"
      "(j, data) \<in> set (n_bcasts s)" "nd_Name C i \<noteq> nd_Name C j"
    | (b) k where "m = pull_packet k" "acked C s i k"
    by (auto simp: packet_ok_def)
  then show thesis
  proof cases
    case a
    with assms(1) have "nd_Decode C nd = Some j" "length nd < 2 ^ 64" by (auto simp: codec_ok_def)
    from NotifyMsg_push [OF this, of nf data spare p] assms(3) a have "recvMsg nf j data p = (p', out, r)" by simp
    with a push show thesis by (auto simp: recvMsg_Ok_iff)
  next
    case b
    with assms(3) pull show thesis by simp
  qed
qed

text \<open>The parts of the invariant.\<close>

lemma net_invD:
  assumes "net_inv C nf u0 s"
  shows "x \<in> set (n_wire s) \<Longrightarrow> packet_ok C s x"
    and "p_mp (n_peer s i) k = Some v \<Longrightarrow> k = crc64 v \<and> (i, v) \<in> set (n_bcasts s)"
    and "finite (dom (p_mp (n_peer s i)))"
    and "d \<in> set (p_got (n_peer s i)) \<Longrightarrow> \<exists>j. nd_Name C j \<noteq> nd_Name C i \<and> (j, d) \<in> set (n_bcasts s)"
    and "(i, d) \<in> set (n_bcasts s) \<Longrightarrow> p_mp (n_peer s i) (crc64 d) \<noteq> None \<or> acked C s i (crc64 d)"
    and "p_u (n_peer s i) = fold (\<lambda>d u. fst (nf d u)) (p_got (n_peer s i)) (u0 i)"
  using assms by (auto simp: net_inv_def)

lemma net_invI:
  assumes "\<And>x. x \<in> set (n_wire s) \<Longrightarrow> packet_ok C s x"
    and "\<And>i k v. p_mp (n_peer s i) k = Some v \<Longrightarrow> k = crc64 v \<and> (i, v) \<in> set (n_bcasts s)"
    and "\<And>i. finite (dom (p_mp (n_peer s i)))"
    and "\<And>i d. d \<in> set (p_got (n_peer s i)) \<Longrightarrow> \<exists>j. nd_Name C j \<noteq> nd_Name C i \<and> (j, d) \<in> set (n_bcasts s)"
    and "\<And>i d. (i, d) \<in> set (n_bcasts s) \<Longrightarrow> p_mp (n_peer s i) (crc64 d) \<noteq> None \<or> acked C s i (crc64 d)"
    and "\<And>i. p_u (n_peer s i) = fold (\<lambda>d u. fst (nf d u)) (p_got (n_peer s i)) (u0 i)"
  shows "net_inv C nf u0 s"
  using assms unfolding net_inv_def by blast

lemma net_inv_init: "net_inv C nf u0 (net_init u0)"
  by (rule net_invI) (simp_all add: net_init_def fresh_def)

lemma net_inv_broadcast:
  assumes inv: "net_inv C nf u0 s"
  shows "net_inv C nf u0 (net_broadcast i data s)"
proof (rule net_invI)
  let ?s = "net_broadcast i data s"
  have le: "net_le s ?s" by (auto simp: net_le_def net_broadcast_def)
  note D = net_invD [OF inv]
  show "packet_ok C ?s x" if "x \<in> set (n_wire ?s)" for x
    using that D(1) packet_ok_mono [OF le] by (simp add: net_broadcast_def)
  show "k = crc64 v \<and> (j, v) \<in> set (n_bcasts ?s)" if "p_mp (n_peer ?s j) k = Some v" for j k v
    using that D(2) [of j k v] by (auto simp: net_broadcast_def split: if_splits)
  show "finite (dom (p_mp (n_peer ?s j)))" for j
    using D(3) [of j] by (simp add: net_broadcast_def)
  show "\<exists>l. nd_Name C l \<noteq> nd_Name C j \<and> (l, d) \<in> set (n_bcasts ?s)" if "d \<in> set (p_got (n_peer ?s j))" for j d
    using that D(4) [of d j] by (auto simp: net_broadcast_def split: if_splits)
  show "p_mp (n_peer ?s j) (crc64 d) \<noteq> None \<or> acked C ?s j (crc64 d)" if "(j, d) \<in> set (n_bcasts ?s)" for j d
    using that D(5) [of j d] acked_mono [OF le, of C j "crc64 d"] by (auto simp: net_broadcast_def)
  show "p_u (n_peer ?s j) = fold (\<lambda>d u. fst (nf d u)) (p_got (n_peer ?s j)) (u0 j)" for j
    using D(6) [of j] by (cases "j = i") (simp_all add: net_broadcast_def)
qed

lemma net_inv_tick:
  assumes inv: "net_inv C nf u0 s" and ord: "set ord = dom (p_mp (n_peer s i))"
  shows "net_inv C nf u0 (net_tick C i ns ord s)"
proof (rule net_invI)
  let ?s = "net_tick C i ns ord s"
  have le: "net_le s ?s" by (simp add: net_le_def net_tick_def)
  have same: "n_peer ?s = n_peer s" "n_bcasts ?s = n_bcasts s" "acked C ?s = acked C s"
    by (simp_all add: acked_def net_tick_def fun_eq_iff)
  note D = net_invD [OF inv]
  have "packet_ok C s (n, m)" if tick: "(n, m) \<in> set (Run_tick C i ns ord (n_peer s i))" for n m
  proof -
    from tick obtain k v nd where "nd_Name C n \<noteq> nd_Name C i" "p_mp (n_peer s i) k = Some v"
        "nd_Encode C i = Some nd" "m = push_packet nd v"
      unfolding Run_tick_sends [OF ord] by blast
    with D(2) [of i k v] show ?thesis by (auto simp: packet_ok_def)
  qed
  then show "packet_ok C ?s x" if "x \<in> set (n_wire ?s)" for x
    using that D(1) packet_ok_mono [OF le, of C x] by (cases x) (auto simp: net_tick_def)
qed (use net_invD [OF inv] in \<open>simp_all add: net_tick_def acked_def\<close>)

lemma net_inv_deliver:
  assumes inv: "net_inv C nf u0 s" and C: "codec_ok C" and w: "n_wire s = xs @ (i, m) # ys"
    and arr: "NotifyMsg C nf m spare (n_peer s i) = (p', out, r)"
  shows "net_inv C nf u0 (net_arrive i p' r (xs @ ys @ out) s)"
proof -
  let ?s = "net_arrive i p' r (xs @ ys @ out) s"
  note D = net_invD [OF inv]
  have ok: "packet_ok C s (i, m)" and rest: "x \<in> set (xs @ ys) \<Longrightarrow> packet_ok C s x" for x
    using D(1) w by auto
  from C ok arr show ?thesis
  proof (cases rule: arrive_cases)
    case (push j data)
    have le: "net_le s ?s" using push by (auto simp: net_le_def)
    have ack: "acked C ?s j (crc64 data)"
      unfolding acked_def using push by (intro exI [of _ i] exI [of _ data]) (simp)
    show ?thesis
    proof (rule net_invI)
      show "packet_ok C ?s x" if "x \<in> set (n_wire ?s)" for x
        using that rest packet_ok_mono [OF le, of C x] ack push(3) by (auto simp: packet_ok_def)
      show "p_u (n_peer ?s l) = fold (\<lambda>d u. fst (nf d u)) (p_got (n_peer ?s l)) (u0 l)" for l
        using D(6) [of l] push by auto
      show "\<exists>l'. nd_Name C l' \<noteq> nd_Name C l \<and> (l', d) \<in> set (n_bcasts ?s)" if "d \<in> set (p_got (n_peer ?s l))" for l d
        proof (cases "l = i \<and> d = data")
        case True
        with push(1,2) show ?thesis by (auto intro!: exI [of _ j])
      next
        case False
        with that D(4) [of d l] push(6) show ?thesis by (cases "l = i") auto
      qed
      show "p_mp (n_peer ?s l) (crc64 d) \<noteq> None \<or> acked C ?s l (crc64 d)" if "(l, d) \<in> set (n_bcasts ?s)" for l d
        using that D(5) [of l d] acked_mono [OF le, of C l "crc64 d"] push(5) by auto
    qed (use D(2,3) push in \<open>simp_all split: if_splits\<close>)
  next
    case (pull k)
    have le: "net_le s ?s" using pull by (auto simp: net_le_def)
    show ?thesis
    proof (rule net_invI)
      show "packet_ok C ?s x" if "x \<in> set (n_wire ?s)" for x
        using that rest packet_ok_mono [OF le, of C x] pull(2) by (simp)
      show "k' = crc64 v \<and> (l, v) \<in> set (n_bcasts ?s)" if "p_mp (n_peer ?s l) k' = Some v" for l k' v
        using that D(2) [of l k' v] pull(4) by (auto split: if_splits)
      show "p_mp (n_peer ?s l) (crc64 d) \<noteq> None \<or> acked C ?s l (crc64 d)" if "(l, d) \<in> set (n_bcasts ?s)" for l d
        using that D(5) [of l d] acked_mono [OF le, of C l "crc64 d"] acked_mono [OF le pull(1)] pull(4)
        by auto
    qed (use D(3,4,6) pull in \<open>simp_all split: if_splits\<close>)
  qed
qed

lemma net_inv_smaller:
  assumes inv: "net_inv C nf u0 s" and "n_peer s' = n_peer s" "n_bcasts s' = n_bcasts s" "set (n_wire s') \<subseteq> set (n_wire s)"
  shows "net_inv C nf u0 s'"
proof (rule net_invI)
  have le: "net_le s s'" using assms by (simp add: net_le_def)
  show "packet_ok C s' x" if "x \<in> set (n_wire s')" for x
    using that net_invD(1) [OF inv, of x] packet_ok_mono [OF le, of C x] assms(4) by blast
qed (use net_invD [OF inv] assms(2,3) in \<open>simp_all add: acked_def\<close>)

lemma net_inv_step: "net_step C nf s s' \<Longrightarrow> codec_ok C \<Longrightarrow> net_inv C nf u0 s \<Longrightarrow> net_inv C nf u0 s'"
proof (induction rule: net_step.induct)
  case (step_lose s xs x ys)
  from step_lose(3) show ?case by (rule net_inv_smaller) (use step_lose(1) in auto)
next
  case (step_stop s i)
  from step_stop(2) show ?case by (rule net_inv_smaller) auto
qed (simp_all add: net_inv_broadcast net_inv_tick net_inv_deliver)

lemma net_reach_inv: "net_reach C nf u0 s \<Longrightarrow> codec_ok C \<Longrightarrow> net_inv C nf u0 s"
  by (induction rule: net_reach.induct) (simp_all add: net_inv_init net_inv_step)

section \<open>Delivery\<close>

text \<open>While an entry is kept, every running member can still get it: a round, and the packet arrives.\<close>

lemma kept_entry_can_arrive:
  assumes reach: "net_reach C nf u0 s" and C: "codec_ok C"
    and kept: "p_mp (n_peer s i) k = Some d" and enc: "nd_Encode C i = Some nd"
    and up: "n_up s i" "n_up s n" and other: "nd_Name C n \<noteq> nd_Name C i"
  shows "\<exists>s'. net_reach C nf u0 s' \<and> d \<in> set (p_got (n_peer s' n))"
proof -
  have "finite (dom (p_mp (n_peer s i)))" using net_invD(3) [OF net_reach_inv [OF reach C]] .
  then obtain ord where ord: "set ord = dom (p_mp (n_peer s i))" "distinct ord"
    using finite_distinct_list by blast
  let ?t = "net_tick C i [n] ord s"
  have t: "net_reach C nf u0 ?t" using reach step_tick [OF up(1) ord(2,1)] by (rule reach_step)
  have "(n, push_packet nd d) \<in> set (n_wire ?t)"
    using Run_tick_sends [OF ord(1), of n "push_packet nd d" C i "[n]"] kept enc other
    by (auto simp: net_tick_def)
  then obtain xs ys where w: "n_wire ?t = xs @ (n, push_packet nd d) # ys" by (auto dest: split_list)
  have dec: "nd_Decode C nd = Some i" "length nd < 2 ^ 64" using C enc by (auto simp: codec_ok_def)
  obtain p' out r where arr: "recvMsg nf i d (n_peer ?t n) = (p', out, r)" by (cases "recvMsg nf i d (n_peer ?t n)") auto
  then have "NotifyMsg C nf (push_packet nd d) [] (n_peer ?t n) = (p', out, r)"
    using NotifyMsg_push [OF dec, of nf d "[]"] by simp
  from step_deliver [OF _ w this] have "net_step C nf ?t (net_arrive n p' r (xs @ ys @ out) ?t)"
    using up(2) by (simp add: net_tick_def)
  from reach_step [OF t this] arr show ?thesis
    by (intro exI [of _ "net_arrive n p' r (xs @ ys @ out) ?t"]) (auto simp: recvMsg_Ok_iff)
qed

text \<open>Whatever the network goes through, a node is handed only data that another node has broadcast, and
  what its notify function has made of its state is the result of that data alone, in the order it came.\<close>

theorem gossip_no_forgery:
  assumes "net_reach C nf u0 s" "codec_ok C"
  shows "\<exists>ds. p_u (n_peer s i) = fold (\<lambda>d u. fst (nf d u)) ds (u0 i) \<and>
    (\<forall>d \<in> set ds. \<exists>j. nd_Name C j \<noteq> nd_Name C i \<and> (j, d) \<in> set (n_bcasts s))"
  using net_invD(4) [OF net_reach_inv [OF assms], of _ i] net_invD(6) [OF net_reach_inv [OF assms], of i] by blast

text \<open>C25: A broadcast is kept, and so sent again every second, until another node has been handed a broadcast
  of the same node with the same sum.\<close>

theorem gossip_kept_until_received:
  assumes "net_reach C nf u0 s" "codec_ok C" "(i, d) \<in> set (n_bcasts s)"
  shows "(\<exists>v. p_mp (n_peer s i) (crc64 d) = Some v \<and> crc64 v = crc64 d \<and> (i, v) \<in> set (n_bcasts s)) \<or>
    (\<exists>j d'. nd_Name C j \<noteq> nd_Name C i \<and> d' \<in> set (p_got (n_peer s j)) \<and> crc64 d' = crc64 d \<and>
       (i, d') \<in> set (n_bcasts s))"
proof (cases "p_mp (n_peer s i) (crc64 d)")
  case None
  with net_invD(5) [OF net_reach_inv [OF assms(1,2)] assms(3)] show ?thesis by (auto simp: acked_def)
next
  case (Some v)
  with net_invD(2) [OF net_reach_inv [OF assms(1,2)], of i "crc64 d" v] show ?thesis by auto
qed

section \<open>The first acknowledgement ends it\<close>

text \<open>Nothing is on its way and nothing is kept: then nothing is handed over until something is broadcast.\<close>

definition quiet :: "('nd, 'u) net \<Rightarrow> bool" where
  "quiet s \<longleftrightarrow> n_wire s = [] \<and> (\<forall>i. p_mp (n_peer s i) = Map.empty)"

lemma quiet_step:
  assumes "net_step C nf s s'" "quiet s" "n_bcasts s' = n_bcasts s"
  shows "quiet s' \<and> n_peer s' = n_peer s"
  using assms
  by (cases rule: net_step.cases) (auto simp: quiet_def net_broadcast_def net_tick_def Run_tick_def List.map_filter_def)

lemma net_step_bcasts: "net_step C nf s s' \<Longrightarrow> length (n_bcasts s) \<le> length (n_bcasts s')"
  by (cases rule: net_step.cases) (auto simp: net_broadcast_def net_tick_def)

lemma net_steps_bcasts: "(net_step C nf)\<^sup>*\<^sup>* s s' \<Longrightarrow> length (n_bcasts s) \<le> length (n_bcasts s')"
  by (induction rule: rtranclp_induct) (auto dest: net_step_bcasts)

lemma quiet_for_good:
  assumes "(net_step C nf)\<^sup>*\<^sup>* s s'" "quiet s" "length (n_bcasts s') = length (n_bcasts s)"
  shows "quiet s' \<and> n_peer s' = n_peer s"
  using assms
proof (induction rule: rtranclp_induct)
  case (step t t')
  have len: "length (n_bcasts t) = length (n_bcasts s)"
    using step.prems(2) net_steps_bcasts [OF step.hyps(1)] net_step_bcasts [OF step.hyps(2)] by simp
  with step have t: "quiet t" "n_peer t = n_peer s" by simp_all
  have "n_bcasts t' = n_bcasts t"
    using step.hyps(2) len step.prems(2) by (cases rule: net_step.cases) (auto simp: net_broadcast_def net_tick_def)
  from quiet_step [OF step.hyps(2) t(1) this] t(2) show ?case by simp
qed simp

text \<open>
  A broadcast of \<open>i\<close> that reaches \<open>j\<close> and whose packet to \<open>n\<close> is lost: after the acknowledgement of \<open>j\<close> the
  network is quiet, with all nodes up, and \<open>n\<close> gets the data in no run without another broadcast.
\<close>

theorem gossip_forgets_lost:
  assumes C: "codec_ok C" and enc: "nd_Encode C i = Some nd"
    and names: "nd_Name C j \<noteq> nd_Name C i" "nd_Name C n \<noteq> nd_Name C i" "n \<noteq> j"
    and fine: "snd (nf d (u0 j)) \<noteq> Panic"
  shows "\<exists>s. net_reach C nf u0 s \<and> (i, d) \<in> set (n_bcasts s) \<and> (\<forall>l. n_up s l) \<and>
    (\<forall>s'. (net_step C nf)\<^sup>*\<^sup>* s s' \<and> length (n_bcasts s') = length (n_bcasts s) \<longrightarrow> p_got (n_peer s' n) = [])"
proof -
  let ?P = "push_packet nd d" and ?k = "crc64 d"
  have dec: "nd_Decode C nd = Some i" "length nd < 2 ^ 64" using C enc by (auto simp: codec_ok_def)
  have ij: "i \<noteq> j" "i \<noteq> n" using names by auto
  define s1 where "s1 = net_broadcast i d (net_init u0)"
  have r1: "net_reach C nf u0 s1"
    unfolding s1_def by (rule reach_step [OF reach_init step_broadcast]) (simp add: net_init_def)
  have mp1: "p_mp (n_peer s1 i) = [?k \<mapsto> d]"
    by (simp add: s1_def net_broadcast_def net_init_def fresh_def)
  define s2 where "s2 = net_tick C i [n, j] [?k] s1"
  have r2: "net_reach C nf u0 s2"
    unfolding s2_def by (rule reach_step [OF r1 step_tick]) (simp_all add: mp1, simp_all add: s1_def net_broadcast_def net_init_def)
  have w2: "n_wire s2 = [] @ (n, ?P) # [(j, ?P)]"
    using enc names mp1
    by (simp add: s2_def net_tick_def s1_def net_broadcast_def net_init_def Run_tick_def broadcast_def List.map_filter_def)
  define s3 where "s3 = s2\<lparr> n_wire := [] @ [(j, ?P)] \<rparr>"
  have r3: "net_reach C nf u0 s3" unfolding s3_def by (rule reach_step [OF r2 step_lose [OF w2]])
  have w3: "n_wire s3 = [] @ (j, ?P) # []" by (simp add: s3_def)
  have pj: "n_peer s3 j = fresh (u0 j)" "n_peer s3 i = Broadcast d (fresh (u0 i))" "n_up s3 = (\<lambda>_. True)"
    "n_peer s3 l = (if l = i then Broadcast d (fresh (u0 i)) else fresh (u0 l))" "n_bcasts s3 = [(i, d)]" for l
    using ij by (simp_all add: s3_def s2_def net_tick_def s1_def net_broadcast_def net_init_def)
  obtain u r where nf: "nf d (u0 j) = (u, r)" by (cases "nf d (u0 j)")
  define p' where "p' = (fresh (u0 j))\<lparr> p_h := ?k, p_u := u, p_got := [d] \<rparr>"
  have a3: "NotifyMsg C nf ?P [] (n_peer s3 j) = (p', [(i, pull_packet ?k)], r)"
    using NotifyMsg_push [OF dec, of nf d "[]"] nf pj(1) by (simp add: recvMsg_def fresh_def p'_def)
  define s4 where "s4 = net_arrive j p' r ([] @ [] @ [(i, pull_packet ?k)]) s3"
  have r4: "net_reach C nf u0 s4"
    unfolding s4_def by (rule reach_step [OF r3 step_deliver [OF _ w3 a3]]) (simp add: pj)
  define q where "q = (n_peer s4 i)\<lparr> p_mp := (p_mp (n_peer s4 i))(?k := None) \<rparr>"
  define s5 where "s5 = net_arrive i q (Ok ()) ([] @ [] @ []) s4"
  have r5: "net_reach C nf u0 s5"
    unfolding s5_def
    by (rule reach_step [OF r4 step_deliver [where m = "pull_packet ?k" and spare = "[]"]])
      (use fine nf in \<open>simp_all add: s4_def pj q_def\<close>)
  have "n_wire s5 = []" "\<forall>l. n_up s5 l" "(i, d) \<in> set (n_bcasts s5)" "p_got (n_peer s5 n) = []"
    using fine nf names ij by (simp_all add: s5_def s4_def pj q_def fresh_def)
  moreover have "p_mp (n_peer s5 l) = Map.empty" for l
    using ij by (simp add: s5_def s4_def pj q_def fresh_def p'_def fun_eq_iff)
  ultimately have "quiet s5" by (simp add: quiet_def)
  with r5 \<open>\<forall>l. n_up s5 l\<close> \<open>(i, d) \<in> set (n_bcasts s5)\<close> \<open>p_got (n_peer s5 n) = []\<close> show ?thesis
    by (intro exI [of _ s5] conjI allI impI) (auto dest: quiet_for_good)
qed

section \<open>A sample network\<close>

text \<open>Nodes with one-byte names, which are their encodings; the notify function collects what it gets.\<close>

definition byte_nodes :: "byte nodes" where
  "byte_nodes = \<lparr> nd_Name = (\<lambda>b. [b]), nd_Encode = (\<lambda>b. Some [b]),
     nd_Decode = (\<lambda>bs. case bs of [b] \<Rightarrow> Some b | _ \<Rightarrow> None) \<rparr>"

definition collect :: "bytes \<Rightarrow> (bytes list, unit) act" where
  "collect data u = (u @ [data], Ok ())"

lemma byte_nodes_ok: "codec_ok byte_nodes"
  by (simp add: codec_ok_def byte_nodes_def)

theorem gossip_forgets_lost_witness:
  "\<exists>s. net_reach byte_nodes collect (\<lambda>_. []) s \<and> (1, lit ''tx'') \<in> set (n_bcasts s) \<and> (\<forall>l. n_up s l) \<and>
    (\<forall>s'. (net_step byte_nodes collect)\<^sup>*\<^sup>* s s' \<and> length (n_bcasts s') = length (n_bcasts s) \<longrightarrow>
       p_got (n_peer s' 3) = [])"
  by (rule gossip_forgets_lost [OF byte_nodes_ok, where nd = "[1]" and j = 2])
    (simp_all add: byte_nodes_def collect_def)

lemma sample_broadcast: "net_reach byte_nodes collect (\<lambda>_. []) (net_broadcast 1 d (net_init (\<lambda>_. [])))"
  by (rule reach_step [OF reach_init step_broadcast]) (simp add: net_init_def)

theorem gossip_kept_until_received_witness:
  "\<exists>v. p_mp (n_peer (net_broadcast 1 (lit ''tx'') (net_init (\<lambda>_ :: byte. [] :: bytes list))) 1) (crc64 (lit ''tx'')) = Some v"
proof -
  have "(1, lit ''tx'') \<in> set (n_bcasts (net_broadcast 1 (lit ''tx'') (net_init (\<lambda>_ :: byte. [] :: bytes list))))"
    by (simp add: net_broadcast_def)
  from gossip_kept_until_received [OF sample_broadcast byte_nodes_ok this] show ?thesis
    by (auto simp: net_broadcast_def net_init_def fresh_def)
qed

text \<open>Node 1 broadcasts, and node 2 gets it.\<close>

lemma sample_received: "\<exists>s. net_reach byte_nodes collect (\<lambda>_. []) s \<and> lit ''tx'' \<in> set (p_got (n_peer s 2))"
  by (rule kept_entry_can_arrive [OF sample_broadcast [of "lit ''tx''"] byte_nodes_ok,
      where i = 1 and k = "crc64 (lit ''tx'')" and nd = "[1]"])
    (simp_all add: net_broadcast_def net_init_def byte_nodes_def)

theorem gossip_no_forgery_witness:
  "\<exists>s ds. net_reach byte_nodes collect (\<lambda>_. []) s \<and> lit ''tx'' \<in> set (p_got (n_peer s 2)) \<and>
    p_u (n_peer s 2) = fold (\<lambda>d u. fst (collect d u)) ds [] \<and>
    (\<forall>d \<in> set ds. \<exists>j. nd_Name byte_nodes j \<noteq> nd_Name byte_nodes 2 \<and> (j, d) \<in> set (n_bcasts s))"
proof -
  obtain s where s: "net_reach byte_nodes collect (\<lambda>_. []) s" "lit ''tx'' \<in> set (p_got (n_peer s 2))"
    using sample_received by blast
  from gossip_no_forgery [OF s(1) byte_nodes_ok, of 2] s show ?thesis by blast
qed

section \<open>Packets that take a node down\<close>

text \<open>C26: A node survives a packet exactly when it has four bytes, with what follows it in its array; if it
  is a push or a pull, twelve; if it is a push, the encoded node it announces within the array, and within
  the packet when it decodes. Every other packet panics, whatever the state of the node.\<close>

theorem NotifyMsg_panics_iff:
  fixes C :: "'nd nodes" and p :: "'u p2p"
  assumes "\<And>d u. snd (nf d u) \<noteq> Panic"
  shows "snd (snd (NotifyMsg C nf data spare p)) = Panic \<longleftrightarrow>
    length (data @ spare) < 4 \<or>
    (let op = take 4 (data @ spare); rest = drop 12 data; len = unat (le_word (take 8 (drop 4 data)) :: u64) in
      (op = lit ''push'' \<or> op = lit ''pull'') \<and> length data < 12 \<or>
      op = lit ''push'' \<and> (length (rest @ spare) < len \<or>
        length rest < len \<and> nd_Decode C (take len (rest @ spare)) \<noteq> None))"
proof -
  have rm: "snd (snd (recvMsg nf n d p)) \<noteq> Panic" for n :: 'nd and d
    using assms [of d "p_u p"] by (cases "nf d (p_u p)") (simp add: recvMsg_def)
  consider "length (data @ spare) < 4" | "4 \<le> length (data @ spare)" "length data < 12" | "12 \<le> length data"
    by linarith
  then show ?thesis
  proof cases
    case 1
    then show ?thesis by (simp add: NotifyMsg_def cap_to_def slice_to_def)
  next
    case 2
    then have "or_panic p (slice_from data 4) (\<lambda>data. or_panic p (LE_Uint64 data) (f data)) = (p, [], Panic)"
      for f :: "bytes \<Rightarrow> u64 \<Rightarrow> ('nd, 'u) effect"
      by (auto simp: slice_from_def LE_Uint64_def)
    with 2 show ?thesis by (auto simp: NotifyMsg_def cap_to_def slice_to_def)
  next
    case 3
    then show ?thesis using rm
      by (auto simp: NotifyMsg_def cap_to_def slice_to_def slice_from_def LE_Uint64_def Let_def
          lit_tags(3) [symmetric] split: option.splits)
  qed
qed

theorem NotifyMsg_panics_iff_witness:
  "snd (snd (NotifyMsg byte_nodes collect (lit ''push'') (lit ''spare'') (fresh []))) = Panic"
  unfolding NotifyMsg_panics_iff [of collect, simplified collect_def, simplified] by (simp add: lit_def)

section \<open>Stopping\<close>

text \<open>Nothing ever makes the channel of a node: \<open>Stop\<close> asks, and neither it nor the loop returns.\<close>

theorem Stop_never_returns:
  assumes "p2p_New create config u = Ok p" "(life (p_ch p))\<^sup>*\<^sup>* (Looping, NotCalled) x"
  shows "fst x = Looping \<and> snd x \<in> {NotCalled, Asking}"
proof -
  have "p_ch p = None" using p2p_New_fresh [OF assms(1)] by (simp add: fresh_def)
  with assms(2) have "(life None)\<^sup>*\<^sup>* (Looping, NotCalled) x" by simp
  then show ?thesis by (induction rule: rtranclp_induct) (auto elim: life_elim)
qed

text \<open>Over a channel that has been made, both can.\<close>

lemma Stop_returns_with_channel: "(life (Some ()))\<^sup>*\<^sup>* (Looping, NotCalled) (Returned, ShutDown)"
proof -
  have "life (Some ()) (Looping, NotCalled) (Looping, Asking)" by (rule life_call)
  moreover have "life (Some ()) (Looping, Asking) (Answering, Waiting)" by (rule life_ask) simp
  moreover have "life (Some ()) (Answering, Waiting) (Returned, ShutDown)" by (rule life_answer) simp
  ultimately show ?thesis by (meson rtranclp.rtrancl_into_rtrancl rtranclp.rtrancl_refl)
qed

section \<open>Equal sums\<close>

text \<open>Two broadcasts with the same sum: the second takes the place of the first, which is never sent again.\<close>

lemma crc_step_numeral:
  "crc_step (numeral w) = (if (numeral w :: u64) AND 1 = 1 then drop_bit 1 (numeral w) XOR ECMA else drop_bit 1 (numeral w))"
  "crc_step 1 = ECMA" "crc_step 0 = 0"
  by (simp_all add: crc_step_def)

lemma crc_table_steps: "crc_table i = crc_step (crc_step (crc_step (crc_step (crc_step (crc_step (crc_step (crc_step (ucast i))))))))"
  by (simp add: crc_table_def numeral_eq_Suc)

lemma collision_zero:
  "crc_byte 0xFFFFFFFFFFFFFFFF 0 = 0xE0525E8C9B98C0A6"
  "crc_byte 0xE0525E8C9B98C0A6 0 = 0xBDEFB268AEB5A578"
  "crc_byte 0xBDEFB268AEB5A578 0 = 0x1506A0398F2624B9"
  "crc_byte 0x1506A0398F2624B9 0 = 0xB5A79CAE1E460B4"
  "crc_byte 0xB5A79CAE1E460B4 0 = 0x341B2D2011BC1FCA"
  "crc_byte 0x341B2D2011BC1FCA 0 = 0xAECBD62C4B0B28C1"
  "crc_byte 0xAECBD62C4B0B28C1 0 = 0x1E5AFB3713A8DCA4"
  "crc_byte 0x1E5AFB3713A8DCA4 0 = 0x49958C9ABD7D353F"
  "crc_byte 0x49958C9ABD7D353F 0 = 0x4D3E48A0C29ECA8F"
  by (simp_all add: crc_byte_def crc_table_steps crc_step_numeral ECMA_def)

lemma collision_other:
  "crc_byte 0xFFFFFFFFFFFFFFFF 133 = 0xE1C08623B037CEB8"
  "crc_byte 0xE1C08623B037CEB8 30 = 0xBDEE20B0019E0A76"
  "crc_byte 0xBDEE20B0019E0A76 14 = 0x1506A1AB57890F16"
  "crc_byte 0x1506A1AB57890F16 175 = 0xB5A79CB733CCF9F"
  "crc_byte 0xB5A79CB733CCF9F 43 = 0x341B2D20102EC765"
  "crc_byte 0x341B2D20102EC765 175 = 0xAECBD62C4B0ABA19"
  "crc_byte 0xAECBD62C4B0ABA19 216 = 0x1E5AFB3713A8DD36"
  "crc_byte 0x1E5AFB3713A8DD36 146 = 0x49958C9ABD7D353E"
  "crc_byte 0x49958C9ABD7D353E 1 = 0x4D3E48A0C29ECA8F"
  by (simp_all add: crc_byte_def crc_table_steps crc_step_numeral ECMA_def)

lemma all_ones: "NOT 0 = (0xFFFFFFFFFFFFFFFF :: u64)"
  by simp

lemma collision: "crc64 [0, 0, 0, 0, 0, 0, 0, 0, 0] = crc64 [133, 30, 14, 175, 43, 175, 216, 146, 1]"
  by (simp only: crc64_def sum_Sum_def h_Write_def h_Reset_def h_Sum64_def Let_def snd_conv foldl.simps all_ones
      collision_zero collision_other)

lemma broadcast_lost_by_collision:
  "\<exists>a b. a \<noteq> b \<and> (\<forall>p. p_mp (Broadcast b (Broadcast a p)) (crc64 a) = Some b)"
  by (rule exI [of _ "[0, 0, 0, 0, 0, 0, 0, 0, 0]"], rule exI [of _ "[133, 30, 14, 175, 43, 175, 216, 146, 1]"])
    (simp add: collision)

text \<open>
  \<open>Broadcast\<close> takes the lock of the node and \<open>recvMsg\<close> does not, and both use the one hash: when a broadcast
  runs between the writing and the reading, the acknowledgement carries the sum of other data.
\<close>

lemma acknowledgement_of_other_data:
  "h_Sum64 (h_Write b (h_Reset (h_Write a (h_Reset h)))) = crc64 b"
  by (simp only: crc64_def sum_Sum_def h_Reset_def Let_def snd_conv)

end
