(* ===== verification/GossipPool.thy ===== *)
theory GossipPool
  imports P2pSpec HandlersSpec RpcSpec
begin

text \<open>
  The gossip network with the transaction pool on top of every node: what a pool holds through gossip alone
  was broadcast by another node and is signed by its sender, and the pool keeps its bounds.
\<close>

text \<open>One call of the notify function.\<close>

lemma node_notify_members:
  assumes "tx \<in> set (p_List (fst (fst (fst (node_notify ed D T cfg decTx data s)))))"
  shows "tx \<in> set (p_List (fst (fst s))) \<or>
    (\<exists>tx0 t. decTx data = Ok tx0 \<and> tx = tx0\<lparr> tTime := t \<rparr> \<and> verify_signed ed tx0 = Ok True)"
proof -
  obtain p d clk where s: "s = ((p, d), clk)" by (metis prod.exhaust)
  show ?thesis
  proof (cases "decTx data")
    case (Ok tx0)
    obtain p' d' r where add: "pool_Add ed D T cfg (clk 0) tx0 (p, d) = ((p', d'), r)" by (metis prod.exhaust)
    have mem: "tx \<in> set (p_List p')" using assms s Ok add by (simp add: node_notify_def recv_def)
    show ?thesis
    proof (cases "r = Ok ()")
      case True
      with mem pool_Add_members [OF add] Ok s verify_True_signed [OF pool_Add_Ok(3), OF add [unfolded True]]
      show ?thesis by auto
    next
      case False
      then have "p' = p" using pool_Add_refused [of ed D T cfg "clk 0" tx0 p d] add by simp
      with mem s show ?thesis by simp
    qed
  qed (use assms s in \<open>simp_all add: node_notify_def recv_def\<close>)
qed

lemma node_notify_pool_ok:
  assumes "pool_ok (p_List (fst (fst s)))"
  shows "pool_ok (p_List (fst (fst (fst (node_notify ed D T cfg decTx data s)))))"
proof -
  obtain p d clk where s: "s = ((p, d), clk)" by (metis prod.exhaust)
  have keep: "pool_ok (p_List (fst (fst (pool_Add ed D T cfg now tx (p, d)))))" for now tx
  proof (cases "snd (pool_Add ed D T cfg now tx (p, d)) = Ok ()")
    case True
    then obtain s' where "pool_Add ed D T cfg now tx (p, d) = (s', Ok ())" by (metis prod.collapse)
    with pool_Add_Ok [OF this] show ?thesis
      using Push_pool_ok [of "p_List p" "tx\<lparr> tTime := now \<rparr>"] assms s by simp
  qed (use assms s in \<open>simp add: pool_Add_refused\<close>)
  show ?thesis
    using assms s keep by (cases "decTx data") (simp_all add: node_notify_def recv_def split: prod.splits, metis fst_conv)
qed

text \<open>C24: However the gossip network runs, a pool that is filled by it alone keeps its bounds, and every
  transaction in it carries the valid signature of its sender and is, but for the time of its arrival, what
  another node has broadcast.\<close>

theorem gossip_pool_sound:
  assumes "net_reach C (node_notify ed D T cfg decTx) (\<lambda>i. ((Txpool_New, d0 i), clk i)) s" "codec_ok C"
  shows "pool_ok (p_List (fst (fst (p_u (n_peer s i))))) \<and>
    (\<forall>tx \<in> set (p_List (fst (fst (p_u (n_peer s i))))). verify_signed ed tx = Ok True \<and>
      (\<exists>j data tx0 t. nd_Name C j \<noteq> nd_Name C i \<and> (j, data) \<in> set (n_bcasts s) \<and> decTx data = Ok tx0 \<and>
         tx = tx0\<lparr> tTime := t \<rparr>))"
proof -
  let ?nf = "node_notify ed D T cfg decTx" and ?u0 = "\<lambda>i. ((Txpool_New, d0 i), clk i)"
  let ?Q = "\<lambda>d. \<exists>j. nd_Name C j \<noteq> nd_Name C i \<and> (j, d) \<in> set (n_bcasts s)"
  let ?P = "\<lambda>u :: (Txpool \<times> _) \<times> (nat \<Rightarrow> i64). pool_ok (p_List (fst (fst u))) \<and>
    (\<forall>tx \<in> set (p_List (fst (fst u))). verify_signed ed tx = Ok True \<and>
      (\<exists>data tx0 t. ?Q data \<and> decTx data = Ok tx0 \<and> tx = tx0\<lparr> tTime := t \<rparr>))"
  note inv = net_reach_inv [OF assms]
  have signed: "verify_signed ed (tx\<lparr> tTime := t \<rparr>) = verify_signed ed tx" for tx t
    by (simp add: verify_signed_def Let_def)
  have empty: "?P ((Txpool_New, d0 i), clk i)"
    by (simp add: Txpool_New_def heap_Init_def pool_ok_def slots_def)
  have "?P (fold (\<lambda>d u. fst (?nf d u)) (p_got (n_peer s i)) (?u0 i))"
  proof (rule fold_invariant [where Q = ?Q])
    show "?Q d" if "d \<in> set (p_got (n_peer s i))" for d using net_invD(4) [OF inv that] .
    show "?P (fst (?nf d u))" if q: "?Q d" and p: "?P u" for d u
    proof (intro conjI ballI)
      show "pool_ok (p_List (fst (fst (fst (?nf d u)))))" using p by (intro node_notify_pool_ok) simp
      fix tx assume "tx \<in> set (p_List (fst (fst (fst (?nf d u)))))"
      from node_notify_members [OF this]
      have "verify_signed ed tx = Ok True \<and> (\<exists>data tx0 t. ?Q data \<and> decTx data = Ok tx0 \<and> tx = tx0\<lparr> tTime := t \<rparr>)"
      proof (elim disjE exE conjE)
        fix tx0 t
        assume new: "decTx d = Ok tx0" "tx = tx0\<lparr> tTime := t \<rparr>" "verify_signed ed tx0 = Ok True"
        with q signed [of t tx0] show ?thesis by metis
      qed (use p in blast)
      then show "verify_signed ed tx = Ok True"
        "\<exists>data tx0 t. ?Q data \<and> decTx data = Ok tx0 \<and> tx = tx0\<lparr> tTime := t \<rparr>" by simp_all
    qed
  qed (use empty in simp)
  then show ?thesis unfolding net_invD(6) [OF inv, of i, symmetric] by blast
qed

text \<open>A sample run: node 1 broadcasts a signed transaction and node 2 takes it.\<close>

abbreviation sample_notify ::
  "bytes \<Rightarrow> ((Txpool \<times> _) \<times> (nat \<Rightarrow> i64), unit) act" where
  "sample_notify \<equiv> node_notify pool_ed (bgStore map_badger) (bgTransaction map_badger) [] (\<lambda>_. Ok pool_tx)"

theorem gossip_pool_sound_witness:
  "\<exists>s. net_reach byte_nodes sample_notify (\<lambda>i. ((Txpool_New, pool_db), \<lambda>_. 7)) s \<and>
    lit ''tx'' \<in> set (p_got (n_peer s 2)) \<and> pool_ok (p_List (fst (fst (p_u (n_peer s 2)))))"
proof -
  let ?u0 = "\<lambda>i. ((Txpool_New, pool_db), \<lambda>_. 7)" and ?b = "net_broadcast 1 (lit ''tx'') (net_init (\<lambda>i. ((Txpool_New, pool_db), \<lambda>_. 7)))"
  have "net_reach byte_nodes sample_notify ?u0 ?b"
    by (rule reach_step [OF reach_init step_broadcast]) (simp add: net_init_def)
  from kept_entry_can_arrive [OF this byte_nodes_ok, where i = 1 and k = "crc64 (lit ''tx'')" and nd = "[1]" and n = 2]
  obtain s where s: "net_reach byte_nodes sample_notify ?u0 s" "lit ''tx'' \<in> set (p_got (n_peer s 2))"
    by (auto simp: net_broadcast_def net_init_def byte_nodes_def)
  from gossip_pool_sound [OF s(1) byte_nodes_ok, of 2] s show ?thesis by blast
qed

end
