(* ===== verification/Logger.thy ===== *)
theory Logger
  imports Strconv
begin

text \<open>
  The log file (\<open>until/logger/logger.go\<close>): levels, prefixes, and the writer that moves a full or old file
  out of the way. A file system is a directory of names and the contents of the files behind them; what
  \<open>os.Rename\<close>, \<open>os.OpenFile\<close> and \<open>os.Stat\<close> do to it is written out, and whether the operating system lets a
  file be opened is a parameter. Commands that are started in the background are recorded.
\<close>

section \<open>Levels and prefixes\<close>

definition PanicLevel :: i64 where "PanicLevel = 0"
definition FatalLevel :: i64 where "FatalLevel = 1"
definition ErrorLevel :: i64 where "ErrorLevel = 2"
definition WarnLevel :: i64 where "WarnLevel = 3"
definition InfoLevel :: i64 where "InfoLevel = 4"
definition DebugLevel :: i64 where "DebugLevel = 5"

definition ByDay :: i64 where "ByDay = 0"
definition ByWeek :: i64 where "ByWeek = 1"
definition ByMonth :: i64 where "ByMonth = 2"
definition BySize :: i64 where "BySize = 3"

text \<open>The escape sequence that sets a colour, the text, the one that resets it.\<close>

definition coloured :: "nat \<Rightarrow> gostring \<Rightarrow> gostring" where
  "coloured c s = [0x1B] @ lit ''['' @ dec c @ lit ''m'' @ s @ [0x1B] @ lit ''[0m''"

definition red :: "gostring \<Rightarrow> gostring" where "red = coloured 91"
definition green :: "gostring \<Rightarrow> gostring" where "green = coloured 92"
definition yellow :: "gostring \<Rightarrow> gostring" where "yellow = coloured 93"
definition blue :: "gostring \<Rightarrow> gostring" where "blue = coloured 94"
definition magenta :: "gostring \<Rightarrow> gostring" where "magenta = coloured 95"
definition GetRedPrefix :: "gostring \<Rightarrow> gostring" where "GetRedPrefix = coloured 91"

section \<open>State\<close>

record LogFile =
  lf_level :: i64
  lf_saveMode :: i64
  lf_saveDays :: i64
  lf_logTime :: i64
  lf_fileName :: gostring
  lf_filesize :: i64
  lf_fileFd :: "nat option"

record files =
  f_dir :: "gostring \<Rightarrow> nat option"
  f_data :: "nat \<Rightarrow> bytes"
  f_next :: nat

text \<open>\<open>l_lf\<close> is the global \<open>logFile\<close>, \<open>l_out\<close> the file name in the copy the log package
  writes to, once it has one.\<close>

record logger =
  l_lf :: LogFile
  l_out :: "gostring option"
  l_fs :: files
  l_cmds :: "gostring list list"
  l_console :: "bytes list"

definition logFile_init :: LogFile where
  "logFile_init = \<lparr> lf_level = ErrorLevel, lf_saveMode = ByDay, lf_saveDays = 2, lf_logTime = 0, lf_fileName = [],
     lf_filesize = 1024 * 1024, lf_fileFd = None \<rparr>"

definition log_Config :: "gostring \<Rightarrow> i64 \<Rightarrow> logger \<Rightarrow> logger" where
  "log_Config logFolder level l =
     l\<lparr> l_lf := (l_lf l)\<lparr> lf_fileName := logFolder, lf_level := level \<rparr>, l_out := Some logFolder \<rparr>"

definition GetLogFile :: "logger \<Rightarrow> LogFile" where
  "GetLogFile l = l_lf l"

definition SetLevel :: "i64 \<Rightarrow> logger \<Rightarrow> logger" where
  "SetLevel v l = l\<lparr> l_lf := (l_lf l)\<lparr> lf_level := v \<rparr> \<rparr>"

definition SetSaveMode :: "i64 \<Rightarrow> logger \<Rightarrow> logger" where
  "SetSaveMode v l = l\<lparr> l_lf := (l_lf l)\<lparr> lf_saveMode := v \<rparr> \<rparr>"

definition SetSaveDays :: "i64 \<Rightarrow> logger \<Rightarrow> logger" where
  "SetSaveDays v l = l\<lparr> l_lf := (l_lf l)\<lparr> lf_saveDays := v \<rparr> \<rparr>"

definition SetSaveSize :: "i64 \<Rightarrow> logger \<Rightarrow> logger" where
  "SetSaveSize v l = l\<lparr> l_lf := (l_lf l)\<lparr> lf_filesize := v \<rparr> \<rparr>"

section \<open>Files\<close>

text \<open>\<open>os.OpenFile\<close> with create and append; \<open>os.Rename\<close> to another name, which it replaces.\<close>

definition fs_open :: "gostring \<Rightarrow> files \<Rightarrow> nat \<times> files" where
  "fs_open nm fs =
     (case f_dir fs nm of
        Some i \<Rightarrow> (i, fs)
      | None \<Rightarrow> (f_next fs, fs\<lparr> f_dir := (f_dir fs)(nm \<mapsto> f_next fs), f_data := (f_data fs)(f_next fs := []),
          f_next := Suc (f_next fs) \<rparr>))"

definition fs_rename :: "gostring \<Rightarrow> gostring \<Rightarrow> files \<Rightarrow> files \<times> bool" where
  "fs_rename a b fs =
     (case f_dir fs a of
        None \<Rightarrow> (fs, False)
      | Some i \<Rightarrow> (fs\<lparr> f_dir := (f_dir fs)(b \<mapsto> i, a := None) \<rparr>, True))"

section \<open>Moving the file away\<close>

record civil =
  y_Year :: nat
  y_Month :: nat
  y_Day :: nat
  y_Hour :: nat
  y_Minute :: nat

definition pad :: "nat \<Rightarrow> nat \<Rightarrow> gostring" where
  "pad w n = replicate (w - length (dec n)) 48 @ dec n"

definition rotated :: "gostring \<Rightarrow> civil \<Rightarrow> gostring" where
  "rotated nm t = nm @ lit ''_'' @ pad 4 (y_Year t) @ pad 2 (y_Month t) @ pad 2 (y_Day t) @ lit ''_'' @
     pad 2 (y_Hour t) @ pad 2 (y_Minute t)"

text \<open>The conversion of an integer to a string: the UTF-8 encoding of the code point.\<close>

definition string_of_rune :: "i64 \<Rightarrow> gostring" where
  "string_of_rune v =
     (let n = sint v; b = \<lambda>x. word_of_int x :: byte in
      if n < 0 \<or> 0x10FFFF < n \<or> 0xD800 \<le> n \<and> n \<le> 0xDFFF then [0xEF, 0xBF, 0xBD]
      else if n < 0x80 then [b n]
      else if n < 0x800 then [b (0xC0 + n div 0x40), b (0x80 + n mod 0x40)]
      else if n < 0x10000 then [b (0xE0 + n div 0x1000), b (0x80 + n div 0x40 mod 0x40), b (0x80 + n mod 0x40)]
      else [b (0xF0 + n div 0x40000), b (0x80 + n div 0x1000 mod 0x40), b (0x80 + n div 0x40 mod 0x40), b (0x80 + n mod 0x40)])"

text \<open>\<open>fileName[0:strings.LastIndex(fileName, "/")]\<close>, when there is one.\<close>

fun last_slash :: "gostring \<Rightarrow> nat option" where
  "last_slash [] = None"
| "last_slash (c # cs) = (case last_slash cs of Some i \<Rightarrow> Some (Suc i) | None \<Rightarrow> if c = 47 then Some 0 else None)"

definition log_dir :: "gostring \<Rightarrow> gostring" where
  "log_dir nm = (case last_slash nm of None \<Rightarrow> lit ''./log/log'' | Some i \<Rightarrow> take i nm @ lit ''/'')"

definition tar_command :: "gostring \<Rightarrow> gostring list" where
  "tar_command f = [lit ''tar'', lit ''-zcf'', f @ lit ''.tar.gz'', f, lit ''--remove-files'']"

definition rm_command :: "gostring \<Rightarrow> i64 \<Rightarrow> gostring list" where
  "rm_command dir days = [lit ''/bin/sh'', lit ''-c'',
     lit ''find '' @ dir @ lit '' -type f -mtime +'' @ string_of_rune days @ lit '' -exec rm {} '' @ [92] @ lit '';'']"

text \<open>Up to ten attempts to open the file; \<open>opens i\<close> says whether the one of number \<open>i\<close> succeeds.\<close>

function open_loop :: "(nat \<Rightarrow> bool) \<Rightarrow> nat \<Rightarrow> gostring \<Rightarrow> nat option \<Rightarrow> files \<Rightarrow> nat option \<times> files" where
  "open_loop opens index nm fd fs =
     (if index < 10
      then if opens index then (case fs_open nm fs of (i, fs) \<Rightarrow> (Some i, fs))
        else open_loop opens (Suc index) nm None fs
      else (fd, fs))"
  by pat_completeness auto
termination by (relation "measure (\<lambda>(opens, index, nm, fd, fs). 10 - index)") auto

declare open_loop.simps [simp del]

definition createLogFile :: "civil \<Rightarrow> (nat \<Rightarrow> bool) \<Rightarrow> logger \<Rightarrow> logger" where
  "createLogFile now opens l =
     (let lf = l_lf l; filename = rotated (lf_fileName lf) now in
      case fs_rename (lf_fileName lf) filename (l_fs l) of (fs, moved) \<Rightarrow>
      case open_loop opens 0 (lf_fileName lf) (lf_fileFd lf) fs of (fd, fs) \<Rightarrow>
        l\<lparr> l_lf := lf\<lparr> lf_fileFd := fd \<rparr>, l_fs := fs,
          l_cmds := l_cmds l @ (if moved then [tar_command filename, rm_command (log_dir (lf_fileName lf)) (lf_saveDays lf)] else []) \<rparr>)"

section \<open>Writing\<close>

text \<open>What the clock and the system say during a call.\<close>

record system =
  s_check :: i64
  s_now :: civil
  s_after :: i64
  s_opens :: "nat \<Rightarrow> bool"

definition new_file :: "system \<Rightarrow> logger \<Rightarrow> logger" where
  "new_file S l =
     (let l = createLogFile (s_now S) (s_opens S) l in l\<lparr> l_lf := (l_lf l)\<lparr> lf_logTime := s_after S \<rparr> \<rparr>)"

definition must_rotate :: "system \<Rightarrow> logger \<Rightarrow> bool" where
  "must_rotate S l =
     (let lf = l_lf l in
      if lf_saveMode lf = BySize
      then (case f_dir (l_fs l) (lf_fileName lf) of
              None \<Rightarrow> True
            | Some i \<Rightarrow> lf_fileFd lf = None \<or> lf_filesize lf <s of_nat (length (f_data (l_fs l) i)))
      else lf_logTime lf + 3600 <s s_check S)"

text \<open>\<open>nm\<close> is the file name of the receiver, which is a copy of the global made by \<open>Config\<close>.\<close>

definition log_Write :: "system \<Rightarrow> gostring \<Rightarrow> bytes \<Rightarrow> logger \<Rightarrow> logger \<times> nat" where
  "log_Write S nm buf l =
     (if nm = [] then (l\<lparr> l_console := l_console l @ [lit ''consol: '' @ buf] \<rparr>, length buf)
      else let l = (if must_rotate S l then new_file S l else l) in
        (case lf_fileFd (l_lf l) of
           None \<Rightarrow> (l\<lparr> l_console := l_console l @ [lit ''log fileFd is nil !'' @ [10]] \<rparr>, length buf)
         | Some i \<Rightarrow>
             (l\<lparr> l_fs := (l_fs l)\<lparr> f_data := (f_data (l_fs l))(i := f_data (l_fs l) i @ buf) \<rparr> \<rparr>, length buf)))"

text \<open>The log package writes to standard error until \<open>Config\<close> has given it the log file.\<close>

definition log_Output :: "system \<Rightarrow> bytes \<Rightarrow> logger \<Rightarrow> logger" where
  "log_Output S buf l =
     (case l_out l of
        None \<Rightarrow> l\<lparr> l_console := l_console l @ [buf] \<rparr>
      | Some nm \<Rightarrow> fst (log_Write S nm buf l))"

text \<open>\<open>line pre msg\<close> is the line the log package makes of the formatted message.\<close>

definition Logf ::
  "i64 \<Rightarrow> gostring \<Rightarrow> (gostring \<Rightarrow> gostring \<Rightarrow> bytes) \<Rightarrow> system \<Rightarrow> gostring \<Rightarrow> logger \<Rightarrow> logger" where
  "Logf level pre line S msg l =
     (if level \<le>s lf_level (l_lf l) then log_Output S (line pre msg) l else l)"

definition Debugf where "Debugf = Logf DebugLevel (blue (lit ''[DEBUG] ''))"
definition Infof where "Infof = Logf InfoLevel (green (lit ''[INFO] ''))"
definition Warnf where "Warnf = Logf WarnLevel (magenta (lit ''[WARN] ''))"
definition Errorf where "Errorf = Logf ErrorLevel (red (lit ''[ERROR] ''))"
definition Fatalf where "Fatalf = Logf FatalLevel (red (lit ''[FATAL] ''))"

section \<open>Set up by the node\<close>

text \<open>\<open>raftconsensus/node.go\<close>, before the node starts; the size is given in megabytes, and the product wraps.\<close>

definition start_logging ::
  "gostring \<Rightarrow> i64 \<Rightarrow> i64 \<Rightarrow> i64 \<Rightarrow> i64 \<Rightarrow> (gostring \<Rightarrow> gostring \<Rightarrow> bytes) \<Rightarrow> system \<Rightarrow> logger \<Rightarrow> logger" where
  "start_logging logFile logLevel logSaveMode logFileSize logSaveDays line S l =
     (let l = SetSaveMode logSaveMode (log_Config logFile logLevel l);
          l = (if logSaveMode = 3 \<and> 0 <s logFileSize then SetSaveSize (logFileSize * 1024 * 1024) l else l)
      in Infof line S (lit ''start raft...'' @ [10]) (SetSaveDays logSaveDays l))"

end
