(* ===== verification/LoggerSpec.thy ===== *)
theory LoggerSpec
  imports Logger
begin

text \<open>
  Properties of the log file: a message goes to the end of the open file and touches nothing else, rotating
  keeps what has been logged under the new name, and the file stays within its limit and one message.
  Then what goes wrong: two rotations within a minute, the number of days in the command that removes old
  files, and the file of a day that lasts an hour.
\<close>

section \<open>Files\<close>

text \<open>Inodes in use are below the next one, and the open file is the one under its name.\<close>

definition files_ok :: "files \<Rightarrow> bool" where
  "files_ok fs \<longleftrightarrow> (\<forall>n i. f_dir fs n = Some i \<longrightarrow> i < f_next fs)"

definition log_ok :: "logger \<Rightarrow> bool" where
  "log_ok l \<longleftrightarrow> files_ok (l_fs l) \<and>
     (\<forall>i. lf_fileFd (l_lf l) = Some i \<longrightarrow> f_dir (l_fs l) (lf_fileName (l_lf l)) = Some i) \<and>
     (\<forall>n m i. f_dir (l_fs l) n = Some i \<and> f_dir (l_fs l) m = Some i \<longrightarrow> n = m)"

lemma rotated_other [simp]: "rotated nm t \<noteq> nm"
  by (simp add: rotated_def lit_def)

text \<open>Moving the file away and opening a new one.\<close>

lemma open_loop_result:
  "open_loop opens k nm fd fs =
    (if \<exists>i. k \<le> i \<and> i < 10 \<and> opens i then (Some (fst (fs_open nm fs)), snd (fs_open nm fs))
     else (if k < 10 then None else fd, fs))"
proof (induction opens k nm fd fs rule: open_loop.induct)
  case (1 opens k nm fd fs)
  consider "\<not> k < 10" | "k < 10" "opens k" | "k < 10" "\<not> opens k" by blast
  then show ?case
  proof cases
    case 2
    then show ?thesis by (subst open_loop.simps) (auto split: prod.splits)
  next
    case 3
    have "(\<exists>i. Suc k \<le> i \<and> i < 10 \<and> opens i) \<longleftrightarrow> (\<exists>i. k \<le> i \<and> i < 10 \<and> opens i)"
      using 3 by (metis Suc_le_eq le_neq_implies_less less_imp_le_nat)
    with 3 1 show ?thesis by (subst open_loop.simps) auto
  qed (subst open_loop.simps, auto)
qed

definition content :: "files \<Rightarrow> gostring \<Rightarrow> bytes option" where
  "content fs n = map_option (f_data fs) (f_dir fs n)"

definition opens_ok :: "system \<Rightarrow> bool" where
  "opens_ok S \<longleftrightarrow> (\<exists>i < 10. s_opens S i)"

text \<open>The name the file is moved to, and that it is not in use.\<close>

abbreviation moved_to :: "system \<Rightarrow> logger \<Rightarrow> gostring" where
  "moved_to S l \<equiv> rotated (lf_fileName (l_lf l)) (s_now S)"

lemma new_file_result:
  assumes "opens_ok S"
  shows "lf_fileName (l_lf (new_file S l)) = lf_fileName (l_lf l)"
    "lf_fileFd (l_lf (new_file S l)) = Some (f_next (l_fs l))"
    "f_next (l_fs (new_file S l)) = Suc (f_next (l_fs l))"
    "f_data (l_fs (new_file S l)) = (f_data (l_fs l))(f_next (l_fs l) := [])"
    "f_dir (l_fs (new_file S l)) =
      (case f_dir (l_fs l) (lf_fileName (l_lf l)) of None \<Rightarrow> f_dir (l_fs l) | Some i \<Rightarrow> (f_dir (l_fs l))(moved_to S l \<mapsto> i))
        (lf_fileName (l_lf l) \<mapsto> f_next (l_fs l))"
proof -
  have result: "open_loop (s_opens S) 0 nm fd fs = (Some (fst (fs_open nm fs)), snd (fs_open nm fs))" for nm fd fs
    using assms open_loop_result [of "s_opens S" 0 nm fd fs] by (auto simp: opens_ok_def)
  define lf where "lf = l_lf l"
  obtain b fs' where mv: "fs_rename (lf_fileName lf) (rotated (lf_fileName lf) (s_now S)) (l_fs l) = (fs', b)"
    by (metis prod.exhaust)
  have fs': "fs' = (case f_dir (l_fs l) (lf_fileName lf) of None \<Rightarrow> l_fs l
      | Some i \<Rightarrow> (l_fs l)\<lparr> f_dir := (f_dir (l_fs l))(rotated (lf_fileName lf) (s_now S) \<mapsto> i, lf_fileName lf := None) \<rparr>)"
    using mv by (auto simp: fs_rename_def split: option.splits)
  have op: "fs_open (lf_fileName lf) fs' = (f_next fs', fs'\<lparr> f_dir := (f_dir fs')(lf_fileName lf \<mapsto> f_next fs'),
      f_data := (f_data fs')(f_next fs' := []), f_next := Suc (f_next fs') \<rparr>)"
    by (auto simp: fs_open_def fs' split: option.splits)
  have nf: "l_fs (new_file S l) = snd (fs_open (lf_fileName lf) fs')"
      "l_lf (new_file S l) = lf\<lparr> lf_fileFd := Some (f_next fs'), lf_logTime := s_after S \<rparr>"
    by (simp_all add: new_file_def createLogFile_def Let_def lf_def [symmetric] mv result op)
  show "lf_fileName (l_lf (new_file S l)) = lf_fileName (l_lf l)"
    "lf_fileFd (l_lf (new_file S l)) = Some (f_next (l_fs l))"
    "f_next (l_fs (new_file S l)) = Suc (f_next (l_fs l))"
    "f_data (l_fs (new_file S l)) = (f_data (l_fs l))(f_next (l_fs l) := [])"
    "f_dir (l_fs (new_file S l)) =
      (case f_dir (l_fs l) (lf_fileName (l_lf l)) of None \<Rightarrow> f_dir (l_fs l) | Some i \<Rightarrow> (f_dir (l_fs l))(moved_to S l \<mapsto> i))
        (lf_fileName (l_lf l) \<mapsto> f_next (l_fs l))"
    unfolding nf op lf_def [symmetric] by (auto simp: fs' split: option.splits)
qed

lemma new_file_ok:
  assumes ok: "log_ok l" and opens: "opens_ok S" and free: "f_dir (l_fs l) (moved_to S l) = None"
  shows "log_ok (new_file S l)"
    and "content (l_fs (new_file S l)) (lf_fileName (l_lf l)) = Some []"
    and "content (l_fs (new_file S l)) (moved_to S l) = content (l_fs l) (lf_fileName (l_lf l))"
    and "m \<noteq> lf_fileName (l_lf l) \<Longrightarrow> m \<noteq> moved_to S l \<Longrightarrow> content (l_fs (new_file S l)) m = content (l_fs l) m"
proof -
  let ?n = "lf_fileName (l_lf l)"
  have below: "f_dir (l_fs l) m = Some i \<Longrightarrow> i \<noteq> f_next (l_fs l)" for m i
    using ok by (fastforce simp: log_ok_def files_ok_def)
  then have unused: "f_dir (l_fs l) m \<noteq> Some (f_next (l_fs l))" for m by blast
  have inj: "f_dir (l_fs l) n = Some i \<Longrightarrow> f_dir (l_fs l) m = Some i \<Longrightarrow> n = m" for n m i
    using ok by (auto simp: log_ok_def)
  have lt: "f_dir (l_fs l) m = Some i \<Longrightarrow> i < Suc (f_next (l_fs l))" for m i
    using ok by (fastforce simp: log_ok_def files_ok_def)
  note new = new_file_result [OF opens, of l]
  show "log_ok (new_file S l)"
    unfolding log_ok_def files_ok_def new
    using inj lt unused free by (auto split: option.splits if_splits)
  show "content (l_fs (new_file S l)) ?n = Some []" by (simp add: content_def new)
  show "content (l_fs (new_file S l)) (moved_to S l) = content (l_fs l) ?n"
    using below free by (auto simp: content_def new split: option.splits)
  show "m \<noteq> ?n \<Longrightarrow> m \<noteq> moved_to S l \<Longrightarrow> content (l_fs (new_file S l)) m = content (l_fs l) m"
    using below by (cases "f_dir (l_fs l) m") (auto simp: content_def new split: option.splits)
qed

section \<open>Writing\<close>

lemma write_fd:
  fixes buf :: bytes
  assumes ok: "log_ok l" and fd: "lf_fileFd (l_lf l) = Some i"
  defines "l' \<equiv> l\<lparr> l_fs := (l_fs l)\<lparr> f_data := (f_data (l_fs l))(i := f_data (l_fs l) i @ buf) \<rparr> \<rparr>"
  shows "log_ok l'" "content (l_fs l') (lf_fileName (l_lf l)) = map_option (\<lambda>c. c @ buf) (content (l_fs l) (lf_fileName (l_lf l)))"
    "m \<noteq> lf_fileName (l_lf l) \<Longrightarrow> content (l_fs l') m = content (l_fs l) m"
proof -
  have at: "f_dir (l_fs l) (lf_fileName (l_lf l)) = Some i" and inj: "f_dir (l_fs l) m = Some i \<Longrightarrow> m = lf_fileName (l_lf l)" for m
    using ok fd by (auto simp: log_ok_def)
  show "log_ok l'" using ok by (simp add: log_ok_def files_ok_def l'_def)
  show "content (l_fs l') (lf_fileName (l_lf l)) = map_option (\<lambda>c. c @ buf) (content (l_fs l) (lf_fileName (l_lf l)))"
    by (simp add: content_def l'_def at)
  show "m \<noteq> lf_fileName (l_lf l) \<Longrightarrow> content (l_fs l') m = content (l_fs l) m"
    using inj by (cases "f_dir (l_fs l) m") (auto simp: content_def l'_def)
qed

text \<open>A write appends the message to the file, which is a new one when the old one was due to be moved
  away, keeps what was logged before under the name it is moved to, and leaves every other file alone; the
  file stays consistent for the next write.\<close>

lemma log_Write_appends:
  assumes "log_ok l" "opens_ok S" "nm = lf_fileName (l_lf l)" "nm \<noteq> []"
    and "f_dir (l_fs l) (moved_to S l) = None" "must_rotate S l \<or> lf_fileFd (l_lf l) \<noteq> None"
    and "log_Write S nm buf l = (l', n)"
  shows "n = length buf \<and> log_ok l' \<and>
    content (l_fs l') nm = Some ((if must_rotate S l then [] else the (content (l_fs l) nm)) @ buf) \<and>
    (must_rotate S l \<longrightarrow> content (l_fs l') (moved_to S l) = content (l_fs l) nm) \<and>
    (\<forall>m. m \<noteq> nm \<and> m \<noteq> moved_to S l \<longrightarrow> content (l_fs l') m = content (l_fs l) m)"
proof (cases "must_rotate S l")
  case True
  note new = new_file_ok [OF assms(1,2,5)] and res = new_file_result [OF assms(2), of l]
  have l': "l' = (new_file S l)\<lparr> l_fs := (l_fs (new_file S l))\<lparr> f_data := (f_data (l_fs (new_file S l)))
      (f_next (l_fs l) := f_data (l_fs (new_file S l)) (f_next (l_fs l)) @ buf) \<rparr> \<rparr>" "n = length buf"
    using assms(4,7) True res(2) by (simp_all add: log_Write_def Let_def)
  note w = write_fd [OF new(1) res(2), where buf = buf, unfolded res(1), folded l'(1)]
  show ?thesis using w new(2-4) True assms(3) l'(2) by simp
next
  case False
  with assms(6) obtain i where fd: "lf_fileFd (l_lf l) = Some i" by auto
  have l': "l' = l\<lparr> l_fs := (l_fs l)\<lparr> f_data := (f_data (l_fs l))(i := f_data (l_fs l) i @ buf) \<rparr> \<rparr>" "n = length buf"
    using assms(4,7) False fd by (simp_all add: log_Write_def Let_def)
  have "content (l_fs l) nm \<noteq> None" using assms(1,3) fd by (auto simp: log_ok_def content_def)
  with write_fd [OF assms(1) fd, where buf = buf, folded l'(1)] False assms(3) l'(2) show ?thesis by auto
qed

text \<open>Signed comparison with a size, as long as sizes are in range.\<close>

lemma within_limit:
  assumes "\<not> limit <s (of_nat k :: i64)" "k < 2 ^ 63" "0 \<le>s limit"
  shows "k \<le> unat limit"
proof -
  have "sint (of_nat k :: i64) = int k"
    using assms(2) by (simp add: signed_of_nat signed_take_bit_int_eq_self)
  moreover have "sint limit = int (unat limit)"
  proof -
    have "0 \<le> sint limit" "sint limit < 2 ^ 64" using assms(3) sint_lt [of limit] by (simp_all add: word_sle_eq)
    then have "uint limit = sint limit" by (simp add: uint_sint take_bit_int_eq_self)
    then show ?thesis by simp
  qed
  ultimately have "int k \<le> int (unat limit)" using assms(1) by (simp only: word_sless_alt not_less)
  then show ?thesis by (simp only: of_nat_le_iff)
qed

text \<open>C27: When files are moved away by size, the file never exceeds its limit by more than the last
  message: the size is tested before every write.\<close>

theorem log_file_bounded:
  assumes "log_ok l" "opens_ok S" "nm = lf_fileName (l_lf l)" "nm \<noteq> []"
    and "f_dir (l_fs l) (moved_to S l) = None" "lf_saveMode (l_lf l) = BySize" "0 \<le>s lf_filesize (l_lf l)"
    and "\<And>c. content (l_fs l) nm = Some c \<Longrightarrow> length c < 2 ^ 63"
    and "log_Write S nm buf l = (l', n)"
  shows "\<exists>c. content (l_fs l') nm = Some c \<and> length c \<le> unat (lf_filesize (l_lf l)) + length buf \<and> suffix buf c"
proof -
  have "must_rotate S l \<or> lf_fileFd (l_lf l) \<noteq> None"
    using assms(6) by (auto simp: must_rotate_def Let_def split: option.splits)
  note result = log_Write_appends [OF assms(1-5) this assms(9)]
  show ?thesis
  proof (cases "must_rotate S l")
    case True
    with result show ?thesis by (auto simp: suffix_def)
  next
    case False
    with assms(3,6) obtain i where i: "f_dir (l_fs l) nm = Some i"
        "\<not> lf_filesize (l_lf l) <s of_nat (length (f_data (l_fs l) i))"
      by (auto simp: must_rotate_def Let_def split: option.splits)
    with assms(7,8) have "length (f_data (l_fs l) i) \<le> unat (lf_filesize (l_lf l))"
      by (intro within_limit) (auto simp: content_def)
    with result False i(1) show ?thesis by (auto simp: content_def suffix_def)
  qed
qed

text \<open>A file of five bytes under a limit of four is moved away; the message starts a new one.\<close>

definition sample_logger :: logger where
  "sample_logger = \<lparr> l_lf = logFile_init\<lparr> lf_fileName := lit ''log'', lf_saveMode := BySize, lf_filesize := 4,
       lf_fileFd := Some 0 \<rparr>, l_out = Some (lit ''log''),
     l_fs = \<lparr> f_dir = [lit ''log'' \<mapsto> 0], f_data = (\<lambda>_. lit ''hello''), f_next = 1 \<rparr>, l_cmds = [], l_console = [] \<rparr>"

definition sample_system :: system where
  "sample_system = \<lparr> s_check = 0, s_now = \<lparr> y_Year = 2021, y_Month = 3, y_Day = 4, y_Hour = 5, y_Minute = 6 \<rparr>,
     s_after = 0, s_opens = (\<lambda>i. i = 2) \<rparr>"

theorem log_file_bounded_witness:
  "\<exists>c. content (l_fs (fst (log_Write sample_system (lit ''log'') (lit ''bye'') sample_logger))) (lit ''log'') = Some c \<and>
    length c \<le> 7 \<and> suffix (lit ''bye'') c"
proof -
  obtain l' n where w: "log_Write sample_system (lit ''log'') (lit ''bye'') sample_logger = (l', n)" by (rule prod.exhaust)
  have "log_ok sample_logger" by (auto simp: log_ok_def files_ok_def sample_logger_def split: if_splits)
  moreover have "opens_ok sample_system" by (auto simp: opens_ok_def sample_system_def)
  moreover have name: "lit ''log'' = lf_fileName (l_lf sample_logger)" "lit ''log'' \<noteq> []" by (simp_all add: sample_logger_def lit_def)
  moreover have "f_dir (l_fs sample_logger) (moved_to sample_system sample_logger) = None"
    using rotated_other [of "lit ''log''" "s_now sample_system"] by (simp add: sample_logger_def del: rotated_other)
  moreover have "lf_saveMode (l_lf sample_logger) = BySize" "0 \<le>s lf_filesize (l_lf sample_logger)"
    by (simp_all add: sample_logger_def word_sle_eq)
  moreover have "length c < 2 ^ 63" if "content (l_fs sample_logger) (lit ''log'') = Some c" for c
    using that by (auto simp: content_def sample_logger_def lit_def)
  ultimately have "\<exists>c. content (l_fs l') (lit ''log'') = Some c \<and>
      length c \<le> unat (lf_filesize (l_lf sample_logger)) + length (lit ''bye'') \<and> suffix (lit ''bye'') c"
    using w by (rule log_file_bounded)
  moreover have "unat (lf_filesize (l_lf sample_logger)) + length (lit ''bye'') = 7"
    by (simp add: sample_logger_def lit_def)
  ultimately show ?thesis unfolding w fst_conv by metis
qed

section \<open>What goes wrong\<close>

text \<open>
  The name a file is moved to has minutes: the second rotation within a minute replaces what the first one
  has moved away, which no name leads to any more.
\<close>

lemma second_rotation_in_a_minute:
  assumes ok: "log_ok l" and opens: "opens_ok S" and free: "f_dir (l_fs l) (moved_to S l) = None"
    and old: "f_dir (l_fs l) (lf_fileName (l_lf l)) = Some i"
  shows "f_dir (l_fs (new_file S l)) (moved_to S l) = Some i"
    and "f_dir (l_fs (new_file S (new_file S l))) m \<noteq> Some i"
proof -
  note new = new_file_result [OF opens]
  have "f_dir (l_fs l) m = Some i \<Longrightarrow> m = lf_fileName (l_lf l)" and "i \<noteq> f_next (l_fs l)" "i \<noteq> Suc (f_next (l_fs l))"
    using ok old by (fastforce simp: log_ok_def files_ok_def)+
  then show "f_dir (l_fs (new_file S l)) (moved_to S l) = Some i"
    "f_dir (l_fs (new_file S (new_file S l))) m \<noteq> Some i"
    by (auto simp: new old)
qed

text \<open>The age in the command that removes old files is not a number: 2 days become the control character 2.\<close>

lemma rm_command_days:
  "rm_command dir (lf_saveDays logFile_init) = [lit ''/bin/sh'', lit ''-c'',
     lit ''find '' @ dir @ lit '' -type f -mtime +'' @ [2] @ lit '' -exec rm {} '' @ [92] @ lit '';'']"
  by (simp add: rm_command_def logFile_init_def string_of_rune_def)

text \<open>In the mode by day the file is moved away every hour.\<close>

lemma ByDay_is_hourly:
  "lf_saveMode (l_lf l) = ByDay \<Longrightarrow> must_rotate S l \<longleftrightarrow> lf_logTime (l_lf l) + 3600 <s s_check S"
  by (simp add: must_rotate_def Let_def ByDay_def BySize_def)

end
