(* ===== verification/RateLimit.thy ===== *)
theory RateLimit
  imports Prelude
begin

text \<open>
  The rate limiter of the RPC interface (\<open>rpcclient/limiter.go\<close>, \<open>interceptor.go\<close>): one token bucket per
  client address, kept in a cache, asked before every call. The bucket (\<open>golang.org/x/time/rate\<close>) and the
  cache (\<open>bluele/gcache\<close>) are records of operations; the cache may forget an entry at any time, by age
  or for room. Buckets are shared by reference: a cache entry is the address of a bucket.
\<close>

section \<open>The libraries\<close>

text \<open>\<open>ca_Get\<close> may change the cache, which orders its entries by use.\<close>

record 'c gcache =
  ca_New :: 'c
  ca_Get :: "gostring \<Rightarrow> 'c \<Rightarrow> 'c \<times> nat option"
  ca_SetWithExpire :: "gostring \<Rightarrow> nat \<Rightarrow> 'c \<Rightarrow> 'c"
  ca_bound :: "'c \<Rightarrow> gostring \<Rightarrow> nat option"

record 'l bucket =
  bu_NewLimiter :: "nat \<Rightarrow> nat \<Rightarrow> 'l"
  bu_Allow :: "i64 \<Rightarrow> 'l \<Rightarrow> 'l \<times> bool"

text \<open>
  What is relied on: an entry that is found is the one last set under the key. \<open>ca_bound\<close> is what the
  cache holds; nothing but setting adds to it.
\<close>

locale cache_laws =
  fixes G :: "'c gcache"
  assumes new_empty: "ca_bound G (ca_New G) = Map.empty"
    and get_found: "ca_Get G k c = (c', Some v) \<Longrightarrow> ca_bound G c k = Some v"
    and get_keeps: "ca_Get G k c = (c', r) \<Longrightarrow> ca_bound G c' \<subseteq>\<^sub>m ca_bound G c"
    and set_bound: "ca_bound G (ca_SetWithExpire G k v c) \<subseteq>\<^sub>m (ca_bound G c)(k \<mapsto> v)"

section \<open>The limiter\<close>

record ('c, 'l) IPRateLimiter =
  ip_cache :: 'c
  ip_r :: nat
  ip_b :: nat
  ip_heap :: "nat \<Rightarrow> 'l"
  ip_next :: nat

definition NewIPRateLimiter :: "'c gcache \<Rightarrow> (nat \<Rightarrow> 'l) \<Rightarrow> nat \<Rightarrow> nat \<Rightarrow> ('c, 'l) IPRateLimiter" where
  "NewIPRateLimiter G h r b = \<lparr> ip_cache = ca_New G, ip_r = r, ip_b = b, ip_heap = h, ip_next = 0 \<rparr>"

definition AddIP ::
  "'c gcache \<Rightarrow> 'l bucket \<Rightarrow> gostring \<Rightarrow> ('c, 'l) IPRateLimiter \<Rightarrow> ('c, 'l) IPRateLimiter \<times> nat" where
  "AddIP G B ip L =
     (let a = ip_next L in
      (L\<lparr> ip_heap := (ip_heap L)(a := bu_NewLimiter B (ip_r L) (ip_b L)), ip_next := Suc a,
          ip_cache := ca_SetWithExpire G ip a (ip_cache L) \<rparr>, a))"

definition GetLimiter ::
  "'c gcache \<Rightarrow> 'l bucket \<Rightarrow> gostring \<Rightarrow> ('c, 'l) IPRateLimiter \<Rightarrow> ('c, 'l) IPRateLimiter \<times> nat" where
  "GetLimiter G B ip L =
     (case ca_Get G ip (ip_cache L) of
        (c, None) \<Rightarrow> AddIP G B ip (L\<lparr> ip_cache := c \<rparr>)
      | (c, Some a) \<Rightarrow> (L\<lparr> ip_cache := c \<rparr>, a))"

text \<open>\<open>limiter.Allow()\<close> at time \<open>now\<close>.\<close>

definition Allow :: "'l bucket \<Rightarrow> i64 \<Rightarrow> nat \<Rightarrow> ('c, 'l) IPRateLimiter \<Rightarrow> ('c, 'l) IPRateLimiter \<times> bool" where
  "Allow B now a L = (case bu_Allow B now (ip_heap L a) of (l, ok) \<Rightarrow> (L\<lparr> ip_heap := (ip_heap L)(a := l) \<rparr>, ok))"

section \<open>The interceptor\<close>

definition whiteListIPs :: "gostring list" where
  "whiteListIPs = [lit ''127.0.0.1'']"

text \<open>The map made once of the list.\<close>

definition loadWhiteList :: "gostring \<Rightarrow> bool" where
  "loadWhiteList ip = (ip \<in> set whiteListIPs)"

text \<open>\<open>strings.Split(addr, ":")[0]\<close>.\<close>

definition split_host :: "gostring \<Rightarrow> gostring" where
  "split_host = takeWhile (\<lambda>c. c \<noteq> 58)"

definition ipInterceptor ::
  "'c gcache \<Rightarrow> 'l bucket \<Rightarrow> i64 \<Rightarrow> gostring option \<Rightarrow> ('s, 'r) act \<Rightarrow>
    (('c, 'l) IPRateLimiter \<times> 's, 'r) act" where
  "ipInterceptor G B now peer handler s =
     (case peer of
        None \<Rightarrow> (s, Err (ErrText ''context information error''))
      | Some addr \<Rightarrow>
          let ip = split_host addr; run = (\<lambda>L. case handler (snd s) of (t, r) \<Rightarrow> ((L, t), r)) in
          if \<not> loadWhiteList ip
          then (case GetLimiter G B ip (fst s) of (L, a) \<Rightarrow>
                case Allow B now a L of (L, ok) \<Rightarrow>
                  if \<not> ok then ((L, snd s), Err (ErrText ''request too frequently'')) else run L)
          else run (fst s))"

section \<open>Separate buckets\<close>

text \<open>Cached buckets have been allocated, and no two addresses share one.\<close>

definition limiter_ok :: "'c gcache \<Rightarrow> ('c, 'l) IPRateLimiter \<Rightarrow> bool" where
  "limiter_ok G L \<longleftrightarrow> (\<forall>ip a. ca_bound G (ip_cache L) ip = Some a \<longrightarrow> a < ip_next L) \<and>
     (\<forall>ip jp a. ca_bound G (ip_cache L) ip = Some a \<and> ca_bound G (ip_cache L) jp = Some a \<longrightarrow> ip = jp)"

lemma map_leD: "m \<subseteq>\<^sub>m m' \<Longrightarrow> m k = Some v \<Longrightarrow> m' k = Some v"
  by (force simp: map_le_def dom_def)

context cache_laws
begin

lemma new_ok: "limiter_ok G (NewIPRateLimiter G h r b)"
  by (simp add: limiter_ok_def NewIPRateLimiter_def new_empty)

lemma smaller_ok:
  assumes "limiter_ok G L" "ca_bound G c \<subseteq>\<^sub>m ca_bound G (ip_cache L)"
  shows "limiter_ok G (L\<lparr> ip_cache := c \<rparr>)"
proof -
  have "ca_bound G c ip = Some a \<Longrightarrow> ca_bound G (ip_cache L) ip = Some a" for ip a
    using assms(2) by (rule map_leD)
  with assms(1) show ?thesis unfolding limiter_ok_def by simp blast
qed

lemma AddIP_ok:
  assumes "limiter_ok G L" "AddIP G B ip L = (L', a)"
  shows "limiter_ok G L'" "a = ip_next L" "ip_next L' = Suc (ip_next L)"
    "x \<noteq> a \<Longrightarrow> ip_heap L' x = ip_heap L x"
    "ca_bound G (ip_cache L') jp = Some b \<Longrightarrow> if jp = ip then b = a else ca_bound G (ip_cache L) jp = Some b"
proof -
  have c: "ip_cache L' = ca_SetWithExpire G ip a (ip_cache L)" "a = ip_next L" "ip_next L' = Suc (ip_next L)"
    using assms(2) by (auto simp: AddIP_def Let_def)
  have le: "ca_bound G (ip_cache L') jp = Some b \<Longrightarrow> if jp = ip then b = a else ca_bound G (ip_cache L) jp = Some b" for jp b
    using map_leD [OF set_bound, of ip a "ip_cache L" jp b] by (simp add: c(1) split: if_splits)
  show "limiter_ok G L'"
    unfolding limiter_ok_def
  proof (intro conjI allI impI)
    show "b < ip_next L'" if "ca_bound G (ip_cache L') jp = Some b" for jp b
      using le [OF that] assms(1) c by (auto simp: limiter_ok_def split: if_splits intro: less_SucI)
    show "jp = kp" if "ca_bound G (ip_cache L') jp = Some b \<and> ca_bound G (ip_cache L') kp = Some b" for jp kp b
      using le [of jp b] le [of kp b] that assms(1) c(2) by (force simp: limiter_ok_def split: if_splits)
  qed
  show "a = ip_next L" "ip_next L' = Suc (ip_next L)" using c by simp_all
  show "x \<noteq> a \<Longrightarrow> ip_heap L' x = ip_heap L x" using assms(2) by (auto simp: AddIP_def Let_def)
  show "ca_bound G (ip_cache L') jp = Some b \<Longrightarrow> if jp = ip then b = a else ca_bound G (ip_cache L) jp = Some b"
    by (rule le)
qed

text \<open>A request from one address never touches the bucket of another.\<close>

lemma request_isolated:
  assumes ok: "limiter_ok G L" and req: "ipInterceptor G B now (Some addr) handler (L, t) = ((L', t'), r)"
    and other: "ca_bound G (ip_cache L) jp = Some b" "jp \<noteq> split_host addr"
  shows "limiter_ok G L' \<and> ip_heap L' b = ip_heap L b \<and> ca_bound G (ip_cache L') jp \<in> {None, Some b}"
proof (cases "loadWhiteList (split_host addr)")
  case True
  with req have "L' = L" by (auto simp: ipInterceptor_def Let_def split: prod.splits)
  with ok other show ?thesis by simp
next
  case False
  let ?ip = "split_host addr"
  obtain L1 a where get: "GetLimiter G B ?ip L = (L1, a)" by (rule prod.exhaust)
  obtain L2 al where allow: "Allow B now a L1 = (L2, al)" by (rule prod.exhaust)
  have L': "L' = L2" using req False get allow by (auto simp: ipInterceptor_def Let_def split: prod.splits if_splits)
  have L2: "ip_cache L2 = ip_cache L1" "ip_next L2 = ip_next L1" "x \<noteq> a \<Longrightarrow> ip_heap L2 x = ip_heap L1 x" for x
    using allow by (auto simp: Allow_def split: prod.splits)
  obtain c q where cg: "ca_Get G ?ip (ip_cache L) = (c, q)" by (rule prod.exhaust)
  have sub: "ca_bound G c \<subseteq>\<^sub>m ca_bound G (ip_cache L)" using get_keeps [OF cg] .
  have below: "b < ip_next L" using ok other(1) by (auto simp: limiter_ok_def)
  have c_jp: "ca_bound G c jp \<in> {None, Some b}"
    using map_leD [OF sub, of jp] other(1) by (cases "ca_bound G c jp") auto
  show ?thesis
  proof (cases q)
    case None
    with get cg have add: "AddIP G B ?ip (L\<lparr> ip_cache := c \<rparr>) = (L1, a)" by (simp add: GetLimiter_def)
    note A = AddIP_ok [OF smaller_ok [OF ok sub] add]
    have "b \<noteq> a" using A(2) below by simp
    moreover have "ca_bound G (ip_cache L1) jp \<in> {None, Some b}"
      using A(5) [of jp] other(2) c_jp by (cases "ca_bound G (ip_cache L1) jp") auto
    ultimately show ?thesis using A(1,4) L2 L' by (simp add: limiter_ok_def)
  next
    case (Some a')
    with get cg have L1: "L1 = L\<lparr> ip_cache := c \<rparr>" "a = a'" by (auto simp: GetLimiter_def)
    have "ca_bound G (ip_cache L) ?ip = Some a" using get_found [OF cg [unfolded Some]] L1 by simp
    with ok other have "b \<noteq> a" by (auto simp: limiter_ok_def)
    with L1 L2 L' c_jp smaller_ok [OF ok sub] show ?thesis by (simp add: limiter_ok_def)
  qed
qed

end

section \<open>A cache that forgets the least recently used\<close>

type_synonym lru = "nat \<times> (gostring \<times> nat) list"

definition lru_get :: "gostring \<Rightarrow> lru \<Rightarrow> lru \<times> nat option" where
  "lru_get k c =
     (case map_of (snd c) k of
        None \<Rightarrow> (c, None)
      | Some v \<Rightarrow> ((fst c, (k, v) # filter (\<lambda>x. fst x \<noteq> k) (snd c)), Some v))"

definition lru_set :: "gostring \<Rightarrow> nat \<Rightarrow> lru \<Rightarrow> lru" where
  "lru_set k v c = (fst c, take (fst c) ((k, v) # filter (\<lambda>x. fst x \<noteq> k) (snd c)))"

definition lru_cache :: "nat \<Rightarrow> lru gcache" where
  "lru_cache cap = \<lparr> ca_New = (cap, []), ca_Get = lru_get, ca_SetWithExpire = lru_set, ca_bound = (\<lambda>c. map_of (snd c)) \<rparr>"

lemma map_of_take: "map_of (take n xs) \<subseteq>\<^sub>m map_of xs"
proof -
  have "map_of xs = map_of (drop n xs) ++ map_of (take n xs)"
    by (metis append_take_drop_id map_of_append)
  then show ?thesis by (simp add: map_le_map_add)
qed

lemma map_of_filter_key: "map_of (filter (\<lambda>x. fst x \<noteq> k) xs) j = (if j = k then None else map_of xs j)"
  by (induction xs) auto

interpretation lru: cache_laws "lru_cache cap"
proof
  show "ca_bound (lru_cache cap) (ca_New (lru_cache cap)) = Map.empty" by (simp add: lru_cache_def)
  show "ca_Get (lru_cache cap) k c = (c', Some v) \<Longrightarrow> ca_bound (lru_cache cap) c k = Some v" for k c c' v
    by (auto simp: lru_cache_def lru_get_def split: option.splits)
  show "ca_Get (lru_cache cap) k c = (c', r) \<Longrightarrow> ca_bound (lru_cache cap) c' \<subseteq>\<^sub>m ca_bound (lru_cache cap) c" for k c c' r
    by (auto simp: lru_cache_def lru_get_def map_le_def map_of_filter_key split: option.splits if_splits)
  show "ca_bound (lru_cache cap) (ca_SetWithExpire (lru_cache cap) k v c) \<subseteq>\<^sub>m (ca_bound (lru_cache cap) c)(k \<mapsto> v)" for k v c
  proof -
    have "map_of ((k, v) # filter (\<lambda>x. fst x \<noteq> k) (snd c)) \<subseteq>\<^sub>m (map_of (snd c))(k \<mapsto> v)"
      by (auto simp: map_le_def map_of_filter_key)
    from map_le_trans [OF map_of_take this] show ?thesis by (simp only: lru_cache_def lru_set_def gcache.simps snd_conv)
  qed
qed

section \<open>Properties\<close>

text \<open>C28: Requests from one address never use up the tokens of another: whatever the cache forgets, the
  bucket another address has is untouched, and stays that address's or is forgotten.\<close>

theorem ipInterceptor_isolates:
  assumes "cache_laws G" "limiter_ok G L" "ipInterceptor G B now (Some addr) handler (L, t) = ((L', t'), r)"
    "ca_bound G (ip_cache L) jp = Some b" "jp \<noteq> split_host addr"
  shows "limiter_ok G L' \<and> ip_heap L' b = ip_heap L b \<and> ca_bound G (ip_cache L') jp \<in> {None, Some b}"
  using assms by (rule cache_laws.request_isolated)

definition sample_bucket :: "nat bucket" where
  "sample_bucket = \<lparr> bu_NewLimiter = (\<lambda>r b. b), bu_Allow = (\<lambda>_ l. (l - 1, 0 < l)) \<rparr>"

definition sample_limiter :: "(lru, nat) IPRateLimiter" where
  "sample_limiter = \<lparr> ip_cache = (1000, [(lit ''10.0.0.1'', 0)]), ip_r = 100, ip_b = 1000, ip_heap = (\<lambda>_. 5), ip_next = 1 \<rparr>"

theorem ipInterceptor_isolates_witness:
  "ip_heap (fst (fst (ipInterceptor (lru_cache 1000) sample_bucket 0 (Some (lit ''10.0.0.2:7'')) (\<lambda>s. (s, Ok ()))
    (sample_limiter, ())))) 0 = 5"
proof -
  let ?X = "ipInterceptor (lru_cache 1000) sample_bucket 0 (Some (lit ''10.0.0.2:7'')) (\<lambda>s. (s, Ok ())) (sample_limiter, ())"
  have run: "?X = ((fst (fst ?X), snd (fst ?X)), snd ?X)" by (simp only: prod.collapse)
  have "limiter_ok (lru_cache 1000) sample_limiter"
    by (simp add: limiter_ok_def lru_cache_def sample_limiter_def)
  moreover have "ca_bound (lru_cache 1000) (ip_cache sample_limiter) (lit ''10.0.0.1'') = Some 0"
    by (simp add: lru_cache_def sample_limiter_def)
  moreover have "lit ''10.0.0.1'' \<noteq> split_host (lit ''10.0.0.2:7'')" by (simp add: split_host_def lit_def)
  ultimately have "ip_heap (fst (fst ?X)) 0 = ip_heap sample_limiter 0"
    using ipInterceptor_isolates [OF lru.cache_laws_axioms _ run] by blast
  then show ?thesis by (simp add: sample_limiter_def)
qed

text \<open>
  The host is cut off at the first colon. Of an IPv6 client that leaves the bracket and the first group:
  all clients of a group share a bucket, and the loopback address is not on the list of those let through.
\<close>

lemma IPv6_clients_share: "58 \<notin> set g \<Longrightarrow> split_host (91 # g @ 58 # rest) = 91 # g"
  by (simp add: split_host_def takeWhile_append)

lemma IPv6_loopback_limited:
  "split_host (lit ''[::1]:50051'') = lit ''[''" "\<not> loadWhiteList (split_host (lit ''[::1]:50051''))"
  by (simp_all add: split_host_def loadWhiteList_def whiteListIPs_def lit_def)

end
