(* ===== verification/NodeClient.thy ===== *)
theory NodeClient
  imports RaftCluster Strconv
begin

text \<open>
  The command-line client of the cluster management (\<open>raftRpcClient/noderpc_client.go\<close>), down to the call
  of \<open>HandleNode\<close> on the node. \<open>Err\<close> is \<open>log.Fatal\<close>, which ends the program with a message. The password
  typed in and the remote call are parameters; a call may fail.
\<close>

section \<open>The client\<close>

definition PASSWD :: gostring where
  "PASSWD = lit ''kto123456''"

definition identityCheck :: "gostring outcome \<Rightarrow> unit outcome" where
  "identityCheck pwd =
     (if PASSWD \<noteq> or_zero [] pwd then Err (ErrText ''Wrong password,please try again!'') else Ok ())"

text \<open>What is printed: a fixed text, the text of an answer, the fields of the cluster's description.\<close>

datatype line = Text string | Answer answer | Info clusterInfo

type_synonym reply = "answer option \<times> clusterInfo option"

text \<open>\<open>conn.Call("NodeManage.HandleNode", &req, &res)\<close>; its failure is fatal.\<close>

definition call_or_fatal ::
  "string \<Rightarrow> (Request \<Rightarrow> ('s, reply) act) \<Rightarrow> Request \<Rightarrow> (reply \<Rightarrow> line list outcome) \<Rightarrow> ('s, line list) act" where
  "call_or_fatal msg call req f s =
     (case call req s of
        (s, Err e) \<Rightarrow> (s, Err (ErrText msg))
      | (s, Panic) \<Rightarrow> (s, Panic)
      | (s, Ok res) \<Rightarrow> (s, f res))"

definition show_result :: "reply \<Rightarrow> line list outcome" where
  "show_result res = Ok (case fst res of None \<Rightarrow> [] | Some a \<Rightarrow> [Answer a])"

text \<open>The description is a pointer, which is dereferenced.\<close>

definition show_info :: "reply \<Rightarrow> line list outcome" where
  "show_info res = (case snd res of None \<Rightarrow> Panic | Some ci \<Rightarrow> Ok [Info ci])"

definition after_check :: "unit outcome \<Rightarrow> ('s, line list) act \<Rightarrow> ('s, line list) act" where
  "after_check r f s = (case r of Ok _ \<Rightarrow> f s | Err e \<Rightarrow> (s, Err e) | Panic \<Rightarrow> (s, Panic))"

definition handle_add :: "gostring list \<Rightarrow> (Request \<Rightarrow> ('s, reply) act) \<Rightarrow> ('s, line list) act" where
  "handle_add args call s =
     (if length args \<noteq> 3 then (s, Err (ErrText ''[ADD]:Wrong parameter!''))
      else case ParseInt 10 64 (args ! 1) of (i, failed) \<Rightarrow>
        if failed then (s, Err (ErrText ''[ADD]Wrong parameter''))
        else call_or_fatal ''NodeManage addNode error: '' call
          \<lparr> rq_Type = 0, rq_Id = word_of_int i, rq_Peer = args ! 2 \<rparr> show_result s)"

definition handle_delete :: "gostring list \<Rightarrow> (Request \<Rightarrow> ('s, reply) act) \<Rightarrow> ('s, line list) act" where
  "handle_delete args call s =
     (if length args \<noteq> 2 then (s, Err (ErrText ''[DEL]:Wrong parameter!''))
      else case ParseInt 10 64 (args ! 1) of (i, failed) \<Rightarrow>
        if failed then (s, Err (ErrText ''[DEL]Wrong parameter!''))
        else call_or_fatal ''NodeManage delete Node error: '' call
          \<lparr> rq_Type = 1, rq_Id = word_of_int i, rq_Peer = [] \<rparr>
          (\<lambda>res. obind (show_result res) (\<lambda>ls. Ok (Text ''Request to delete node'' # ls))) s)"

definition handle_get :: "(Request \<Rightarrow> ('s, reply) act) \<Rightarrow> ('s, line list) act" where
  "handle_get call = call_or_fatal ''NodeManage get Node info error: '' call \<lparr> rq_Type = 2, rq_Id = 0, rq_Peer = [] \<rparr> show_info"

definition handleRequst ::
  "gostring outcome \<Rightarrow> gostring list \<Rightarrow> (Request \<Rightarrow> ('s, reply) act) \<Rightarrow> ('s, line list) act" where
  "handleRequst pwd args call s =
     (case args of
        [] \<Rightarrow> (s, Ok [Text ''[handleRequst] : Wrong parameter!''])
      | arg # _ \<Rightarrow>
          if arg \<in> {lit ''-a'', lit ''-A'', lit ''add''} then after_check (identityCheck pwd) (handle_add args call) s
          else if arg \<in> {lit ''-d'', lit ''-D'', lit ''delete''}
          then after_check (identityCheck pwd) (handle_delete args call) s
          else if arg \<in> {lit ''-g'', lit ''-G'', lit ''get''} then after_check (identityCheck pwd) (handle_get call) s
          else if arg \<in> {lit ''-h'', lit ''-H'', lit ''--help''} then (s, Ok [Text ''Usage:''])
          else (s, Err (ErrText ''[default]:Wrong parameter!'')))"

text \<open>The remote end: \<open>HandleNode\<close> of a node, whose error is always nil.\<close>

definition node_call ::
  "('d, 't, 'c, 's) env \<Rightarrow> bool \<Rightarrow> u64 \<Rightarrow> (u64 \<times> gostring) list \<Rightarrow> Request \<Rightarrow> (('d, 'c, 's) raftNode, reply) act" where
  "node_call E leader lead order req rn =
     (case HandleNode E leader lead order req rn of (rn, a, ci) \<Rightarrow> (rn, Ok (a, ci)))"

section \<open>Properties\<close>

text \<open>Without the password the client does nothing to the cluster, whatever its arguments: no request
  is sent.\<close>

theorem client_needs_password:
  assumes "pwd \<noteq> Ok PASSWD"
  shows "fst (handleRequst pwd args call s) = s"
proof -
  have "or_zero [] pwd \<noteq> PASSWD" using assms by (cases pwd) (auto simp: PASSWD_def lit_def)
  then have "after_check (identityCheck pwd) f s = (s, Err (ErrText ''Wrong password,please try again!''))" for f :: "('a, line list) act"
    by (auto simp: identityCheck_def after_check_def)
  then show ?thesis by (cases args) (simp_all add: handleRequst_def)
qed

text \<open>With it, \<open>add\<close> with a number and an address makes the leader propose exactly the change that adds
  this node under this address, and a node that is not the leader does nothing.\<close>

theorem client_add_proposes:
  assumes "n < 2 ^ 63"
  shows "fst (handleRequst (Ok PASSWD) [lit ''add'', dec n, addr] (node_call E leader lead order) rn) =
    (if leader then emit [ProposeConfChange \<lparr> cc_Type = 0, cc_NodeID = of_nat n, cc_Context = v_js_string E addr \<rparr>] rn else rn)"
proof -
  have "ParseInt 10 64 (dec n) = (int n, False)" using assms by (intro ParseInt_dec) simp_all
  then show ?thesis
    by (simp add: handleRequst_def after_check_def identityCheck_def handle_add_def call_or_fatal_def node_call_def
        HandleNode_def NodeManagement_def show_result_def)
qed

text \<open>The usage text offers \<open>ADD\<close>, and the program's comment \<open>GET\<close> and \<open>DELETE\<close>: they are refused.\<close>

lemma capitals_refused:
  "handleRequst pwd (lit ''ADD'' # args) call s = (s, Err (ErrText ''[default]:Wrong parameter!''))"
  "handleRequst pwd (lit ''GET'' # args) call s = (s, Err (ErrText ''[default]:Wrong parameter!''))"
  "handleRequst pwd (lit ''DELETE'' # args) call s = (s, Err (ErrText ''[default]:Wrong parameter!''))"
proof -
  have "lit x \<notin> {lit ''-a'', lit ''-A'', lit ''add''} \<union> {lit ''-d'', lit ''-D'', lit ''delete''} \<union>
      {lit ''-g'', lit ''-G'', lit ''get''} \<union> {lit ''-h'', lit ''-H'', lit ''--help''}"
    if "x = ''ADD'' \<or> x = ''GET'' \<or> x = ''DELETE''" for x
    using that by (elim disjE; simp add: lit_def)
  then show "handleRequst pwd (lit ''ADD'' # args) call s = (s, Err (ErrText ''[default]:Wrong parameter!''))"
    "handleRequst pwd (lit ''GET'' # args) call s = (s, Err (ErrText ''[default]:Wrong parameter!''))"
    "handleRequst pwd (lit ''DELETE'' # args) call s = (s, Err (ErrText ''[default]:Wrong parameter!''))"
    unfolding handleRequst_def list.case Un_iff de_Morgan_disj by simp_all
qed

theorem client_needs_password_witness:
  "fst (handleRequst (Ok (lit ''kto'')) [lit ''get''] (\<lambda>_ n. (Suc n, Ok (None, None))) 0) = 0"
  by (rule client_needs_password) (simp add: PASSWD_def lit_def)

theorem client_add_proposes_witness:
  fixes E :: "('d, 't, 'c, 's) env"
  shows "fst (handleRequst (Ok PASSWD) [lit ''add'', dec 7, lit ''10.0.0.7:9''] (node_call E True 1 []) rn) =
    emit [ProposeConfChange \<lparr> cc_Type = 0, cc_NodeID = 7, cc_Context = v_js_string E (lit ''10.0.0.7:9'') \<rparr>] rn"
  using client_add_proposes [of 7 "lit ''10.0.0.7:9''" E True 1 "[]" rn] by simp

end
