(* ===== verification/RaftStop.thy ===== *)
theory RaftStop
  imports RaftStart Logger
begin

text \<open>
  Around the life of a consensus node: its configuration (\<open>raftconsensus/runnode.go\<close>), the listener that
  can be stopped (\<open>listener.go\<close>), and how the event loop ends (\<open>writeError\<close>, \<open>stop\<close>, \<open>stopHTTP\<close>, \<open>serveRaft\<close>
  of \<open>node.go\<close>) as a step relation of the goroutines that meet on the channels.
\<close>

section \<open>Configuration\<close>

text \<open>What viper has read: a value of each kind under every key, zero where the key is missing.\<close>

record viper =
  vp_GetInt :: "string \<Rightarrow> i64"
  vp_GetString :: "string \<Rightarrow> gostring"
  vp_GetStringSlice :: "string \<Rightarrow> gostring list"
  vp_GetBool :: "string \<Rightarrow> bool"

record fullCfg = cfgInfo +
  cf_peer :: gostring
  cf_waldir :: gostring
  cf_snapdir :: gostring
  cf_raftport :: i64
  cf_logFile :: gostring
  cf_logSaveDays :: i64
  cf_logLevel :: i64
  cf_logSaveMode :: i64
  cf_logFileSize :: i64

text \<open>A file that cannot be read ends the program.\<close>

definition readconfig :: "viper outcome \<Rightarrow> fullCfg outcome" where
  "readconfig r =
     obind r (\<lambda>vp. Ok
       \<lparr> cf_id = vp_GetInt vp ''id'', cf_addr = vp_GetString vp ''addr'', cf_peers = vp_GetStringSlice vp ''peers'',
         cf_join = vp_GetBool vp ''join'', cf_Ds = vp_GetString vp ''Ds'', cf_Cm = vp_GetString vp ''Cm'',
         cf_QTJ = vp_GetString vp ''qtj'', cf_snapCount = vp_GetInt vp ''snapCount'', cf_peer = vp_GetString vp ''peer'',
         cf_waldir = vp_GetString vp ''waldir'', cf_snapdir = vp_GetString vp ''snapdir'',
         cf_raftport = vp_GetInt vp ''raftport'', cf_logFile = vp_GetString vp ''logFile'',
         cf_logSaveDays = vp_GetInt vp ''logSaveDays'', cf_logLevel = vp_GetInt vp ''logLevel'',
         cf_logSaveMode = vp_GetInt vp ''logSaveMode'', cf_logFileSize = vp_GetInt vp ''logFileSize'' \<rparr>)"

text \<open>\<open>RunNode\<close>: the node of the configuration, and the log set up for it.\<close>

definition RunNode ::
  "viper outcome \<Rightarrow> 'c \<Rightarrow> 's \<Rightarrow> Txpool \<Rightarrow> 'd Blockchain \<Rightarrow> (gostring \<Rightarrow> gostring \<Rightarrow> bytes) \<Rightarrow> system \<Rightarrow> logger \<Rightarrow>
    (('d, 'c, 's) raftNode \<times> logger) outcome" where
  "RunNode r nilc st p bc line S l =
     obind (readconfig r) (\<lambda>cf.
       Ok (newRaftNode nilc st (cfgInfo.truncate cf) p bc,
           start_logging (cf_logFile cf) (cf_logLevel cf) (cf_logSaveMode cf) (cf_logFileSize cf) (cf_logSaveDays cf) line S l))"

section \<open>The listener\<close>

text \<open>
  \<open>Accept\<close> takes whichever is there: the closed stop channel, or what \<open>AcceptTCP\<close> has delivered, if
  anything yet.
\<close>

inductive Accept :: "bool \<Rightarrow> 'conn outcome option \<Rightarrow> 'conn outcome \<Rightarrow> bool" where
  accept_stopped: "Accept True r (Err (ErrText ''server stopped''))"
| accept_result: "Accept b (Some r) r"

inductive_simps Accept_iff: "Accept b r x"

section \<open>Ending\<close>

text \<open>
  The event loop: running; waiting in \<open>stopHTTP\<close> for the server, with or without an error to report;
  sending the error; returned. The HTTP server serves until its listener refuses, then closes
  \<open>httpdonec\<close>. \<open>reader\<close> says whether somebody receives from \<open>errorC\<close>, \<open>stopper\<close> whether somebody sends
  on \<open>stopc\<close>: both channels are unbuffered.
\<close>

datatype loop_at = Running | WaitHTTP bool | SendError | Ended

record shut =
  sh_loop :: loop_at
  sh_httpstop :: bool
  sh_httpdone :: bool

inductive shut_step :: "bool \<Rightarrow> bool \<Rightarrow> shut \<Rightarrow> shut \<Rightarrow> bool" for reader stopper where
  shut_transport_error: "sh_loop s = Running \<Longrightarrow>
    shut_step reader stopper s (s\<lparr> sh_loop := WaitHTTP True, sh_httpstop := True \<rparr>)"
| shut_stop: "sh_loop s = Running \<Longrightarrow> stopper \<Longrightarrow>
    shut_step reader stopper s (s\<lparr> sh_loop := WaitHTTP False, sh_httpstop := True \<rparr>)"
| shut_serve: "Accept (sh_httpstop s) (r :: unit outcome option) (Err e) \<Longrightarrow> \<not> sh_httpdone s \<Longrightarrow>
    shut_step reader stopper s (s\<lparr> sh_httpdone := True \<rparr>)"
| shut_http_done: "sh_loop s = WaitHTTP err \<Longrightarrow> sh_httpdone s \<Longrightarrow>
    shut_step reader stopper s (s\<lparr> sh_loop := if err then SendError else Ended \<rparr>)"
| shut_report: "sh_loop s = SendError \<Longrightarrow> reader \<Longrightarrow>
    shut_step reader stopper s (s\<lparr> sh_loop := Ended \<rparr>)"

inductive_cases shut_step_elim: "shut_step reader stopper s s'"

definition running :: shut where
  "running = \<lparr> sh_loop = Running, sh_httpstop = False, sh_httpdone = False \<rparr>"

text \<open>
  Nothing in the program sends on \<open>stopc\<close>, and \<open>RunNode\<close> drops the channel \<open>newRaftNode\<close> returns: once the
  transport has failed the loop hangs in the report, and the node is never stopped.
\<close>

lemma loop_never_ends: "(shut_step False False)\<^sup>*\<^sup>* running s \<Longrightarrow> sh_loop s \<notin> {Ended, WaitHTTP False}"
proof (induction rule: rtranclp_induct)
  case (step s s')
  from step.hyps(2) step.IH show ?case by (cases rule: shut_step.cases) auto
qed (simp add: running_def)

text \<open>With a reader it ends.\<close>

lemma loop_ends_with_reader: "\<exists>s. (shut_step True False)\<^sup>*\<^sup>* running s \<and> sh_loop s = Ended"
proof -
  let ?s1 = "running\<lparr> sh_loop := WaitHTTP True, sh_httpstop := True \<rparr>" and ?s2 = "running\<lparr> sh_loop := WaitHTTP True, sh_httpstop := True, sh_httpdone := True \<rparr>"
  have "shut_step True False running ?s1" by (rule shut_transport_error) (simp add: running_def)
  moreover have "shut_step True False ?s1 ?s2"
    using shut_serve [of ?s1 None _ True False] by (simp add: Accept_iff running_def)
  moreover have "shut_step True False ?s2 (?s2\<lparr> sh_loop := SendError \<rparr>)"
    using shut_http_done [of ?s2 True True False] by simp
  moreover have "shut_step True False (?s2\<lparr> sh_loop := SendError \<rparr>) (?s2\<lparr> sh_loop := SendError, sh_loop := Ended \<rparr>)"
    by (rule shut_report) simp_all
  ultimately have "(shut_step True False)\<^sup>*\<^sup>* running (?s2\<lparr> sh_loop := SendError, sh_loop := Ended \<rparr>)"
    by (meson rtranclp.rtrancl_into_rtrancl rtranclp.rtrancl_refl)
  moreover have "sh_loop (?s2\<lparr> sh_loop := SendError, sh_loop := Ended \<rparr>) = Ended" by simp
  ultimately show ?thesis by blast
qed

end
