(* ===== verification/ScriptCodecs.thy ===== *)
theory ScriptCodecs
  imports Miscellaneous
begin

text \<open>
  The private copies of the integer and slice codecs in \<open>contract/parser/operate.go\<close>, and that they are the
  functions of \<open>until/miscellaneous\<close>: what the one writes the other reads.
\<close>

definition dup :: "bytes \<Rightarrow> bytes" where
  "dup a = a"

definition e32func :: "u32 \<Rightarrow> bytes" where
  "e32func a = le_bytes 4 a"

definition d32func :: "bytes \<Rightarrow> u32 outcome" where
  "d32func a = (if length a \<noteq> 4 then Err (ErrText ''D32func: Illegal slice length'') else Ok (le_word a))"

definition e64func :: "u64 \<Rightarrow> bytes" where
  "e64func a = le_bytes 8 a"

definition d64func :: "bytes \<Rightarrow> u64 outcome" where
  "d64func a = (if length a \<noteq> 8 then Err (ErrText ''D64func: Illegal slice length'') else Ok (le_word a))"

definition eslice :: "bytes \<Rightarrow> bytes" where
  "eslice a = e32func (of_nat (length a)) @ a"

definition dslice :: "bytes \<Rightarrow> (bytes \<times> bytes) outcome" where
  "dslice data =
     (if length data < 4 then Err (ErrText ''DecodeSlice: Illegal slice length'')
      else let n = or_zero 0 (d32func (take 4 data)); data = drop 4 data in
        if (of_nat (length data) :: u32) < n then Err (ErrText ''DecodeSlice: Illegal slice length'')
        else obind (slice_to data (unat n)) (\<lambda>a. obind (slice_from data (unat n)) (\<lambda>rest. Ok (dup a, rest))))"

lemma private_codecs:
  "e32func = E32func" "e64func = E64func" "d32func = D32func" "d64func = D64func" "eslice = Eslice"
  by (simp_all add: fun_eq_iff e32func_def e64func_def d32func_def d64func_def eslice_def
      E32func_def E64func_def D32func_def D64func_def Eslice_def)

text \<open>The comparison is of 32-bit numbers, the slicing of full ones: neither panics.\<close>

lemma dslice_Dslice: "dslice data = Dslice data"
proof -
  have "unat n \<le> k" if "\<not> (of_nat k :: u32) < n" for n k
  proof -
    have "unat (of_nat k :: u32) \<le> k" by (simp add: unat_of_nat take_bit_nat_less_eq_self)
    with that show ?thesis by (simp add: word_less_nat_alt not_less)
  qed
  then show ?thesis
    by (auto simp: dslice_def Dslice_def private_codecs slice_to_def slice_from_def dup_def Dup_def Let_def)
qed

end
