(* ===== verification/Spec2Isabelle.thy ===== *)
theory Spec2Isabelle
  imports StoreSpec CodecSpec ExecSpec LedgerSpec ParserSpec ChainSpec MerkleProof TxPoolSpec SnapFile HandlersSpec RpcSpec
    KvServerSpec OrdValues Recover Admitted GossipPool LoggerSpec RateLimit NodeClient RaftStop ScriptCodecs
begin

text \<open>
  A verification library for the blockchain node of this repository.

  The program. A node keeps a chain of blocks in a key-value store and a second database for token
  contracts. Clients hand in transactions over HTTP (\<open>src/server/\<close>) or gRPC (\<open>src/rpcclient/\<close>), other nodes
  over a gossip network (\<open>src/p2p/node/\<close>); all of them go through the pool's \<open>Add\<close> (\<open>src/txpool/\<close>). The
  leader of the raft cluster packs a block: \<open>Pendings\<close> chooses transactions, \<open>NewBlock\<close> makes the block,
  and it is proposed. Every node commits what raft has agreed on (\<open>src/raftconsensus/\<close>): the pool is
  filtered, the block is checked, and \<open>AddBlock\<close> (\<open>src/blockchain/\<close>) pays, records and stores. The script of
  a transaction is parsed (\<open>src/contract/parser/\<close>) and executed (\<open>src/contract/exec/\<close>) against the contract
  database. Both databases are \<open>src/until/store/bg/\<close> over the embedded engine badger.

  The theories, from the bottom up. Each pairs definitions, which translate the functions of the files
  named, with the lemmas about them; a theory whose name ends in Spec holds the properties.

  \<^item> Prelude: bytes, words, Go strings as byte lists; the outcome of a call (a value, a returned error, a
    panic); operations on a state as functions to a new state and an outcome; slicing that panics.
    Strconv: number and hex texts. Miscellaneous: the integer and slice codecs
    (\<open>until/miscellaneous/\<close>). Base58: the base-58 codec, addresses and wallets.
  \<^item> Badger: the engine as a record of operations, the locale of its laws and the stronger one of an engine
    that never runs out of room, both interpreted on a finite-map engine. StoreKeys, BgStore: the key
    layout and the operations of \<open>bg.go\<close>. BgMaps, BgLists: what they do to the content; lists refine
    double-ended queues. StoreApi: the interfaces of \<open>store/types.go\<close> as records and the locale \<open>store_tx\<close>
    of what their clients rely on, discharged for \<open>bg\<close> over every engine with room. The ledger, the
    contracts, the chain and the node are proved against that locale. KvServer, KvServerSpec: the store's
    network server (\<open>until/store/server/\<close>), its requests over \<open>bufio\<close> and \<open>textproto\<close>.
  \<^item> Merkle, MerkleProof: the tree of \<open>until/merkle/\<close>, equal to pairing level by level, binding up to a
    collision among the strings the constructions hash, and the proof paths with their shared arrays and what
    verification answers for outsiders. CodecSpec: properties of the codecs
    and of the tree. Slices, SlicesSpec: the list library (\<open>until/slice/\<close>, \<open>curry/\<close>, \<open>typeclass/\<close>) over any
    type with lawful comparisons.
  \<^item> Script, Lexer, Parser, ParserSpec: scripts and their binary form, scanning and parsing; parsing is
    total, printed statements parse back. ScriptCodecs: the parser's private codecs. Exec, ExecSpec: the statements on balances, owners and frozen
    accounts; supply as a natural number, ownership, exact transfers.
  \<^item> Transactions: transactions, orders, blocks, hashing and signing. Ledger, LedgerSpec: balances, nonces,
    locks, rewards. Chain, ChainEffects, ChainKeys, ChainSpec: \<open>AddBlock\<close> as one effect on the content,
    what it stores, keeps and overwrites, the balances as natural numbers, \<open>NewBlock\<close>, the checks, the
    look-ups. Admitted: what a transaction that the pool has admitted can still do to the chain.
  \<^item> GoHeap: \<open>container/heap\<close> for any order. TxPool, TxList, TxPoolSpec: admission, the choice of a
    block's transactions against the sender's funds, filtering.
  \<^item> RaftNode, RaftSnap, RaftStart: committing, packing, snapshots and recovery, start and replay, the
    cluster; SnapFile: the snapshot files. RaftSpec, RaftCluster: committing is monotone and appends exactly
    checked blocks of the next heights; a node's run is an inductive step relation labelled with events
    (a Ready of raft, a packing round, an arriving transaction, a management request), and through every run
    whose blocks have the expected shape the node's height is the chain's; what is taken from a snapshot is
    exactly what is missing. RaftStop: configuration, the
    listener, and how the event loop ends. NodeClient: the command-line client of the cluster management,
    down to the node. Recover: the recovery tool.
  \<^item> P2p, P2pSpec: the gossip layer (\<open>p2p/\<close>) and networks of such nodes over a transport that loses and
    reorders packets, as a step relation with its invariant. GossipPool: the pools on top of it.
  \<^item> Handlers, HandlersSpec and Rpc, RpcSpec: the HTTP and gRPC interfaces from the decoded request to the
    answer, the latter with the statements it writes into scripts. RateLimit: the limiter in front of the
    gRPC interface. Logger, LoggerSpec: the log file and its rotation over a small file system.

  Numbers. Machine integers are words and wrap around as Go's do; lengths and loop counters of slices
  are natural numbers or integers where the code cannot overflow them. Maps that are only looked up are
  functions; where the code ranges over a map and the order shows, the order is a parameter.

  Loops. Recursion is structural or has a proved measure wherever the loop ends. A loop that may not end
  is a partial function into option (\<open>block_section\<close>, \<open>Lrange\<close>, wallet creation, recovery from snapshots,
  \<open>Qsort\<close>), and that it ends is a theorem where it does: \<open>GetBlockSection\<close> below the largest height,
  \<open>Pendings\<close> always, \<open>Qsort\<close> over lawful comparisons. No fuel is used anywhere.

  Parameters and the laws assumed of them: badger (documented transaction semantics, and room where a
  write must succeed), the JSON, gob and protocol-buffer codecs (round trips where named), SHA-256, SHA3-256
  and Ed25519 (no laws except where a theorem names one), the raft library and its storage, memberlist (the
  nodes, and no law of the transport), the cache and the token bucket of the rate limiter (the cache finds
  what was last set, \<open>cache_laws\<close>, discharged for an LRU cache), floating point, the random source, the clock.

  What the properties do not say. \<open>AddBlock_funds\<close> is about blocks in which no account pays more than it
  has and gets; the code does not ensure that, since \<open>verify\<close> compares amount and fee with the balance one by
  one and \<open>AddBlock\<close> subtracts without a test (\<open>accepted_overdraft\<close>); \<open>Pendings_affordable\<close> leaves out the fee
  of a sender's last chosen transaction for the same reason. A transfer from an address to itself raises the balance
  (\<open>account_self_transfer_mints\<close>), and so it does for tokens (\<open>contract_self_transfer_mints\<close>), which
  \<open>contract_supply_conserved\<close> therefore leaves out. A transaction is stored under the hash its sender wrote,
  of any length: it can overwrite the height, a block or an account (\<open>hash_overwrites_height\<close>, the
  second case of \<open>AddBlock_keeps_blocks\<close>), so what rests on the layout of the keys has the condition
  \<open>block_shape\<close> or \<open>shaped_event\<close>. \<open>SendToken_transfers\<close> is about names and addresses without quotes, since the
  interface does not check them (\<open>symbol_rewrites_transfer\<close>). The hash of a transaction binds five fields
  and neither fee nor script (\<open>signature_ignores_fee_and_script\<close>); admission never recomputes it
  (\<open>verify_replayed\<close>). A block's root is not checked (\<open>VerifyBlcok_ignores_root\<close>), nor are the balances it
  claims (\<open>Checkresults_ignores_balances\<close>). Theorems of this kind state the code as it is.

  Not modelled: mutexes, and goroutines but where they meet on a channel (an operation is one step, and
  runs are sequences of steps); listening, dialling, routing and the opening of files and databases;
  generated code; the text of log lines; the debug output of \<open>server/\<close> and \<open>rpcclient/\<close>; the programs that
  only start the services, the demos and the tests.
\<close>

end
